(* ===== verification/Prelude.thy ===== *)
theory Prelude
  imports Main "HOL-Library.Word"
begin

text \<open>
  Prelude of the development.  It fixes the machine types the C++ code uses, the reading of
  bytes as \<open>char\<close>, the arithmetic on \<open>word\<close>s that several components share, and the
  collections of rewrite rules and elimination facts that the component theories fill.

  A C \<open>char\<close> is a byte and is modelled by HOL's \<open>char\<close> (eight bits); \<open>ord\<close> reads it as an
  \<open>unsigned char\<close>.  All the comparisons the code makes on plain \<open>char\<close> give the same answer
  whether \<open>char\<close> is signed or not, because each of them has both bounds below 128.
\<close>

unbundle bit_operations_syntax

type_synonym byte = char
type_synonym u2 = "2 word"
type_synonym u5 = "5 word"
type_synonym u8 = "8 word"
type_synonym u16 = "16 word"
type_synonym u32 = "32 word"
type_synonym u64 = "64 word"

named_theorems table_defs \<open>definitions of the constant tables, unfolded to compare them entrywise\<close>
named_theorems flag_simps \<open>reading one flag after setting another\<close>

section \<open>Bytes\<close>

definition ord :: "char \<Rightarrow> nat" where
  "ord c = of_char c"

abbreviation NUL :: char where
  "NUL \<equiv> CHR 0x00"

abbreviation HT :: char where
  "HT \<equiv> CHR 0x09"

abbreviation LF :: char where
  "LF \<equiv> CHR 0x0A"

abbreviation FF :: char where
  "FF \<equiv> CHR 0x0C"

abbreviation CR :: char where
  "CR \<equiv> CHR 0x0D"

abbreviation SP :: char where
  "SP \<equiv> CHR '' ''"

lemma ord_less [simp]: "ord c < 256"
  by (simp add: ord_def)

lemma ord_eq_iff: "ord c = ord d \<longleftrightarrow> c = d"
  by (simp add: ord_def)

lemma char_of_ord [simp]: "char_of (ord c) = c"
  by (simp add: ord_def)

lemma ord_char_of [simp]: "ord (char_of (n :: nat)) = n mod 256"
  by (simp add: ord_def)

lemma eq_by_ord: "c = char_of (n :: nat) \<longleftrightarrow> ord c = n mod 256"
  by (metis char_of_ord ord_char_of)

text \<open>
  A table of 256 entries that is the image of a function on the indices is that function:
  the entrywise comparison of two lists replaces 256 lookups.
\<close>

lemma table_lookup:
  assumes "tab = map f [0..<256]"
  shows "tab ! ord c = f (ord c)"
  using assms by simp

section \<open>C strings\<close>

text \<open>
  Reading \<open>s[i]\<close> of a string literal: the characters, then the terminating NUL, and no value
  (undefined behaviour) beyond it.
\<close>

definition cstr_at :: "string \<Rightarrow> nat \<Rightarrow> char option" where
  "cstr_at s i = (if i < length s then Some (s ! i) else if i = length s then Some NUL else None)"

lemma cstr_at_None [simp]: "cstr_at s i = None \<longleftrightarrow> length s < i"
  by (auto simp: cstr_at_def)

lemma cstr_at_inside [simp]: "i < length s \<Longrightarrow> cstr_at s i = Some (s ! i)"
  by (simp add: cstr_at_def)

lemma cstr_at_end [simp]: "cstr_at s (length s) = Some NUL"
  by (simp add: cstr_at_def)

section \<open>Words\<close>

lemma unat_of_nat_small:
  "n < 2 ^ LENGTH('w::len) \<Longrightarrow> unat (of_nat n :: 'w word) = n"
  by (simp add: unsigned_of_nat take_bit_nat_eq_self)

lemma unat_minus_min:
  fixes a b :: "'w::len word"
  shows "unat (a - min a b) = unat a - unat (min a b)"
  by (rule unat_sub) (auto simp: min_def)

lemma unat_min:
  fixes a b :: "'w::len word"
  shows "unat (min a b) = min (unat a) (unat b)"
  by (simp add: min_def word_le_nat_alt)

section \<open>Slices\<close>

text \<open>The bytes of \<open>xs\<close> from position \<open>i\<close> up to, not including, position \<open>j\<close>.\<close>

definition seg :: "'a list \<Rightarrow> nat \<Rightarrow> nat \<Rightarrow> 'a list" where
  "seg xs i j = take (j - i) (drop i xs)"

lemma length_seg [simp]: "length (seg xs i j) = min (j - i) (length xs - i)"
  by (simp add: seg_def min.commute)

lemma seg_empty [simp]: "seg xs i i = []"
  by (simp add: seg_def)

lemma seg_all [simp]: "seg xs 0 (length xs) = xs"
  by (simp add: seg_def)

lemma seg_append:
  assumes "i \<le> j" and "j \<le> k"
  shows "seg xs i j @ seg xs j k = seg xs i k"
proof -
  have "seg xs i k = take ((j - i) + (k - j)) (drop i xs)"
    using assms by (simp add: seg_def)
  also have "\<dots> = take (j - i) (drop i xs) @ take (k - j) (drop (j - i) (drop i xs))"
    by (rule take_add)
  also have "drop (j - i) (drop i xs) = drop j xs"
    using assms by simp
  finally show ?thesis by (simp add: seg_def)
qed

lemma seg_nth: "k < j - i \<Longrightarrow> i + k < length xs \<Longrightarrow> seg xs i j ! k = xs ! (i + k)"
  by (simp add: seg_def)

lemma seg_middle: "length pre = i \<Longrightarrow> i + length m = j \<Longrightarrow> seg (pre @ m @ post) i j = m"
  by (auto simp: seg_def)

end
