(* ===== verification/HttpTypes.thy ===== *)
theory HttpTypes
  imports Prelude
begin

text \<open>
  The data of the HTTP parser: \<open>src/src/httpparser.h\<close> and the tables, enumerations and
  character classes at the head of \<open>src/src/httpparser.cpp\<close>.  The build does not define
  \<open>HTTP_PARSER_STRICT\<close>, so the header's default of 1 holds and every macro is read in its
  strict variant.
\<close>

section \<open>Enumerations\<close>

datatype http_parser_type = HTTP_REQUEST | HTTP_RESPONSE | HTTP_BOTH

datatype http_method =
    HTTP_DELETE | HTTP_GET | HTTP_HEAD | HTTP_POST | HTTP_PUT
  | HTTP_CONNECT | HTTP_OPTIONS | HTTP_TRACE
  | HTTP_COPY | HTTP_LOCK | HTTP_MKCOL | HTTP_MOVE | HTTP_PROPFIND | HTTP_PROPPATCH
  | HTTP_SEARCH | HTTP_UNLOCK | HTTP_BIND | HTTP_REBIND | HTTP_UNBIND | HTTP_ACL
  | HTTP_REPORT | HTTP_MKACTIVITY | HTTP_CHECKOUT | HTTP_MERGE
  | HTTP_MSEARCH | HTTP_NOTIFY | HTTP_SUBSCRIBE | HTTP_UNSUBSCRIBE
  | HTTP_PATCH | HTTP_PURGE | HTTP_MKCALENDAR | HTTP_LINK | HTTP_UNLINK | HTTP_SOURCE

text \<open>\<open>method_strings\<close>, indexed by the method.\<close>

primrec method_strings :: "http_method \<Rightarrow> string" where
  "method_strings HTTP_DELETE = ''DELETE''"
| "method_strings HTTP_GET = ''GET''"
| "method_strings HTTP_HEAD = ''HEAD''"
| "method_strings HTTP_POST = ''POST''"
| "method_strings HTTP_PUT = ''PUT''"
| "method_strings HTTP_CONNECT = ''CONNECT''"
| "method_strings HTTP_OPTIONS = ''OPTIONS''"
| "method_strings HTTP_TRACE = ''TRACE''"
| "method_strings HTTP_COPY = ''COPY''"
| "method_strings HTTP_LOCK = ''LOCK''"
| "method_strings HTTP_MKCOL = ''MKCOL''"
| "method_strings HTTP_MOVE = ''MOVE''"
| "method_strings HTTP_PROPFIND = ''PROPFIND''"
| "method_strings HTTP_PROPPATCH = ''PROPPATCH''"
| "method_strings HTTP_SEARCH = ''SEARCH''"
| "method_strings HTTP_UNLOCK = ''UNLOCK''"
| "method_strings HTTP_BIND = ''BIND''"
| "method_strings HTTP_REBIND = ''REBIND''"
| "method_strings HTTP_UNBIND = ''UNBIND''"
| "method_strings HTTP_ACL = ''ACL''"
| "method_strings HTTP_REPORT = ''REPORT''"
| "method_strings HTTP_MKACTIVITY = ''MKACTIVITY''"
| "method_strings HTTP_CHECKOUT = ''CHECKOUT''"
| "method_strings HTTP_MERGE = ''MERGE''"
| "method_strings HTTP_MSEARCH = ''M-SEARCH''"
| "method_strings HTTP_NOTIFY = ''NOTIFY''"
| "method_strings HTTP_SUBSCRIBE = ''SUBSCRIBE''"
| "method_strings HTTP_UNSUBSCRIBE = ''UNSUBSCRIBE''"
| "method_strings HTTP_PATCH = ''PATCH''"
| "method_strings HTTP_PURGE = ''PURGE''"
| "method_strings HTTP_MKCALENDAR = ''MKCALENDAR''"
| "method_strings HTTP_LINK = ''LINK''"
| "method_strings HTTP_UNLINK = ''UNLINK''"
| "method_strings HTTP_SOURCE = ''SOURCE''"

datatype http_errno =
    HPE_OK
  | HPE_CB_message_begin | HPE_CB_url | HPE_CB_header_field | HPE_CB_header_value
  | HPE_CB_headers_complete | HPE_CB_body | HPE_CB_message_complete | HPE_CB_status
  | HPE_CB_chunk_header | HPE_CB_chunk_complete
  | HPE_INVALID_EOF_STATE | HPE_HEADER_OVERFLOW | HPE_CLOSED_CONNECTION
  | HPE_INVALID_VERSION | HPE_INVALID_STATUS | HPE_INVALID_METHOD | HPE_INVALID_URL
  | HPE_INVALID_HOST | HPE_INVALID_PORT | HPE_INVALID_PATH | HPE_INVALID_QUERY_STRING
  | HPE_INVALID_FRAGMENT | HPE_LF_EXPECTED | HPE_INVALID_HEADER_TOKEN
  | HPE_INVALID_CONTENT_LENGTH | HPE_UNEXPECTED_CONTENT_LENGTH | HPE_INVALID_CHUNK_SIZE
  | HPE_INVALID_CONSTANT | HPE_INVALID_INTERNAL_STATE | HPE_STRICT | HPE_PAUSED
  | HPE_UNKNOWN | HPE_INVALID_TRANSFER_ENCODING

datatype state =
    s_dead
  | s_start_req_or_res | s_res_or_resp_H | s_start_res | s_res_H | s_res_HT | s_res_HTT
  | s_res_HTTP | s_res_http_major | s_res_http_dot | s_res_http_minor | s_res_http_end
  | s_res_first_status_code | s_res_status_code | s_res_status_start | s_res_status
  | s_res_line_almost_done
  | s_start_req
  | s_req_method | s_req_spaces_before_url | s_req_schema | s_req_schema_slash
  | s_req_schema_slash_slash | s_req_server_start | s_req_server | s_req_server_with_at
  | s_req_path | s_req_query_string_start | s_req_query_string | s_req_fragment_start
  | s_req_fragment | s_req_http_start | s_req_http_H | s_req_http_HT | s_req_http_HTT
  | s_req_http_HTTP | s_req_http_I | s_req_http_IC | s_req_http_major | s_req_http_dot
  | s_req_http_minor | s_req_http_end | s_req_line_almost_done
  | s_header_field_start | s_header_field | s_header_value_discard_ws
  | s_header_value_discard_ws_almost_done | s_header_value_discard_lws
  | s_header_value_start | s_header_value | s_header_value_lws
  | s_header_almost_done
  | s_chunk_size_start | s_chunk_size | s_chunk_parameters | s_chunk_size_almost_done
  | s_headers_almost_done | s_headers_done
  | s_chunk_data | s_chunk_data_almost_done | s_chunk_data_done
  | s_body_identity | s_body_identity_eof
  | s_message_done

datatype header_states =
    h_general | h_C | h_CO | h_CON
  | h_matching_connection | h_matching_proxy_connection | h_matching_content_length
  | h_matching_transfer_encoding | h_matching_upgrade
  | h_connection | h_content_length | h_content_length_num | h_content_length_ws
  | h_transfer_encoding | h_upgrade
  | h_matching_transfer_encoding_token_start | h_matching_transfer_encoding_chunked
  | h_matching_transfer_encoding_token
  | h_matching_connection_token_start | h_matching_connection_keep_alive
  | h_matching_connection_close | h_matching_connection_upgrade | h_matching_connection_token
  | h_transfer_encoding_chunked | h_connection_keep_alive | h_connection_close
  | h_connection_upgrade

datatype http_host_state =
    s_http_host_dead | s_http_userinfo_start | s_http_userinfo | s_http_host_start
  | s_http_host_v6_start | s_http_host | s_http_host_v6 | s_http_host_v6_end
  | s_http_host_v6_zone_start | s_http_host_v6_zone | s_http_host_port_start
  | s_http_host_port

datatype http_parser_url_fields =
  UF_SCHEMA | UF_HOST | UF_PORT | UF_PATH | UF_QUERY | UF_FRAGMENT | UF_USERINFO | UF_MAX

text \<open>
  The values of the enumerators of \<open>enum state\<close>: the declaration starts at 1 and
  \<open>PARSING_HEADER\<close> compares them as numbers.
\<close>

primrec state_num :: "state \<Rightarrow> nat" where
  "state_num s_dead = 1"
| "state_num s_start_req_or_res = 2"
| "state_num s_res_or_resp_H = 3"
| "state_num s_start_res = 4"
| "state_num s_res_H = 5"
| "state_num s_res_HT = 6"
| "state_num s_res_HTT = 7"
| "state_num s_res_HTTP = 8"
| "state_num s_res_http_major = 9"
| "state_num s_res_http_dot = 10"
| "state_num s_res_http_minor = 11"
| "state_num s_res_http_end = 12"
| "state_num s_res_first_status_code = 13"
| "state_num s_res_status_code = 14"
| "state_num s_res_status_start = 15"
| "state_num s_res_status = 16"
| "state_num s_res_line_almost_done = 17"
| "state_num s_start_req = 18"
| "state_num s_req_method = 19"
| "state_num s_req_spaces_before_url = 20"
| "state_num s_req_schema = 21"
| "state_num s_req_schema_slash = 22"
| "state_num s_req_schema_slash_slash = 23"
| "state_num s_req_server_start = 24"
| "state_num s_req_server = 25"
| "state_num s_req_server_with_at = 26"
| "state_num s_req_path = 27"
| "state_num s_req_query_string_start = 28"
| "state_num s_req_query_string = 29"
| "state_num s_req_fragment_start = 30"
| "state_num s_req_fragment = 31"
| "state_num s_req_http_start = 32"
| "state_num s_req_http_H = 33"
| "state_num s_req_http_HT = 34"
| "state_num s_req_http_HTT = 35"
| "state_num s_req_http_HTTP = 36"
| "state_num s_req_http_I = 37"
| "state_num s_req_http_IC = 38"
| "state_num s_req_http_major = 39"
| "state_num s_req_http_dot = 40"
| "state_num s_req_http_minor = 41"
| "state_num s_req_http_end = 42"
| "state_num s_req_line_almost_done = 43"
| "state_num s_header_field_start = 44"
| "state_num s_header_field = 45"
| "state_num s_header_value_discard_ws = 46"
| "state_num s_header_value_discard_ws_almost_done = 47"
| "state_num s_header_value_discard_lws = 48"
| "state_num s_header_value_start = 49"
| "state_num s_header_value = 50"
| "state_num s_header_value_lws = 51"
| "state_num s_header_almost_done = 52"
| "state_num s_chunk_size_start = 53"
| "state_num s_chunk_size = 54"
| "state_num s_chunk_parameters = 55"
| "state_num s_chunk_size_almost_done = 56"
| "state_num s_headers_almost_done = 57"
| "state_num s_headers_done = 58"
| "state_num s_chunk_data = 59"
| "state_num s_chunk_data_almost_done = 60"
| "state_num s_chunk_data_done = 61"
| "state_num s_body_identity = 62"
| "state_num s_body_identity_eof = 63"
| "state_num s_message_done = 64"

definition states_in_order :: "state list" where
  "states_in_order =
    [s_dead, s_start_req_or_res, s_res_or_resp_H, s_start_res, s_res_H, s_res_HT, s_res_HTT,
     s_res_HTTP, s_res_http_major, s_res_http_dot, s_res_http_minor, s_res_http_end,
     s_res_first_status_code, s_res_status_code, s_res_status_start, s_res_status,
     s_res_line_almost_done, s_start_req, s_req_method, s_req_spaces_before_url, s_req_schema,
     s_req_schema_slash, s_req_schema_slash_slash, s_req_server_start, s_req_server,
     s_req_server_with_at, s_req_path, s_req_query_string_start, s_req_query_string,
     s_req_fragment_start, s_req_fragment, s_req_http_start, s_req_http_H, s_req_http_HT,
     s_req_http_HTT, s_req_http_HTTP, s_req_http_I, s_req_http_IC, s_req_http_major,
     s_req_http_dot, s_req_http_minor, s_req_http_end, s_req_line_almost_done,
     s_header_field_start, s_header_field, s_header_value_discard_ws,
     s_header_value_discard_ws_almost_done, s_header_value_discard_lws, s_header_value_start,
     s_header_value, s_header_value_lws, s_header_almost_done, s_chunk_size_start,
     s_chunk_size, s_chunk_parameters, s_chunk_size_almost_done, s_headers_almost_done,
     s_headers_done, s_chunk_data, s_chunk_data_almost_done, s_chunk_data_done,
     s_body_identity, s_body_identity_eof, s_message_done]"

lemma nth_state_num: "states_in_order ! (state_num s - 1) = s"
  by (cases s) (simp_all add: states_in_order_def)

lemma state_num_pos: "0 < state_num s"
  by (cases s) simp_all

instantiation state :: linorder
begin

definition less_eq_state :: "state \<Rightarrow> state \<Rightarrow> bool" where
  "less_eq_state s t \<longleftrightarrow> state_num s \<le> state_num t"

definition less_state :: "state \<Rightarrow> state \<Rightarrow> bool" where
  "less_state s t \<longleftrightarrow> state_num s < state_num t"

instance
proof
  fix s t u :: state
  show "s \<le> s" by (simp only: less_eq_state_def order_refl)
  show "s < t \<longleftrightarrow> s \<le> t \<and> \<not> t \<le> s" by (simp only: less_eq_state_def less_state_def less_le_not_le)
  show "s \<le> t \<or> t \<le> s" by (simp only: less_eq_state_def linear)
  show "s \<le> u" if "s \<le> t" and "t \<le> u"
    using that unfolding less_eq_state_def by (rule order_trans)
  show "s = t" if "s \<le> t" and "t \<le> s"
  proof -
    from that have "state_num s = state_num t"
      unfolding less_eq_state_def by (rule order_antisym)
    then have "states_in_order ! (state_num s - 1) = states_in_order ! (state_num t - 1)"
      by (rule arg_cong)
    then show ?thesis by (simp only: nth_state_num)
  qed
qed

end

definition PARSING_HEADER :: "state \<Rightarrow> bool" where
  "PARSING_HEADER s \<longleftrightarrow> s \<le> s_headers_done"

lemma PARSING_HEADER_iff [simp]:
  "PARSING_HEADER s \<longleftrightarrow>
    s \<notin> {s_chunk_data, s_chunk_data_almost_done, s_chunk_data_done,
          s_body_identity, s_body_identity_eof, s_message_done}"
  by (cases s) (simp_all add: PARSING_HEADER_def less_eq_state_def)

section \<open>Flags\<close>

text \<open>\<open>enum flags\<close>; \<open>F_TRANSFER_ENCODING\<close> is kept shifted down in \<open>extra_flags\<close>.\<close>

definition F_CHUNKED :: u8 where "F_CHUNKED = push_bit 0 1"

definition F_CONNECTION_KEEP_ALIVE :: u8 where "F_CONNECTION_KEEP_ALIVE = push_bit 1 1"

definition F_CONNECTION_CLOSE :: u8 where "F_CONNECTION_CLOSE = push_bit 2 1"

definition F_CONNECTION_UPGRADE :: u8 where "F_CONNECTION_UPGRADE = push_bit 3 1"

definition F_TRAILING :: u8 where "F_TRAILING = push_bit 4 1"

definition F_UPGRADE :: u8 where "F_UPGRADE = push_bit 5 1"

definition F_SKIPBODY :: u8 where "F_SKIPBODY = push_bit 6 1"

definition F_CONTENTLENGTH :: u8 where "F_CONTENTLENGTH = push_bit 7 1"

definition F_TRANSFER_ENCODING :: u16 where "F_TRANSFER_ENCODING = push_bit 8 1"

definition F_TRANSFER_ENCODING_hi :: u2 where
  "F_TRANSFER_ENCODING_hi = ucast (drop_bit 8 F_TRANSFER_ENCODING)"

lemmas flag_defs =
  F_CHUNKED_def F_CONNECTION_KEEP_ALIVE_def F_CONNECTION_CLOSE_def F_CONNECTION_UPGRADE_def
  F_TRAILING_def F_UPGRADE_def F_SKIPBODY_def F_CONTENTLENGTH_def

lemma F_TRANSFER_ENCODING_hi_eq: "F_TRANSFER_ENCODING_hi = 1"
  by (simp add: F_TRANSFER_ENCODING_hi_def F_TRANSFER_ENCODING_def)

text \<open>\<open>w & F\<close> used as a condition.\<close>

definition has_flag :: "'w::len word \<Rightarrow> 'w word \<Rightarrow> bool" where
  "has_flag w f \<longleftrightarrow> w AND f \<noteq> 0"

lemma has_flag_or [flag_simps]: "has_flag (w OR v) f \<longleftrightarrow> has_flag w f \<or> has_flag v f"
proof -
  have "(w OR v) AND f = 0 \<longleftrightarrow> w AND f = 0 \<and> v AND f = 0"
    by (auto simp: bit_eq_iff bit_simps)
  then show ?thesis by (simp add: has_flag_def)
qed

lemma has_flag_zero [flag_simps, simp]: "\<not> has_flag 0 f"
  by (simp add: has_flag_def)

section \<open>Character tables\<close>

text \<open>
  The initialisers list 128 entries; C fills the rest of the array with zeros.  \<open>T(v)\<close> is 0
  in strict mode, which clears HT and FF in \<open>normal_url_char\<close>.
\<close>

definition tokens :: "char list" where
  "tokens =
    replicate 8 NUL @ replicate 8 NUL @ replicate 8 NUL @ replicate 8 NUL
    @ '' !'' @ [NUL] @ ''#$%&'' @ [CHR 0x27]
    @ [NUL, NUL] @ ''*+'' @ [NUL] @ ''-.'' @ [NUL]
    @ ''01234567''
    @ ''89'' @ replicate 6 NUL
    @ [NUL] @ ''abcdefg''
    @ ''hijklmno''
    @ ''pqrstuvw''
    @ ''xyz'' @ [NUL, NUL, NUL] @ ''^_''
    @ [CHR 0x60] @ ''abcdefg''
    @ ''hijklmno''
    @ ''pqrstuvw''
    @ ''xyz'' @ [NUL] @ ''|'' @ [NUL] @ ''~'' @ [NUL]
    @ replicate 128 NUL"

definition unhex :: "int list" where
  "unhex =
    [- 1, - 1, - 1, - 1, - 1, - 1, - 1, - 1, - 1, - 1, - 1, - 1, - 1, - 1, - 1, - 1,
     - 1, - 1, - 1, - 1, - 1, - 1, - 1, - 1, - 1, - 1, - 1, - 1, - 1, - 1, - 1, - 1,
     - 1, - 1, - 1, - 1, - 1, - 1, - 1, - 1, - 1, - 1, - 1, - 1, - 1, - 1, - 1, - 1,
     0, 1, 2, 3, 4, 5, 6, 7, 8, 9, - 1, - 1, - 1, - 1, - 1, - 1,
     - 1, 10, 11, 12, 13, 14, 15, - 1, - 1, - 1, - 1, - 1, - 1, - 1, - 1, - 1,
     - 1, - 1, - 1, - 1, - 1, - 1, - 1, - 1, - 1, - 1, - 1, - 1, - 1, - 1, - 1, - 1,
     - 1, 10, 11, 12, 13, 14, 15, - 1, - 1, - 1, - 1, - 1, - 1, - 1, - 1, - 1,
     - 1, - 1, - 1, - 1, - 1, - 1, - 1, - 1, - 1, - 1, - 1, - 1, - 1, - 1, - 1, - 1]
    @ replicate 128 0"

definition normal_url_char :: "u8 list" where
  "normal_url_char =
    map (\<lambda>bits. foldr (OR) bits 0)
    [[0, 0, 0, 0, 0, 0, 0, 0],
     [0, 0, 0, 0, 0, 0, 0, 0],
     [0, 0, 0, 0, 0, 0, 0, 0],
     [0, 0, 0, 0, 0, 0, 0, 0],
     [0, 2, 4, 0, 16, 32, 64, 128],
     [1, 2, 4, 8, 16, 32, 64, 128],
     [1, 2, 4, 8, 16, 32, 64, 128],
     [1, 2, 4, 8, 16, 32, 64, 0],
     [1, 2, 4, 8, 16, 32, 64, 128],
     [1, 2, 4, 8, 16, 32, 64, 128],
     [1, 2, 4, 8, 16, 32, 64, 128],
     [1, 2, 4, 8, 16, 32, 64, 128],
     [1, 2, 4, 8, 16, 32, 64, 128],
     [1, 2, 4, 8, 16, 32, 64, 128],
     [1, 2, 4, 8, 16, 32, 64, 128],
     [1, 2, 4, 8, 16, 32, 64, 0]]
    @ replicate 16 0"

text \<open>\<open>BIT_AT(a, i)\<close>: bit \<open>i mod 8\<close> of byte \<open>i div 8\<close>.\<close>

definition BIT_AT :: "u8 list \<Rightarrow> nat \<Rightarrow> bool" where
  "BIT_AT a i \<longleftrightarrow> a ! drop_bit 3 i AND push_bit (i AND 7) 1 \<noteq> 0"

section \<open>Character classes\<close>

text \<open>\<open>(unsigned char) (c | 0x20)\<close>: bit 5 is set.\<close>

definition LOWER :: "char \<Rightarrow> char" where
  "LOWER c = Char (digit0 c) (digit1 c) (digit2 c) (digit3 c) (digit4 c) True (digit6 c) (digit7 c)"

definition IS_ALPHA :: "char \<Rightarrow> bool" where
  "IS_ALPHA c \<longleftrightarrow> ord CHR ''a'' \<le> ord (LOWER c) \<and> ord (LOWER c) \<le> ord CHR ''z''"

definition IS_NUM :: "char \<Rightarrow> bool" where
  "IS_NUM c \<longleftrightarrow> ord CHR ''0'' \<le> ord c \<and> ord c \<le> ord CHR ''9''"

definition IS_ALPHANUM :: "char \<Rightarrow> bool" where
  "IS_ALPHANUM c \<longleftrightarrow> IS_ALPHA c \<or> IS_NUM c"

definition IS_HEX :: "char \<Rightarrow> bool" where
  "IS_HEX c \<longleftrightarrow> IS_NUM c \<or> ord CHR ''a'' \<le> ord (LOWER c) \<and> ord (LOWER c) \<le> ord CHR ''f''"

definition IS_MARK :: "char \<Rightarrow> bool" where
  "IS_MARK c \<longleftrightarrow>
    c = CHR ''-'' \<or> c = CHR ''_'' \<or> c = CHR ''.'' \<or> c = CHR ''!'' \<or> c = CHR ''~'' \<or>
    c = CHR ''*'' \<or> c = CHR 0x27 \<or> c = CHR ''('' \<or> c = CHR '')''"

definition IS_USERINFO_CHAR :: "char \<Rightarrow> bool" where
  "IS_USERINFO_CHAR c \<longleftrightarrow>
    IS_ALPHANUM c \<or> IS_MARK c \<or> c = CHR ''%'' \<or> c = CHR '';'' \<or> c = CHR '':'' \<or>
    c = CHR ''&'' \<or> c = CHR ''='' \<or> c = CHR ''+'' \<or> c = CHR ''$'' \<or> c = CHR '',''"

definition STRICT_TOKEN :: "char \<Rightarrow> char" where
  "STRICT_TOKEN c = (if c = SP then NUL else tokens ! ord c)"

definition TOKEN :: "char \<Rightarrow> char" where
  "TOKEN c = STRICT_TOKEN c"

definition IS_URL_CHAR :: "char \<Rightarrow> bool" where
  "IS_URL_CHAR c \<longleftrightarrow> BIT_AT normal_url_char (ord c)"

definition IS_HOST_CHAR :: "char \<Rightarrow> bool" where
  "IS_HOST_CHAR c \<longleftrightarrow> IS_ALPHANUM c \<or> c = CHR ''.'' \<or> c = CHR ''-''"

definition IS_HEADER_CHAR :: "char \<Rightarrow> bool" where
  "IS_HEADER_CHAR c \<longleftrightarrow> c = CR \<or> c = LF \<or> c = HT \<or> 31 < ord c \<and> ord c \<noteq> 127"

section \<open>The parser's records\<close>

text \<open>
  \<open>struct http_parser\<close>.  Bit fields keep their width; the fields that hold enumerators are
  of the enumeration's type.  The pointer \<open>data\<close> is not a field: the object it points to is
  the application state that the callbacks thread.
\<close>

record http_parser =
  type :: http_parser_type
  flags :: u8
  state :: state
  header_state :: header_states
  index :: u5
  extra_flags :: u2
  lenient_http_headers :: bool
  nread :: u32
  content_length :: u64
  http_major :: u16
  http_minor :: u16
  status_code :: u16  "method" :: http_method
  http_errno :: http_errno
  upgrade :: bool

text \<open>
  A callback gets the parser (through its pointer) and the application state, and returns its
  \<open>int\<close> result, the parser and the application state after the call.  A data callback also
  gets the bytes between its pointer \<open>at\<close> and \<open>at + length\<close>.  \<open>None\<close> is the null pointer.
\<close>

type_synonym 'a http_cb = "http_parser \<Rightarrow> 'a \<Rightarrow> int \<times> http_parser \<times> 'a"
type_synonym 'a http_data_cb = "http_parser \<Rightarrow> byte list \<Rightarrow> 'a \<Rightarrow> int \<times> http_parser \<times> 'a"

record 'a http_parser_settings =
  on_message_begin :: "'a http_cb option"
  on_url :: "'a http_data_cb option"
  on_status :: "'a http_data_cb option"
  on_header_field :: "'a http_data_cb option"
  on_header_value :: "'a http_data_cb option"
  on_headers_complete :: "'a http_cb option"
  on_body :: "'a http_data_cb option"
  on_message_complete :: "'a http_cb option"
  on_chunk_header :: "'a http_cb option"
  on_chunk_complete :: "'a http_cb option"

record url_field =
  off :: u16
  len :: u16

record http_parser_url =
  field_set :: u16
  port :: u16
  field_data :: "http_parser_url_fields \<Rightarrow> url_field"

end
