(* ===== verification/HttpChars.thy ===== *)
theory HttpChars
  imports HttpTypes
begin

text \<open>
  The character classes of the parser in closed form: each table is compared entry by entry
  with the class it stands for, and the bit-twiddling macros with ranges of byte values.
\<close>

lemma upt_0_numeral: "[0..<numeral n] = 0 # [1..<numeral n]"
  by (simp add: upt_conv_Cons)

lemma upt_1_numeral: "[1..<numeral (num.Bit0 n)] = 1 # [2..<numeral (num.Bit0 n)]"
  by (subst upt_conv_Cons) (simp_all add: numeral_2_eq_2)

lemma replicate_numeral: "replicate (numeral n) x = map (\<lambda>_. x) [0..<numeral n]"
  by (simp add: map_replicate_const)

lemma upt_Suc0_numeral: "[Suc 0..<numeral (num.Bit0 n)] = 1 # [2..<numeral (num.Bit0 n)]"
  using upt_1_numeral by simp

lemmas table_eval = upt_0_numeral upt_Suc0_numeral replicate_numeral char_of_def

definition token_of :: "nat \<Rightarrow> char" where
  "token_of n =
    (if 65 \<le> n \<and> n \<le> 90 then char_of (n + 32)
     else if 97 \<le> n \<and> n \<le> 122 \<or> 48 \<le> n \<and> n \<le> 57 \<or>
       n \<in> {32, 33, 35, 36, 37, 38, 39, 42, 43, 45, 46, 94, 95, 96, 124, 126}
     then char_of n else NUL)"

lemma tokens_eq: "tokens = map token_of [0..<256]"
  by (simp add: tokens_def token_of_def table_eval bit_0)

lemma tokens_nth: "tokens ! ord c = token_of (ord c)"
  by (rule table_lookup) (rule tokens_eq)

definition unhex_of :: "nat \<Rightarrow> int" where
  "unhex_of n =
    (if 48 \<le> n \<and> n \<le> 57 then int n - 48
     else if 65 \<le> n \<and> n \<le> 70 then int n - 55
     else if 97 \<le> n \<and> n \<le> 102 then int n - 87
     else if 128 \<le> n then 0 else - 1)"

lemma unhex_eq: "unhex = map unhex_of [0..<256]"
  by (simp add: unhex_def unhex_of_def table_eval)

lemma unhex_nth: "unhex ! ord c = unhex_of (ord c)"
  by (rule table_lookup) (rule unhex_eq)

lemma url_bits_eq:
  "map (BIT_AT normal_url_char) [0..<256] =
    map (\<lambda>n. 33 \<le> n \<and> n \<le> 126 \<and> n \<noteq> 35 \<and> n \<noteq> 63) [0..<256]"
  by (simp add: BIT_AT_def normal_url_char_def table_eval)


lemma BIT_AT_url: "BIT_AT normal_url_char (ord c) \<longleftrightarrow>
    33 \<le> ord c \<and> ord c \<le> 126 \<and> ord c \<noteq> 35 \<and> ord c \<noteq> 63"
proof -
  have "map (BIT_AT normal_url_char) [0..<256] ! ord c =
      map (\<lambda>n. 33 \<le> n \<and> n \<le> 126 \<and> n \<noteq> 35 \<and> n \<noteq> 63) [0..<256] ! ord c"
    by (simp only: url_bits_eq)
  then show ?thesis by simp
qed

lemma ord_Char [simp]:
  "ord (Char b0 b1 b2 b3 b4 b5 b6 b7) =
    of_bool b0 + 2 * of_bool b1 + 4 * of_bool b2 + 8 * of_bool b3 + 16 * of_bool b4
    + 32 * of_bool b5 + 64 * of_bool b6 + 128 * of_bool b7"
  by (simp add: ord_def)

lemma char_by_low_bits:
  obtains r b5 b6 b7 where "r < 32"
    and "ord c = r + 32 * of_bool b5 + 64 * of_bool b6 + 128 * of_bool b7"
    and "ord (LOWER c) = r + 32 + 64 * of_bool b6 + 128 * of_bool b7"
proof (cases c)
  case (Char b0 b1 b2 b3 b4 b5 b6 b7)
  let ?r = "of_bool b0 + 2 * of_bool b1 + 4 * of_bool b2 + 8 * of_bool b3 + 16 * of_bool b4 :: nat"
  show thesis
  proof (rule that [of ?r b5 b6 b7])
    show "?r < 32" by (simp split: split_of_bool)
  qed (simp_all add: Char LOWER_def ord_Char del: of_char_Char)
qed

lemma IS_ALPHA_iff: "IS_ALPHA c \<longleftrightarrow> 65 \<le> ord c \<and> ord c \<le> 90 \<or> 97 \<le> ord c \<and> ord c \<le> 122"
  by (rule char_by_low_bits [of c]) (auto simp: IS_ALPHA_def split: split_of_bool_asm)

lemma IS_NUM_iff: "IS_NUM c \<longleftrightarrow> 48 \<le> ord c \<and> ord c \<le> 57"
  by (simp add: IS_NUM_def)

lemma LOWER_upper: "65 \<le> ord c \<Longrightarrow> ord c \<le> 90 \<Longrightarrow> ord (LOWER c) = ord c + 32"
  by (rule char_by_low_bits [of c]) (auto split: split_of_bool_asm)

lemma IS_URL_CHAR_iff:
  "IS_URL_CHAR c \<longleftrightarrow> 33 \<le> ord c \<and> ord c \<le> 126 \<and> c \<noteq> CHR ''#'' \<and> c \<noteq> CHR ''?''"
  using ord_eq_iff [of c "CHR ''#''"] ord_eq_iff [of c "CHR ''?''"]
  by (auto simp: IS_URL_CHAR_def BIT_AT_url)

lemma TOKEN_eq: "TOKEN c = (if c = SP then NUL else token_of (ord c))"
  by (simp add: TOKEN_def STRICT_TOKEN_def tokens_nth)

text \<open>A token is a character that may stand in a header name.\<close>

definition is_token :: "char \<Rightarrow> bool" where
  "is_token c \<longleftrightarrow> TOKEN c \<noteq> NUL"

lemma is_token_iff:
  "is_token c \<longleftrightarrow>
    65 \<le> ord c \<and> ord c \<le> 90 \<or> 97 \<le> ord c \<and> ord c \<le> 122 \<or> 48 \<le> ord c \<and> ord c \<le> 57 \<or>
    ord c \<in> {33, 35, 36, 37, 38, 39, 42, 43, 45, 46, 94, 95, 96, 124, 126}"
proof -
  have nz: "char_of n \<noteq> NUL" if "0 < n" and "n < 256" for n :: nat
    using that eq_by_ord [of NUL n] by auto
  have nul: "NUL \<noteq> char_of (ord c)" if "0 < ord c"
    using that by (metis ord_char_of char_of_ord nz ord_less)
  have "c = SP \<longleftrightarrow> ord c = 32"
    using ord_eq_iff [of c SP] by simp
  then show ?thesis
    by (simp add: is_token_def TOKEN_eq token_of_def nz del: char_of_ord)
qed

end
