(* ===== verification/HttpHeader.thy ===== *)
theory HttpHeader
  imports HttpChars
begin

text \<open>
  The two inner loops of \<open>sn_http_parser_execute\<close> (\<open>src/src/httpparser.cpp\<close>): the scan of a
  header name in state \<open>s_header_field\<close> and of a header value in state \<open>s_header_value\<close>.
  Both walk the pointer \<open>p\<close> over the buffer \<open>d\<close>; they only read the buffer and the limit
  \<open>max_header_size\<close>, and change the matcher fields of the parser.
\<close>

section \<open>Header names\<close>

text \<open>
  One character of a name that is being matched against the literal \<open>w\<close>: \<open>sizeof(w) - 1\<close>
  is the length of the literal.
\<close>

definition match_field :: "string \<Rightarrow> header_states \<Rightarrow> char \<Rightarrow> http_parser \<Rightarrow> http_parser" where
  "match_field w done c pr =
    (let pr = pr\<lparr>index := index pr + 1\<rparr>
     in if unat (index pr) > length w \<or> cstr_at w (unat (index pr)) \<noteq> Some c
        then pr\<lparr>header_state := h_general\<rparr>
        else if unat (index pr) = length w - 1 then pr\<lparr>header_state := done\<rparr>
        else pr)"

text \<open>
  The switch on \<open>parser->header_state\<close> for one character that is a token, in the states other
  than \<open>h_general\<close>: \<open>c\<close> is the lowered token and \<open>ch\<close> the byte.  \<open>None\<close> is the failing
  \<open>assert(0 && "Unknown header_state")\<close>.
\<close>

definition header_field_char :: "char \<Rightarrow> char \<Rightarrow> http_parser \<Rightarrow> http_parser option" where
  "header_field_char c ch pr =
    (case header_state pr of
       h_C \<Rightarrow>
         Some (pr\<lparr>index := index pr + 1,
                  header_state := (if c = CHR ''o'' then h_CO else h_general)\<rparr>)
     | h_CO \<Rightarrow>
         Some (pr\<lparr>index := index pr + 1,
                  header_state := (if c = CHR ''n'' then h_CON else h_general)\<rparr>)
     | h_CON \<Rightarrow>
         Some (pr\<lparr>index := index pr + 1,
                  header_state :=
                    (if c = CHR ''n'' then h_matching_connection
                     else if c = CHR ''t'' then h_matching_content_length
                     else h_general)\<rparr>)
     | h_matching_connection \<Rightarrow> Some (match_field ''connection'' h_connection c pr)
     | h_matching_proxy_connection \<Rightarrow> Some (match_field ''proxy-connection'' h_connection c pr)
     | h_matching_content_length \<Rightarrow> Some (match_field ''content-length'' h_content_length c pr)
     | h_matching_transfer_encoding \<Rightarrow>
         (let pr' = match_field ''transfer-encoding'' h_transfer_encoding c pr
          in Some (if header_state pr' = h_transfer_encoding
                   then pr'\<lparr>extra_flags := extra_flags pr' OR F_TRANSFER_ENCODING_hi\<rparr>
                   else pr'))
     | h_matching_upgrade \<Rightarrow> Some (match_field ''upgrade'' h_upgrade c pr)
     | h_connection \<Rightarrow> Some (if ch \<noteq> SP then pr\<lparr>header_state := h_general\<rparr> else pr)
     | h_content_length \<Rightarrow> Some (if ch \<noteq> SP then pr\<lparr>header_state := h_general\<rparr> else pr)
     | h_transfer_encoding \<Rightarrow> Some (if ch \<noteq> SP then pr\<lparr>header_state := h_general\<rparr> else pr)
     | h_upgrade \<Rightarrow> Some (if ch \<noteq> SP then pr\<lparr>header_state := h_general\<rparr> else pr)
     | _ \<Rightarrow> None)"

text \<open>\<open>while (p+1 < pe && TOKEN(p[1])) p++\<close>\<close>

function skip_tokens :: "byte list \<Rightarrow> nat \<Rightarrow> nat \<Rightarrow> nat" where
  "skip_tokens d i pe =
    (if i + 1 < pe \<and> TOKEN (d ! (i + 1)) \<noteq> NUL then skip_tokens d (i + 1) pe else i)"
  by pat_completeness auto
termination
  by (relation "measure (\<lambda>(d, i, pe). pe - i)") auto

declare skip_tokens.simps [simp del]

lemma skip_tokens_ge: "i \<le> skip_tokens d i pe"
proof (induction d i pe rule: skip_tokens.induct)
  case (1 d i pe)
  then show ?case by (subst skip_tokens.simps) auto
qed

lemma skip_tokens_less: "i < pe \<Longrightarrow> skip_tokens d i pe < pe"
proof (induction d i pe rule: skip_tokens.induct)
  case (1 d i pe)
  then show ?case by (subst skip_tokens.simps) auto
qed

text \<open>
  The loop over the name: the result is the position of the first byte that is no token (or
  the end of the buffer), the last byte read, and the parser.
\<close>

function field_loop ::
  "byte list \<Rightarrow> u32 \<Rightarrow> nat \<Rightarrow> char \<Rightarrow> http_parser \<Rightarrow> (nat \<times> char \<times> http_parser) option"
where
  "field_loop d mhs i ch pr =
    (if i < length d then
       let ch = d ! i; c = TOKEN ch
       in if c = NUL then Some (i, ch, pr)
          else if header_state pr = h_general
          then let pe = i + min (length d - i) (unat mhs)
               in field_loop d mhs (skip_tokens d i pe + 1) ch pr
          else case header_field_char c ch pr of
                 None \<Rightarrow> None
               | Some pr' \<Rightarrow> field_loop d mhs (i + 1) ch pr'
     else Some (i, ch, pr))"
  by pat_completeness auto
termination
proof (relation "measure (\<lambda>(d, mhs, i, ch, pr). length d - i)", goal_cases)
  case (2 d mhs i ch pr x xa xb)
  then show ?case
    using skip_tokens_ge [of i d "i + min (length d - i) (unat mhs)"] by simp
qed auto

declare field_loop.simps [simp del]

section \<open>Header values\<close>

text \<open>Outcome of the switch on \<open>h_state\<close> for one character of a value.\<close>

datatype value_step =
    V_ok header_states http_parser
  | V_error http_errno header_states http_parser
  | V_assert

text \<open>One character of a value that is being matched against the literal \<open>w\<close>.\<close>

definition match_value ::
  "string \<Rightarrow> header_states \<Rightarrow> header_states \<Rightarrow> header_states \<Rightarrow> char \<Rightarrow> http_parser \<Rightarrow> value_step"
where
  "match_value w matching fallback done c pr =
    (let pr = pr\<lparr>index := index pr + 1\<rparr>
     in if unat (index pr) > length w \<or> cstr_at w (unat (index pr)) \<noteq> Some c
        then V_ok fallback pr
        else if unat (index pr) = length w - 1 then V_ok done pr
        else V_ok matching pr)"

text \<open>
  The digits of \<open>Content-Length\<close>, with the test against overflow made on the old value, as
  the code does.
\<close>

definition content_length_digit :: "header_states \<Rightarrow> char \<Rightarrow> http_parser \<Rightarrow> value_step" where
  "content_length_digit h ch pr =
    (if ch = SP then V_ok h_content_length_ws pr
     else if \<not> IS_NUM ch then V_error HPE_INVALID_CONTENT_LENGTH h pr
     else let t = content_length pr * 10 + of_nat (ord ch - ord CHR ''0'')
          in if (- 1 - 10) div 10 < content_length pr
             then V_error HPE_INVALID_CONTENT_LENGTH h pr
             else V_ok h (pr\<lparr>content_length := t\<rparr>))"

definition connection_flag :: "header_states \<Rightarrow> u8" where
  "connection_flag h =
    (if h = h_connection_keep_alive then F_CONNECTION_KEEP_ALIVE
     else if h = h_connection_close then F_CONNECTION_CLOSE
     else if h = h_connection_upgrade then F_CONNECTION_UPGRADE
     else 0)"

text \<open>
  The switch on \<open>h_state\<close> for one character, in the states other than \<open>h_general\<close>; \<open>c\<close> is
  \<open>LOWER(ch)\<close>.
\<close>

definition header_value_char :: "char \<Rightarrow> char \<Rightarrow> header_states \<Rightarrow> http_parser \<Rightarrow> value_step" where
  "header_value_char c ch h pr =
    (case h of
       h_connection \<Rightarrow> V_assert
     | h_transfer_encoding \<Rightarrow> V_assert
     | h_content_length \<Rightarrow>
         if ch = SP then V_ok h pr else content_length_digit h_content_length_num ch pr
     | h_content_length_num \<Rightarrow> content_length_digit h_content_length_num ch pr
     | h_content_length_ws \<Rightarrow>
         if ch = SP then V_ok h pr else V_error HPE_INVALID_CONTENT_LENGTH h pr
     | h_matching_transfer_encoding_token_start \<Rightarrow>
         V_ok (if c = CHR ''c'' then h_matching_transfer_encoding_chunked
               else if STRICT_TOKEN c \<noteq> NUL then h_matching_transfer_encoding_token
               else if c = SP \<or> c = HT then h
               else h_general) pr
     | h_matching_transfer_encoding_chunked \<Rightarrow>
         match_value ''chunked'' h h_matching_transfer_encoding_token h_transfer_encoding_chunked c pr
     | h_matching_transfer_encoding_token \<Rightarrow>
         if ch = CHR '','' then V_ok h_matching_transfer_encoding_token_start (pr\<lparr>index := 0\<rparr>)
         else V_ok h pr
     | h_matching_connection_token_start \<Rightarrow>
         V_ok (if c = CHR ''k'' then h_matching_connection_keep_alive
               else if c = CHR ''c'' then h_matching_connection_close
               else if c = CHR ''u'' then h_matching_connection_upgrade
               else if STRICT_TOKEN c \<noteq> NUL then h_matching_connection_token
               else if c = SP \<or> c = HT then h
               else h_general) pr
     | h_matching_connection_keep_alive \<Rightarrow>
         match_value ''keep-alive'' h h_matching_connection_token h_connection_keep_alive c pr
     | h_matching_connection_close \<Rightarrow>
         match_value ''close'' h h_matching_connection_token h_connection_close c pr
     | h_matching_connection_upgrade \<Rightarrow>
         match_value ''upgrade'' h h_matching_connection_token h_connection_upgrade c pr
     | h_matching_connection_token \<Rightarrow>
         if ch = CHR '','' then V_ok h_matching_connection_token_start (pr\<lparr>index := 0\<rparr>)
         else V_ok h pr
     | h_transfer_encoding_chunked \<Rightarrow>
         V_ok (if ch \<noteq> SP then h_matching_transfer_encoding_token else h) pr
     | _ \<Rightarrow>
         if h = h_connection_keep_alive \<or> h = h_connection_close \<or> h = h_connection_upgrade then
           if ch = CHR '',''
           then V_ok h_matching_connection_token_start
                  (pr\<lparr>flags := flags pr OR connection_flag h, index := 0\<rparr>)
           else V_ok (if ch \<noteq> SP then h_matching_connection_token else h) pr
         else V_ok h_general pr)"

text \<open>
  The inner \<open>for (; p != pe; p++)\<close> of the state \<open>h_general\<close>: \<open>Inl\<close> is the position of an
  invalid character, \<open>Inr\<close> the position \<open>p\<close> after the loop; with it the last byte read.
\<close>

function general_scan :: "byte list \<Rightarrow> bool \<Rightarrow> nat \<Rightarrow> nat \<Rightarrow> char \<Rightarrow> (nat + nat) \<times> char" where
  "general_scan d lnt i pe ch =
    (if i < pe then
       let ch = d ! i
       in if ch = CR \<or> ch = LF then (Inr (i - 1), ch)
          else if \<not> lnt \<and> \<not> IS_HEADER_CHAR ch then (Inl i, ch)
          else general_scan d lnt (i + 1) pe ch
     else (Inr i, ch))"
  by pat_completeness auto
termination
  by (relation "measure (\<lambda>(d, lnt, i, pe, ch). pe - i)") auto

declare general_scan.simps [simp del]

lemma general_scan_bounds:
  "\<lbrakk>general_scan d lnt i pe ch = (Inr j, ch'); i \<le> pe\<rbrakk> \<Longrightarrow> i - 1 \<le> j \<and> j \<le> pe"
proof (induction d lnt i pe ch rule: general_scan.induct)
  case (1 d lnt i pe ch)
  note unfolded = "1.prems"(1) [unfolded general_scan.simps [of d lnt i pe ch]]
  show ?case
    using unfolded "1.prems"(2) "1.IH" [OF _ refl]
    by (auto simp: Let_def split: if_splits)
qed

lemma general_scan_ge:
  assumes "general_scan d lnt i pe ch = (Inr j, ch')" and "i \<le> pe"
    and "d ! i \<noteq> CR" and "d ! i \<noteq> LF"
  shows "i \<le> j"
  using assms general_scan_bounds [of d lnt "i + 1" pe "d ! i" j ch']
  by (subst (asm) (1) general_scan.simps) (auto simp: Let_def split: if_splits)

text \<open>Why the loop over the value stopped.\<close>

datatype value_stop =
    Stop_end                      \<comment> \<open>the buffer is exhausted\<close>
  | Stop_CR
  | Stop_LF
  | Stop_invalid                  \<comment> \<open>\<open>HPE_INVALID_HEADER_TOKEN\<close>, \<open>h_state\<close> not written back\<close>
  | Stop_error http_errno         \<comment> \<open>\<open>h_state\<close> written back\<close>
  | Stop_assert

text \<open>
  The loop over the value: the reason it stopped, the position \<open>p\<close>, the last byte read,
  \<open>h_state\<close> and the parser.
\<close>

function value_loop ::
  "byte list \<Rightarrow> u32 \<Rightarrow> bool \<Rightarrow> nat \<Rightarrow> char \<Rightarrow> header_states \<Rightarrow> http_parser \<Rightarrow>
    value_stop \<times> nat \<times> char \<times> header_states \<times> http_parser"
where
  "value_loop d mhs lnt i ch h pr =
    (if i < length d then
       let ch = d ! i
       in if ch = CR then (Stop_CR, i, ch, h, pr)
          else if ch = LF then (Stop_LF, i, ch, h, pr)
          else if \<not> lnt \<and> \<not> IS_HEADER_CHAR ch then (Stop_invalid, i, ch, h, pr)
          else if h = h_general
          then case general_scan d lnt i (i + min (length d - i) (unat mhs)) ch of
                 (Inl j, ch') \<Rightarrow> (Stop_invalid, j, ch', h, pr)
               | (Inr j, ch') \<Rightarrow>
                   value_loop d mhs lnt ((if j = length d then j - 1 else j) + 1) ch' h pr
          else case header_value_char (LOWER ch) ch h pr of
                 V_ok h' pr' \<Rightarrow> value_loop d mhs lnt (i + 1) ch h' pr'
               | V_error e h' pr' \<Rightarrow> (Stop_error e, i, ch, h', pr')
               | V_assert \<Rightarrow> (Stop_assert, i, ch, h, pr)
     else (Stop_end, i, ch, h, pr))"
  by pat_completeness auto
termination
proof (relation "measure (\<lambda>(d, mhs, lnt, i, ch, h, pr). length d - i)", goal_cases)
  case (2 d mhs lnt i ch h pr x s ch' j)
  have "general_scan d lnt i (i + min (length d - i) (unat mhs)) (d ! i) = (Inr j, ch')"
    using 2 by simp
  then have "i \<le> j"
    by (rule general_scan_ge) (use 2 in simp_all)
  then show ?case using 2 by auto
qed auto

declare value_loop.simps [simp del]

end
