(* ===== verification/HttpUrlChar.thy ===== *)
theory HttpUrlChar
  imports HttpChars
begin

text \<open>
  \<open>parse_url_char\<close> of \<open>src/src/httpparser.cpp\<close>: the byte-for-byte URL automaton shared by the
  request parser and by \<open>sn_http_parser_parse_url\<close>.  A \<open>break\<close> out of the source's switch ends
  in \<open>return s_dead\<close>.
\<close>

definition url_server_char :: "char \<Rightarrow> state" where
  "url_server_char c =
    (if c = CHR ''/'' then s_req_path
     else if c = CHR ''?'' then s_req_query_string_start
     else if c = CHR ''@'' then s_req_server_with_at
     else if IS_USERINFO_CHAR c \<or> c = CHR ''['' \<or> c = CHR '']'' then s_req_server
     else s_dead)"

definition parse_url_char :: "state \<Rightarrow> char \<Rightarrow> state" where
  "parse_url_char s c =
    (if c = SP \<or> c = CR \<or> c = LF then s_dead
     else if c = HT \<or> c = FF then s_dead
     else case s of
       s_req_spaces_before_url \<Rightarrow>
         if c = CHR ''/'' \<or> c = CHR ''*'' then s_req_path
         else if IS_ALPHA c then s_req_schema
         else s_dead
     | s_req_schema \<Rightarrow>
         if IS_ALPHA c then s
         else if c = CHR '':'' then s_req_schema_slash
         else s_dead
     | s_req_schema_slash \<Rightarrow> if c = CHR ''/'' then s_req_schema_slash_slash else s_dead
     | s_req_schema_slash_slash \<Rightarrow> if c = CHR ''/'' then s_req_server_start else s_dead
     | s_req_server_with_at \<Rightarrow> if c = CHR ''@'' then s_dead else url_server_char c
     | s_req_server_start \<Rightarrow> url_server_char c
     | s_req_server \<Rightarrow> url_server_char c
     | s_req_path \<Rightarrow>
         if IS_URL_CHAR c then s
         else if c = CHR ''?'' then s_req_query_string_start
         else if c = CHR ''#'' then s_req_fragment_start
         else s_dead
     | s_req_query_string_start \<Rightarrow>
         if IS_URL_CHAR c then s_req_query_string
         else if c = CHR ''?'' then s_req_query_string
         else if c = CHR ''#'' then s_req_fragment_start
         else s_dead
     | s_req_query_string \<Rightarrow>
         if IS_URL_CHAR c then s_req_query_string
         else if c = CHR ''?'' then s_req_query_string
         else if c = CHR ''#'' then s_req_fragment_start
         else s_dead
     | s_req_fragment_start \<Rightarrow>
         if IS_URL_CHAR c then s_req_fragment
         else if c = CHR ''?'' then s_req_fragment
         else if c = CHR ''#'' then s
         else s_dead
     | s_req_fragment \<Rightarrow>
         if IS_URL_CHAR c then s
         else if c = CHR ''?'' \<or> c = CHR ''#'' then s
         else s_dead
     | _ \<Rightarrow> s_dead)"

text \<open>The states in which part of a URL has been read.\<close>

definition url_states :: "state set" where
  "url_states =
    {s_req_schema, s_req_schema_slash, s_req_schema_slash_slash, s_req_server_start,
     s_req_server, s_req_server_with_at, s_req_path, s_req_query_string_start,
     s_req_query_string, s_req_fragment_start, s_req_fragment}"

lemma url_server_char_range:
  "url_server_char c \<in> {s_dead, s_req_path, s_req_query_string_start, s_req_server_with_at, s_req_server}"
  by (simp add: url_server_char_def)

lemma parse_url_char_range: "parse_url_char s c \<noteq> s_dead \<Longrightarrow> parse_url_char s c \<in> url_states"
  using url_server_char_range [of c]
  by (cases s) (auto simp: parse_url_char_def url_states_def split: if_splits)

text \<open>Only the states of a URL and the state before it can be left by a URL character.\<close>

lemma parse_url_char_source:
  "parse_url_char s c \<noteq> s_dead \<Longrightarrow> s = s_req_spaces_before_url \<or> s \<in> url_states"
  by (cases s) (auto simp: parse_url_char_def url_states_def split: if_splits)

end
