(* ===== verification/HttpContext.thy ===== *)
theory HttpContext
  imports HttpHeader HttpUrlChar
begin

text \<open>
  The context \<open>sn_http_parser_execute\<close> runs in (\<open>src/src/httpparser.cpp\<close>): its local
  variables, and its macros as operations on them.  The switch itself is in \<open>HttpMachine\<close>.

  A case of the switch ends in one of four ways, the constructors of \<open>outcome\<close>: \<open>break\<close> out of the switch
  (the loop advances \<open>p\<close>), \<open>goto reexecute\<close> (the switch runs again on the same byte), a
  \<open>return\<close>, or a failing \<open>assert\<close>, which ends the process.
\<close>

section \<open>Execution contexts\<close>

text \<open>The five \<open>*_mark\<close> variables, and the notifications that \<open>CALLBACK_NOTIFY\<close> is used for.\<close>

datatype mark = M_header_field | M_header_value | M_url | M_body | M_status

datatype notification = N_message_begin | N_message_complete | N_chunk_header | N_chunk_complete

text \<open>What stays fixed during one call.\<close>

record 'a exec_env =
  settings :: "'a http_parser_settings"
  max_header_size :: u32
  data :: "byte list"
  lenient :: bool

text \<open>
  The local variables: \<open>ch\<close> is \<open>cur\<close>, \<open>p - data\<close> is \<open>ptr\<close>, the local \<open>nread\<close> is \<open>n_read\<close>, and
  a mark is the offset it points to (\<open>None\<close> is the null pointer).
\<close>

record 'a ctx =
  parser :: http_parser
  app :: 'a
  cur :: char
  ptr :: nat
  p_state :: state
  n_read :: u32
  marks :: "mark \<Rightarrow> nat option"

datatype 'a outcome =
    Break "'a ctx"
  | Reexecute "'a ctx"
  | Return nat http_parser 'a
  | Abort

abbreviation data_end :: "'a exec_env \<Rightarrow> nat" where
  "data_end env \<equiv> length (data env)"

primrec data_cb :: "'a http_parser_settings \<Rightarrow> mark \<Rightarrow> 'a http_data_cb option" where
  "data_cb st M_header_field = on_header_field st"
| "data_cb st M_header_value = on_header_value st"
| "data_cb st M_url = on_url st"
| "data_cb st M_body = on_body st"
| "data_cb st M_status = on_status st"

primrec data_cb_errno :: "mark \<Rightarrow> http_errno" where
  "data_cb_errno M_header_field = HPE_CB_header_field"
| "data_cb_errno M_header_value = HPE_CB_header_value"
| "data_cb_errno M_url = HPE_CB_url"
| "data_cb_errno M_body = HPE_CB_body"
| "data_cb_errno M_status = HPE_CB_status"

primrec notify_cb :: "'a http_parser_settings \<Rightarrow> notification \<Rightarrow> 'a http_cb option" where
  "notify_cb st N_message_begin = on_message_begin st"
| "notify_cb st N_message_complete = on_message_complete st"
| "notify_cb st N_chunk_header = on_chunk_header st"
| "notify_cb st N_chunk_complete = on_chunk_complete st"

primrec notify_cb_errno :: "notification \<Rightarrow> http_errno" where
  "notify_cb_errno N_message_begin = HPE_CB_message_begin"
| "notify_cb_errno N_message_complete = HPE_CB_message_complete"
| "notify_cb_errno N_chunk_header = HPE_CB_chunk_header"
| "notify_cb_errno N_chunk_complete = HPE_CB_chunk_complete"

section \<open>The macros\<close>

abbreviation UPDATE_STATE :: "state \<Rightarrow> 'a ctx \<Rightarrow> 'a ctx" where
  "UPDATE_STATE s c \<equiv> c\<lparr>p_state := s\<rparr>"

definition set_errno :: "u32 \<Rightarrow> http_errno \<Rightarrow> http_parser \<Rightarrow> http_parser" where
  "set_errno n e pr = pr\<lparr>nread := n, http_errno := e\<rparr>"

definition SET_ERRNO :: "http_errno \<Rightarrow> 'a ctx \<Rightarrow> 'a ctx" where
  "SET_ERRNO e c = c\<lparr>parser := set_errno (n_read c) e (parser c)\<rparr>"

definition RETURN :: "nat \<Rightarrow> 'a ctx \<Rightarrow> 'a outcome" where
  "RETURN v c = Return v ((parser c)\<lparr>nread := n_read c, state := p_state c\<rparr>) (app c)"

text \<open>The label \<open>error\<close>, and \<open>SET_ERRNO(e); goto error\<close>.\<close>

definition goto_error :: "'a ctx \<Rightarrow> 'a outcome" where
  "goto_error c =
    (let c' = (if http_errno (parser c) = HPE_OK then SET_ERRNO HPE_UNKNOWN c else c)
     in RETURN (ptr c) c')"

definition fail :: "http_errno \<Rightarrow> 'a ctx \<Rightarrow> 'a outcome" where
  "fail e c = goto_error (SET_ERRNO e c)"

definition STRICT_CHECK :: "bool \<Rightarrow> 'a ctx \<Rightarrow> ('a ctx \<Rightarrow> 'a outcome) \<Rightarrow> 'a outcome" where
  "STRICT_CHECK cond c k = (if cond then fail HPE_STRICT c else k c)"

definition COUNT_HEADER_SIZE ::
  "'a exec_env \<Rightarrow> nat \<Rightarrow> 'a ctx \<Rightarrow> ('a ctx \<Rightarrow> 'a outcome) \<Rightarrow> 'a outcome"
where
  "COUNT_HEADER_SIZE env v c k =
    (let c = c\<lparr>n_read := n_read c + of_nat v\<rparr>
     in if n_read c > max_header_size env then fail HPE_HEADER_OVERFLOW c else k c)"

definition MARK :: "mark \<Rightarrow> 'a ctx \<Rightarrow> 'a ctx" where
  "MARK m c = (if marks c m = None then c\<lparr>marks := (marks c)(m := Some (ptr c))\<rparr> else c)"

text \<open>
  What the two callback macros share: the state is stored in the parser, the callback runs, a
  non-zero result sets the error, the state is read back, and an error or a pause returns.
\<close>

definition after_callback ::
  "http_errno \<Rightarrow> nat \<Rightarrow> 'a ctx \<Rightarrow> int \<times> http_parser \<times> 'a \<Rightarrow> ('a ctx \<Rightarrow> 'a outcome) \<Rightarrow> 'a outcome"
where
  "after_callback e er c res k =
    (case res of (r, pr, a) \<Rightarrow>
       let pr = (if r \<noteq> 0 then set_errno (n_read c) e pr else pr);
           c = c\<lparr>parser := pr, app := a, p_state := state pr\<rparr>
       in if http_errno pr \<noteq> HPE_OK then Return er pr a else k c)"

definition callback_notify ::
  "'a exec_env \<Rightarrow> notification \<Rightarrow> nat \<Rightarrow> 'a ctx \<Rightarrow> ('a ctx \<Rightarrow> 'a outcome) \<Rightarrow> 'a outcome"
where
  "callback_notify env n er c k =
    (if http_errno (parser c) \<noteq> HPE_OK then Abort
     else case notify_cb (settings env) n of
            None \<Rightarrow> k c
          | Some f \<Rightarrow>
              after_callback (notify_cb_errno n) er c
                (f ((parser c)\<lparr>state := p_state c\<rparr>) (app c)) k)"

definition CALLBACK_NOTIFY ::
  "'a exec_env \<Rightarrow> notification \<Rightarrow> 'a ctx \<Rightarrow> ('a ctx \<Rightarrow> 'a outcome) \<Rightarrow> 'a outcome"
where
  "CALLBACK_NOTIFY env n c k = callback_notify env n (ptr c + 1) c k"

definition CALLBACK_NOTIFY_NOADVANCE ::
  "'a exec_env \<Rightarrow> notification \<Rightarrow> 'a ctx \<Rightarrow> ('a ctx \<Rightarrow> 'a outcome) \<Rightarrow> 'a outcome"
where
  "CALLBACK_NOTIFY_NOADVANCE env n c k = callback_notify env n (ptr c) c k"

text \<open>
  \<open>CALLBACK_DATA_(FOR, LEN, ER)\<close>.  Every use has \<open>LEN = e - FOR_mark\<close> for a pointer \<open>e\<close>, so
  the argument is \<open>e\<close>; the callback gets the bytes between the mark and \<open>e\<close>.
\<close>

definition callback_data ::
  "'a exec_env \<Rightarrow> mark \<Rightarrow> nat \<Rightarrow> nat \<Rightarrow> 'a ctx \<Rightarrow> ('a ctx \<Rightarrow> 'a outcome) \<Rightarrow> 'a outcome"
where
  "callback_data env m e er c k =
    (if http_errno (parser c) \<noteq> HPE_OK then Abort
     else case marks c m of
            None \<Rightarrow> k c
          | Some i \<Rightarrow>
              let k' = (\<lambda>c. k (c\<lparr>marks := (marks c)(m := None)\<rparr>))
              in case data_cb (settings env) m of
                   None \<Rightarrow> k' c
                 | Some f \<Rightarrow>
                     after_callback (data_cb_errno m) er c
                       (f ((parser c)\<lparr>state := p_state c\<rparr>) (seg (data env) i e) (app c)) k')"

definition CALLBACK_DATA ::
  "'a exec_env \<Rightarrow> mark \<Rightarrow> 'a ctx \<Rightarrow> ('a ctx \<Rightarrow> 'a outcome) \<Rightarrow> 'a outcome"
where
  "CALLBACK_DATA env m c k = callback_data env m (ptr c) (ptr c + 1) c k"

definition CALLBACK_DATA_NOADVANCE ::
  "'a exec_env \<Rightarrow> mark \<Rightarrow> 'a ctx \<Rightarrow> ('a ctx \<Rightarrow> 'a outcome) \<Rightarrow> 'a outcome"
where
  "CALLBACK_DATA_NOADVANCE env m c k = callback_data env m (ptr c) (ptr c) c k"

section \<open>Questions about a parsed head\<close>

definition sn_http_message_needs_eof :: "http_parser \<Rightarrow> bool" where
  "sn_http_message_needs_eof pr =
    (if type pr = HTTP_REQUEST then False
     else if status_code pr div 100 = 1 \<or> status_code pr = 204 \<or> status_code pr = 304 \<or>
             has_flag (flags pr) F_SKIPBODY then False
     else if has_flag (extra_flags pr) F_TRANSFER_ENCODING_hi \<and> \<not> has_flag (flags pr) F_CHUNKED
     then True
     else if has_flag (flags pr) F_CHUNKED \<or> content_length pr \<noteq> - 1 then False
     else True)"

definition sn_http_should_keep_alive :: "http_parser \<Rightarrow> bool" where
  "sn_http_should_keep_alive pr =
    (if http_major pr > 0 \<and> http_minor pr > 0 \<and> has_flag (flags pr) F_CONNECTION_CLOSE then False
     else if \<not> (http_major pr > 0 \<and> http_minor pr > 0) \<and>
             \<not> has_flag (flags pr) F_CONNECTION_KEEP_ALIVE then False
     else \<not> sn_http_message_needs_eof pr)"

definition start_state :: "http_parser \<Rightarrow> state" where
  "start_state pr = (if type pr = HTTP_REQUEST then s_start_req else s_start_res)"

definition NEW_MESSAGE :: "http_parser \<Rightarrow> state" where
  "NEW_MESSAGE pr = (if sn_http_should_keep_alive pr then start_state pr else s_dead)"

end
