(* ===== verification/HttpMachine.thy ===== *)
theory HttpMachine
  imports HttpContext
begin

text \<open>
  The switch of \<open>sn_http_parser_execute\<close> (\<open>src/src/httpparser.cpp\<close>), one definition per case
  or group of neighbouring cases in the order of the source, the dispatch \<open>step\<close>, the head and
  the end of the loop over the buffer, and the function itself.
\<close>

section \<open>Start of a message\<close>

definition at_dead :: "'a ctx \<Rightarrow> 'a outcome" where
  "at_dead c = (if cur c = CR \<or> cur c = LF then Break c else fail HPE_CLOSED_CONNECTION c)"

text \<open>The three assignments that open every message.\<close>

definition reset_message :: "'a ctx \<Rightarrow> 'a ctx" where
  "reset_message c = c\<lparr>parser := (parser c)\<lparr>flags := 0, extra_flags := 0, content_length := - 1\<rparr>\<rparr>"

definition at_start_req_or_res :: "'a exec_env \<Rightarrow> 'a ctx \<Rightarrow> 'a outcome" where
  "at_start_req_or_res env c =
    (if cur c = CR \<or> cur c = LF then Break c
     else let c = reset_message c
          in if cur c = CHR ''H''
             then CALLBACK_NOTIFY env N_message_begin (UPDATE_STATE s_res_or_resp_H c) Break
             else Reexecute (UPDATE_STATE s_start_req (c\<lparr>parser := (parser c)\<lparr>type := HTTP_REQUEST\<rparr>\<rparr>)))"

definition at_res_or_resp_H :: "'a ctx \<Rightarrow> 'a outcome" where
  "at_res_or_resp_H c =
    (if cur c = CHR ''T''
     then Break (UPDATE_STATE s_res_HT (c\<lparr>parser := (parser c)\<lparr>type := HTTP_RESPONSE\<rparr>\<rparr>))
     else if cur c \<noteq> CHR ''E'' then fail HPE_INVALID_CONSTANT c
     else Break (UPDATE_STATE s_req_method
            (c\<lparr>parser := (parser c)\<lparr>type := HTTP_REQUEST, method := HTTP_HEAD, index := 2\<rparr>\<rparr>)))"

definition at_start_res :: "'a exec_env \<Rightarrow> 'a ctx \<Rightarrow> 'a outcome" where
  "at_start_res env c =
    (if cur c = CR \<or> cur c = LF then Break c
     else let c = reset_message c
          in if cur c = CHR ''H''
             then CALLBACK_NOTIFY env N_message_begin (UPDATE_STATE s_res_H c) Break
             else fail HPE_INVALID_CONSTANT c)"

section \<open>Status line\<close>

text \<open>\<open>STRICT_CHECK(ch != x); UPDATE_STATE(s); break;\<close>\<close>

definition expect :: "char \<Rightarrow> state \<Rightarrow> 'a ctx \<Rightarrow> 'a outcome" where
  "expect x s c = STRICT_CHECK (cur c \<noteq> x) c (\<lambda>c. Break (UPDATE_STATE s c))"

definition at_res_HTTP :: "'a ctx \<Rightarrow> 'a outcome" where
  "at_res_HTTP c =
    (case p_state c of
       s_res_H \<Rightarrow> expect CHR ''T'' s_res_HT c
     | s_res_HT \<Rightarrow> expect CHR ''T'' s_res_HTT c
     | s_res_HTT \<Rightarrow> expect CHR ''P'' s_res_HTTP c
     | _ \<Rightarrow> expect CHR ''/'' s_res_http_major c)"

definition digit16 :: "char \<Rightarrow> u16" where
  "digit16 ch = of_nat (ord ch - ord CHR ''0'')"

definition at_res_http_version :: "'a ctx \<Rightarrow> 'a outcome" where
  "at_res_http_version c =
    (case p_state c of
       s_res_http_major \<Rightarrow>
         if \<not> IS_NUM (cur c) then fail HPE_INVALID_VERSION c
         else Break (UPDATE_STATE s_res_http_dot
                (c\<lparr>parser := (parser c)\<lparr>http_major := digit16 (cur c)\<rparr>\<rparr>))
     | s_res_http_dot \<Rightarrow>
         if cur c \<noteq> CHR ''.'' then fail HPE_INVALID_VERSION c
         else Break (UPDATE_STATE s_res_http_minor c)
     | s_res_http_minor \<Rightarrow>
         if \<not> IS_NUM (cur c) then fail HPE_INVALID_VERSION c
         else Break (UPDATE_STATE s_res_http_end
                (c\<lparr>parser := (parser c)\<lparr>http_minor := digit16 (cur c)\<rparr>\<rparr>))
     | _ \<Rightarrow>
         if cur c \<noteq> SP then fail HPE_INVALID_VERSION c
         else Break (UPDATE_STATE s_res_first_status_code c))"

definition at_res_first_status_code :: "'a ctx \<Rightarrow> 'a outcome" where
  "at_res_first_status_code c =
    (if \<not> IS_NUM (cur c) then
       if cur c = SP then Break c else fail HPE_INVALID_STATUS c
     else Break (UPDATE_STATE s_res_status_code
            (c\<lparr>parser := (parser c)\<lparr>status_code := digit16 (cur c)\<rparr>\<rparr>)))"

definition at_res_status_code :: "'a ctx \<Rightarrow> 'a outcome" where
  "at_res_status_code c =
    (if \<not> IS_NUM (cur c) then
       if cur c = SP then Break (UPDATE_STATE s_res_status_start c)
       else if cur c = CR \<or> cur c = LF then Reexecute (UPDATE_STATE s_res_status_start c)
       else fail HPE_INVALID_STATUS c
     else let c = c\<lparr>parser := (parser c)\<lparr>status_code := status_code (parser c) * 10 + digit16 (cur c)\<rparr>\<rparr>
          in if status_code (parser c) > 999 then fail HPE_INVALID_STATUS c else Break c)"

definition at_res_status_start :: "'a ctx \<Rightarrow> 'a outcome" where
  "at_res_status_start c =
    (let c = UPDATE_STATE s_res_status (MARK M_status c);
         c = c\<lparr>parser := (parser c)\<lparr>index := 0\<rparr>\<rparr>
     in if cur c = CR \<or> cur c = LF then Reexecute c else Break c)"

definition at_res_status :: "'a exec_env \<Rightarrow> 'a ctx \<Rightarrow> 'a outcome" where
  "at_res_status env c =
    (if cur c = CR then CALLBACK_DATA env M_status (UPDATE_STATE s_res_line_almost_done c) Break
     else if cur c = LF then CALLBACK_DATA env M_status (UPDATE_STATE s_header_field_start c) Break
     else Break c)"

section \<open>Request line\<close>

text \<open>The method that a first letter selects.\<close>

definition initial_method :: "char \<Rightarrow> http_method option" where
  "initial_method ch =
    map_of [(CHR ''A'', HTTP_ACL), (CHR ''B'', HTTP_BIND), (CHR ''C'', HTTP_CONNECT),
            (CHR ''D'', HTTP_DELETE), (CHR ''G'', HTTP_GET), (CHR ''H'', HTTP_HEAD),
            (CHR ''L'', HTTP_LOCK), (CHR ''M'', HTTP_MKCOL), (CHR ''N'', HTTP_NOTIFY),
            (CHR ''O'', HTTP_OPTIONS), (CHR ''P'', HTTP_POST), (CHR ''R'', HTTP_REPORT),
            (CHR ''S'', HTTP_SUBSCRIBE), (CHR ''T'', HTTP_TRACE), (CHR ''U'', HTTP_UNLOCK)] ch"

text \<open>On an unknown letter the source has already set \<open>method\<close> to 0 and \<open>index\<close> to 1.\<close>

definition at_start_req :: "'a exec_env \<Rightarrow> 'a ctx \<Rightarrow> 'a outcome" where
  "at_start_req env c =
    (if cur c = CR \<or> cur c = LF then Break c
     else let c = reset_message c
          in if \<not> IS_ALPHA (cur c) then fail HPE_INVALID_METHOD c
             else let c = c\<lparr>parser := (parser c)\<lparr>method := HTTP_DELETE, index := 1\<rparr>\<rparr>
                  in case initial_method (cur c) of
                       None \<Rightarrow> fail HPE_INVALID_METHOD c
                     | Some m \<Rightarrow>
                         CALLBACK_NOTIFY env N_message_begin
                           (UPDATE_STATE s_req_method (c\<lparr>parser := (parser c)\<lparr>method := m\<rparr>\<rparr>)) Break)"

text \<open>
  \<open>switch (parser->method << 16 | parser->index << 8 | ch)\<close>: the three parts occupy disjoint
  bits, so the cases compare triples.
\<close>

definition method_switch :: "http_method \<Rightarrow> nat \<Rightarrow> char \<Rightarrow> http_method option" where
  "method_switch m i ch =
    map_of
      [((HTTP_POST, 1, CHR ''U''), HTTP_PUT),
       ((HTTP_POST, 1, CHR ''A''), HTTP_PATCH),
       ((HTTP_POST, 1, CHR ''R''), HTTP_PROPFIND),
       ((HTTP_PUT, 2, CHR ''R''), HTTP_PURGE),
       ((HTTP_CONNECT, 1, CHR ''H''), HTTP_CHECKOUT),
       ((HTTP_CONNECT, 2, CHR ''P''), HTTP_COPY),
       ((HTTP_MKCOL, 1, CHR ''O''), HTTP_MOVE),
       ((HTTP_MKCOL, 1, CHR ''E''), HTTP_MERGE),
       ((HTTP_MKCOL, 1, CHR ''-''), HTTP_MSEARCH),
       ((HTTP_MKCOL, 2, CHR ''A''), HTTP_MKACTIVITY),
       ((HTTP_MKCOL, 3, CHR ''A''), HTTP_MKCALENDAR),
       ((HTTP_SUBSCRIBE, 1, CHR ''E''), HTTP_SEARCH),
       ((HTTP_SUBSCRIBE, 1, CHR ''O''), HTTP_SOURCE),
       ((HTTP_REPORT, 2, CHR ''B''), HTTP_REBIND),
       ((HTTP_PROPFIND, 4, CHR ''P''), HTTP_PROPPATCH),
       ((HTTP_LOCK, 1, CHR ''I''), HTTP_LINK),
       ((HTTP_UNLOCK, 2, CHR ''S''), HTTP_UNSUBSCRIBE),
       ((HTTP_UNLOCK, 2, CHR ''B''), HTTP_UNBIND),
       ((HTTP_UNLOCK, 3, CHR ''I''), HTTP_UNLINK)] (m, i, ch)"

text \<open>
  What the case does to method and state, before \<open>++parser->index\<close>.  \<open>None\<close> is the error;
  reading \<open>matcher[parser->index]\<close> past the terminating NUL is modelled as \<open>Abort\<close>.
\<close>

definition method_char :: "http_method \<Rightarrow> nat \<Rightarrow> char \<Rightarrow> (http_method \<times> state) option" where
  "method_char m i ch =
    (if ch = SP \<and> cstr_at (method_strings m) i = Some NUL then Some (m, s_req_spaces_before_url)
     else if cstr_at (method_strings m) i = Some ch then Some (m, s_req_method)
     else if ord CHR ''A'' \<le> ord ch \<and> ord ch \<le> ord CHR ''Z'' \<or> ch = CHR ''-''
     then map_option (\<lambda>m'. (m', s_req_method)) (method_switch m i ch)
     else None)"

definition at_req_method :: "'a ctx \<Rightarrow> 'a outcome" where
  "at_req_method c =
    (if cur c = NUL then fail HPE_INVALID_METHOD c
     else if cstr_at (method_strings (method (parser c))) (unat (index (parser c))) = None then Abort
     else case method_char (method (parser c)) (unat (index (parser c))) (cur c) of
            None \<Rightarrow> fail HPE_INVALID_METHOD c
          | Some (m, s) \<Rightarrow>
              Break (UPDATE_STATE s
                (c\<lparr>parser := (parser c)\<lparr>method := m, index := index (parser c) + 1\<rparr>\<rparr>)))"

text \<open>\<open>UPDATE_STATE(parse_url_char(CURRENT_STATE(), ch))\<close> and the test for \<open>s_dead\<close>.\<close>

definition url_char :: "'a ctx \<Rightarrow> 'a outcome" where
  "url_char c =
    (let c = UPDATE_STATE (parse_url_char (p_state c) (cur c)) c
     in if p_state c = s_dead then fail HPE_INVALID_URL c else Break c)"

definition at_req_spaces_before_url :: "'a ctx \<Rightarrow> 'a outcome" where
  "at_req_spaces_before_url c =
    (if cur c = SP then Break c
     else let c = MARK M_url c
          in url_char (if method (parser c) = HTTP_CONNECT then UPDATE_STATE s_req_server_start c else c))"

definition at_req_schema :: "'a ctx \<Rightarrow> 'a outcome" where
  "at_req_schema c =
    (if cur c = SP \<or> cur c = CR \<or> cur c = LF then fail HPE_INVALID_URL c else url_char c)"

definition at_req_url :: "'a exec_env \<Rightarrow> 'a ctx \<Rightarrow> 'a outcome" where
  "at_req_url env c =
    (if cur c = SP then CALLBACK_DATA env M_url (UPDATE_STATE s_req_http_start c) Break
     else if cur c = CR \<or> cur c = LF then
       CALLBACK_DATA env M_url
         (UPDATE_STATE (if cur c = CR then s_req_line_almost_done else s_header_field_start)
           (c\<lparr>parser := (parser c)\<lparr>http_major := 0, http_minor := 9\<rparr>\<rparr>)) Break
     else url_char c)"

definition at_req_http_start :: "'a ctx \<Rightarrow> 'a outcome" where
  "at_req_http_start c =
    (if cur c = SP then Break c
     else if cur c = CHR ''H'' then Break (UPDATE_STATE s_req_http_H c)
     else if cur c = CHR ''I'' \<and> method (parser c) = HTTP_SOURCE
     then Break (UPDATE_STATE s_req_http_I c)
     else fail HPE_INVALID_CONSTANT c)"

definition at_req_HTTP :: "'a ctx \<Rightarrow> 'a outcome" where
  "at_req_HTTP c =
    (case p_state c of
       s_req_http_H \<Rightarrow> expect CHR ''T'' s_req_http_HT c
     | s_req_http_HT \<Rightarrow> expect CHR ''T'' s_req_http_HTT c
     | s_req_http_HTT \<Rightarrow> expect CHR ''P'' s_req_http_HTTP c
     | s_req_http_I \<Rightarrow> expect CHR ''C'' s_req_http_IC c
     | s_req_http_IC \<Rightarrow> expect CHR ''E'' s_req_http_HTTP c
     | _ \<Rightarrow> expect CHR ''/'' s_req_http_major c)"

definition at_req_http_version :: "'a ctx \<Rightarrow> 'a outcome" where
  "at_req_http_version c =
    (case p_state c of
       s_req_http_major \<Rightarrow>
         if \<not> IS_NUM (cur c) then fail HPE_INVALID_VERSION c
         else Break (UPDATE_STATE s_req_http_dot
                (c\<lparr>parser := (parser c)\<lparr>http_major := digit16 (cur c)\<rparr>\<rparr>))
     | s_req_http_dot \<Rightarrow>
         if cur c \<noteq> CHR ''.'' then fail HPE_INVALID_VERSION c
         else Break (UPDATE_STATE s_req_http_minor c)
     | _ \<Rightarrow>
         if \<not> IS_NUM (cur c) then fail HPE_INVALID_VERSION c
         else Break (UPDATE_STATE s_req_http_end
                (c\<lparr>parser := (parser c)\<lparr>http_minor := digit16 (cur c)\<rparr>\<rparr>)))"

definition at_req_http_end :: "'a ctx \<Rightarrow> 'a outcome" where
  "at_req_http_end c =
    (if cur c = CR then Break (UPDATE_STATE s_req_line_almost_done c)
     else if cur c = LF then Break (UPDATE_STATE s_header_field_start c)
     else fail HPE_INVALID_VERSION c)"

definition at_req_line_almost_done :: "'a ctx \<Rightarrow> 'a outcome" where
  "at_req_line_almost_done c =
    (if cur c \<noteq> LF then fail HPE_LF_EXPECTED c else Break (UPDATE_STATE s_header_field_start c))"

section \<open>Header fields\<close>

definition at_header_field_start :: "'a ctx \<Rightarrow> 'a outcome" where
  "at_header_field_start c =
    (if cur c = CR then Break (UPDATE_STATE s_headers_almost_done c)
     else if cur c = LF then Reexecute (UPDATE_STATE s_headers_almost_done c)
     else let t = TOKEN (cur c)
          in if t = NUL then fail HPE_INVALID_HEADER_TOKEN c
             else let c = UPDATE_STATE s_header_field (MARK M_header_field c)
                  in Break (c\<lparr>parser := (parser c)\<lparr>index := 0,
                       header_state :=
                         (if t = CHR ''c'' then h_C
                          else if t = CHR ''p'' then h_matching_proxy_connection
                          else if t = CHR ''t'' then h_matching_transfer_encoding
                          else if t = CHR ''u'' then h_matching_upgrade
                          else h_general)\<rparr>\<rparr>))"

definition at_header_field :: "'a exec_env \<Rightarrow> 'a ctx \<Rightarrow> 'a outcome" where
  "at_header_field env c =
    (let start = ptr c
     in case field_loop (data env) (max_header_size env) start (cur c) (parser c) of
          None \<Rightarrow> Abort
        | Some (i, ch, pr) \<Rightarrow>
            let c = c\<lparr>ptr := i, cur := ch, parser := pr\<rparr>
            in if i = data_end env then
                 let c = c\<lparr>ptr := i - 1\<rparr> in COUNT_HEADER_SIZE env (ptr c - start) c Break
               else COUNT_HEADER_SIZE env (ptr c - start) c (\<lambda>c.
                 if cur c = CHR '':''
                 then CALLBACK_DATA env M_header_field (UPDATE_STATE s_header_value_discard_ws c) Break
                 else fail HPE_INVALID_HEADER_TOKEN c))"

definition at_header_value_start :: "'a ctx \<Rightarrow> 'a outcome" where
  "at_header_value_start c =
    (let c = UPDATE_STATE s_header_value (MARK M_header_value c);
         c = c\<lparr>parser := (parser c)\<lparr>index := 0\<rparr>\<rparr>;
         l = LOWER (cur c);
         to = (\<lambda>h. Break (c\<lparr>parser := (parser c)\<lparr>header_state := h\<rparr>\<rparr>))
     in case header_state (parser c) of
          h_upgrade \<Rightarrow>
            Break (c\<lparr>parser := (parser c)\<lparr>flags := flags (parser c) OR F_UPGRADE,
                                           header_state := h_general\<rparr>\<rparr>)
        | h_transfer_encoding \<Rightarrow>
            to (if l = CHR ''c'' then h_matching_transfer_encoding_chunked
                else h_matching_transfer_encoding_token)
        | h_matching_transfer_encoding_token_start \<Rightarrow> Break c
        | h_content_length \<Rightarrow>
            if \<not> IS_NUM (cur c) then fail HPE_INVALID_CONTENT_LENGTH c
            else if has_flag (flags (parser c)) F_CONTENTLENGTH
            then fail HPE_UNEXPECTED_CONTENT_LENGTH c
            else Break (c\<lparr>parser := (parser c)\<lparr>flags := flags (parser c) OR F_CONTENTLENGTH,
                   content_length := of_nat (ord (cur c) - ord CHR ''0''),
                   header_state := h_content_length_num\<rparr>\<rparr>)
        | h_content_length_ws \<Rightarrow> Break c
        | h_connection \<Rightarrow>
            to (if l = CHR ''k'' then h_matching_connection_keep_alive
                else if l = CHR ''c'' then h_matching_connection_close
                else if l = CHR ''u'' then h_matching_connection_upgrade
                else h_matching_connection_token)
        | h_matching_connection_token_start \<Rightarrow> Break c
        | _ \<Rightarrow> to h_general)"

text \<open>This case falls through into the one above.\<close>

definition at_header_value_discard_ws :: "'a ctx \<Rightarrow> 'a outcome" where
  "at_header_value_discard_ws c =
    (if cur c = SP \<or> cur c = HT then Break c
     else if cur c = CR then Break (UPDATE_STATE s_header_value_discard_ws_almost_done c)
     else if cur c = LF then Break (UPDATE_STATE s_header_value_discard_lws c)
     else at_header_value_start c)"

definition at_header_value :: "'a exec_env \<Rightarrow> 'a ctx \<Rightarrow> 'a outcome" where
  "at_header_value env c =
    (let start = ptr c
     in case value_loop (data env) (max_header_size env) (lenient env) start (cur c)
               (header_state (parser c)) (parser c) of
          (stop, i, ch, h, pr) \<Rightarrow>
            let c = c\<lparr>ptr := i, cur := ch, parser := pr\<rparr>;
                store = (\<lambda>c. c\<lparr>parser := (parser c)\<lparr>header_state := h\<rparr>\<rparr>);
                leave = (\<lambda>c. let c = store c;
                                 c = (if ptr c = data_end env then c\<lparr>ptr := ptr c - 1\<rparr> else c)
                             in COUNT_HEADER_SIZE env (ptr c - start) c Break)
            in case stop of
                 Stop_end \<Rightarrow> leave c
               | Stop_CR \<Rightarrow>
                   CALLBACK_DATA env M_header_value (store (UPDATE_STATE s_header_almost_done c)) leave
               | Stop_LF \<Rightarrow>
                   COUNT_HEADER_SIZE env (ptr c - start) (UPDATE_STATE s_header_almost_done c)
                     (\<lambda>c. CALLBACK_DATA_NOADVANCE env M_header_value (store c) Reexecute)
               | Stop_invalid \<Rightarrow> fail HPE_INVALID_HEADER_TOKEN c
               | Stop_error e \<Rightarrow> goto_error (store (SET_ERRNO e c))
               | Stop_assert \<Rightarrow> Abort)"

definition at_header_almost_done :: "'a ctx \<Rightarrow> 'a outcome" where
  "at_header_almost_done c =
    (if cur c \<noteq> LF then fail HPE_LF_EXPECTED c else Break (UPDATE_STATE s_header_value_lws c))"

text \<open>The flag that a finished header value sets.\<close>

definition finished_flag :: "header_states \<Rightarrow> u8" where
  "finished_flag h =
    (case h of
       h_connection_keep_alive \<Rightarrow> F_CONNECTION_KEEP_ALIVE
     | h_connection_close \<Rightarrow> F_CONNECTION_CLOSE
     | h_transfer_encoding_chunked \<Rightarrow> F_CHUNKED
     | h_connection_upgrade \<Rightarrow> F_CONNECTION_UPGRADE
     | _ \<Rightarrow> 0)"

definition finish_header :: "'a ctx \<Rightarrow> 'a ctx" where
  "finish_header c =
    c\<lparr>parser := (parser c)\<lparr>flags := flags (parser c) OR finished_flag (header_state (parser c))\<rparr>\<rparr>"

definition at_header_value_lws :: "'a ctx \<Rightarrow> 'a outcome" where
  "at_header_value_lws c =
    (if cur c = SP \<or> cur c = HT then
       let c = (if header_state (parser c) = h_content_length_num
                then c\<lparr>parser := (parser c)\<lparr>header_state := h_content_length_ws\<rparr>\<rparr> else c)
       in Reexecute (UPDATE_STATE s_header_value_start c)
     else Reexecute (UPDATE_STATE s_header_field_start (finish_header c)))"

definition at_header_value_discard_lws :: "'a exec_env \<Rightarrow> 'a ctx \<Rightarrow> 'a outcome" where
  "at_header_value_discard_lws env c =
    (if cur c = SP \<or> cur c = HT then Break (UPDATE_STATE s_header_value_discard_ws c)
     else if header_state (parser c) = h_content_length then fail HPE_INVALID_CONTENT_LENGTH c
     else CALLBACK_DATA_NOADVANCE env M_header_value
            (UPDATE_STATE s_header_field_start (MARK M_header_value (finish_header c))) Reexecute)"

section \<open>End of the head\<close>

text \<open>Whether the connection leaves HTTP after this head.\<close>

definition upgrade_requested :: "http_parser \<Rightarrow> bool" where
  "upgrade_requested pr =
    (if has_flag (flags pr) F_UPGRADE \<and> has_flag (flags pr) F_CONNECTION_UPGRADE
     then type pr = HTTP_REQUEST \<or> status_code pr = 101
     else method pr = HTTP_CONNECT)"

definition at_headers_almost_done :: "'a exec_env \<Rightarrow> 'a ctx \<Rightarrow> 'a outcome" where
  "at_headers_almost_done env c =
    STRICT_CHECK (cur c \<noteq> LF) c (\<lambda>c.
      if has_flag (flags (parser c)) F_TRAILING
      then CALLBACK_NOTIFY_NOADVANCE env N_chunk_complete (UPDATE_STATE s_message_done c) Reexecute
      else if has_flag (extra_flags (parser c)) F_TRANSFER_ENCODING_hi \<and>
              has_flag (flags (parser c)) F_CONTENTLENGTH \<and>
              (\<not> lenient env \<or> has_flag (flags (parser c)) F_CHUNKED)
      then fail HPE_UNEXPECTED_CONTENT_LENGTH c
      else let c = UPDATE_STATE s_headers_done c;
               c = c\<lparr>parser := (parser c)\<lparr>upgrade := upgrade_requested (parser c)\<rparr>\<rparr>;
               k = (\<lambda>c. if http_errno (parser c) \<noteq> HPE_OK then RETURN (ptr c) c else Reexecute c)
           in case on_headers_complete (settings env) of
                None \<Rightarrow> k c
              | Some f \<Rightarrow>
                  (case f (parser c) (app c) of (r, pr, a) \<Rightarrow>
                     let c = c\<lparr>parser := pr, app := a\<rparr>;
                         skip = (\<lambda>pr. pr\<lparr>flags := flags pr OR F_SKIPBODY\<rparr>)
                     in if r = 0 then k c
                        else if r = 2 then k (c\<lparr>parser := skip (pr\<lparr>upgrade := True\<rparr>)\<rparr>)
                        else if r = 1 then k (c\<lparr>parser := skip pr\<rparr>)
                        else let c = SET_ERRNO HPE_CB_headers_complete c in RETURN (ptr c) c))"

definition has_body :: "http_parser \<Rightarrow> bool" where
  "has_body pr \<longleftrightarrow>
    has_flag (flags pr) F_CHUNKED \<or> content_length pr > 0 \<and> content_length pr \<noteq> - 1"

definition message_complete :: "'a exec_env \<Rightarrow> 'a ctx \<Rightarrow> ('a ctx \<Rightarrow> 'a outcome) \<Rightarrow> 'a outcome" where
  "message_complete env c k =
    CALLBACK_NOTIFY env N_message_complete (UPDATE_STATE (NEW_MESSAGE (parser c)) c) k"

definition at_headers_done :: "'a exec_env \<Rightarrow> 'a ctx \<Rightarrow> 'a outcome" where
  "at_headers_done env c =
    STRICT_CHECK (cur c \<noteq> LF) c (\<lambda>c.
      let c = c\<lparr>parser := (parser c)\<lparr>nread := 0\<rparr>, n_read := 0\<rparr>; pr = parser c
      in if upgrade pr \<and>
            (method pr = HTTP_CONNECT \<or> has_flag (flags pr) F_SKIPBODY \<or> \<not> has_body pr)
         then message_complete env c (\<lambda>c. RETURN (ptr c + 1) c)
         else if has_flag (flags pr) F_SKIPBODY then message_complete env c Break
         else if has_flag (flags pr) F_CHUNKED then Break (UPDATE_STATE s_chunk_size_start c)
         else if has_flag (extra_flags pr) F_TRANSFER_ENCODING_hi then
           if type pr = HTTP_REQUEST \<and> \<not> lenient env
           then let c = SET_ERRNO HPE_INVALID_TRANSFER_ENCODING c in RETURN (ptr c) c
           else Break (UPDATE_STATE s_body_identity_eof c)
         else if content_length pr = 0 then message_complete env c Break
         else if content_length pr \<noteq> - 1 then Break (UPDATE_STATE s_body_identity c)
         else if \<not> sn_http_message_needs_eof pr then message_complete env c Break
         else Break (UPDATE_STATE s_body_identity_eof c))"

section \<open>Bodies\<close>

text \<open>\<open>MIN(parser->content_length, (uint64_t) ((data + len) - p))\<close>\<close>

definition to_read :: "'a exec_env \<Rightarrow> 'a ctx \<Rightarrow> u64" where
  "to_read env c = min (content_length (parser c)) (of_nat (data_end env - ptr c))"

definition take_body :: "u64 \<Rightarrow> 'a ctx \<Rightarrow> 'a ctx" where
  "take_body n c =
    c\<lparr>parser := (parser c)\<lparr>content_length := content_length (parser c) - n\<rparr>,
      ptr := ptr c + unat n - 1\<rparr>"

definition at_body_identity :: "'a exec_env \<Rightarrow> 'a ctx \<Rightarrow> 'a outcome" where
  "at_body_identity env c =
    (let n = to_read env c
     in if content_length (parser c) = 0 \<or> content_length (parser c) = - 1 then Abort
        else let c = take_body n (MARK M_body c)
             in if content_length (parser c) = 0
                then callback_data env M_body (ptr c + 1) (ptr c) (UPDATE_STATE s_message_done c) Reexecute
                else Break c)"

definition at_body_identity_eof :: "'a exec_env \<Rightarrow> 'a ctx \<Rightarrow> 'a outcome" where
  "at_body_identity_eof env c = Break ((MARK M_body c)\<lparr>ptr := data_end env - 1\<rparr>)"

definition at_message_done :: "'a exec_env \<Rightarrow> 'a ctx \<Rightarrow> 'a outcome" where
  "at_message_done env c =
    message_complete env c (\<lambda>c. if upgrade (parser c) then RETURN (ptr c + 1) c else Break c)"

section \<open>Chunks\<close>

definition at_chunk_size_start :: "'a ctx \<Rightarrow> 'a outcome" where
  "at_chunk_size_start c =
    (if n_read c \<noteq> 1 \<or> \<not> has_flag (flags (parser c)) F_CHUNKED then Abort
     else let v = unhex ! ord (cur c)
          in if v = - 1 then fail HPE_INVALID_CHUNK_SIZE c
             else Break (UPDATE_STATE s_chunk_size (c\<lparr>parser := (parser c)\<lparr>content_length := of_int v\<rparr>\<rparr>)))"

definition at_chunk_size :: "'a ctx \<Rightarrow> 'a outcome" where
  "at_chunk_size c =
    (if \<not> has_flag (flags (parser c)) F_CHUNKED then Abort
     else if cur c = CR then Break (UPDATE_STATE s_chunk_size_almost_done c)
     else let v = unhex ! ord (cur c)
          in if v = - 1 then
               if cur c = CHR '';'' \<or> cur c = SP then Break (UPDATE_STATE s_chunk_parameters c)
               else fail HPE_INVALID_CHUNK_SIZE c
             else let t = content_length (parser c) * 16 + of_int v
                  in if (- 1 - 16) div 16 < content_length (parser c)
                     then fail HPE_INVALID_CONTENT_LENGTH c
                     else Break (c\<lparr>parser := (parser c)\<lparr>content_length := t\<rparr>\<rparr>))"

definition at_chunk_parameters :: "'a ctx \<Rightarrow> 'a outcome" where
  "at_chunk_parameters c =
    (if \<not> has_flag (flags (parser c)) F_CHUNKED then Abort
     else if cur c = CR then Break (UPDATE_STATE s_chunk_size_almost_done c)
     else Break c)"

definition at_chunk_size_almost_done :: "'a exec_env \<Rightarrow> 'a ctx \<Rightarrow> 'a outcome" where
  "at_chunk_size_almost_done env c =
    (if \<not> has_flag (flags (parser c)) F_CHUNKED then Abort
     else STRICT_CHECK (cur c \<noteq> LF) c (\<lambda>c.
       let c = c\<lparr>parser := (parser c)\<lparr>nread := 0\<rparr>, n_read := 0\<rparr>;
           c = (if content_length (parser c) = 0
                then UPDATE_STATE s_header_field_start
                       (c\<lparr>parser := (parser c)\<lparr>flags := flags (parser c) OR F_TRAILING\<rparr>\<rparr>)
                else UPDATE_STATE s_chunk_data c)
       in CALLBACK_NOTIFY env N_chunk_header c Break))"

definition at_chunk_data :: "'a exec_env \<Rightarrow> 'a ctx \<Rightarrow> 'a outcome" where
  "at_chunk_data env c =
    (let n = to_read env c
     in if \<not> has_flag (flags (parser c)) F_CHUNKED \<or>
           content_length (parser c) = 0 \<or> content_length (parser c) = - 1 then Abort
        else let c = take_body n (MARK M_body c)
             in if content_length (parser c) = 0
                then Break (UPDATE_STATE s_chunk_data_almost_done c)
                else Break c)"

definition at_chunk_data_almost_done :: "'a exec_env \<Rightarrow> 'a ctx \<Rightarrow> 'a outcome" where
  "at_chunk_data_almost_done env c =
    (if \<not> has_flag (flags (parser c)) F_CHUNKED \<or> content_length (parser c) \<noteq> 0 then Abort
     else STRICT_CHECK (cur c \<noteq> CR) c (\<lambda>c.
       CALLBACK_DATA env M_body (UPDATE_STATE s_chunk_data_done c) Break))"

definition at_chunk_data_done :: "'a exec_env \<Rightarrow> 'a ctx \<Rightarrow> 'a outcome" where
  "at_chunk_data_done env c =
    (if \<not> has_flag (flags (parser c)) F_CHUNKED then Abort
     else STRICT_CHECK (cur c \<noteq> LF) c (\<lambda>c.
       CALLBACK_NOTIFY env N_chunk_complete
         (UPDATE_STATE s_chunk_size_start (c\<lparr>parser := (parser c)\<lparr>nread := 0\<rparr>, n_read := 0\<rparr>)) Break))"

section \<open>The switch and the loop\<close>

definition step :: "'a exec_env \<Rightarrow> 'a ctx \<Rightarrow> 'a outcome" where
  "step env c =
    (case p_state c of
       s_dead \<Rightarrow> at_dead c
     | s_start_req_or_res \<Rightarrow> at_start_req_or_res env c
     | s_res_or_resp_H \<Rightarrow> at_res_or_resp_H c
     | s_start_res \<Rightarrow> at_start_res env c
     | s_res_H \<Rightarrow> at_res_HTTP c
     | s_res_HT \<Rightarrow> at_res_HTTP c
     | s_res_HTT \<Rightarrow> at_res_HTTP c
     | s_res_HTTP \<Rightarrow> at_res_HTTP c
     | s_res_http_major \<Rightarrow> at_res_http_version c
     | s_res_http_dot \<Rightarrow> at_res_http_version c
     | s_res_http_minor \<Rightarrow> at_res_http_version c
     | s_res_http_end \<Rightarrow> at_res_http_version c
     | s_res_first_status_code \<Rightarrow> at_res_first_status_code c
     | s_res_status_code \<Rightarrow> at_res_status_code c
     | s_res_status_start \<Rightarrow> at_res_status_start c
     | s_res_status \<Rightarrow> at_res_status env c
     | s_res_line_almost_done \<Rightarrow> expect LF s_header_field_start c
     | s_start_req \<Rightarrow> at_start_req env c
     | s_req_method \<Rightarrow> at_req_method c
     | s_req_spaces_before_url \<Rightarrow> at_req_spaces_before_url c
     | s_req_schema \<Rightarrow> at_req_schema c
     | s_req_schema_slash \<Rightarrow> at_req_schema c
     | s_req_schema_slash_slash \<Rightarrow> at_req_schema c
     | s_req_server_start \<Rightarrow> at_req_schema c
     | s_req_server \<Rightarrow> at_req_url env c
     | s_req_server_with_at \<Rightarrow> at_req_url env c
     | s_req_path \<Rightarrow> at_req_url env c
     | s_req_query_string_start \<Rightarrow> at_req_url env c
     | s_req_query_string \<Rightarrow> at_req_url env c
     | s_req_fragment_start \<Rightarrow> at_req_url env c
     | s_req_fragment \<Rightarrow> at_req_url env c
     | s_req_http_start \<Rightarrow> at_req_http_start c
     | s_req_http_H \<Rightarrow> at_req_HTTP c
     | s_req_http_HT \<Rightarrow> at_req_HTTP c
     | s_req_http_HTT \<Rightarrow> at_req_HTTP c
     | s_req_http_HTTP \<Rightarrow> at_req_HTTP c
     | s_req_http_I \<Rightarrow> at_req_HTTP c
     | s_req_http_IC \<Rightarrow> at_req_HTTP c
     | s_req_http_major \<Rightarrow> at_req_http_version c
     | s_req_http_dot \<Rightarrow> at_req_http_version c
     | s_req_http_minor \<Rightarrow> at_req_http_version c
     | s_req_http_end \<Rightarrow> at_req_http_end c
     | s_req_line_almost_done \<Rightarrow> at_req_line_almost_done c
     | s_header_field_start \<Rightarrow> at_header_field_start c
     | s_header_field \<Rightarrow> at_header_field env c
     | s_header_value_discard_ws \<Rightarrow> at_header_value_discard_ws c
     | s_header_value_discard_ws_almost_done \<Rightarrow> expect LF s_header_value_discard_lws c
     | s_header_value_discard_lws \<Rightarrow> at_header_value_discard_lws env c
     | s_header_value_start \<Rightarrow> at_header_value_start c
     | s_header_value \<Rightarrow> at_header_value env c
     | s_header_value_lws \<Rightarrow> at_header_value_lws c
     | s_header_almost_done \<Rightarrow> at_header_almost_done c
     | s_chunk_size_start \<Rightarrow> at_chunk_size_start c
     | s_chunk_size \<Rightarrow> at_chunk_size c
     | s_chunk_parameters \<Rightarrow> at_chunk_parameters c
     | s_chunk_size_almost_done \<Rightarrow> at_chunk_size_almost_done env c
     | s_headers_almost_done \<Rightarrow> at_headers_almost_done env c
     | s_headers_done \<Rightarrow> at_headers_done env c
     | s_chunk_data \<Rightarrow> at_chunk_data env c
     | s_chunk_data_almost_done \<Rightarrow> at_chunk_data_almost_done env c
     | s_chunk_data_done \<Rightarrow> at_chunk_data_done env c
     | s_body_identity \<Rightarrow> at_body_identity env c
     | s_body_identity_eof \<Rightarrow> at_body_identity_eof env c
     | s_message_done \<Rightarrow> at_message_done env c)"

text \<open>After the last byte: the assertion on the marks, and their callbacks in series.\<close>

definition marks_set :: "'a ctx \<Rightarrow> nat" where
  "marks_set c = length (filter (\<lambda>m. marks c m \<noteq> None)
     [M_header_field, M_header_value, M_url, M_body, M_status])"

definition loop_end :: "'a exec_env \<Rightarrow> 'a ctx \<Rightarrow> 'a outcome" where
  "loop_end env c =
    (if \<not> marks_set c \<le> 1 then Abort
     else CALLBACK_DATA_NOADVANCE env M_header_field c (\<lambda>c.
          CALLBACK_DATA_NOADVANCE env M_header_value c (\<lambda>c.
          CALLBACK_DATA_NOADVANCE env M_url c (\<lambda>c.
          CALLBACK_DATA_NOADVANCE env M_body c (\<lambda>c.
          CALLBACK_DATA_NOADVANCE env M_status c (\<lambda>c.
          RETURN (data_end env) c))))))"

text \<open>The loop test, and the statements before the label \<open>reexecute\<close>.\<close>

definition loop_head :: "'a exec_env \<Rightarrow> 'a ctx \<Rightarrow> 'a outcome" where
  "loop_head env c =
    (if ptr c = data_end env then loop_end env c
     else let c = c\<lparr>cur := data env ! ptr c\<rparr>
          in if PARSING_HEADER (p_state c) then COUNT_HEADER_SIZE env 1 c Reexecute
             else Reexecute c)"

datatype 'a exec_result = Returned nat http_parser 'a | Aborted

text \<open>
  Control flow between the cases.  A callback may store any state in the parser, so in general
  the chain of \<open>goto reexecute\<close> need not end: \<open>None\<close> is a run that does not return.
\<close>

partial_function (option) run :: "'a exec_env \<Rightarrow> 'a outcome \<Rightarrow> 'a exec_result option" where
  "run env out =
    (case out of
       Abort \<Rightarrow> Some Aborted
     | Return n pr a \<Rightarrow> Some (Returned n pr a)
     | Reexecute c \<Rightarrow> run env (step env c)
     | Break c \<Rightarrow> run env (loop_head env (c\<lparr>ptr := ptr c + 1\<rparr>)))"

declare run.simps [code]

definition initial_marks :: "state \<Rightarrow> mark \<Rightarrow> nat option" where
  "initial_marks s m =
    (if s = s_header_field \<and> m = M_header_field \<or>
        s = s_header_value \<and> m = M_header_value \<or>
        s \<in> {s_req_path, s_req_schema, s_req_schema_slash, s_req_schema_slash_slash,
              s_req_server_start, s_req_server, s_req_server_with_at,
              s_req_query_string_start, s_req_query_string, s_req_fragment_start,
              s_req_fragment} \<and> m = M_url \<or>
        s = s_res_status \<and> m = M_status
     then Some 0 else None)"

definition exec_entry :: "'a exec_env \<Rightarrow> http_parser \<Rightarrow> 'a \<Rightarrow> 'a outcome" where
  "exec_entry env pr a =
    (let c = \<lparr>parser = pr, app = a, cur = NUL, ptr = 0, p_state = state pr, n_read = nread pr,
              marks = (\<lambda>_. None)\<rparr>
     in if http_errno pr \<noteq> HPE_OK then Return 0 pr a
        else if data_end env = 0 then
          (if p_state c = s_body_identity_eof
           then CALLBACK_NOTIFY_NOADVANCE env N_message_complete c (\<lambda>c. Return 0 (parser c) (app c))
           else if p_state c \<in> {s_dead, s_start_req_or_res, s_start_res, s_start_req}
           then Return 0 pr a
           else Return 1 (parser (SET_ERRNO HPE_INVALID_EOF_STATE c)) a)
        else loop_head env (c\<lparr>marks := initial_marks (state pr)\<rparr>))"

definition sn_http_parser_execute ::
  "'a http_parser_settings \<Rightarrow> u32 \<Rightarrow> http_parser \<Rightarrow> 'a \<Rightarrow> byte list \<Rightarrow> 'a exec_result option"
where
  "sn_http_parser_execute st mhs pr a d =
    (let env = \<lparr>settings = st, max_header_size = mhs, data = d, lenient = lenient_http_headers pr\<rparr>
     in run env (exec_entry env pr a))"

section \<open>Life cycle of a parser\<close>

definition sn_http_parser_init :: "http_parser_type \<Rightarrow> http_parser" where
  "sn_http_parser_init t =
    \<lparr>type = t, flags = 0,
     state = (if t = HTTP_REQUEST then s_start_req
              else if t = HTTP_RESPONSE then s_start_res else s_start_req_or_res),
     header_state = h_general, index = 0, extra_flags = 0, lenient_http_headers = False,
     nread = 0, content_length = 0, http_major = 0, http_minor = 0, status_code = 0,
     method = HTTP_DELETE, http_errno = HPE_OK, upgrade = False\<rparr>"

definition sn_http_parser_settings_init :: "'a http_parser_settings" where
  "sn_http_parser_settings_init =
    \<lparr>on_message_begin = None, on_url = None, on_status = None, on_header_field = None,
     on_header_value = None, on_headers_complete = None, on_body = None,
     on_message_complete = None, on_chunk_header = None, on_chunk_complete = None\<rparr>"

text \<open>\<open>None\<close> is the failing assertion.\<close>

definition http_parser_pause :: "http_parser \<Rightarrow> bool \<Rightarrow> http_parser option" where
  "http_parser_pause pr paused =
    (if http_errno pr = HPE_OK \<or> http_errno pr = HPE_PAUSED
     then Some (set_errno (nread pr) (if paused then HPE_PAUSED else HPE_OK) pr)
     else None)"

definition http_body_is_final :: "http_parser \<Rightarrow> bool" where
  "http_body_is_final pr \<longleftrightarrow> state pr = s_message_done"

end
