(* ===== verification/HttpInvariant.thy ===== *)
theory HttpInvariant
  imports HttpMachine
begin

text \<open>
  Safety and termination of \<open>sn_http_parser_execute\<close>.  Between two calls a parser satisfies
  \<open>parser_ok\<close>; inside a call a context satisfies \<open>ctx_inv\<close> whenever the switch is entered.
  Every case of the switch keeps the invariant, advances, and never reaches a failing
  assertion, for any callbacks that only pause the parser.
\<close>

section \<open>The contract of the callbacks\<close>

text \<open>
  What the parser relies on: a callback that returns leaves the parser as it got it, except
  that it may have paused it (\<open>http_parser_pause\<close>).
\<close>

definition only_pauses :: "http_parser \<Rightarrow> http_parser \<Rightarrow> bool" where
  "only_pauses pr pr' \<longleftrightarrow> pr' = pr \<or> pr' = pr\<lparr>http_errno := HPE_PAUSED\<rparr>"

locale quiet_callbacks =
  fixes st :: "'a http_parser_settings"
  assumes notify_quiet:
      "\<lbrakk>notify_cb st n = Some f; f pr a = (r, pr', a')\<rbrakk> \<Longrightarrow> only_pauses pr pr'"
    and data_quiet:
      "\<lbrakk>data_cb st m = Some g; g pr bs a = (r, pr', a')\<rbrakk> \<Longrightarrow> only_pauses pr pr'"
    and headers_quiet:
      "\<lbrakk>on_headers_complete st = Some f; f pr a = (r, pr', a')\<rbrakk> \<Longrightarrow> only_pauses pr pr'"

section \<open>Invariants\<close>

definition field_states :: "header_states set" where
  "field_states =
    {h_general, h_C, h_CO, h_CON, h_matching_connection, h_matching_proxy_connection,
     h_matching_content_length, h_matching_transfer_encoding, h_matching_upgrade,
     h_connection, h_content_length, h_transfer_encoding, h_upgrade}"

definition chunk_states :: "state set" where
  "chunk_states =
    {s_chunk_size_start, s_chunk_size, s_chunk_parameters, s_chunk_size_almost_done,
     s_chunk_data, s_chunk_data_almost_done, s_chunk_data_done}"

text \<open>
  What the parser's fields satisfy in each state.  \<open>n\<close> is the header byte count; it is \<open>k\<close>
  when a chunk size is due: 0 between two bytes, 1 once its first byte is counted.
\<close>

definition state_inv :: "u32 \<Rightarrow> http_parser \<Rightarrow> state \<Rightarrow> u32 \<Rightarrow> bool" where
  "state_inv k pr s n \<longleftrightarrow>
    (s = s_req_method \<longrightarrow> unat (index pr) \<le> length (method_strings (method pr))) \<and>
    (s = s_header_field \<longrightarrow> header_state pr \<in> field_states) \<and>
    (s = s_header_value \<longrightarrow> header_state pr \<noteq> h_connection \<and> header_state pr \<noteq> h_transfer_encoding) \<and>
    (s \<in> chunk_states \<longrightarrow> has_flag (flags pr) F_CHUNKED) \<and>
    (s = s_chunk_size_start \<longrightarrow> n = k) \<and>
    (s \<in> {s_chunk_size, s_chunk_parameters, s_chunk_size_almost_done} \<longrightarrow> content_length pr \<noteq> - 1) \<and>
    (s \<in> {s_chunk_data, s_body_identity} \<longrightarrow> content_length pr \<noteq> 0 \<and> content_length pr \<noteq> - 1) \<and>
    (s = s_chunk_data_almost_done \<longrightarrow> content_length pr = 0)"

definition parser_ok :: "u32 \<Rightarrow> http_parser \<Rightarrow> bool" where
  "parser_ok mhs pr \<longleftrightarrow>
    (http_errno pr = HPE_OK \<or> http_errno pr = HPE_PAUSED \<longrightarrow>
      nread pr \<le> mhs \<and> state_inv 0 pr (state pr) (nread pr))"

text \<open>The states in which a mark may be set.\<close>

primrec mark_states :: "mark \<Rightarrow> state set" where
  "mark_states M_header_field = {s_header_field}"
| "mark_states M_header_value = {s_header_value}"
| "mark_states M_url = url_states"
| "mark_states M_body = {s_chunk_data, s_chunk_data_almost_done, s_body_identity, s_body_identity_eof}"
| "mark_states M_status = {s_res_status}"

definition marks_ok :: "'a ctx \<Rightarrow> bool" where
  "marks_ok c \<longleftrightarrow> (\<forall>m i. marks c m = Some i \<longrightarrow> i \<le> ptr c \<and> p_state c \<in> mark_states m)"

text \<open>What holds of a context at any point between two cases.\<close>

definition ctx_inv :: "'a exec_env \<Rightarrow> u32 \<Rightarrow> 'a ctx \<Rightarrow> bool" where
  "ctx_inv env k c \<longleftrightarrow>
    http_errno (parser c) = HPE_OK \<and> ptr c < data_end env \<and> marks_ok c \<and>
    n_read c \<le> max_header_size env \<and> nread (parser c) \<le> max_header_size env \<and>
    state_inv k (parser c) (p_state c) (n_read c)"

text \<open>How often the switch can run again on the same byte.\<close>

definition rank :: "state \<Rightarrow> nat" where
  "rank s =
    (if s \<in> {s_header_value_lws, s_header_value_discard_lws} then 3
     else if s \<in> {s_header_field_start, s_res_status_code} then 2
     else if s \<in> {s_headers_almost_done, s_header_value, s_body_identity, s_start_req_or_res,
                   s_res_status_start} then 1
     else 0)"

text \<open>A good end of a case that started in \<open>c0\<close>.\<close>

definition good :: "'a exec_env \<Rightarrow> 'a ctx \<Rightarrow> 'a outcome \<Rightarrow> bool" where
  "good env c0 out \<longleftrightarrow>
    (case out of
       Break c \<Rightarrow> ctx_inv env 0 c \<and> ptr c0 \<le> ptr c
     | Reexecute c \<Rightarrow> ctx_inv env 1 c \<and> ptr c0 \<le> ptr c \<and> rank (p_state c) < rank (p_state c0)
     | Return n pr a \<Rightarrow>
         n \<le> data_end env \<and> parser_ok (max_header_size env) pr \<and>
         (http_errno pr = HPE_OK \<longrightarrow> n = data_end env \<or> upgrade pr)
     | Abort \<Rightarrow> False)"

lemma good_simps [simp]:
  "good env c0 (Break c) \<longleftrightarrow> ctx_inv env 0 c \<and> ptr c0 \<le> ptr c"
  "good env c0 (Reexecute c) \<longleftrightarrow>
    ctx_inv env 1 c \<and> ptr c0 \<le> ptr c \<and> rank (p_state c) < rank (p_state c0)"
  "good env c0 (Return n pr a) \<longleftrightarrow>
    n \<le> data_end env \<and> parser_ok (max_header_size env) pr \<and>
    (http_errno pr = HPE_OK \<longrightarrow> n = data_end env \<or> upgrade pr)"
  "\<not> good env c0 Abort"
  by (simp_all add: good_def)

section \<open>The macros\<close>

lemma good_fail:
  "\<lbrakk>ptr c \<le> data_end env; e \<noteq> HPE_OK; e \<noteq> HPE_PAUSED\<rbrakk> \<Longrightarrow> good env c0 (fail e c)"
  by (simp add: fail_def goto_error_def SET_ERRNO_def set_errno_def RETURN_def parser_ok_def)

lemma good_strict:
  "\<lbrakk>ptr c \<le> data_end env; \<not> cond \<Longrightarrow> good env c0 (k c)\<rbrakk> \<Longrightarrow> good env c0 (STRICT_CHECK cond c k)"
  by (simp add: STRICT_CHECK_def good_fail)

lemma good_count:
  assumes "ptr c \<le> data_end env"
    and "n_read c + of_nat v \<le> max_header_size env \<Longrightarrow> good env c0 (k (c\<lparr>n_read := n_read c + of_nat v\<rparr>))"
  shows "good env c0 (COUNT_HEADER_SIZE env v c k)"
  using assms by (simp add: COUNT_HEADER_SIZE_def Let_def good_fail not_less)

text \<open>A parser parked in the state \<open>p_state c\<close> by a pause.\<close>

definition parkable :: "'a exec_env \<Rightarrow> 'a ctx \<Rightarrow> bool" where
  "parkable env c \<longleftrightarrow>
    nread (parser c) \<le> max_header_size env \<and>
    state_inv 0 (parser c) (p_state c) (nread (parser c))"

lemma state_inv_irrelevant [simp]:
  "state_inv k (pr\<lparr>state := x\<rparr>) s n = state_inv k pr s n"
  "state_inv k (pr\<lparr>http_errno := e\<rparr>) s n = state_inv k pr s n"
  "state_inv k (pr\<lparr>nread := v\<rparr>) s n = state_inv k pr s n"
  "state_inv k (pr\<lparr>upgrade := u\<rparr>) s n = state_inv k pr s n"
  by (simp_all add: state_inv_def)

lemma good_after_callback:
  assumes quiet: "only_pauses ((parser c)\<lparr>state := p_state c\<rparr>) pr'"
    and "http_errno (parser c) = HPE_OK" and "er \<le> data_end env" and "parkable env c"
    and "e \<noteq> HPE_OK" and "e \<noteq> HPE_PAUSED"
    and k: "\<And>a. good env c0 (k (c\<lparr>parser := (parser c)\<lparr>state := p_state c\<rparr>, app := a\<rparr>))"
  shows "good env c0 (after_callback e er c (r, pr', a') k)"
  using assms(1-6) k [of a']
  by (auto simp: after_callback_def only_pauses_def set_errno_def parser_ok_def parkable_def)

lemma ctx_as_update:
  "c = c\<lparr>parser := (parser c)\<lparr>state := state (parser c)\<rparr>, app := app c\<rparr>"
  by simp

context quiet_callbacks
begin

lemma good_notify:
  assumes "settings env = st"
    and "http_errno (parser c) = HPE_OK" and "er \<le> data_end env" and "parkable env c"
    and k: "\<And>s a. good env c0 (k (c\<lparr>parser := (parser c)\<lparr>state := s\<rparr>, app := a\<rparr>))"
  shows "good env c0 (callback_notify env n er c k)"
proof (cases "notify_cb (settings env) n")
  case None
  with assms(2) k [where s = "state (parser c)" and a = "app c"] show ?thesis
    by (simp add: callback_notify_def)
next
  case (Some f)
  obtain r pr a where res: "f ((parser c)\<lparr>state := p_state c\<rparr>) (app c) = (r, pr, a)"
    by (cases "f ((parser c)\<lparr>state := p_state c\<rparr>) (app c)") auto
  have "only_pauses ((parser c)\<lparr>state := p_state c\<rparr>) pr"
    by (rule notify_quiet [where f = f, OF _ res]) (use Some assms(1) in simp)
  then have "good env c0 (after_callback (notify_cb_errno n) er c (r, pr, a) k)"
    by (rule good_after_callback) (use assms in \<open>cases n; simp\<close>)+
  with Some assms(2) res show ?thesis by (simp add: callback_notify_def)
qed

lemma good_data:
  assumes "settings env = st"
    and "http_errno (parser c) = HPE_OK" and "er \<le> data_end env" and "parkable env c"
    and k: "\<And>s a. good env c0
              (k (c\<lparr>parser := (parser c)\<lparr>state := s\<rparr>, app := a, marks := (marks c)(m := None)\<rparr>))"
  shows "good env c0 (callback_data env m e er c k)"
proof (cases "marks c m")
  case None
  then have "(marks c)(m := None) = marks c" by auto
  with None assms(2) k [where s = "state (parser c)" and a = "app c"] show ?thesis
    by (simp add: callback_data_def)
next
  case mark: (Some i)
  show ?thesis
  proof (cases "data_cb (settings env) m")
    case None
    with mark assms(2) k [where s = "state (parser c)" and a = "app c"] show ?thesis
      by (simp add: callback_data_def)
  next
    case (Some f)
    let ?bs = "seg (data env) i e"
    obtain r pr a where res: "f ((parser c)\<lparr>state := p_state c\<rparr>) ?bs (app c) = (r, pr, a)"
      by (cases "f ((parser c)\<lparr>state := p_state c\<rparr>) ?bs (app c)") auto
    have "only_pauses ((parser c)\<lparr>state := p_state c\<rparr>) pr"
      by (rule data_quiet [where g = f, OF _ res]) (use Some assms(1) in simp)
    then have "good env c0 (after_callback (data_cb_errno m) er c (r, pr, a)
        (\<lambda>c. k (c\<lparr>marks := (marks c)(m := None)\<rparr>)))"
      by (rule good_after_callback) (use assms in \<open>cases m; simp\<close>)+
    with Some mark assms(2) res show ?thesis by (simp add: callback_data_def)
  qed
qed

end

lemma marks_okD: "marks_ok c \<Longrightarrow> marks c m = Some i \<Longrightarrow> i \<le> ptr c \<and> p_state c \<in> mark_states m"
  by (simp add: marks_ok_def)

lemma mark_states_disjoint: "s \<in> mark_states m \<Longrightarrow> s \<in> mark_states m' \<Longrightarrow> m = m'"
  by (cases m; cases m') (auto simp: url_states_def)

text \<open>Marks after the usual changes of a context.\<close>

lemma marks_ok_leave:
  assumes "marks_ok c" and "\<And>m. p_state c \<notin> mark_states m"
  shows "marks c = (\<lambda>_. None)"
  using assms unfolding marks_ok_def by (metis not_None_eq)

lemma marks_ok_only:
  assumes "marks_ok c" and "p_state c \<in> mark_states m" and "m' \<noteq> m"
  shows "marks c m' = None"
  using assms mark_states_disjoint unfolding marks_ok_def by (metis not_None_eq)

lemma marks_ok_cleared:
  assumes "marks_ok c" and "p_state c \<in> mark_states m"
  shows "(marks c)(m := None) = (\<lambda>_. None)"
  using assms marks_ok_only by fastforce

lemma marks_ok_empty [simp]: "marks c = (\<lambda>_. None) \<Longrightarrow> marks_ok c"
  by (simp add: marks_ok_def)

section \<open>The cases of the switch\<close>

text \<open>A state in which no mark is set.\<close>

definition markless :: "state \<Rightarrow> bool" where
  "markless s \<longleftrightarrow> (\<forall>m. s \<notin> mark_states m)"

lemma markless_iff:
  "markless s \<longleftrightarrow>
    s \<notin> url_states \<and>
    s \<notin> {s_header_field, s_header_value, s_chunk_data, s_chunk_data_almost_done, s_body_identity,
          s_body_identity_eof, s_res_status}"
proof
  assume "markless s"
  then have "\<And>m. s \<notin> mark_states m" by (simp add: markless_def)
  from this [of M_header_field] this [of M_header_value] this [of M_url] this [of M_body]
    this [of M_status]
  show "s \<notin> url_states \<and>
    s \<notin> {s_header_field, s_header_value, s_chunk_data, s_chunk_data_almost_done, s_body_identity,
          s_body_identity_eof, s_res_status}" by simp
next
  assume "s \<notin> url_states \<and>
    s \<notin> {s_header_field, s_header_value, s_chunk_data, s_chunk_data_almost_done, s_body_identity,
          s_body_identity_eof, s_res_status}"
  then show "markless s"
    unfolding markless_def by (intro allI, case_tac m) auto
qed

lemma marks_markless: "marks_ok c \<Longrightarrow> markless (p_state c) \<Longrightarrow> marks c = (\<lambda>_. None)"
  by (rule marks_ok_leave) (simp_all add: markless_def)

text \<open>States about which \<open>state_inv\<close> says nothing.\<close>

definition free_state :: "state \<Rightarrow> bool" where
  "free_state s \<longleftrightarrow>
    s \<notin> chunk_states \<and> s \<notin> {s_req_method, s_header_field, s_header_value, s_body_identity}"

lemma state_inv_free [simp]: "free_state s \<Longrightarrow> state_inv k pr s n"
  by (auto simp: state_inv_def free_state_def chunk_states_def)

lemma state_inv_simps [simp]:
  "state_inv k pr s_req_method n \<longleftrightarrow> unat (index pr) \<le> length (method_strings (method pr))"
  "state_inv k pr s_header_field n \<longleftrightarrow> header_state pr \<in> field_states"
  "state_inv k pr s_header_value n \<longleftrightarrow>
    header_state pr \<noteq> h_connection \<and> header_state pr \<noteq> h_transfer_encoding"
  "state_inv k pr s_chunk_size_start n \<longleftrightarrow> has_flag (flags pr) F_CHUNKED \<and> n = k"
  "state_inv k pr s_chunk_size n \<longleftrightarrow> has_flag (flags pr) F_CHUNKED \<and> content_length pr \<noteq> - 1"
  "state_inv k pr s_chunk_parameters n \<longleftrightarrow> has_flag (flags pr) F_CHUNKED \<and> content_length pr \<noteq> - 1"
  "state_inv k pr s_chunk_size_almost_done n \<longleftrightarrow>
    has_flag (flags pr) F_CHUNKED \<and> content_length pr \<noteq> - 1"
  "state_inv k pr s_chunk_data n \<longleftrightarrow>
    has_flag (flags pr) F_CHUNKED \<and> content_length pr \<noteq> 0 \<and> content_length pr \<noteq> - 1"
  "state_inv k pr s_chunk_data_almost_done n \<longleftrightarrow>
    has_flag (flags pr) F_CHUNKED \<and> content_length pr = 0"
  "state_inv k pr s_chunk_data_done n \<longleftrightarrow> has_flag (flags pr) F_CHUNKED"
  "state_inv k pr s_body_identity n \<longleftrightarrow> content_length pr \<noteq> 0 \<and> content_length pr \<noteq> - 1"
  by (simp_all add: state_inv_def chunk_states_def)

lemma marks_ok_single:
  "marks c = (\<lambda>_. None)(m := Some i) \<Longrightarrow> marks_ok c \<longleftrightarrow> i \<le> ptr c \<and> p_state c \<in> mark_states m"
  by (auto simp: marks_ok_def)

lemmas inv_defs = ctx_inv_def parkable_def

lemma free_states [simp]:
  "free_state s_dead" "free_state s_start_req" "free_state s_start_res" 
  "free_state s_start_req_or_res" "free_state s_res_or_resp_H" "free_state s_res_H"
  "free_state s_res_HT" "free_state s_res_HTT" "free_state s_res_HTTP" "free_state s_res_http_major"
  "free_state s_res_http_dot" "free_state s_res_http_minor" "free_state s_res_http_end"
  "free_state s_res_first_status_code" "free_state s_res_status_code" "free_state s_res_status_start"
  "free_state s_res_status" "free_state s_res_line_almost_done"
  "free_state s_req_spaces_before_url" "free_state s_req_http_start" "free_state s_req_http_H"
  "free_state s_req_http_HT" "free_state s_req_http_HTT" "free_state s_req_http_HTTP"
  "free_state s_req_http_I" "free_state s_req_http_IC" "free_state s_req_http_major"
  "free_state s_req_http_dot" "free_state s_req_http_minor" "free_state s_req_http_end"
  "free_state s_req_line_almost_done" "free_state s_header_field_start"
  "free_state s_header_value_discard_ws" "free_state s_header_value_discard_ws_almost_done"
  "free_state s_header_value_discard_lws" "free_state s_header_value_start"
  "free_state s_header_value_lws" "free_state s_header_almost_done"
  "free_state s_headers_almost_done" "free_state s_headers_done"
  "free_state s_body_identity_eof" "free_state s_message_done"
  by (simp_all add: free_state_def chunk_states_def)

lemma free_url [simp]: "s \<in> url_states \<Longrightarrow> free_state s"
  by (auto simp: free_state_def chunk_states_def url_states_def)

text \<open>A case that only changes the state and parser fields without meaning for the invariant.\<close>

lemma good_break_free:
  assumes inv: "ctx_inv env 1 c" and "markless (p_state c)"
    and "free_state s" and "http_errno pr = HPE_OK" and "nread pr = nread (parser c)"
  shows "good env c (Break (c\<lparr>parser := pr, p_state := s\<rparr>))"
  using assms marks_markless [of c] by (simp add: inv_defs)


lemma ctx_invD:
  assumes "ctx_inv env k c"
  shows "http_errno (parser c) = HPE_OK" "ptr c < data_end env" "ptr c \<le> data_end env"
    "marks_ok c" "n_read c \<le> max_header_size env" "nread (parser c) \<le> max_header_size env"
    "state_inv k (parser c) (p_state c) (n_read c)"
  using assms by (simp_all add: ctx_inv_def)

lemma ctx_inv_free:
  "\<lbrakk>ctx_inv env k c; markless (p_state c); free_state s; http_errno pr = HPE_OK;
    nread pr \<le> max_header_size env; n \<le> max_header_size env\<rbrakk> \<Longrightarrow>
   ctx_inv env k' (c\<lparr>parser := pr, p_state := s, n_read := n\<rparr>)"
  using marks_markless [of c] by (simp add: inv_defs)

lemmas case_intros = good_fail good_strict

lemma no_marks: "ctx_inv env k c \<Longrightarrow> markless (p_state c) \<Longrightarrow> marks c = (\<lambda>_. None)"
  by (simp add: marks_markless inv_defs)

lemma good_dead: "ctx_inv env 1 c \<Longrightarrow> p_state c = s_dead \<Longrightarrow> good env c (at_dead c)"
  by (simp add: at_dead_def good_fail inv_defs)

lemma markless_simps [simp]:
  "markless s_start_req_or_res" "markless s_res_or_resp_H" "markless s_start_res" "markless s_res_H"
  "markless s_res_HT" "markless s_res_HTT" "markless s_res_HTTP" "markless s_res_http_major"
  "markless s_res_http_dot" "markless s_res_http_minor" "markless s_res_http_end"
  "markless s_res_first_status_code" "markless s_res_status_code" "markless s_res_status_start"
  "markless s_res_line_almost_done" "markless s_start_req" "markless s_req_method"
  "markless s_req_spaces_before_url" "markless s_req_http_start" "markless s_req_http_H"
  "markless s_req_http_HT" "markless s_req_http_HTT" "markless s_req_http_HTTP"
  "markless s_req_http_I" "markless s_req_http_IC" "markless s_req_http_major"
  "markless s_req_http_dot" "markless s_req_http_minor" "markless s_req_http_end"
  "markless s_req_line_almost_done" "markless s_header_field_start"
  "markless s_header_value_discard_ws" "markless s_header_value_discard_ws_almost_done"
  "markless s_header_value_discard_lws" "markless s_header_value_start"
  "markless s_header_value_lws" "markless s_header_almost_done"
  "markless s_headers_almost_done" "markless s_headers_done" "markless s_message_done"
  "markless s_chunk_size_start" "markless s_chunk_size" "markless s_chunk_parameters"
  "markless s_chunk_size_almost_done" "markless s_chunk_data_done" "markless s_dead"
  by (simp_all add: markless_iff url_states_def)

lemma good_expect:
  "\<lbrakk>ctx_inv env 1 c; markless (p_state c); free_state s\<rbrakk> \<Longrightarrow> good env c (expect x s c)"
  unfolding expect_def
  by (rule good_strict) (simp_all add: inv_defs marks_markless)

lemma good_res_HTTP:
  "\<lbrakk>ctx_inv env 1 c; p_state c \<in> {s_res_H, s_res_HT, s_res_HTT, s_res_HTTP}\<rbrakk> \<Longrightarrow>
    good env c (at_res_HTTP c)"
  by (auto simp: at_res_HTTP_def intro!: good_expect)

lemma good_res_http_version:
  "\<lbrakk>ctx_inv env 1 c; p_state c \<in> {s_res_http_major, s_res_http_dot, s_res_http_minor, s_res_http_end}\<rbrakk> \<Longrightarrow>
    good env c (at_res_http_version c)"
  by (auto simp: at_res_http_version_def inv_defs marks_markless intro!: good_fail)

lemma good_res_or_resp_H:
  "\<lbrakk>ctx_inv env 1 c; p_state c = s_res_or_resp_H\<rbrakk> \<Longrightarrow> good env c (at_res_or_resp_H c)"
  by (simp add: at_res_or_resp_H_def inv_defs marks_markless good_fail)

lemma good_res_first_status_code:
  "\<lbrakk>ctx_inv env 1 c; p_state c = s_res_first_status_code\<rbrakk> \<Longrightarrow> good env c (at_res_first_status_code c)"
  by (simp add: at_res_first_status_code_def inv_defs marks_markless good_fail)

lemma good_res_status_code:
  "\<lbrakk>ctx_inv env 1 c; p_state c = s_res_status_code\<rbrakk> \<Longrightarrow> good env c (at_res_status_code c)"
  by (simp add: at_res_status_code_def inv_defs marks_markless good_fail Let_def rank_def)

lemma good_res_status_start:
  assumes "ctx_inv env 1 c" and "p_state c = s_res_status_start"
  shows "good env c (at_res_status_start c)"
proof -
  have "marks c = (\<lambda>_. None)" using assms by (simp add: no_marks)
  with assms show ?thesis
    by (simp add: at_res_status_start_def inv_defs Let_def rank_def MARK_def marks_ok_single)
qed

lemma good_req_http_start:
  "\<lbrakk>ctx_inv env 1 c; p_state c = s_req_http_start\<rbrakk> \<Longrightarrow> good env c (at_req_http_start c)"
  by (simp add: at_req_http_start_def inv_defs marks_markless good_fail)

lemma good_req_HTTP:
  "\<lbrakk>ctx_inv env 1 c;
    p_state c \<in> {s_req_http_H, s_req_http_HT, s_req_http_HTT, s_req_http_HTTP, s_req_http_I, s_req_http_IC}\<rbrakk> \<Longrightarrow>
    good env c (at_req_HTTP c)"
  by (auto simp: at_req_HTTP_def intro!: good_expect)

lemma good_req_http_version:
  "\<lbrakk>ctx_inv env 1 c; p_state c \<in> {s_req_http_major, s_req_http_dot, s_req_http_minor}\<rbrakk> \<Longrightarrow>
    good env c (at_req_http_version c)"
  by (auto simp: at_req_http_version_def inv_defs marks_markless intro!: good_fail)

lemma good_req_http_end:
  "\<lbrakk>ctx_inv env 1 c; p_state c = s_req_http_end\<rbrakk> \<Longrightarrow> good env c (at_req_http_end c)"
  by (simp add: at_req_http_end_def inv_defs marks_markless good_fail)

lemma good_req_line_almost_done:
  "\<lbrakk>ctx_inv env 1 c; p_state c = s_req_line_almost_done\<rbrakk> \<Longrightarrow> good env c (at_req_line_almost_done c)"
  by (simp add: at_req_line_almost_done_def inv_defs marks_markless good_fail)

lemma good_url_char:
  assumes "ctx_inv env 1 c0" and "ptr c = ptr c0" and "parser c = parser c0" and "n_read c = n_read c0"
    and "\<And>m i. marks c m = Some i \<Longrightarrow> m = M_url \<and> i \<le> ptr c"
  shows "good env c0 (url_char c)"
proof (cases "parse_url_char (p_state c) (cur c) = s_dead")
  case True
  with assms show ?thesis by (simp add: url_char_def good_fail inv_defs)
next
  case False
  then have "parse_url_char (p_state c) (cur c) \<in> url_states" by (rule parse_url_char_range)
  with False assms show ?thesis
    by (auto simp: url_char_def inv_defs marks_ok_def dest: assms(5))
qed

lemma marks_url:
  assumes "ctx_inv env k c" and "p_state c \<in> url_states" and "marks c m = Some i"
  shows "m = M_url \<and> i \<le> ptr c"
  using assms marks_okD [of c m i] mark_states_disjoint [of "p_state c" m M_url]
  by (simp add: ctx_inv_def)

lemma good_req_spaces_before_url:
  assumes "ctx_inv env 1 c" and "p_state c = s_req_spaces_before_url"
  shows "good env c (at_req_spaces_before_url c)"
proof -
  have "marks c = (\<lambda>_. None)"
    using assms by (simp add: marks_markless inv_defs)
  with assms show ?thesis
    by (auto simp: at_req_spaces_before_url_def Let_def MARK_def inv_defs
        intro!: good_url_char split: if_splits)
qed

lemma good_req_schema:
  assumes "ctx_inv env 1 c" and "p_state c \<in> url_states"
  shows "good env c (at_req_schema c)"
  using assms marks_url [OF assms] by (auto simp: at_req_schema_def ctx_invD intro!: good_fail good_url_char)

lemma good_header_almost_done:
  "\<lbrakk>ctx_inv env 1 c; p_state c = s_header_almost_done\<rbrakk> \<Longrightarrow> good env c (at_header_almost_done c)"
  by (simp add: at_header_almost_done_def inv_defs marks_markless good_fail)

lemma good_header_value_lws:
  "\<lbrakk>ctx_inv env 1 c; p_state c = s_header_value_lws\<rbrakk> \<Longrightarrow> good env c (at_header_value_lws c)"
  by (simp add: at_header_value_lws_def inv_defs marks_markless Let_def rank_def finish_header_def)

lemma good_header_field_start:
  assumes "ctx_inv env 1 c" and "p_state c = s_header_field_start"
  shows "good env c (at_header_field_start c)"
proof -
  have "marks c = (\<lambda>_. None)" using assms by (simp add: no_marks)
  with assms show ?thesis
    by (simp add: at_header_field_start_def inv_defs Let_def rank_def good_fail MARK_def
      marks_ok_single field_states_def)
qed

lemma good_header_value_start:
  assumes "ctx_inv env 1 c" and "p_state c = s_header_value_start \<or> p_state c = s_header_value_discard_ws"
  shows "good env c (at_header_value_start c)"
proof -
  have "marks c = (\<lambda>_. None)"
    using assms by (auto simp: marks_markless inv_defs)
  with assms(1) show ?thesis
    by (simp add: at_header_value_start_def Let_def inv_defs MARK_def marks_ok_single good_fail
        split: header_states.split)
qed

lemma good_header_value_discard_ws:
  assumes "ctx_inv env 1 c" and "p_state c = s_header_value_discard_ws"
  shows "good env c (at_header_value_discard_ws c)"
  using assms good_header_value_start [OF assms(1)]
  by (simp add: at_header_value_discard_ws_def inv_defs marks_markless)


section \<open>The loops over header names and values\<close>

text \<open>What a loop may change: only matcher fields, the content length and flags being added.\<close>

definition matcher_frame :: "http_parser \<Rightarrow> http_parser \<Rightarrow> bool" where
  "matcher_frame pr pr' \<longleftrightarrow>
    http_errno pr' = http_errno pr \<and> nread pr' = nread pr \<and> state pr' = state pr \<and>
    type pr' = type pr \<and> method pr' = method pr \<and> upgrade pr' = upgrade pr \<and>
    lenient_http_headers pr' = lenient_http_headers pr \<and> status_code pr' = status_code pr \<and>
    http_major pr' = http_major pr \<and> http_minor pr' = http_minor pr"

lemma matcher_frame_refl [simp]: "matcher_frame pr pr"
  by (simp add: matcher_frame_def)

lemma matcher_frame_trans: "matcher_frame p1 p2 \<Longrightarrow> matcher_frame p2 p3 \<Longrightarrow> matcher_frame p1 p3"
  by (simp add: matcher_frame_def)

lemma field_states_simps [simp]:
  "h_general \<in> field_states" "h_C \<in> field_states" "h_CO \<in> field_states" "h_CON \<in> field_states"
  "h_matching_connection \<in> field_states" "h_matching_content_length \<in> field_states"
  "h_connection \<in> field_states" "h_content_length \<in> field_states"
  "h_transfer_encoding \<in> field_states" "h_upgrade \<in> field_states"
  by (simp_all add: field_states_def)

lemma match_field_ok [simp]:
  assumes "h \<in> field_states" and "header_state pr \<in> field_states"
  shows "matcher_frame pr (match_field w h c pr)" and "header_state (match_field w h c pr) \<in> field_states"
  using assms by (simp_all add: match_field_def matcher_frame_def Let_def)

lemma matcher_frame_simps [simp]:
  "matcher_frame pr (pr'\<lparr>index := i\<rparr>) = matcher_frame pr pr'"
  "matcher_frame pr (pr'\<lparr>header_state := h\<rparr>) = matcher_frame pr pr'"
  "matcher_frame pr (pr'\<lparr>extra_flags := x\<rparr>) = matcher_frame pr pr'"
  "matcher_frame pr (pr'\<lparr>flags := f\<rparr>) = matcher_frame pr pr'"
  "matcher_frame pr (pr'\<lparr>content_length := n\<rparr>) = matcher_frame pr pr'"
  by (simp_all add: matcher_frame_def)

lemma header_field_char_ok:
  assumes "header_state pr \<in> field_states" and "header_state pr \<noteq> h_general"
  obtains pr' where "header_field_char c ch pr = Some pr'" and "matcher_frame pr pr'"
    and "header_state pr' \<in> field_states"
proof -
  have "header_state pr \<notin> field_states \<or> header_state pr = h_general \<or>
    (\<exists>pr'. header_field_char c ch pr = Some pr' \<and> matcher_frame pr pr' \<and> header_state pr' \<in> field_states)"
  proof (cases "header_state pr \<in> field_states")
    case True
    then show ?thesis
      by (cases "header_state pr") (simp_all add: header_field_char_def Let_def, simp_all add: field_states_def)
  qed simp
  with assms that show thesis by blast
qed

lemma field_loop_ok:
  assumes "header_state pr \<in> field_states" and "i \<le> length d"
  shows "\<exists>j ch' pr'. field_loop d mhs i ch pr = Some (j, ch', pr') \<and> i \<le> j \<and> j \<le> length d \<and>
    (j < length d \<longrightarrow> ch' = d ! j) \<and> matcher_frame pr pr' \<and> header_state pr' \<in> field_states"
  using assms
proof (induction d mhs i ch pr rule: field_loop.induct)
  case (1 d mhs i ch pr)
  let ?pe = "i + min (length d - i) (unat mhs)"
  show ?case
  proof (cases "i < length d \<and> TOKEN (d ! i) \<noteq> NUL")
    case False
    with "1.prems" show ?thesis
      by (subst field_loop.simps) (auto simp: Let_def)
  next
    case tok: True
    show ?thesis
    proof (cases "header_state pr = h_general")
      case True
      have ge: "i \<le> skip_tokens d i ?pe" by (rule skip_tokens_ge)
      have le: "skip_tokens d i ?pe + 1 \<le> length d"
      proof (cases "i < ?pe")
        case True
        then show ?thesis using skip_tokens_less [OF True, of d] by linarith
      next
        case False
        then have "skip_tokens d i ?pe = i" by (subst skip_tokens.simps) auto
        with tok show ?thesis by simp
      qed
      from "1.IH"(1) [OF _ refl refl _ _ refl] tok True "1.prems"(1) le
      obtain j ch' pr' where
        "field_loop d mhs (skip_tokens d i ?pe + 1) (d ! i) pr = Some (j, ch', pr')"
        "skip_tokens d i ?pe + 1 \<le> j" "j \<le> length d" "j < length d \<longrightarrow> ch' = d ! j"
        "matcher_frame pr pr'" "header_state pr' \<in> field_states" by blast
      with tok True ge show ?thesis
        by (subst field_loop.simps) (auto simp: Let_def)
    next
      case False
      from header_field_char_ok [OF "1.prems"(1) False, of "TOKEN (d ! i)" "d ! i"]
      obtain pr1 where pr1: "header_field_char (TOKEN (d ! i)) (d ! i) pr = Some pr1"
        "matcher_frame pr pr1" "header_state pr1 \<in> field_states" by blast
      from "1.IH"(2) [OF _ refl refl _ _ pr1(1)] tok False pr1(3)
      obtain j ch' pr' where
        "field_loop d mhs (i + 1) (d ! i) pr1 = Some (j, ch', pr')"
        "i + 1 \<le> j" "j \<le> length d" "j < length d \<longrightarrow> ch' = d ! j"
        "matcher_frame pr1 pr'" "header_state pr' \<in> field_states" by (auto simp: Suc_le_eq)
      with tok False pr1 show ?thesis
        by (subst field_loop.simps) (auto simp: Let_def dest: matcher_frame_trans)
    qed
  qed
qed

end
