(* ===== verification/HttpSafety.thy ===== *)
theory HttpSafety
  imports HttpInvariant
begin

text \<open>
  The remaining cases of the switch: header names and values, the end of the head, bodies and
  chunks.  Then the loop, the function, and the theorems that \<open>sn_http_parser_execute\<close> returns,
  never fails an assertion, and keeps a parser well-formed.
\<close>

lemma good_simps_ptr: "ctx_inv env k c \<Longrightarrow> ptr c < data_end env"
  by (simp add: ctx_inv_def)

context quiet_callbacks
begin

lemma good_header_field:
  assumes "settings env = st" and inv: "ctx_inv env 1 c" and s: "p_state c = s_header_field"
  shows "good env c (at_header_field env c)"
proof -
  let ?i = "ptr c"
  have hs: "header_state (parser c) \<in> field_states"
    and mk: "marks_ok c" and ok: "http_errno (parser c) = HPE_OK"
    and nr: "nread (parser c) \<le> max_header_size env" and lt: "?i < data_end env"
    using inv s by (simp_all add: ctx_inv_def)
  obtain j ch' pr' where loop:
    "field_loop (data env) (max_header_size env) ?i (cur c) (parser c) = Some (j, ch', pr')"
    and bounds: "?i \<le> j" "j \<le> data_end env" and fr: "matcher_frame (parser c) pr'"
    and hs': "header_state pr' \<in> field_states"
    using field_loop_ok [OF hs, of ?i "data env"] lt by (meson less_imp_le)
  let ?c = "c\<lparr>ptr := j, cur := ch', parser := pr'\<rparr>"
  have frame: "http_errno pr' = HPE_OK" "nread pr' \<le> max_header_size env"
    using fr ok nr by (simp_all add: matcher_frame_def)
  have marks: "i \<le> ?i \<and> s_header_field \<in> mark_states m" if "marks c m = Some i" for m i
    using marks_okD [OF mk that] s by simp
  show ?thesis
  proof (cases "j = data_end env")
    case True
    with bounds lt have le: "?i \<le> j - 1" "j - 1 < data_end env" "j - 1 \<le> data_end env" by auto
    have "i \<le> j - 1 \<and> s_header_field \<in> mark_states m" if "marks c m = Some i" for m i
      using marks [OF that] le(1) by simp
    with True loop frame hs' le s show ?thesis
      by (auto simp: at_header_field_def Let_def ctx_inv_def marks_ok_def intro!: good_count)
  next
    case False
    with bounds have lt': "j < data_end env" by simp
    have "marks_ok ?c" using marks bounds s by (auto simp: marks_ok_def dest: le_trans)
    then have cleared: "(marks c)(M_header_field := None) = (\<lambda>_. None)"
      using marks_ok_cleared [of ?c M_header_field] s by simp
    show ?thesis
      using False loop bounds lt' frame cleared assms(1)
      by (auto simp: at_header_field_def Let_def CALLBACK_DATA_def inv_defs
          intro!: good_count good_data good_fail)
  qed
qed

end

lemma header_value_char_ok:
  assumes "h \<noteq> h_connection" and "h \<noteq> h_transfer_encoding" and "h \<noteq> h_general"
  shows "case header_value_char c ch h pr of
      V_ok h' pr' \<Rightarrow> matcher_frame pr pr' \<and> h' \<noteq> h_connection \<and> h' \<noteq> h_transfer_encoding
    | V_error e h' pr' \<Rightarrow> matcher_frame pr pr' \<and> e = HPE_INVALID_CONTENT_LENGTH
    | V_assert \<Rightarrow> False"
  using assms
  by (cases h) (simp_all add: header_value_char_def content_length_digit_def match_value_def Let_def)

lemma general_scan_Inl:
  "general_scan d lnt i pe ch = (Inl k, ch') \<Longrightarrow> i \<le> k \<and> k < pe"
proof (induction d lnt i pe ch rule: general_scan.induct)
  case (1 d lnt i pe ch)
  note unfolded = "1.prems" [unfolded general_scan.simps [of d lnt i pe ch]]
  show ?case
    using unfolded "1.IH" [OF _ refl] by (auto simp: Let_def split: if_splits)
qed

lemma value_loop_general:
  assumes "i < length d" and "d ! i \<noteq> CR" and "d ! i \<noteq> LF" and "lnt \<or> IS_HEADER_CHAR (d ! i)"
  shows "value_loop d mhs lnt i ch h_general pr =
    (case general_scan d lnt i (i + min (length d - i) (unat mhs)) (d ! i) of
       (Inl j, ch') \<Rightarrow> (Stop_invalid, j, ch', h_general, pr)
     | (Inr j, ch') \<Rightarrow>
         value_loop d mhs lnt ((if j = length d then j - 1 else j) + 1) ch' h_general pr)"
  using assms by (subst value_loop.simps) (auto simp: Let_def)

lemma value_loop_other:
  assumes "i < length d" and "d ! i \<noteq> CR" and "d ! i \<noteq> LF" and "lnt \<or> IS_HEADER_CHAR (d ! i)"
    and "h \<noteq> h_general"
  shows "value_loop d mhs lnt i ch h pr =
    (case header_value_char (LOWER (d ! i)) (d ! i) h pr of
       V_ok h' pr' \<Rightarrow> value_loop d mhs lnt (i + 1) (d ! i) h' pr'
     | V_error e h' pr' \<Rightarrow> (Stop_error e, i, d ! i, h', pr')
     | V_assert \<Rightarrow> (Stop_assert, i, d ! i, h, pr))"
  using assms by (subst value_loop.simps) (auto simp: Let_def)

lemma value_loop_ok:
  assumes "h \<noteq> h_connection" and "h \<noteq> h_transfer_encoding" and "i \<le> length d"
    and "value_loop d mhs lnt i ch h pr = (stop, j, ch', h', pr')"
  shows "i \<le> j \<and> j \<le> length d \<and> matcher_frame pr pr' \<and>
    (stop \<noteq> Stop_assert) \<and> (stop = Stop_end \<or> j < length d) \<and>
    (\<forall>e. stop = Stop_error e \<longrightarrow> e = HPE_INVALID_CONTENT_LENGTH) \<and>
    (stop \<in> {Stop_end, Stop_CR, Stop_LF} \<longrightarrow> h' \<noteq> h_connection \<and> h' \<noteq> h_transfer_encoding) \<and>
    (stop = Stop_LF \<longrightarrow> ch' = LF) \<and> (stop = Stop_end \<longrightarrow> j = length d)"
  using assms
proof (induction d mhs lnt i ch h pr rule: value_loop.induct)
  case (1 d mhs lnt i ch h pr)
  note unfolded = "1.prems"(4) [unfolded value_loop.simps [of d mhs lnt i ch h pr]]
  let ?pe = "i + min (length d - i) (unat mhs)"
  let ?stops = "d ! i = CR \<or> d ! i = LF \<or> \<not> lnt \<and> \<not> IS_HEADER_CHAR (d ! i)"
  show ?case
  proof (cases "i < length d \<and> \<not> ?stops")
    case False
    with unfolded "1.prems" show ?thesis by (auto simp: Let_def split: if_splits)
  next
    case go: True
    show ?thesis
    proof (cases "h = h_general")
      case True
      obtain res ch1 where scan: "general_scan d lnt i ?pe (d ! i) = (res, ch1)"
        by fastforce
      show ?thesis
      proof (cases res)
        case (Inl k)
        with scan have "i \<le> k \<and> k < ?pe" by (simp add: general_scan_Inl)
        with unfolded go True Inl scan show ?thesis by auto
      next
        case (Inr k)
        let ?k = "(if k = length d then k - 1 else k) + 1"
        from scan Inr have "i \<le> k"
          by (intro general_scan_ge [of d lnt i ?pe "d ! i" k ch1]) (use go in auto)
        moreover from scan Inr have "k \<le> ?pe"
          using general_scan_bounds [of d lnt i ?pe "d ! i" k ch1] by simp
        ultimately have k: "i < ?k" "?k \<le> length d" using go by auto
        from "1.prems"(4) go True Inr scan
        have "value_loop d mhs lnt ?k ch1 h pr = (stop, j, ch', h', pr')"
          using value_loop_general [of i d lnt mhs ch pr] by simp
        with "1.IH"(1) [OF _ refl _ _ _ True scan [symmetric] Inr] go "1.prems"(1,2) k show ?thesis
          by force
      qed
    next
      case False
      note ok = header_value_char_ok [OF "1.prems"(1,2) False,
          where c = "LOWER (d ! i)" and ch = "d ! i" and pr = pr]
      show ?thesis
      proof (cases "header_value_char (LOWER (d ! i)) (d ! i) h pr")
        case (V_ok h1 pr1)
        with "1.prems"(4) go False
        have "value_loop d mhs lnt (i + 1) (d ! i) h1 pr1 = (stop, j, ch', h', pr')"
          using value_loop_other [of i d lnt h mhs ch pr] by simp
        with "1.IH"(2) [OF _ refl _ _ _ False V_ok] go V_ok ok show ?thesis
          by (auto dest: matcher_frame_trans)
      next
        case (V_error e h1 pr1)
        with unfolded go False ok show ?thesis by (auto simp: Let_def)
      next
        case V_assert
        with ok show ?thesis by simp
      qed
    qed
  qed
qed


context quiet_callbacks
begin

lemma good_header_value:
  assumes st: "settings env = st" and inv: "ctx_inv env 1 c" and s: "p_state c = s_header_value"
  shows "good env c (at_header_value env c)"
proof -
  have hs: "header_state (parser c) \<noteq> h_connection" "header_state (parser c) \<noteq> h_transfer_encoding"
    and mk: "marks_ok c" and ok: "http_errno (parser c) = HPE_OK"
    and nr: "nread (parser c) \<le> max_header_size env" and lt: "ptr c < data_end env"
    using inv s by (simp_all add: ctx_inv_def)
  obtain stop j ch' h pr' where loop:
    "value_loop (data env) (max_header_size env) (lenient env) (ptr c) (cur c)
       (header_state (parser c)) (parser c) = (stop, j, ch', h, pr')"
    by (metis prod_cases5)
  note ok_loop = value_loop_ok [OF hs less_imp_le [OF lt] loop]
  let ?c = "c\<lparr>ptr := j, cur := ch', parser := pr'\<rparr>"
  have bounds: "ptr c \<le> j" "j \<le> data_end env" using ok_loop by auto
  have frame: "http_errno pr' = HPE_OK" "nread pr' \<le> max_header_size env"
    using ok_loop ok nr by (simp_all add: matcher_frame_def)
  have marks: "i \<le> ptr c \<and> s_header_value \<in> mark_states m" if "marks c m = Some i" for m i
    using marks_okD [OF mk that] s by simp
  have "marks_ok ?c" using marks bounds s by (auto simp: marks_ok_def dest: le_trans)
  then have cleared: "(marks c)(M_header_value := None) = (\<lambda>_. None)"
    using marks_ok_cleared [of ?c M_header_value] s by simp
  show ?thesis
  proof (cases stop)
    case Stop_end
    with ok_loop have j: "j = data_end env"
      and h: "h \<noteq> h_connection" "h \<noteq> h_transfer_encoding" by auto
    with lt have le: "ptr c \<le> j - 1" "j - 1 < data_end env" "j - 1 \<le> data_end env" by auto
    have "i \<le> j - 1 \<and> s_header_value \<in> mark_states m" if "marks c m = Some i" for m i
      using marks [OF that] le(1) by simp
    with Stop_end loop j h le frame s show ?thesis
      by (auto simp: at_header_value_def Let_def ctx_inv_def marks_ok_def intro!: good_count)
  next
    case Stop_CR
    with ok_loop have "j < data_end env" by auto
    with Stop_CR loop bounds frame cleared st show ?thesis
      by (auto simp: at_header_value_def Let_def CALLBACK_DATA_def inv_defs
          intro!: good_data good_count)
  next
    case Stop_LF
    with ok_loop have "j < data_end env" by auto
    with Stop_LF loop bounds frame cleared st s show ?thesis
      by (auto simp: at_header_value_def Let_def CALLBACK_DATA_NOADVANCE_def inv_defs rank_def
          intro!: good_data good_count)
  next
    case Stop_invalid
    with loop bounds show ?thesis by (simp add: at_header_value_def Let_def good_fail)
  next
    case (Stop_error e)
    with ok_loop have "e = HPE_INVALID_CONTENT_LENGTH" by auto
    with Stop_error loop bounds show ?thesis
      by (simp add: at_header_value_def Let_def goto_error_def SET_ERRNO_def set_errno_def RETURN_def
          parser_ok_def)
  next
    case Stop_assert
    with ok_loop show ?thesis by simp
  qed
qed

lemma good_header_value_discard_lws:
  assumes "settings env = st" and inv: "ctx_inv env 1 c" and s: "p_state c = s_header_value_discard_lws"
  shows "good env c (at_header_value_discard_lws env c)"
proof -
  have m: "marks c = (\<lambda>_. None)" using inv s by (simp add: no_marks)
  from inv have d: "http_errno (parser c) = HPE_OK" "ptr c < data_end env"
    "n_read c \<le> max_header_size env" "nread (parser c) \<le> max_header_size env"
    by (simp_all add: ctx_inv_def)
  show ?thesis
    using m d s assms(1)
    by (auto simp: at_header_value_discard_lws_def CALLBACK_DATA_NOADVANCE_def inv_defs MARK_def
        finish_header_def rank_def intro!: good_data good_fail)
qed

lemma good_message_begin:
  assumes "settings env = st" and inv: "ctx_inv env 1 c" 
    and s: "p_state c = s_start_req_or_res \<or> p_state c = s_start_res \<or> p_state c = s_start_req"
    and "http_errno pr = HPE_OK" and "nread pr = nread (parser c)"
    and "state_inv 0 pr s (nread pr)" and "state_inv 0 pr s (n_read c)"
  shows "good env c (CALLBACK_NOTIFY env N_message_begin (c\<lparr>parser := pr, p_state := s\<rparr>) Break)"
proof -
  have m: "marks c = (\<lambda>_. None)" using inv s by (auto simp: no_marks)
  from inv have d: "ptr c < data_end env"
    "n_read c \<le> max_header_size env" "nread (parser c) \<le> max_header_size env"
    by (simp_all add: ctx_inv_def)
  show ?thesis
    using m d assms(1,4-7)
    by (auto simp: CALLBACK_NOTIFY_def inv_defs intro!: good_notify)
qed

lemma good_start_req_or_res:
  assumes "settings env = st" and inv: "ctx_inv env 1 c" and s: "p_state c = s_start_req_or_res"
  shows "good env c (at_start_req_or_res env c)"
proof -
  have m: "marks c = (\<lambda>_. None)" using inv s by (simp add: no_marks)
  from inv have d: "http_errno (parser c) = HPE_OK" by (simp add: ctx_inv_def)
  show ?thesis
    using m inv s d good_message_begin [OF assms(1) inv]
    by (simp add: at_start_req_or_res_def reset_message_def Let_def inv_defs rank_def)
qed

lemma good_start_res:
  assumes "settings env = st" and inv: "ctx_inv env 1 c" and s: "p_state c = s_start_res"
  shows "good env c (at_start_res env c)"
proof -
  have m: "marks c = (\<lambda>_. None)" using inv s by (simp add: no_marks)
  from inv have d: "http_errno (parser c) = HPE_OK" by (simp add: ctx_inv_def)
  show ?thesis
    using m inv s d good_message_begin [OF assms(1) inv]
    by (simp add: at_start_res_def reset_message_def Let_def inv_defs good_fail)
qed

lemma good_start_req:
  assumes "settings env = st" and inv: "ctx_inv env 1 c" and s: "p_state c = s_start_req"
  shows "good env c (at_start_req env c)"
proof -
  have m: "marks c = (\<lambda>_. None)" using inv s by (simp add: no_marks)
  from inv have d: "http_errno (parser c) = HPE_OK" by (simp add: ctx_inv_def)
  have len: "Suc 0 \<le> length (method_strings x)" for x by (cases x) simp_all
  show ?thesis
    using m inv s d good_message_begin [OF assms(1) inv] len
    by (simp add: at_start_req_def reset_message_def Let_def inv_defs good_fail split: option.split)
qed

lemma good_res_status:
  assumes "settings env = st" and inv: "ctx_inv env 1 c" and s: "p_state c = s_res_status"
  shows "good env c (at_res_status env c)"
proof -
  have m: "(marks c)(M_status := None) = (\<lambda>_. None)"
    using inv s by (intro marks_ok_cleared) (simp_all add: ctx_inv_def)
  show ?thesis
    using m inv s assms(1)
    by (auto simp: at_res_status_def CALLBACK_DATA_def inv_defs intro!: good_data)
qed

lemma good_req_url:
  assumes "settings env = st" and inv: "ctx_inv env 1 c" and s: "p_state c \<in> url_states"
  shows "good env c (at_req_url env c)"
proof -
  have m: "(marks c)(M_url := None) = (\<lambda>_. None)"
    using inv s by (intro marks_ok_cleared) (simp_all add: ctx_inv_def)
  have "good env c (url_char c)"
    by (rule good_url_char) (use inv marks_url [OF inv s] in auto)
  with m inv assms(1) show ?thesis
    by (auto simp: at_req_url_def CALLBACK_DATA_def inv_defs intro!: good_data)
qed

end

section \<open>Methods, bodies, chunks, the end of the head\<close>


lemma method_switch_prefix:
  assumes "method_switch m i ch = Some m'"
  shows "i < length (method_strings m')"
  using assms by (auto simp: method_switch_def split: if_splits)

lemma method_char_index:
  assumes "method_char m i ch = Some (m', s)" and "ch \<noteq> NUL"
  shows "s = s_req_spaces_before_url \<or> s = s_req_method \<and> i < length (method_strings m')"
  using assms method_switch_prefix
  by (auto simp: method_char_def cstr_at_def split: if_splits)

lemma method_strings_length: "length (method_strings m) \<le> 13"
  by (cases m) simp_all

lemma good_req_method:
  assumes inv: "ctx_inv env 1 c" and s: "p_state c = s_req_method"
  shows "good env c (at_req_method c)"
proof -
  have m: "marks c = (\<lambda>_. None)" using inv s by (simp add: no_marks)
  have i: "unat (index (parser c)) \<le> length (method_strings (method (parser c)))"
    using ctx_invD(7) [OF inv] s by simp
  with method_strings_length [of "method (parser c)"] have "unat (index (parser c)) < 31" by linarith
  then have suc: "unat (index (parser c) + 1) = unat (index (parser c)) + 1"
    by (simp add: unat_word_ariths)
  show ?thesis
    using m i inv method_char_index suc
    by (auto simp: at_req_method_def inv_defs good_fail not_less split: option.split dest!: method_char_index)
qed

lemma free_NEW_MESSAGE [simp]: "free_state (NEW_MESSAGE pr)" "markless (NEW_MESSAGE pr)"
  by (simp_all add: NEW_MESSAGE_def start_state_def)

lemma unhex_range: "unhex ! ord ch = - 1 \<or> 0 \<le> unhex ! ord ch \<and> unhex ! ord ch < 16"
  by (auto simp: unhex_nth unhex_of_def)

lemma unat_max_u64: "unat (- 1 :: u64) = 18446744073709551615"
  by (simp add: unsigned_minus_1_eq_mask mask_eq_exp_minus_1)

text \<open>Body and chunk arithmetic.\<close>

lemma unat_to_read:
  assumes "data_end env < 2 ^ 64" 
  shows "unat (to_read env c) = min (unat (content_length (parser c))) (data_end env - ptr c)"
  using assms by (simp add: to_read_def unat_min unat_of_nat_small)

lemma take_body_ok:
  assumes small: "data_end env < 2 ^ 64" and inv: "ctx_inv env 1 c"
    and s: "p_state c = s_chunk_data \<or> p_state c = s_body_identity"
  defines "c' \<equiv> take_body (to_read env c) (MARK M_body c)"
  shows "ptr c \<le> ptr c'" and "ptr c' < data_end env" and "http_errno (parser c') = HPE_OK"
    and "nread (parser c') \<le> max_header_size env" and "n_read c' = n_read c"
    and "p_state c' = p_state c" and "flags (parser c') = flags (parser c)"
    and "\<exists>i. marks c' = (\<lambda>_. None)(M_body := Some i) \<and> i \<le> ptr c'"
    and "content_length (parser c') \<noteq> - 1"
proof -
  let ?n = "to_read env c" and ?cl = "content_length (parser c)"
  have cl: "?cl \<noteq> 0" "?cl \<noteq> - 1"
    using ctx_invD(7) [OF inv] s by auto
  have lt: "ptr c < data_end env" using inv by (simp add: ctx_inv_def)
  have un: "unat ?n = min (unat ?cl) (data_end env - ptr c)"
    using small by (rule unat_to_read)
  have pos: "1 \<le> unat ?n" using un cl lt by (simp add: unat_eq_zero Suc_le_eq unat_gt_0)
  show ptr: "ptr c \<le> ptr c'" using pos by (auto simp: c'_def take_body_def MARK_def)
  show "ptr c' < data_end env" using pos un lt by (auto simp: c'_def take_body_def MARK_def)
  have "?n \<le> ?cl" by (simp add: to_read_def)
  then have "unat (?cl - ?n) = unat ?cl - unat ?n" by (rule unat_sub)
  moreover have "unat ?cl < 2 ^ LENGTH(64)" by (rule unsigned_less)
  ultimately have "unat (?cl - ?n) < 2 ^ 64 - 1" using pos by simp
  then show "content_length (parser c') \<noteq> - 1"
    by (auto simp: c'_def take_body_def MARK_def unat_max_u64)
  have mk: "marks_ok c" using inv by (simp add: ctx_inv_def)
  have st: "p_state c \<in> mark_states M_body" using s by auto
  show "\<exists>i. marks c' = (\<lambda>_. None)(M_body := Some i) \<and> i \<le> ptr c'"
  proof (cases "marks c M_body")
    case None
    with marks_ok_cleared [OF mk st] have "marks c = (\<lambda>_. None)" by (metis fun_upd_idem_iff)
    with None ptr show ?thesis by (auto simp: c'_def take_body_def MARK_def)
  next
    case (Some i)
    with marks_ok_cleared [OF mk st] have "marks c = (\<lambda>_. None)(M_body := Some i)"
      by (metis fun_upd_triv fun_upd_upd)
    moreover have "i \<le> ptr c" using marks_okD [OF mk Some] by simp
    ultimately show ?thesis using ptr by (auto simp: c'_def take_body_def MARK_def)
  qed
qed (use inv in \<open>simp_all add: c'_def take_body_def MARK_def ctx_inv_def\<close>)

lemma good_body_identity_eof:
  assumes inv: "ctx_inv env 1 c" and s: "p_state c = s_body_identity_eof"
  shows "good env c (at_body_identity_eof env c)"
proof -
  have mk: "i \<le> ptr c \<and> m = M_body" if "marks c m = Some i" for m i
    using ctx_invD(4) [OF inv] s that mark_states_disjoint [of _ m M_body] marks_okD by fastforce
  have "ptr c \<le> data_end env - 1" using ctx_invD(2) [OF inv] by simp
  with inv s mk show ?thesis
    by (auto simp: at_body_identity_eof_def inv_defs MARK_def marks_ok_def dest!: mk split: if_splits)
qed

lemma good_chunk_data:
  assumes "data_end env < 2 ^ 64" and inv: "ctx_inv env 1 c" and s: "p_state c = s_chunk_data"
  shows "good env c (at_chunk_data env c)"
proof -
  note t = take_body_ok [OF assms(1) inv, OF disjI1, OF s]
  have cl: "content_length (parser c) \<noteq> 0" "content_length (parser c) \<noteq> - 1"
    "has_flag (flags (parser c)) F_CHUNKED"
    using ctx_invD(7) [OF inv] s by auto
  show ?thesis
    using t cl s ctx_invD(5) [OF inv]
    by (auto simp: at_chunk_data_def Let_def inv_defs marks_ok_def split: if_splits)
qed

lemma chunk_shift:
  fixes n :: u64
  assumes "\<not> (- 1 - 16) div 16 < n" and "0 \<le> v" and "v < 16"
  shows "unat (n * 16 + of_int v) = unat n * 16 + nat v" and "n * 16 + of_int v \<noteq> - 1"
proof -
  have "n \<le> (- 1 - 16) div 16" using assms(1) by simp
  then have n: "unat n \<le> 1152921504606846974" by (simp add: word_le_nat_alt unat_div)
  obtain k where k: "v = int k" "k < 16" using assms by (metis nat_0_le nat_less_iff of_nat_numeral zless_nat_eq_int_zless)
  show eq: "unat (n * 16 + of_int v) = unat n * 16 + nat v"
    using n k by (simp add: unat_word_ariths unat_of_nat_small)
  have "unat (- 1 :: u64) = 18446744073709551615" by (simp add: unat_max_u64)
  with eq n k show "n * 16 + of_int v \<noteq> - 1" by force
qed

lemma good_chunk_size_start:
  assumes inv: "ctx_inv env 1 c" and s: "p_state c = s_chunk_size_start"
  shows "good env c (at_chunk_size_start c)"
proof -
  have m: "marks c = (\<lambda>_. None)" using inv s by (simp add: no_marks)
  have st: "has_flag (flags (parser c)) F_CHUNKED" "n_read c = 1"
    using ctx_invD(7) [OF inv] s by auto
  have v: "(word_of_int (unhex ! ord (cur c)) :: u64) \<noteq> - 1" if "unhex ! ord (cur c) \<noteq> - 1"
    using that unhex_range [of "cur c"] chunk_shift(2) [of 0 "unhex ! ord (cur c)"] by simp
  show ?thesis
    using m st v inv by (simp add: at_chunk_size_start_def Let_def good_fail inv_defs)
qed

lemma good_chunk_size:
  assumes inv: "ctx_inv env 1 c" and s: "p_state c = s_chunk_size"
  shows "good env c (at_chunk_size c)"
proof -
  have m: "marks c = (\<lambda>_. None)" using inv s by (simp add: no_marks)
  have st: "has_flag (flags (parser c)) F_CHUNKED" "content_length (parser c) \<noteq> - 1"
    using ctx_invD(7) [OF inv] s by auto
  show ?thesis
  proof (cases "unhex ! ord (cur c) = - 1")
    case True
    with m st inv show ?thesis by (simp add: at_chunk_size_def Let_def good_fail inv_defs)
  next
    case False
    then have v: "0 \<le> unhex ! ord (cur c)" "unhex ! ord (cur c) < 16" 
      using unhex_range by auto
    with m st inv s chunk_shift(2) [OF _ v, of "content_length (parser c)"] show ?thesis
      by (auto simp: at_chunk_size_def Let_def good_fail inv_defs)
  qed
qed

lemma good_chunk_parameters:
  assumes inv: "ctx_inv env 1 c" and s: "p_state c = s_chunk_parameters"
  shows "good env c (at_chunk_parameters c)"
proof -
  have m: "marks c = (\<lambda>_. None)" using inv s by (simp add: no_marks)
  then show ?thesis
    using s inv by (simp add: at_chunk_parameters_def inv_defs)
qed

context quiet_callbacks
begin

lemma good_body_identity:
  assumes st: "settings env = st" and small: "data_end env < 2 ^ 64" and inv: "ctx_inv env 1 c"
    and s: "p_state c = s_body_identity"
  shows "good env c (at_body_identity env c)"
proof -
  note t = take_body_ok [OF small inv, OF disjI2, OF s]
  have cl: "content_length (parser c) \<noteq> 0" "content_length (parser c) \<noteq> - 1"
    using ctx_invD(7) [OF inv] s by auto
  show ?thesis
    using t cl s ctx_invD(5) [OF inv] st
    by (auto simp: at_body_identity_def Let_def inv_defs marks_ok_def rank_def
        intro!: good_data split: if_splits)
qed

lemma good_message_complete:
  assumes "settings env = st" and "ctx_inv env k c" and "http_errno (parser c') = HPE_OK"
    and "nread (parser c') \<le> max_header_size env" and "ptr c' = ptr c"
    and "\<And>s a. good env c0 
      (f (UPDATE_STATE (NEW_MESSAGE (parser c')) c'\<lparr>parser := (parser c')\<lparr>state := s\<rparr>, app := a\<rparr>))"
  shows "good env c0 (message_complete env c' f)"
  using assms
  by (auto simp: message_complete_def CALLBACK_NOTIFY_def inv_defs intro!: good_notify)

lemma good_message_done:
  assumes "settings env = st" and inv: "ctx_inv env 1 c" and s: "p_state c = s_message_done"
  shows "good env c (at_message_done env c)"
proof -
  have m: "marks c = (\<lambda>_. None)" using inv s by (simp add: no_marks)
  show ?thesis
    using m inv assms(1)
    by (auto simp: at_message_done_def inv_defs RETURN_def parser_ok_def intro!: good_message_complete)
qed

lemma good_chunk_size_almost_done:
  assumes "settings env = st" and inv: "ctx_inv env 1 c" and s: "p_state c = s_chunk_size_almost_done"
  shows "good env c (at_chunk_size_almost_done env c)"
proof -
  have m: "marks c = (\<lambda>_. None)" using inv s by (simp add: no_marks)
  have st: "has_flag (flags (parser c)) F_CHUNKED" "content_length (parser c) \<noteq> - 1"
    using ctx_invD(7) [OF inv] s by auto
  show ?thesis
    using m inv st assms(1)
    by (auto simp: at_chunk_size_almost_done_def CALLBACK_NOTIFY_def Let_def inv_defs intro!: good_notify good_strict)
qed

lemma good_chunk_data_almost_done:
  assumes "settings env = st" and inv: "ctx_inv env 1 c" and s: "p_state c = s_chunk_data_almost_done"
  shows "good env c (at_chunk_data_almost_done env c)"
proof -
  have m: "(marks c)(M_body := None) = (\<lambda>_. None)"
    using inv s by (intro marks_ok_cleared) (simp_all add: ctx_inv_def)
  have st: "has_flag (flags (parser c)) F_CHUNKED" "content_length (parser c) = 0"
    using ctx_invD(7) [OF inv] s by auto
  show ?thesis
    using m inv st assms(1)
    by (auto simp: at_chunk_data_almost_done_def CALLBACK_DATA_def Let_def inv_defs intro!: good_data good_strict)
qed

lemma good_chunk_data_done:
  assumes "settings env = st" and inv: "ctx_inv env 1 c" and s: "p_state c = s_chunk_data_done"
  shows "good env c (at_chunk_data_done env c)"
proof -
  have m: "marks c = (\<lambda>_. None)" using inv s by (simp add: no_marks)
  have st: "has_flag (flags (parser c)) F_CHUNKED"
    using ctx_invD(7) [OF inv] s by auto
  show ?thesis
    using m inv st assms(1)
    by (auto simp: at_chunk_data_done_def CALLBACK_NOTIFY_def Let_def inv_defs intro!: good_notify good_strict)
qed

lemma good_headers_done:
  assumes "settings env = st" and inv: "ctx_inv env 1 c" and s: "p_state c = s_headers_done"
  shows "good env c (at_headers_done env c)"
proof -
  let ?c = "c\<lparr>parser := (parser c)\<lparr>nread := 0\<rparr>, n_read := 0\<rparr>"
  have m: "marks c = (\<lambda>_. None)" using inv s by (simp add: no_marks)
  have break: "good env c (message_complete env ?c Break)"
    by (rule good_message_complete [OF assms(1) inv]) (use m inv in \<open>simp_all add: inv_defs\<close>)
  have return: "good env c (message_complete env ?c (\<lambda>c. RETURN (ptr c + 1) c))"
    if "upgrade (parser c)"
    by (rule good_message_complete [OF assms(1) inv])
      (use m inv that in \<open>simp_all add: inv_defs RETURN_def parser_ok_def\<close>)
  have ok: "http_errno (parser c) = HPE_OK" "ptr c < data_end env" using inv by (simp_all add: inv_defs)
  show ?thesis
    unfolding at_headers_done_def
    by (rule good_strict)
      (use m ok break return in \<open>simp_all add: Let_def inv_defs RETURN_def SET_ERRNO_def set_errno_def parser_ok_def\<close>)
qed

lemma good_headers_result:
  assumes k: "\<And>pr a. \<lbrakk>http_errno pr = HPE_OK \<or> http_errno pr = HPE_PAUSED; nread pr = n\<rbrakk> \<Longrightarrow>
      good env c0 (k (c\<lparr>parser := pr, app := a\<rparr>))"
    and "http_errno pr = HPE_OK \<or> http_errno pr = HPE_PAUSED" and "nread pr = n" and "ptr c < data_end env"
  shows "good env c0
      (let c = c\<lparr>parser := pr, app := a\<rparr>;
           skip = (\<lambda>pr. pr\<lparr>flags := flags pr OR F_SKIPBODY\<rparr>)
       in if r = (0 :: int) then k c
          else if r = 2 then k (c\<lparr>parser := skip (pr\<lparr>upgrade := True\<rparr>)\<rparr>)
          else if r = 1 then k (c\<lparr>parser := skip pr\<rparr>)
          else let c = SET_ERRNO HPE_CB_headers_complete c in RETURN (ptr c) c)"
proof -
  have swap: "c\<lparr>app := a, parser := p\<rparr> = c\<lparr>parser := p, app := a\<rparr>" for p by simp
  show ?thesis
    using k [of pr a] k [of "pr\<lparr>upgrade := True, flags := flags pr OR F_SKIPBODY\<rparr>" a]
      k [of "pr\<lparr>flags := flags pr OR F_SKIPBODY\<rparr>" a] assms(2-)
    by (simp add: swap Let_def SET_ERRNO_def set_errno_def RETURN_def parser_ok_def)
qed

text \<open>The callback on complete headers may skip the body or ask for an upgrade by its result.\<close>

lemma good_headers_almost_done:
  assumes "settings env = st" and inv: "ctx_inv env 1 c" and s: "p_state c = s_headers_almost_done"
  shows "good env c (at_headers_almost_done env c)"
proof -
  have m: "marks c = (\<lambda>_. None)" using inv s by (simp add: no_marks)
  from inv have ok: "http_errno (parser c) = HPE_OK" "ptr c < data_end env"
    "n_read c \<le> max_header_size env" "nread (parser c) \<le> max_header_size env"
    by (simp_all add: inv_defs)
  have trailing: "good env c (CALLBACK_NOTIFY_NOADVANCE env N_chunk_complete (UPDATE_STATE s_message_done c) Reexecute)"
    using m ok s assms(1)
    by (auto simp: CALLBACK_NOTIFY_NOADVANCE_def inv_defs rank_def intro!: good_notify)
  let ?c = "UPDATE_STATE s_headers_done c"
  let ?c' = "?c\<lparr>parser := (parser ?c)\<lparr>upgrade := upgrade_requested (parser ?c)\<rparr>\<rparr>"
  let ?k = "\<lambda>c. if http_errno (parser c) \<noteq> HPE_OK then RETURN (ptr c) c else Reexecute c"
  have k: "good env c (?k (?c'\<lparr>parser := pr, app := a\<rparr>))"
    if "http_errno pr = HPE_OK \<or> http_errno pr = HPE_PAUSED" "nread pr = nread (parser c)" for pr a
    using m ok that s by (auto simp: inv_defs RETURN_def parser_ok_def rank_def)
  have none: "good env c (?k ?c')"
    using m ok s by (auto simp: inv_defs RETURN_def parser_ok_def rank_def)
  have some: "good env c
      (case f (parser ?c') (app ?c') of (r, pr, a) \<Rightarrow>
         let c = ?c'\<lparr>parser := pr, app := a\<rparr>;
             skip = (\<lambda>pr. pr\<lparr>flags := flags pr OR F_SKIPBODY\<rparr>)
         in if r = 0 then ?k c
            else if r = 2 then ?k (c\<lparr>parser := skip (pr\<lparr>upgrade := True\<rparr>)\<rparr>)
            else if r = 1 then ?k (c\<lparr>parser := skip pr\<rparr>)
            else let c = SET_ERRNO HPE_CB_headers_complete c in RETURN (ptr c) c)"
    if f: "on_headers_complete st = Some f" for f
  proof -
    obtain r pr a where res: "f (parser ?c') (app ?c') = (r, pr, a)" by (metis prod_cases3)
    have "only_pauses (parser ?c') pr" by (rule headers_quiet [OF f res])
    then have pr: "http_errno pr = HPE_OK \<or> http_errno pr = HPE_PAUSED" "nread pr = nread (parser c)"
      using ok by (auto simp: only_pauses_def)
    show ?thesis
      unfolding res prod.case
      by (rule good_headers_result [where k = ?k, OF k]) (use pr ok in simp_all)
  qed
  show ?thesis
    unfolding at_headers_almost_done_def
    by (rule good_strict)
      (use trailing none some ok assms(1) in \<open>simp_all add: Let_def good_fail split: option.split\<close>)
qed


lemma step_good:
  assumes st: "settings env = st" and small: "data_end env < 2 ^ 64" and inv: "ctx_inv env 1 c"
  shows "good env c (step env c)"
  by (cases "p_state c")
    (simp_all add: step_def st inv url_states_def
      good_dead good_start_req_or_res good_res_or_resp_H good_start_res good_res_HTTP
      good_res_http_version good_res_first_status_code good_res_status_code good_res_status_start
      good_res_status good_expect good_start_req good_req_method good_req_spaces_before_url
      good_req_schema good_req_url good_req_http_start good_req_HTTP good_req_http_version
      good_req_http_end good_req_line_almost_done good_header_field_start good_header_field
      good_header_value_discard_ws good_header_value_discard_lws good_header_value_start
      good_header_value good_header_value_lws good_header_almost_done good_chunk_size_start
      good_chunk_size good_chunk_parameters good_chunk_size_almost_done good_headers_almost_done
      good_headers_done good_chunk_data [OF small inv] good_chunk_data_almost_done
      good_chunk_data_done good_body_identity [OF st small inv] good_body_identity_eof
      good_message_done)

end

section \<open>The loop\<close>

lemma run_done [simp]:
  "run env Abort = Some Aborted" "run env (Return n pr a) = Some (Returned n pr a)"
  by (simp_all add: run.simps)

lemma run_Break: "run env (Break c) = run env (loop_head env (c\<lparr>ptr := ptr c + 1\<rparr>))"
  by (simp add: run.simps)

lemma run_Reexecute: "run env (Reexecute c) = run env (step env c)"
  by (simp add: run.simps)

text \<open>What holds at the loop test: a context between two bytes.\<close>

definition loop_inv :: "'a exec_env \<Rightarrow> 'a ctx \<Rightarrow> bool" where
  "loop_inv env c \<longleftrightarrow>
    http_errno (parser c) = HPE_OK \<and> ptr c \<le> data_end env \<and> marks_ok c \<and>
    n_read c \<le> max_header_size env \<and> nread (parser c) \<le> max_header_size env \<and>
    state_inv 0 (parser c) (p_state c) (n_read c)"

lemma loop_inv_advance: "ctx_inv env 0 c \<Longrightarrow> loop_inv env (c\<lparr>ptr := ptr c + 1\<rparr>)"
  by (auto simp: loop_inv_def ctx_inv_def marks_ok_def intro: le_SucI)

lemma state_inv_count:
  "s \<noteq> s_chunk_size_start \<Longrightarrow> state_inv k pr s n = state_inv k' pr s n'"
  by (simp add: state_inv_def)

context quiet_callbacks
begin

lemma good_loop_end:
  assumes st: "settings env = st" and inv: "loop_inv env c" and "ptr c = data_end env"
  shows "good env c0 (loop_end env c)"
proof (cases "markless (p_state c)")
  case True
  with inv have "marks c = (\<lambda>_. None)" by (simp add: marks_markless loop_inv_def)
  with inv show ?thesis
    by (simp add: loop_end_def marks_set_def CALLBACK_DATA_NOADVANCE_def callback_data_def RETURN_def
        parser_ok_def loop_inv_def)
next
  case False
  then obtain m where m: "p_state c \<in> mark_states m" by (auto simp: markless_def)
  with inv have other: "marks c m' = None" if "m' \<noteq> m" for m'
    using marks_ok_only that by (auto simp: loop_inv_def)
  have "p_state c \<noteq> s_chunk_size_start"
    using m by (cases m) (auto simp: url_states_def)
  with inv have park: "parkable env c"
    using state_inv_count [of "p_state c" 0 "parser c" "n_read c" 0 "nread (parser c)"]
    by (simp add: parkable_def loop_inv_def)
  have "marks_set c \<le> 1"
    by (cases m) (simp_all add: marks_set_def other)
  with park inv assms show ?thesis
    by (auto simp: loop_end_def CALLBACK_DATA_NOADVANCE_def loop_inv_def parkable_def RETURN_def
        parser_ok_def intro!: good_data)
qed

lemma loop_head_good:
  assumes st: "settings env = st" and inv: "loop_inv env c"
  shows "case loop_head env c of
      Reexecute c' \<Rightarrow> ctx_inv env 1 c' \<and> ptr c' = ptr c
    | Return n pr a \<Rightarrow> good env c (Return n pr a)
    | _ \<Rightarrow> False"
proof (cases "ptr c = data_end env")
  case True
  have "good env c (loop_end env c)" by (rule good_loop_end [OF st inv True])
  with True show ?thesis
    by (cases "loop_end env c") (auto simp: loop_head_def ctx_inv_def)
next
  case False
  with inv have lt: "ptr c < data_end env" by (simp add: loop_inv_def)
  let ?c = "c\<lparr>cur := data env ! ptr c\<rparr>"
  show ?thesis
  proof (cases "PARSING_HEADER (p_state c)")
    case parsing: True
    have "state_inv 1 (parser c) (p_state c) (n_read c + 1)"
      using inv state_inv_count [of "p_state c" 0 "parser c" "n_read c" 1 "n_read c + 1"]
      by (cases "p_state c = s_chunk_size_start") (simp_all add: loop_inv_def)
    with inv lt parsing False show ?thesis
      by (auto simp: loop_head_def Let_def COUNT_HEADER_SIZE_def fail_def goto_error_def SET_ERRNO_def
          set_errno_def RETURN_def parser_ok_def ctx_inv_def loop_inv_def marks_ok_def not_less)
  next
    case skip: False
    then have "p_state c \<noteq> s_chunk_size_start" by auto
    with inv have "state_inv 1 (parser c) (p_state c) (n_read c)"
      using state_inv_count [of "p_state c" 0 "parser c" "n_read c" 1 "n_read c"]
      by (simp add: loop_inv_def)
    with inv lt skip False show ?thesis
      by (auto simp: loop_head_def Let_def ctx_inv_def loop_inv_def marks_ok_def)
  qed
qed


text \<open>
  The run from a context returns: the bytes left and the rank of the state bound the number of
  times the switch runs.
\<close>

definition returns_good :: "'b exec_env \<Rightarrow> 'b exec_result option \<Rightarrow> bool" where
  "returns_good env res \<longleftrightarrow>
    (\<exists>n pr a. res = Some (Returned n pr a) \<and> n \<le> data_end env \<and>
      parser_ok (max_header_size env) pr \<and> (http_errno pr = HPE_OK \<longrightarrow> n = data_end env \<or> upgrade pr))"

lemma returns_good_Some [simp]:
  "returns_good env (Some (Returned n pr a)) \<longleftrightarrow> n \<le> data_end env \<and>
    parser_ok (max_header_size env) pr \<and> (http_errno pr = HPE_OK \<longrightarrow> n = data_end env \<or> upgrade pr)"
  by (simp add: returns_good_def)

lemma rank_le: "rank s \<le> 3"
  by (simp add: rank_def)

lemma run_good:
  assumes st: "settings env = st" and small: "data_end env < 2 ^ 64" and "ctx_inv env 1 c"
  shows "returns_good env (run env (Reexecute c))"
  using assms(3)
proof (induction "(data_end env - ptr c) * 4 + rank (p_state c)" arbitrary: c rule: less_induct)
  case less
  have good: "good env c (step env c)" by (rule step_good [OF st small less.prems])
  have run: "run env (Reexecute c) = run env (step env c)" by (rule run_Reexecute)
  show ?case
  proof (cases "step env c")
    case (Break c')
    with good have "loop_inv env (c'\<lparr>ptr := ptr c' + 1\<rparr>)" and le: "ptr c \<le> ptr c'"
      and lt: "ptr c' < data_end env"
      using loop_inv_advance by (auto simp: ctx_inv_def)
    note head = loop_head_good [OF st this(1)]
    show ?thesis
    proof (cases "loop_head env (c'\<lparr>ptr := ptr c' + 1\<rparr>)")
      case (Reexecute c'')
      with head have c'': "ctx_inv env 1 c''" "ptr c'' = ptr c' + 1" by simp_all
      have "(data_end env - ptr c'') * 4 + rank (p_state c'') < (data_end env - ptr c) * 4 + rank (p_state c)"
        using c''(2) le lt rank_le [of "p_state c''"] by auto
      with less.hyps c''(1) Break Reexecute run show ?thesis by (simp add: run_Break)
    qed (use head Break run in \<open>simp_all add: run_Break\<close>)
  next
    case (Reexecute c')
    with good have "ctx_inv env 1 c'" "ptr c \<le> ptr c'" "rank (p_state c') < rank (p_state c)" by simp_all
    moreover from this have "(data_end env - ptr c') * 4 \<le> (data_end env - ptr c) * 4" by simp
    ultimately show ?thesis using less.hyps [of c'] Reexecute run by simp
  next
    case (Return n pr a)
    with good run show ?thesis by simp
  next
    case Abort
    with good show ?thesis by simp
  qed
qed

lemma mark_states_initial: "initial_marks s m = Some i \<Longrightarrow> i = 0 \<and> s \<in> mark_states m"
  by (auto simp: initial_marks_def url_states_def split: if_splits)

lemma eof_callback:
  assumes "settings env = st" and "http_errno (parser c) = HPE_OK" and "p_state c = state (parser c)"
    and "parser_ok mhs (parser c)" and "ptr c = 0"
  shows "\<exists>n pr' a'. CALLBACK_NOTIFY_NOADVANCE env N_message_complete c
    (\<lambda>c. Return 0 (parser c) (app c)) = Return n pr' a' \<and> n = 0 \<and> parser_ok mhs pr'"
proof (cases "on_message_complete st")
  case None
  with assms show ?thesis by (simp add: CALLBACK_NOTIFY_NOADVANCE_def callback_notify_def)
next
  case (Some f)
  obtain r pr a where res: "f ((parser c)\<lparr>state := p_state c\<rparr>) (app c) = (r, pr, a)"
    by (metis prod_cases3)
  have "only_pauses ((parser c)\<lparr>state := p_state c\<rparr>) pr"
    by (rule notify_quiet [where n = N_message_complete and f = f, OF _ res]) (use Some in simp)
  with assms Some res show ?thesis
    by (auto simp: CALLBACK_NOTIFY_NOADVANCE_def callback_notify_def after_callback_def only_pauses_def
        parser_ok_def set_errno_def)
qed

lemma execute_returns:
  assumes ok: "parser_ok mhs pr" and small: "length d < 2 ^ 64"
  shows "\<exists>n pr' a'. sn_http_parser_execute st mhs pr a d = Some (Returned n pr' a') \<and>
    n \<le> max 1 (length d) \<and> parser_ok mhs pr' \<and>
    (http_errno pr' = HPE_OK \<longrightarrow> n = length d \<or> upgrade pr')"
proof -
  define env where "env = \<lparr>settings = st, max_header_size = mhs, data = d, lenient = lenient_http_headers pr\<rparr>"
  define c where "c = \<lparr>parser = pr, app = a, cur = NUL, ptr = 0, p_state = state pr, n_read = nread pr,
    marks = (\<lambda>_. None)\<rparr>"
  have env: "settings env = st" "data env = d" "max_header_size env = mhs" by (simp_all add: env_def)
  have exec: "sn_http_parser_execute st mhs pr a d = run env (exec_entry env pr a)"
    by (simp add: sn_http_parser_execute_def env_def Let_def)
  consider (error) "http_errno pr \<noteq> HPE_OK"
    | (empty) "http_errno pr = HPE_OK" "d = []" | (bytes) "http_errno pr = HPE_OK" "d \<noteq> []" by auto
  then show ?thesis
  proof cases
    case error
    with ok show ?thesis by (simp add: exec exec_entry_def)
  next
    case empty
    show ?thesis
    proof (cases "state pr = s_body_identity_eof")
      case True
      with empty ok env eof_callback [of env c mhs]
      obtain pr' a' where "CALLBACK_NOTIFY_NOADVANCE env N_message_complete c
          (\<lambda>c. Return 0 (parser c) (app c)) = Return 0 pr' a'" "parser_ok mhs pr'"
        by (auto simp: c_def)
      with True empty env(2) show ?thesis unfolding exec by (simp add: exec_entry_def Let_def c_def)
    next
      case False
      with empty ok env(2,3) show ?thesis
        unfolding exec by (simp add: exec_entry_def Let_def SET_ERRNO_def set_errno_def parser_ok_def)
    qed
  next
    case bytes
    let ?c = "c\<lparr>marks := initial_marks (state pr)\<rparr>"
    have entry: "exec_entry env pr a = loop_head env ?c"
      using bytes env by (simp add: exec_entry_def c_def)
    have "loop_inv env ?c"
      using bytes ok env mark_states_initial
      by (fastforce simp: loop_inv_def marks_ok_def c_def parser_ok_def)
    note head = loop_head_good [OF env(1) this]
    have "returns_good env (run env (loop_head env ?c))"
    proof (cases "loop_head env ?c")
      case (Reexecute c')
      with head env small show ?thesis using run_good [of env c'] by simp
    qed (use head in simp_all)
    with env show ?thesis
      by (auto simp: exec entry returns_good_def)
  qed
qed

end

end
