(* ===== verification/HttpSession.thy ===== *)
theory HttpSession
  imports HttpSafety
begin

text \<open>
  The parser as its client sees it: a session is a sequence of calls to
  \<open>sn_http_parser_execute\<close> and \<open>http_parser_pause\<close> on one parser
  (\<open>src/src/httpparser.cpp\<close>).  Whatever the bytes, whatever their division into buffers, the
  calls return and leave a parser the next call may work on; the one assertion that can fail is that
  of \<open>http_parser_pause\<close>, on a parser in error.
\<close>

section \<open>A client that records\<close>

text \<open>
  The callbacks of a client that keeps a log of what it is told; the later theories state what
  the parser delivers as the growth of this log.
\<close>

datatype event = Notified notification | Received mark "byte list" | Headers_complete

definition recorder :: "event list http_parser_settings" where
  "recorder =
    (let say = (\<lambda>n. Some (\<lambda>pr log. (0, pr, log @ [Notified n])));
         get = (\<lambda>m. Some (\<lambda>pr bs log. (0, pr, log @ [Received m bs])))
     in \<lparr>on_message_begin = say N_message_begin, on_url = get M_url, on_status = get M_status,
         on_header_field = get M_header_field, on_header_value = get M_header_value,
         on_headers_complete = Some (\<lambda>pr log. (0, pr, log @ [Headers_complete])),
         on_body = get M_body, on_message_complete = say N_message_complete,
         on_chunk_header = say N_chunk_header, on_chunk_complete = say N_chunk_complete\<rparr>)"

lemma recorder_notify: "notify_cb recorder n = Some (\<lambda>pr log. (0, pr, log @ [Notified n]))"
  by (cases n) (simp_all add: recorder_def Let_def)

lemma recorder_data: "data_cb recorder m = Some (\<lambda>pr bs log. (0, pr, log @ [Received m bs]))"
  by (cases m) (simp_all add: recorder_def Let_def)

lemma recorder_headers:
  "on_headers_complete recorder = Some (\<lambda>pr log. (0, pr, log @ [Headers_complete]))"
  by (simp add: recorder_def Let_def)

interpretation recording: quiet_callbacks recorder
  by unfold_locales (auto simp: recorder_notify recorder_data recorder_headers only_pauses_def)

interpretation silent: quiet_callbacks sn_http_parser_settings_init
proof (unfold_locales, goal_cases)
  case (1 n f pr a r pr' a')
  then show ?case by (cases n) (simp_all add: sn_http_parser_settings_init_def)
next
  case (2 m g pr bs a r pr' a')
  then show ?case by (cases m) (simp_all add: sn_http_parser_settings_init_def)
qed (simp add: sn_http_parser_settings_init_def)

section \<open>Sessions\<close>

text \<open>A client's calls in order; \<open>None\<close> is the failing assertion of one of them.\<close>

datatype call = Execute "byte list" | Pause bool

fun session ::
  "'a http_parser_settings \<Rightarrow> u32 \<Rightarrow> call list \<Rightarrow> http_parser \<Rightarrow> 'a \<Rightarrow> (http_parser \<times> 'a) option"
where
  "session st mhs [] pr a = Some (pr, a)"
| "session st mhs (Execute d # cs) pr a =
    (case sn_http_parser_execute st mhs pr a d of
       Some (Returned n pr' a') \<Rightarrow> session st mhs cs pr' a'
     | _ \<Rightarrow> None)"
| "session st mhs (Pause b # cs) pr a =
    (case http_parser_pause pr b of
       None \<Rightarrow> None
     | Some pr' \<Rightarrow> session st mhs cs pr' a)"

text \<open>A buffer's length is a \<open>size_t\<close>.\<close>

definition small_call :: "call \<Rightarrow> bool" where
  "small_call c = (case c of Execute d \<Rightarrow> length d < 2 ^ 64 | Pause b \<Rightarrow> True)"

lemma parser_ok_init: "parser_ok mhs (sn_http_parser_init t)"
  by (cases t) (simp_all add: parser_ok_def sn_http_parser_init_def)

definition in_error :: "http_parser \<Rightarrow> bool" where
  "in_error pr \<longleftrightarrow> http_errno pr \<noteq> HPE_OK \<and> http_errno pr \<noteq> HPE_PAUSED"

lemma pause_in_error: "http_parser_pause pr b = None \<longleftrightarrow> in_error pr"
  by (simp add: http_parser_pause_def in_error_def)

lemma parser_ok_pause: "parser_ok mhs pr \<Longrightarrow> http_parser_pause pr b = Some pr' \<Longrightarrow> parser_ok mhs pr'"
  by (auto simp: parser_ok_def http_parser_pause_def set_errno_def split: if_splits)

lemma session_append:
  "session st mhs (cs @ cs') pr a = Option.bind (session st mhs cs pr a) (\<lambda>(pr, a). session st mhs cs' pr a)"
  by (induction st mhs cs pr a rule: session.induct) (simp_all split: option.split exec_result.split)

text \<open>The calls that pause or resume a parser in error.\<close>

definition pauses_in_error ::
  "'a http_parser_settings \<Rightarrow> u32 \<Rightarrow> call list \<Rightarrow> http_parser \<Rightarrow> 'a \<Rightarrow> bool"
where
  "pauses_in_error st mhs cs pr a \<longleftrightarrow>
    (\<exists>cs1 b cs2 pr' a'. cs = cs1 @ Pause b # cs2 \<and> session st mhs cs1 pr a = Some (pr', a') \<and> in_error pr')"

lemma pauses_in_error_None: "pauses_in_error st mhs cs pr a \<Longrightarrow> session st mhs cs pr a = None"
  by (auto simp: pauses_in_error_def session_append pause_in_error [THEN iffD2])

context quiet_callbacks
begin

lemma session_parser_ok:
  assumes "\<forall>c \<in> set cs. small_call c" and "parser_ok mhs pr"
  shows "pauses_in_error st mhs cs pr a \<or> (\<exists>pr' a'. session st mhs cs pr a = Some (pr', a') \<and> parser_ok mhs pr')"
  using assms
proof (induction cs arbitrary: pr a)
  case (Cons c cs)
  obtain pr1 a1 where one: "session st mhs [c] pr a = Some (pr1, a1) \<and> parser_ok mhs pr1 \<or>
      (\<exists>b. c = Pause b \<and> in_error pr)"
  proof (cases c)
    case (Execute d)
    with Cons.prems have "length d < 2 ^ 64" by (simp add: small_call_def)
    from execute_returns [OF Cons.prems(2) this, of a] Execute that show thesis by fastforce
  next
    case (Pause b)
    with parser_ok_pause [OF Cons.prems(2), of b] pause_in_error [of pr b] that show thesis
      by (cases "http_parser_pause pr b") auto
  qed
  show ?case
  proof (cases "\<exists>b. c = Pause b \<and> in_error pr")
    case True
    then obtain b where b: "c = Pause b" "in_error pr" by blast
    then have "c # cs = [] @ Pause b # cs \<and> session st mhs [] pr a = Some (pr, a) \<and> in_error pr" by simp
    then show ?thesis unfolding pauses_in_error_def by blast
  next
    case False
    with one have one: "session st mhs [c] pr a = Some (pr1, a1)" "parser_ok mhs pr1" by blast+
    have go: "session st mhs (c # ds) pr a = session st mhs ds pr1 a1" for ds
      using session_append [of st mhs "[c]" ds pr a] one(1) by simp
    from Cons.IH [OF _ one(2), of a1] Cons.prems(1) consider (bad) "pauses_in_error st mhs cs pr1 a1"
      | (good) "\<exists>pr' a'. session st mhs cs pr1 a1 = Some (pr', a') \<and> parser_ok mhs pr'" by auto
    then show ?thesis
    proof cases
      case bad
      then obtain cs1 b cs2 pr' a' where "cs = cs1 @ Pause b # cs2" "session st mhs cs1 pr1 a1 = Some (pr', a')" "in_error pr'"
        unfolding pauses_in_error_def by blast
      then have "c # cs = (c # cs1) @ Pause b # cs2 \<and> session st mhs (c # cs1) pr a = Some (pr', a') \<and> in_error pr'"
        by (simp add: go)
      then show ?thesis unfolding pauses_in_error_def by blast
    qed (simp add: go)
  qed
qed simp

end

section \<open>Properties\<close>

text \<open>
  C1.  One call of \<open>sn_http_parser_execute\<close> on any buffer returns: it neither loops in its
  \<open>goto reexecute\<close> nor fails one of its assertions.  It reports at most the length of the
  buffer (1 at an unexpected end of input), leaves a parser that satisfies its invariant, and
  without an error has consumed the whole buffer or handed the connection over to another
  protocol.  This holds for all callbacks that do nothing to the parser but pause it.
\<close>

theorem parser_execute_returns:
  assumes "quiet_callbacks st" and "parser_ok mhs pr" and "length d < 2 ^ 64"
  shows "\<exists>n pr' a'. sn_http_parser_execute st mhs pr a d = Some (Returned n pr' a') \<and>
    n \<le> max 1 (length d) \<and> parser_ok mhs pr' \<and>
    (http_errno pr' = HPE_OK \<longrightarrow> n = length d \<or> upgrade pr')"
  using quiet_callbacks.execute_returns [OF assms] .

lemma parser_execute_returns_witness:
  "\<exists>n pr' a'. sn_http_parser_execute recorder 80 (sn_http_parser_init HTTP_BOTH) [] ''HTTP/1.1 20'' =
      Some (Returned n pr' a') \<and> n \<le> max 1 (length ''HTTP/1.1 20'') \<and> parser_ok 80 pr' \<and>
      (http_errno pr' = HPE_OK \<longrightarrow> n = length ''HTTP/1.1 20'' \<or> upgrade pr')"
  by (rule parser_execute_returns)
    (simp_all add: recording.quiet_callbacks_axioms parser_ok_init)

text \<open>
  C14.  A session on a freshly initialised parser, of any number of buffers, pauses and resumptions
  in any order, runs to its end and leaves a parser that satisfies the invariant, its header byte
  count being at most \<open>max_header_size\<close> unless it is in error; with one exception, which is exact:
  it fails the assertion of \<open>http_parser_pause\<close> if and only if it pauses or resumes a parser that
  the calls before have left in an error.
\<close>

theorem session_outcome:
  assumes "quiet_callbacks st" and "\<forall>c \<in> set cs. small_call c"
  shows "(session st mhs cs (sn_http_parser_init t) a = None \<longleftrightarrow>
      (\<exists>cs1 b cs2 pr' a'. cs = cs1 @ Pause b # cs2 \<and>
        session st mhs cs1 (sn_http_parser_init t) a = Some (pr', a') \<and>
        http_errno pr' \<noteq> HPE_OK \<and> http_errno pr' \<noteq> HPE_PAUSED)) \<and>
    (\<forall>pr' a'. session st mhs cs (sn_http_parser_init t) a = Some (pr', a') \<longrightarrow>
      parser_ok mhs pr' \<and> (http_errno pr' = HPE_OK \<or> http_errno pr' = HPE_PAUSED \<longrightarrow> nread pr' \<le> mhs))"
proof -
  let ?pr = "sn_http_parser_init t"
  have either: "pauses_in_error st mhs cs ?pr a \<or>
      (\<exists>pr' a'. session st mhs cs ?pr a = Some (pr', a') \<and> parser_ok mhs pr')"
    by (rule quiet_callbacks.session_parser_ok [OF assms parser_ok_init])
  then have "session st mhs cs ?pr a = None \<longleftrightarrow> pauses_in_error st mhs cs ?pr a"
    using pauses_in_error_None by fastforce
  moreover have "parser_ok mhs pr' \<and> (http_errno pr' = HPE_OK \<or> http_errno pr' = HPE_PAUSED \<longrightarrow> nread pr' \<le> mhs)"
    if "session st mhs cs ?pr a = Some (pr', a')" for pr' a'
    using either that pauses_in_error_None [of st mhs cs ?pr a] by (auto simp: parser_ok_def)
  ultimately show ?thesis by (simp add: pauses_in_error_def in_error_def)
qed

lemma session_in_error:
  "case session recorder 80 [Execute ''x''] (sn_http_parser_init HTTP_REQUEST) [] of
     None \<Rightarrow> False | Some (pr, a) \<Rightarrow> http_errno pr = HPE_INVALID_METHOD"
  by code_simp

lemma session_outcome_witness:
  "session recorder 80 [Execute ''x'', Pause True] (sn_http_parser_init HTTP_REQUEST) [] = None \<and>
    (\<exists>pr a. session recorder 80 [Execute ''GET'', Pause True, Execute '' /'', Pause False]
        (sn_http_parser_init HTTP_REQUEST) [] = Some (pr, a) \<and> parser_ok 80 pr)"
proof
  note outcome = session_outcome [OF recording.quiet_callbacks_axioms, of _ 80 HTTP_REQUEST "[]"]
  obtain pr a where pr: "session recorder 80 [Execute ''x''] (sn_http_parser_init HTTP_REQUEST) [] = Some (pr, a)"
    "http_errno pr = HPE_INVALID_METHOD"
    using session_in_error by (auto split: option.splits)
  then have "[Execute ''x'', Pause True] = [Execute ''x''] @ Pause True # [] \<and>
      session recorder 80 [Execute ''x''] (sn_http_parser_init HTTP_REQUEST) [] = Some (pr, a) \<and>
      http_errno pr \<noteq> HPE_OK \<and> http_errno pr \<noteq> HPE_PAUSED"
    by simp
  then show "session recorder 80 [Execute ''x'', Pause True] (sn_http_parser_init HTTP_REQUEST) [] = None"
    using outcome [of "[Execute ''x'', Pause True]"] by (fastforce simp: small_call_def)
  have "session recorder 80 [Execute ''GET'', Pause True, Execute '' /'', Pause False] (sn_http_parser_init HTTP_REQUEST) [] \<noteq> None"
    by code_simp
  then obtain pr a where
    "session recorder 80 [Execute ''GET'', Pause True, Execute '' /'', Pause False] (sn_http_parser_init HTTP_REQUEST) [] = Some (pr, a)"
    by (cases "session recorder 80 [Execute ''GET'', Pause True, Execute '' /'', Pause False]
      (sn_http_parser_init HTTP_REQUEST) []") (blast, force)
  moreover have "\<forall>c \<in> set [Execute ''GET'', Pause True, Execute '' /'', Pause False]. small_call c"
    by (simp add: small_call_def)
  ultimately show "\<exists>pr a. session recorder 80 [Execute ''GET'', Pause True, Execute '' /'', Pause False]
        (sn_http_parser_init HTTP_REQUEST) [] = Some (pr, a) \<and> parser_ok 80 pr"
    using outcome [THEN conjunct2, rule_format] by blast
qed

end
