(* ===== verification/HttpRun.thy ===== *)
theory HttpRun
  imports HttpSession
begin

text \<open>
  Running \<open>sn_http_parser_execute\<close> (\<open>src/src/httpparser.cpp\<close>) on input that is only partly
  known: one turn of the loop as an equation, the callback macros under a recording client,
  and runs over a piece of the buffer as an induction on that piece.
\<close>

section \<open>One byte\<close>

lemma callback_data_cur:
  "callback_data env m e er (c\<lparr>cur := x\<rparr>) k = callback_data env m e er c (\<lambda>c'. k (c'\<lparr>cur := x\<rparr>))"
  by (auto simp: callback_data_def after_callback_def Let_def intro: arg_cong [of _ _ k]
      split: option.split prod.split)

lemma RETURN_cur [simp]: "RETURN v (c\<lparr>cur := x\<rparr>) = RETURN v c"
  by (simp add: RETURN_def)

lemma loop_head_cur [simp]: "loop_head env (c\<lparr>cur := x\<rparr>) = loop_head env c"
  by (simp add: loop_head_def loop_end_def marks_set_def CALLBACK_DATA_NOADVANCE_def
      callback_data_cur)

text \<open>
  The context in which the switch sees the byte at \<open>ptr c\<close>: the byte is loaded, and counted
  while a head is being parsed.
\<close>

definition load :: "'a exec_env \<Rightarrow> 'a ctx \<Rightarrow> 'a ctx" where
  "load env c =
    c\<lparr>cur := data env ! ptr c,
      n_read := (if PARSING_HEADER (p_state c) then n_read c + 1 else n_read c)\<rparr>"

lemma load_simps [simp]:
  "parser (load env c) = parser c" "app (load env c) = app c" "ptr (load env c) = ptr c"
  "p_state (load env c) = p_state c" "marks (load env c) = marks c"
  "cur (load env c) = data env ! ptr c"
  by (simp_all add: load_def)

text \<open>
  \<open>at_loop env c\<close> is the run from the loop test.  \<open>turn\<close> is one turn of the loop whose
  switch ends in \<open>break\<close>.
\<close>

definition at_loop :: "'a exec_env \<Rightarrow> 'a ctx \<Rightarrow> 'a exec_result option" where
  "at_loop env c = run env (loop_head env c)"

lemma at_loop_cur [simp]: "at_loop env (c\<lparr>cur := x\<rparr>) = at_loop env c"
  by (simp add: at_loop_def)

lemma turn:
  assumes "ptr c < data_end env"
    and "PARSING_HEADER (p_state c) \<Longrightarrow> n_read c + 1 \<le> max_header_size env"
  shows "at_loop env c = run env (step env (load env c))"
proof (cases "PARSING_HEADER (p_state c)")
  case True
  with assms show ?thesis
    by (simp add: at_loop_def loop_head_def COUNT_HEADER_SIZE_def Let_def load_def run_Reexecute
        not_le [symmetric] del: PARSING_HEADER_iff)
next
  case False
  with assms show ?thesis
    by (simp add: at_loop_def loop_head_def Let_def load_def run_Reexecute del: PARSING_HEADER_iff)
qed

lemma run_Break_loop: "run env (Break c) = at_loop env (c\<lparr>ptr := ptr c + 1\<rparr>)"
  by (simp add: run_Break at_loop_def)

section \<open>Callbacks of a listening client\<close>

text \<open>
  A client that listens: its callbacks leave the parser alone and change the application state
  by \<open>say\<close>, which is told the event and the request's method so far.  All but the callback at the
  end of the head return 0; that one returns 1, so that no body is expected, if \<open>skip\<close> holds.
  The callbacks for the status line and for chunks are free, and the one for the beginning may
  be missing.
\<close>

definition tells ::
  "'a http_parser_settings \<Rightarrow> (event \<Rightarrow> http_method \<Rightarrow> 'a \<Rightarrow> 'a) \<Rightarrow> ('a \<Rightarrow> bool) \<Rightarrow> bool"
where
  "tells st say skip \<longleftrightarrow>
    (case on_message_begin st of
       None \<Rightarrow> say (Notified N_message_begin) = (\<lambda>m a. a)
     | Some f \<Rightarrow> f = (\<lambda>pr a. (0, pr, say (Notified N_message_begin) (method pr) a))) \<and>
    on_message_complete st = Some (\<lambda>pr a. (0, pr, say (Notified N_message_complete) (method pr) a)) \<and>
    (\<forall>m. m \<noteq> M_status \<longrightarrow> data_cb st m = Some (\<lambda>pr bs a. (0, pr, say (Received m bs) (method pr) a))) \<and>
    on_headers_complete st =
      Some (\<lambda>pr a. (if skip a then 1 else 0, pr, say Headers_complete (method pr) a))"

text \<open>A series of events.\<close>

primrec told :: "(event \<Rightarrow> http_method \<Rightarrow> 'a \<Rightarrow> 'a) \<Rightarrow> http_method \<Rightarrow> event list \<Rightarrow> 'a \<Rightarrow> 'a" where
  "told say m [] a = a"
| "told say m (e # es) a = told say m es (say e m a)"

lemma told_append [simp]: "told say m (es @ fs) a = told say m fs (told say m es a)"
  by (induction es arbitrary: a) simp_all

text \<open>The recorder is such a client.\<close>

definition log_event :: "event \<Rightarrow> http_method \<Rightarrow> event list \<Rightarrow> event list" where
  "log_event e m log = log @ [e]"

definition no_skip :: "'a \<Rightarrow> bool" where
  "no_skip a = False"

lemma recorder_tells: "settings env = recorder \<Longrightarrow> tells (settings env) log_event no_skip"
proof -
  assume "settings env = recorder"
  moreover have "on_message_begin recorder = notify_cb recorder N_message_begin"
    "on_message_complete recorder = notify_cb recorder N_message_complete" by simp_all
  ultimately show ?thesis
    by (simp only: tells_def recorder_notify recorder_data recorder_headers) (simp add: log_event_def no_skip_def)
qed

lemma told_log [simp]: "told log_event m es log = log @ es"
  by (induction es arbitrary: log) (simp_all add: log_event_def)

text \<open>The callback at the beginning stores the state in the parser only if there is one.\<close>

definition begin_state :: "'a exec_env \<Rightarrow> state \<Rightarrow> http_parser \<Rightarrow> http_parser" where
  "begin_state env s pr = (if on_message_begin (settings env) = None then pr else pr\<lparr>state := s\<rparr>)"

lemma tells_begin:
  assumes "tells (settings env) say skip" and "http_errno (parser c) = HPE_OK"
  shows "callback_notify env N_message_begin er c k =
    k (c\<lparr>parser := begin_state env (p_state c) (parser c),
         app := say (Notified N_message_begin) (method (parser c)) (app c)\<rparr>)"
  using assms
  by (auto simp: callback_notify_def tells_def after_callback_def begin_state_def split: option.splits)

lemma tells_complete:
  assumes "tells (settings env) say skip" and "http_errno (parser c) = HPE_OK"
  shows "callback_notify env N_message_complete er c k =
    k (c\<lparr>parser := (parser c)\<lparr>state := p_state c\<rparr>,
         app := say (Notified N_message_complete) (method (parser c)) (app c)\<rparr>)"
  using assms by (simp add: callback_notify_def tells_def after_callback_def)

lemma tells_data:
  assumes "tells (settings env) say skip" and "http_errno (parser c) = HPE_OK" and "marks c m = Some i"
    and "m \<noteq> M_status"
  shows "callback_data env m e er c k =
    k (c\<lparr>parser := (parser c)\<lparr>state := p_state c\<rparr>,
        app := say (Received m (seg (data env) i e)) (method (parser c)) (app c),
        marks := (marks c)(m := None)\<rparr>)"
  using assms by (simp add: callback_data_def tells_def after_callback_def)

lemma tells_headers:
  "tells (settings env) say skip \<Longrightarrow> on_headers_complete (settings env) =
    Some (\<lambda>pr a. (if skip a then 1 else 0, pr, say Headers_complete (method pr) a))"
  by (simp add: tells_def)

text \<open>The recorder's own, for chunks and parts of bodies.\<close>

lemma recorder_callback_notify:
  assumes "settings env = recorder" and "http_errno (parser c) = HPE_OK"
  shows "callback_notify env n er c k =
    k (c\<lparr>parser := (parser c)\<lparr>state := p_state c\<rparr>, app := app c @ [Notified n]\<rparr>)"
  using assms by (simp add: callback_notify_def recorder_notify after_callback_def)

lemma recorder_callback_data:
  assumes "settings env = recorder" and "http_errno (parser c) = HPE_OK" and "marks c m = Some i"
  shows "callback_data env m e er c k =
    k (c\<lparr>parser := (parser c)\<lparr>state := p_state c\<rparr>, app := app c @ [Received m (seg (data env) i e)],
        marks := (marks c)(m := None)\<rparr>)"
  using assms by (simp add: callback_data_def recorder_data after_callback_def)

lemma callback_data_unmarked:
  assumes "http_errno (parser c) = HPE_OK" and "marks c m = None"
  shows "callback_data env m e er c k = k c"
  using assms by (simp add: callback_data_def)

section \<open>Pieces of the buffer\<close>

text \<open>\<open>bytes_at d i w\<close>: the buffer holds \<open>w\<close> from position \<open>i\<close> on.\<close>

primrec bytes_at :: "byte list \<Rightarrow> nat \<Rightarrow> byte list \<Rightarrow> bool" where
  "bytes_at d i [] \<longleftrightarrow> i \<le> length d"
| "bytes_at d i (x # w) \<longleftrightarrow> i < length d \<and> d ! i = x \<and> bytes_at d (Suc i) w"

lemma bytes_at_bound: "bytes_at d i w \<Longrightarrow> i + length w \<le> length d"
  by (induction w arbitrary: i) fastforce+

lemma bytes_at_append [simp]:
  "bytes_at d i (u @ v) \<longleftrightarrow> bytes_at d i u \<and> bytes_at d (i + length u) v"
  by (induction u arbitrary: i) (auto dest: bytes_at_bound)

lemma bytes_at_Suc: "bytes_at (x # d) (Suc i) w = bytes_at d i w"
  by (induction w arbitrary: i) auto

lemma bytes_at_self [simp]: "bytes_at (w @ rest) 0 w"
  by (induction w) (auto simp: bytes_at_Suc)

lemma bytes_at_all [simp]: "bytes_at w 0 w"
  using bytes_at_self [of w "[]"] by simp

lemma seg_bytes_at: "bytes_at d i w \<Longrightarrow> seg d i (i + length w) = w"
proof (induction w arbitrary: i)
  case (Cons x w)
  then have "seg d i (Suc i) = [x]" and "seg d (Suc i) (Suc i + length w) = w"
    by (auto simp: seg_def take_Suc_conv_app_nth)
  with seg_append [of i "Suc i" "Suc i + length w" d]
  have "seg d i (Suc i + length w) = [x] @ w" by (metis le_add1 lessI less_imp_le)
  then show ?case by simp
qed simp

text \<open>The header bytes that may still be counted.\<close>

definition room :: "'a exec_env \<Rightarrow> 'a ctx \<Rightarrow> nat \<Rightarrow> bool" where
  "room env c k \<longleftrightarrow> unat (n_read c) + k \<le> unat (max_header_size env)"

lemma unat_count:
  fixes n m :: u32
  assumes "unat n + k \<le> unat m"
  shows "unat (n + of_nat k) = unat n + k" and "n + of_nat k \<le> m"
proof -
  have "unat m < 2 ^ LENGTH(32)" by (rule unsigned_less)
  with assms show *: "unat (n + of_nat k) = unat n + k"
    by (simp add: unat_word_ariths unat_of_nat_small)
  with assms show "n + of_nat k \<le> m" by (simp add: word_le_nat_alt)
qed

lemma room_more: "room env c (Suc k) \<Longrightarrow> unat (n_read c + 1) + k \<le> unat (max_header_size env)"
  using unat_count(1) [of "n_read c" 1 "max_header_size env"] by (simp add: room_def)

lemma room_load: "room env c (Suc k) \<Longrightarrow> room env (load env c) k"
  using room_more [of env c k] by (auto simp: room_def load_def)

lemma turn_break:
  assumes "ptr c < data_end env" and "room env c (Suc k)" and "step env (load env c) = Break c'"
  shows "at_loop env c = at_loop env (c'\<lparr>ptr := ptr c' + 1\<rparr>)"
proof -
  have "n_read c + 1 \<le> max_header_size env"
    using unat_count(2) [of "n_read c" 1 "max_header_size env"] assms(2) by (simp add: room_def)
  with assms show ?thesis by (simp add: turn run_Break_loop)
qed

text \<open>The last byte read is overwritten at the next turn, so it may be dropped.\<close>

lemma turn_to:
  assumes "ptr c < data_end env" and "room env c (Suc k)" and "step env (load env c) = Break d"
    and "c'\<lparr>cur := cur d\<rparr> = d\<lparr>ptr := ptr d + 1\<rparr>"
  shows "at_loop env c = at_loop env c'"
  using turn_break [OF assms(1-3)] at_loop_cur [of env "cur d" c'] assms(4) by simp

lemma turn_fail:
  assumes "ptr c < data_end env" and "room env c (Suc k)" and "step env (load env c) = fail e (load env c)"
    and "e \<noteq> HPE_OK"
  shows "\<exists>n pr. at_loop env c = Some (Returned n pr (app c)) \<and> http_errno pr = e"
proof -
  have "n_read c + 1 \<le> max_header_size env"
    using unat_count(2) [of "n_read c" 1 "max_header_size env"] assms(2) by (simp add: room_def)
  with assms show ?thesis
    by (simp add: turn fail_def goto_error_def SET_ERRNO_def set_errno_def RETURN_def)
qed

lemma at_loop_end:
  assumes "ptr c = data_end env" and "marks c = (\<lambda>_. None)" and "http_errno (parser c) = HPE_OK"
  shows "at_loop env c =
    Some (Returned (data_end env) ((parser c)\<lparr>nread := n_read c, state := p_state c\<rparr>) (app c))"
  using assms
  by (simp add: at_loop_def loop_head_def loop_end_def marks_set_def CALLBACK_DATA_NOADVANCE_def
      callback_data_unmarked RETURN_def)

section \<open>Entering and leaving the loop\<close>

abbreviation recording_env :: "u32 \<Rightarrow> byte list \<Rightarrow> bool \<Rightarrow> event list exec_env" where
  "recording_env mhs d lnt \<equiv> \<lparr>settings = recorder, max_header_size = mhs, data = d, lenient = lnt\<rparr>"

abbreviation entry_ctx :: "http_parser \<Rightarrow> 'a \<Rightarrow> 'a ctx" where
  "entry_ctx pr a \<equiv>
    \<lparr>parser = pr, app = a, cur = NUL, ptr = 0, p_state = state pr, n_read = nread pr,
     marks = initial_marks (state pr)\<rparr>"

lemma execute_at_loop:
  assumes "http_errno pr = HPE_OK" and "d \<noteq> []"
  shows "sn_http_parser_execute st mhs pr a d =
    at_loop \<lparr>settings = st, max_header_size = mhs, data = d, lenient = lenient_http_headers pr\<rparr> (entry_ctx pr a)"
  using assms by (simp add: sn_http_parser_execute_def exec_entry_def at_loop_def Let_def)

end
