(* ===== verification/HttpMethod.thy ===== *)
theory HttpMethod
  imports HttpRun
begin

text \<open>
  The methods: the states \<open>s_start_req\<close> and \<open>s_req_method\<close> recognise exactly the strings of
  \<open>method_strings\<close>, although the code follows one guess and changes it on the way
  (\<open>method_switch\<close>).
\<close>

section \<open>The automaton over one word\<close>

text \<open>
  \<open>method_word m i w\<close>: the guess after the characters \<open>w\<close>, from the guess \<open>m\<close> and the index \<open>i\<close>.
\<close>

fun method_word :: "http_method \<Rightarrow> nat \<Rightarrow> string \<Rightarrow> http_method option" where
  "method_word m i [] = Some m"
| "method_word m i (x # w) =
    (case method_char m i x of
       Some (m', s) \<Rightarrow> if s = s_req_method \<and> x \<noteq> NUL then method_word m' (Suc i) w else None
     | None \<Rightarrow> None)"

definition method_of :: "string \<Rightarrow> http_method option" where
  "method_of w =
    (case w of
       [] \<Rightarrow> None
     | x # w' \<Rightarrow> (case initial_method x of None \<Rightarrow> None | Some m \<Rightarrow> method_word m 1 w'))"

lemma method_switch_extends:
  assumes "method_switch m i ch = Some m'"
  shows "i < length (method_strings m') \<and> i < length (method_strings m) \<and>
    take i (method_strings m') = take i (method_strings m) \<and> method_strings m' ! i = ch"
  using assms by (auto simp: method_switch_def split: if_splits)

lemma method_char_extends:
  assumes "method_char m i ch = Some (m', s_req_method)" and "ch \<noteq> NUL" and "i \<le> length (method_strings m)"
  shows "i < length (method_strings m') \<and>
    take (Suc i) (method_strings m') = take i (method_strings m) @ [ch]"
  using assms
  by (auto simp: method_char_def cstr_at_def take_Suc_conv_app_nth dest!: method_switch_extends
      split: if_splits)

lemma method_word_sound:
  "\<lbrakk>method_word m i w = Some m'; i \<le> length (method_strings m)\<rbrakk> \<Longrightarrow>
    take (i + length w) (method_strings m') = take i (method_strings m) @ w \<and>
    i + length w \<le> length (method_strings m')"
proof (induction m i w rule: method_word.induct)
  case (2 m i x w)
  from 2(2) obtain m1 where char: "method_char m i x = Some (m1, s_req_method)" "x \<noteq> NUL"
    and rest: "method_word m1 (Suc i) w = Some m'"
    by (auto split: option.splits if_splits)
  from method_char_extends [OF char 2(3)] 2(1) [OF char(1) refl] char rest show ?case by simp
qed simp

lemma initial_method_head:
  assumes "initial_method x = Some m"
  shows "take 1 (method_strings m) = [x] \<and> IS_ALPHA x \<and> x \<noteq> CR \<and> x \<noteq> LF"
  using assms by (auto simp: initial_method_def IS_ALPHA_iff split: if_splits)

text \<open>The words that reach the end of their guess are exactly the method strings.\<close>

lemma method_of_complete: "method_of (method_strings m) = Some m"
  by (cases m)
    (simp_all add: method_of_def initial_method_def method_char_def method_switch_def)

lemma method_of_sound:
  assumes "method_of w = Some m" and "length w = length (method_strings m)"
  shows "w = method_strings m"
proof -
  from assms(1) obtain x w' m0 where w: "w = x # w'" and m0: "initial_method x = Some m0"
    "method_word m0 1 w' = Some m"
    by (auto simp: method_of_def split: list.splits option.splits)
  from initial_method_head [OF m0(1)] have "take 1 (method_strings m0) = [x]" "1 \<le> length (method_strings m0)"
    by (auto simp: Suc_le_eq)
  with method_word_sound [OF m0(2)] w assms(2) show ?thesis by simp
qed

section \<open>The parser over one word\<close>

lemma at_req_method_eq:
  assumes "unat (index (parser c)) \<le> length (method_strings (method (parser c)))"
  shows "at_req_method c =
    (case method_char (method (parser c)) (unat (index (parser c))) (cur c) of
       Some (m, s) \<Rightarrow>
         if cur c \<noteq> NUL
         then Break (UPDATE_STATE s (c\<lparr>parser := (parser c)\<lparr>method := m, index := index (parser c) + 1\<rparr>\<rparr>))
         else fail HPE_INVALID_METHOD c
     | None \<Rightarrow> fail HPE_INVALID_METHOD c)"
  using assms by (auto simp: at_req_method_def split: option.split)

lemma index_suc:
  assumes "unat (i :: u5) \<le> length (method_strings m)"
  shows "unat (i + 1) = Suc (unat i)"
  using assms method_strings_length [of m] by (simp add: unat_word_ariths)

text \<open>What is left of the run once the guess is \<open>m\<close> at index \<open>i\<close>.\<close>

definition in_method :: "'a exec_env \<Rightarrow> 'a ctx \<Rightarrow> http_method \<Rightarrow> nat \<Rightarrow> bool" where
  "in_method env c m i \<longleftrightarrow>
    p_state c = s_req_method \<and> method (parser c) = m \<and> unat (index (parser c)) = i \<and>
    i \<le> length (method_strings m)"

lemma method_run:
  assumes "in_method env c m i" and "method_word m i w = Some m'"
    and "bytes_at (data env) (ptr c) w" and "room env c (length w)"
  shows "\<exists>j. in_method env (c\<lparr>parser := (parser c)\<lparr>method := m', index := j\<rparr>\<rparr>) m' (i + length w) \<and>
    at_loop env c =
    at_loop env (c\<lparr>parser := (parser c)\<lparr>method := m', index := j\<rparr>, ptr := ptr c + length w,
      n_read := n_read c + of_nat (length w)\<rparr>)"
  using assms
proof (induction w arbitrary: c m i)
  case Nil
  then show ?case by (auto simp: in_method_def intro!: exI [of _ "index (parser c)"])
next
  case (Cons x w)
  from Cons.prems(1) have c: "p_state c = s_req_method" "method (parser c) = m"
    "unat (index (parser c)) = i" "i \<le> length (method_strings m)" by (simp_all add: in_method_def)
  from Cons.prems(2) obtain m1 where char: "method_char m i x = Some (m1, s_req_method)" "x \<noteq> NUL"
    and word: "method_word m1 (Suc i) w = Some m'"
    by (auto split: option.splits if_splits)
  let ?pr = "(parser c)\<lparr>method := m1, index := index (parser c) + 1\<rparr>"
  let ?c = "c\<lparr>parser := ?pr, ptr := Suc (ptr c), n_read := n_read c + 1\<rparr>"
  have i: "unat (index (parser c) + 1) = Suc i"
    using index_suc [of "index (parser c)" m] c by simp
  have "step env (load env c) = Break (c\<lparr>parser := ?pr, n_read := n_read c + 1, cur := x\<rparr>)"
    using c char Cons.prems(3) by (simp add: step_def at_req_method_eq, simp add: load_def)
  from turn_to [OF _ _ this, of "length w" ?c] Cons.prems(3,4)
  have turn: "at_loop env c = at_loop env ?c" by simp
  have "in_method env ?c m1 (Suc i)"
    using method_char_extends [OF char c(4)] c i by (simp add: in_method_def)
  moreover have "bytes_at (data env) (ptr ?c) w" using Cons.prems(3) by simp
  moreover have "room env ?c (length w)"
    using room_more [of env c "length w"] Cons.prems(4) by (simp add: room_def)
  ultimately obtain j where
    "in_method env (?c\<lparr>parser := (parser ?c)\<lparr>method := m', index := j\<rparr>\<rparr>) m' (Suc i + length w)"
    "at_loop env ?c = at_loop env (?c\<lparr>parser := (parser ?c)\<lparr>method := m', index := j\<rparr>,
       ptr := ptr ?c + length w, n_read := n_read ?c + of_nat (length w)\<rparr>)"
    using Cons.IH [OF _ word] by blast
  with turn show ?case by (auto simp: in_method_def algebra_simps intro!: exI [of _ j])
qed

lemma method_reject:
  assumes "in_method env c m i" and "method_word m i w = None"
    and "bytes_at (data env) (ptr c) w" and "room env c (length w)" and "SP \<notin> set w"
  shows "\<exists>n pr. at_loop env c = Some (Returned n pr (app c)) \<and> http_errno pr = HPE_INVALID_METHOD"
  using assms
proof (induction w arbitrary: c m i)
  case (Cons x w)
  from Cons.prems(1) have c: "p_state c = s_req_method" "method (parser c) = m"
    "unat (index (parser c)) = i" "i \<le> length (method_strings m)" by (simp_all add: in_method_def)
  note turns = Cons.prems(3,4)
  show ?case
  proof (cases "x \<noteq> NUL \<and> method_char m i x \<noteq> None")
    case True
    then obtain m1 s where char: "method_char m i x = Some (m1, s)" "x \<noteq> NUL" by auto
    with Cons.prems(5) method_char_index [OF char] have s: "s = s_req_method"
      by (auto simp: method_char_def split: if_splits)
    with char Cons.prems(2) have word: "method_word m1 (Suc i) w = None" by simp
    let ?pr = "(parser c)\<lparr>method := m1, index := index (parser c) + 1\<rparr>"
    let ?c = "c\<lparr>parser := ?pr, ptr := Suc (ptr c), n_read := n_read c + 1\<rparr>"
    have i: "unat (index (parser c) + 1) = Suc i"
      using index_suc [of "index (parser c)" m] c by simp
    have "step env (load env c) = Break (c\<lparr>parser := ?pr, n_read := n_read c + 1, cur := x\<rparr>)"
      using c char s turns(1) by (simp add: step_def at_req_method_eq, simp add: load_def)
    from turn_to [OF _ _ this, of "length w" ?c] turns
    have turn: "at_loop env c = at_loop env ?c" by simp
    have "in_method env ?c m1 (Suc i)"
      using method_char_extends [of m i x m1] char s c i by (simp add: in_method_def)
    with Cons.IH [of ?c m1 "Suc i"] word Cons.prems(3,5) turn room_more [OF turns(2) [simplified]]
    show ?thesis by (simp add: room_def)
  next
    case False
    with c turns(1) have "step env (load env c) = fail HPE_INVALID_METHOD (load env c)"
      by (auto simp: step_def at_req_method_eq split: option.split)
    with turn_fail [of c env "length w"] turns show ?thesis by simp
  qed
qed simp

text \<open>The space after the word: the guess must be complete.\<close>

lemma method_char_SP:
  assumes "i \<le> length (method_strings m)"
  shows "method_char m i SP =
    (if i = length (method_strings m) then Some (m, s_req_spaces_before_url) else None)"
proof -
  have "SP \<notin> set (method_strings m) \<and> NUL \<notin> set (method_strings m)" by (cases m) simp_all
  then have "method_strings m ! i \<noteq> SP" "method_strings m ! i \<noteq> NUL" if "i < length (method_strings m)"
    using nth_mem [OF that] by auto
  moreover have "method_switch m i SP = None" by (simp add: method_switch_def)
  ultimately show ?thesis using assms by (auto simp: method_char_def cstr_at_def)
qed

lemma method_end:
  assumes "in_method env c m i" and "bytes_at (data env) (ptr c) [SP]" and "room env c 1"
  shows "if i = length (method_strings m)
    then at_loop env c = at_loop env (c\<lparr>parser := (parser c)\<lparr>index := index (parser c) + 1\<rparr>,
      p_state := s_req_spaces_before_url, ptr := ptr c + 1, n_read := n_read c + 1\<rparr>)
    else \<exists>n pr. at_loop env c = Some (Returned n pr (app c)) \<and> http_errno pr = HPE_INVALID_METHOD"
proof -
  from assms(1) have c: "p_state c = s_req_method" "method (parser c) = m"
    "unat (index (parser c)) = i" "i \<le> length (method_strings m)" by (simp_all add: in_method_def)
  show ?thesis
  proof (cases "i = length (method_strings m)")
    case True
    have "step env (load env c) =
      Break ((load env c)\<lparr>parser := (parser c)\<lparr>index := index (parser c) + 1\<rparr>,
        p_state := s_req_spaces_before_url\<rparr>)"
      using c assms(2) True by (simp add: step_def at_req_method_eq method_char_SP)
    from turn_to [OF _ _ this, where k = 0] assms(2,3) c True show ?thesis by (simp add: load_def)
  next
    case False
    with c assms(2) have "step env (load env c) = fail HPE_INVALID_METHOD (load env c)"
      by (simp add: step_def at_req_method_eq method_char_SP)
    with turn_fail [of c env 0] assms(2,3) False show ?thesis by simp
  qed
qed

lemma begin_state_fields [simp]:
  "method (begin_state env s pr) = method pr" "index (begin_state env s pr) = index pr"
  "http_errno (begin_state env s pr) = http_errno pr" "type (begin_state env s pr) = type pr"
  "flags (begin_state env s pr) = flags pr" "extra_flags (begin_state env s pr) = extra_flags pr"
  "content_length (begin_state env s pr) = content_length pr"
  "begin_state env s (pr\<lparr>method := m\<rparr>) = (begin_state env s pr)\<lparr>method := m\<rparr>"
  "begin_state env s (pr\<lparr>index := j\<rparr>) = (begin_state env s pr)\<lparr>index := j\<rparr>"
  "(begin_state env s pr)\<lparr>state := s'\<rparr> = pr\<lparr>state := s'\<rparr>"
  by (simp_all add: begin_state_def)

text \<open>The first byte of a request.\<close>

definition begun :: "'a exec_env \<Rightarrow> (event \<Rightarrow> http_method \<Rightarrow> 'a \<Rightarrow> 'a) \<Rightarrow> http_method \<Rightarrow> 'a ctx \<Rightarrow> 'a ctx" where
  "begun env say m c =
    c\<lparr>parser := begin_state env s_req_method
        ((parser c)\<lparr>flags := 0, extra_flags := 0, content_length := - 1, index := 1, method := m\<rparr>),
      app := say (Notified N_message_begin) m (app c), p_state := s_req_method,
      ptr := ptr c + 1, n_read := n_read c + 1\<rparr>"

lemma request_begin:
  assumes "tells (settings env) say skip" and "p_state c = s_start_req" and "http_errno (parser c) = HPE_OK"
    and "bytes_at (data env) (ptr c) [x]" and "x \<noteq> CR" and "x \<noteq> LF" and "room env c 1"
  shows "case initial_method x of
      Some m \<Rightarrow> at_loop env c = at_loop env (begun env say m c)
    | None \<Rightarrow> \<exists>n pr. at_loop env c = Some (Returned n pr (app c)) \<and> http_errno pr = HPE_INVALID_METHOD"
proof (cases "initial_method x")
  case None
  let ?c = "reset_message (load env c)"
  have "n_read c + 1 \<le> max_header_size env"
    using unat_count(2) [of "n_read c" 1 "max_header_size env"] assms(7) by (simp add: room_def)
  with None assms show ?thesis
    by (auto simp: turn step_def at_start_req_def reset_message_def fail_def goto_error_def
        SET_ERRNO_def set_errno_def RETURN_def Let_def)
next
  case (Some m)
  with initial_method_head [OF Some] assms
  have "step env (load env c) = Break ((load env c)
      \<lparr>parser := parser (begun env say m c), app := app (begun env say m c), p_state := s_req_method\<rparr>)"
    by (simp add: step_def at_start_req_def reset_message_def Let_def CALLBACK_NOTIFY_def
        tells_begin begun_def)
  from turn_to [OF _ _ this, where k = 0 and c' = "begun env say m c"] assms Some show ?thesis
    by (simp add: load_def begun_def)
qed

text \<open>A method string is recognised.\<close>

definition request_head :: "'a exec_env \<Rightarrow> http_method \<Rightarrow> u5 \<Rightarrow> http_parser \<Rightarrow> http_parser" where
  "request_head env m j pr =
    begin_state env s_req_method
      (pr\<lparr>flags := 0, extra_flags := 0, content_length := - 1, method := m, index := j\<rparr>)"

text \<open>The method that the first letter of a method string selects.\<close>

definition first_method :: "http_method \<Rightarrow> http_method" where
  "first_method m = the (initial_method (hd (method_strings m)))"

lemma method_accept:
  assumes "tells (settings env) say skip" and "p_state c = s_start_req" and "http_errno (parser c) = HPE_OK"
    and w: "bytes_at (data env) (ptr c) (method_strings m @ [SP])"
    and r: "room env c (length (method_strings m) + 1)"
  shows "\<exists>j. at_loop env c =
    at_loop env (c\<lparr>parser := request_head env m j (parser c), app := say (Notified N_message_begin) (first_method m) (app c),
      p_state := s_req_spaces_before_url, ptr := ptr c + (length (method_strings m) + 1),
      n_read := n_read c + of_nat (length (method_strings m) + 1)\<rparr>)"
proof -
  obtain x w' m0 where str: "method_strings m = x # w'" and m0: "initial_method x = Some m0"
    and word: "method_word m0 1 w' = Some m"
    using method_of_complete [of m] by (auto simp: method_of_def split: list.splits option.splits)
  have x: "x \<noteq> CR" "x \<noteq> LF" "1 \<le> length (method_strings m0)"
    using initial_method_head [OF m0] by (auto simp: Suc_le_eq)
  let ?c = "begun env say m0 c"
  have "at_loop env c = at_loop env ?c"
    using request_begin [of env say skip c x] assms m0 str x by (simp add: room_def)
  moreover have "in_method env ?c m0 1" using x by (simp add: in_method_def begun_def)
  moreover have b: "bytes_at (data env) (ptr ?c) (w' @ [SP])" using w str by (simp add: begun_def)
  moreover have room: "room env ?c (length w' + 1)"
    using room_more [of env c "length w' + 1"] r str by (simp add: begun_def room_def)
  ultimately obtain j where m: "in_method env (?c\<lparr>parser := (parser ?c)\<lparr>method := m, index := j\<rparr>\<rparr>) m (1 + length w')"
    and run: "at_loop env c = at_loop env (?c\<lparr>parser := (parser ?c)\<lparr>method := m, index := j\<rparr>,
      ptr := ptr ?c + length w', n_read := n_read ?c + of_nat (length w')\<rparr>)" (is "_ = at_loop env ?d")
    using method_run [OF _ word, of env ?c] by (auto simp: room_def)
  have "unat (n_read ?c + of_nat (length w')) = unat (n_read ?c) + length w'"
    using room unat_count(1) [of "n_read ?c" "length w'" "max_header_size env"] by (simp add: room_def)
  then have "room env ?d 1" using room by (simp add: room_def)
  moreover have "in_method env ?d m (1 + length w')" using m by (simp add: in_method_def)
  ultimately have space: "at_loop env ?d = at_loop env (?d\<lparr>parser := (parser ?d)\<lparr>index := index (parser ?d) + 1\<rparr>,
      p_state := s_req_spaces_before_url, ptr := ptr ?d + 1, n_read := n_read ?d + 1\<rparr>)" (is "_ = at_loop env ?e")
    using method_end [of env ?d m "1 + length w'"] b str by simp
  have n: "n_read ?d + 1 = n_read c + of_nat (length (method_strings m) + 1)"
    by (simp add: begun_def str)
  have fm: "first_method m = m0" by (simp add: first_method_def str m0)
  have eq: "?e = c\<lparr>parser := request_head env m (j + 1) (parser c), app := say (Notified N_message_begin) (first_method m) (app c),
      p_state := s_req_spaces_before_url, ptr := ptr c + (length (method_strings m) + 1),
      n_read := n_read ?d + 1\<rparr>"
    by (cases c; cases "parser c") (simp add: begun_def request_head_def begin_state_def str fm)
  show ?thesis
    using trans [OF run space] unfolding eq unfolding n by blast
qed

lemma method_refuse:
  assumes "tells (settings env) say skip" and "p_state c = s_start_req" and "http_errno (parser c) = HPE_OK"
    and w: "bytes_at (data env) (ptr c) (w @ [SP])" and r: "room env c (length w + 1)"
    and set: "set w \<inter> {SP, CR, LF} = {}" and no: "\<nexists>m. w = method_strings m"
  shows "\<exists>n pr log. at_loop env c = Some (Returned n pr log) \<and> http_errno pr = HPE_INVALID_METHOD"
proof (cases w)
  case Nil
  have "initial_method SP = None" by (simp add: initial_method_def)
  with request_begin [of env say skip c SP] assms Nil show ?thesis by (auto simp: room_def)
next
  case (Cons x w')
  note start = request_begin [of env say skip c x]
  show ?thesis
  proof (cases "initial_method x")
    case None
    with start assms Cons show ?thesis by (auto simp: room_def)
  next
    case (Some m0)
    let ?c = "begun env say m0 c"
    have x: "1 \<le> length (method_strings m0)"
      using initial_method_head [OF Some] by (auto simp: Suc_le_eq)
    have eq: "at_loop env c = at_loop env ?c"
      using start assms Some Cons by (auto simp: room_def)
    have m0: "in_method env ?c m0 1" using x by (simp add: in_method_def begun_def)
    have b: "bytes_at (data env) (ptr ?c) (w' @ [SP])" using w Cons by (simp add: begun_def)
    have room: "room env ?c (length w' + 1)"
      using room_more [of env c "length w' + 1"] r Cons by (simp add: begun_def room_def)
    show ?thesis
    proof (cases "method_word m0 1 w'")
      case None
      with method_reject [OF m0 None] b room set Cons eq show ?thesis by (auto simp: room_def)
    next
      case word: (Some m)
      with method_run [OF m0 word] b room obtain j where
        m: "in_method env (?c\<lparr>parser := (parser ?c)\<lparr>method := m, index := j\<rparr>\<rparr>) m (1 + length w')"
        and run: "at_loop env ?c = at_loop env (?c\<lparr>parser := (parser ?c)\<lparr>method := m, index := j\<rparr>,
          ptr := ptr ?c + length w', n_read := n_read ?c + of_nat (length w')\<rparr>)" (is "_ = at_loop env ?d")
        by (auto simp: room_def)
      have "unat (n_read ?c + of_nat (length w')) = unat (n_read ?c) + length w'"
        using room unat_count(1) [of "n_read ?c" "length w'" "max_header_size env"] by (simp add: room_def)
      then have "room env ?d 1" using room by (simp add: room_def)
      moreover have "in_method env ?d m (1 + length w')" using m by (simp add: in_method_def)
      moreover have "1 + length w' \<noteq> length (method_strings m)"
        using method_of_sound [of w m] no Some word Cons by (auto simp: method_of_def)
      ultimately show ?thesis
        using method_end [of env ?d m "1 + length w'"] b run eq by auto
    qed
  qed
qed

section \<open>Properties\<close>

text \<open>
  C17.  The methods a request may start with are exactly the 34 strings of \<open>method_strings\<close>: a
  word without space or line break, followed by a space, is accepted if and only if it is one
  of them, the parser's \<open>method\<close> is then the one it names, and every other word ends in
  \<open>HPE_INVALID_METHOD\<close>.
\<close>

theorem method_recognition:
  assumes "set w \<inter> {SP, CR, LF} = {}" and "length w < unat mhs"
  shows "\<exists>n pr log.
    sn_http_parser_execute recorder mhs (sn_http_parser_init HTTP_REQUEST) [] (w @ [SP]) =
      Some (Returned n pr log) \<and>
    (if \<exists>m. w = method_strings m
     then http_errno pr = HPE_OK \<and> state pr = s_req_spaces_before_url \<and>
       method_strings (method pr) = w \<and> n = length w + 1
     else http_errno pr = HPE_INVALID_METHOD)"
proof -
  let ?pr = "sn_http_parser_init HTTP_REQUEST"
  let ?env = "recording_env mhs (w @ [SP]) False"
  let ?c = "entry_ctx ?pr []"
  have exec: "sn_http_parser_execute recorder mhs ?pr [] (w @ [SP]) = at_loop ?env ?c"
    by (subst execute_at_loop) (simp_all add: sn_http_parser_init_def)
  have c: "p_state ?c = s_start_req" "http_errno (parser ?c) = HPE_OK" "ptr ?c = 0"
    "marks ?c = (\<lambda>_. None)" "room ?env ?c (length w + 1)"
    using assms(2)
    by (auto simp: sn_http_parser_init_def initial_marks_def room_def)
  show ?thesis
  proof (cases "\<exists>m. w = method_strings m")
    case True
    then obtain m where w: "w = method_strings m" by blast
    with method_accept [OF recorder_tells, where env = ?env and c = ?c and m = m] c obtain j where
      "at_loop ?env ?c = at_loop ?env (?c\<lparr>parser := request_head ?env m j (parser ?c),
         app := log_event (Notified N_message_begin) (first_method m) (app ?c),
         p_state := s_req_spaces_before_url, ptr := ptr ?c + (length (method_strings m) + 1),
         n_read := n_read ?c + of_nat (length (method_strings m) + 1)\<rparr>)" (is "_ = at_loop ?env ?d")
      by auto
    moreover have "at_loop ?env ?d = Some (Returned (length w + 1)
        ((parser ?d)\<lparr>nread := n_read ?d, state := p_state ?d\<rparr>) (app ?d))"
      by (subst at_loop_end) (use c w in \<open>simp_all add: request_head_def\<close>)
    ultimately show ?thesis using exec True w c(2) by (simp add: request_head_def)
  next
    case False
    with method_refuse [OF recorder_tells, where env = ?env and c = ?c and w = w] c assms(1) exec show ?thesis by auto
  qed
qed

lemma method_recognition_witness:
  "\<exists>n pr log.
    sn_http_parser_execute recorder 80 (sn_http_parser_init HTTP_REQUEST) [] (''PURGE'' @ [SP]) =
      Some (Returned n pr log) \<and>
    (if \<exists>m. ''PURGE'' = method_strings m
     then http_errno pr = HPE_OK \<and> state pr = s_req_spaces_before_url \<and>
       method_strings (method pr) = ''PURGE'' \<and> n = length ''PURGE'' + 1
     else http_errno pr = HPE_INVALID_METHOD)"
  by (rule method_recognition) simp_all

end
