(* ===== verification/HttpHeaderName.thy ===== *)
theory HttpHeaderName
  imports HttpMethod
begin

text \<open>
  Header names.  The states \<open>s_header_field_start\<close> and \<open>s_header_field\<close> of
  \<open>src/src/httpparser.cpp\<close> deliver a name to the client and, on the way, recognise five names
  in any mixture of cases; \<open>header_state\<close> tells the value's automaton which one it was.
\<close>

section \<open>The loop as a fold over the name\<close>

definition token_word :: "string \<Rightarrow> bool" where
  "token_word w \<longleftrightarrow> (\<forall>x \<in> set w. TOKEN x \<noteq> NUL)"

lemma token_word_simps [simp]:
  "token_word []" "token_word (x # w) \<longleftrightarrow> TOKEN x \<noteq> NUL \<and> token_word w"
  by (simp_all add: token_word_def)

fun field_fold :: "string \<Rightarrow> http_parser \<Rightarrow> http_parser option" where
  "field_fold [] pr = Some pr"
| "field_fold (x # w) pr =
    (if header_state pr = h_general then Some pr
     else case header_field_char (TOKEN x) x pr of
            None \<Rightarrow> None
          | Some pr' \<Rightarrow> field_fold w pr')"

lemma field_fold_general [simp]: "header_state pr = h_general \<Longrightarrow> field_fold w pr = Some pr"
  by (cases w) simp_all

lemma skip_tokens_word:
  assumes "bytes_at d i (x # w @ [y])" and "token_word w" and "TOKEN y = NUL" and "i + length w < pe"
  shows "skip_tokens d i pe = i + length w"
  using assms
proof (induction w arbitrary: i x)
  case Nil
  then show ?case by (subst skip_tokens.simps) simp
next
  case (Cons z w)
  then show ?case by (subst skip_tokens.simps) simp
qed

lemma field_loop_word:
  assumes "bytes_at d i (w @ [y])" and "token_word w" and "TOKEN y = NUL" and "length w \<le> unat mhs"
    and "header_state pr \<in> field_states"
  shows "field_loop d mhs i ch pr = map_option (\<lambda>pr'. (i + length w, y, pr')) (field_fold w pr)"
  using assms
proof (induction w arbitrary: i ch pr)
  case Nil
  then show ?case by (subst field_loop.simps) (simp add: Let_def)
next
  case (Cons x w)
  have i: "i < length d" "d ! i = x" "TOKEN x \<noteq> NUL" using Cons.prems by simp_all
  show ?case
  proof (cases "header_state pr = h_general")
    case True
    let ?pe = "i + min (length d - i) (unat mhs)"
    have "i + length w < ?pe"
      using bytes_at_bound [OF Cons.prems(1)] Cons.prems(4) by simp
    with Cons.prems have "skip_tokens d i ?pe = i + length w"
      by (intro skip_tokens_word) simp_all
    moreover have "field_loop d mhs (Suc (i + length w)) x pr = Some (Suc (i + length w), y, pr)"
      using Cons.prems by (subst field_loop.simps) (simp add: Let_def)
    ultimately show ?thesis using i True by (subst field_loop.simps) (simp add: Let_def)
  next
    case False
    from header_field_char_ok [OF Cons.prems(5) False, of "TOKEN x" x]
    obtain pr' where "header_field_char (TOKEN x) x pr = Some pr'" "header_state pr' \<in> field_states"
      by blast
    with Cons i False show ?thesis by (subst field_loop.simps) (simp add: Let_def)
  qed
qed

section \<open>Recognised names\<close>

text \<open>
  What the matcher knows after the lowered prefix \<open>p\<close>: it is a prefix of the name being matched, of
  which the index is the last position read, or the whole of it.
\<close>

definition matching :: "string \<Rightarrow> string \<Rightarrow> http_parser \<Rightarrow> bool" where
  "matching w p pr \<longleftrightarrow> length p = Suc (unat (index pr)) \<and> length p < length w \<and> take (length p) w = p"

definition recognised :: "string \<Rightarrow> http_parser \<Rightarrow> bool" where
  "recognised p pr \<longleftrightarrow>
    (case header_state pr of
       h_C \<Rightarrow> p = ''c'' \<and> unat (index pr) = 0
     | h_CO \<Rightarrow> p = ''co'' \<and> unat (index pr) = 1
     | h_CON \<Rightarrow> p = ''con'' \<and> unat (index pr) = 2
     | h_matching_connection \<Rightarrow> matching ''connection'' p pr
     | h_matching_proxy_connection \<Rightarrow> matching ''proxy-connection'' p pr
     | h_matching_content_length \<Rightarrow> matching ''content-length'' p pr
     | h_matching_transfer_encoding \<Rightarrow> matching ''transfer-encoding'' p pr
     | h_matching_upgrade \<Rightarrow> matching ''upgrade'' p pr
     | h_connection \<Rightarrow> p = ''connection'' \<or> p = ''proxy-connection''
     | h_content_length \<Rightarrow> p = ''content-length''
     | h_transfer_encoding \<Rightarrow> p = ''transfer-encoding''
     | h_upgrade \<Rightarrow> p = ''upgrade''
     | _ \<Rightarrow> True)"

lemma unat_u5_suc: "unat (i :: u5) < 31 \<Longrightarrow> unat (i + 1) = Suc (unat i)"
  by (simp add: unat_word_ariths)

lemma match_field_recognised:
  assumes m: "matching w p pr" and "length w \<le> 31" and "NUL \<notin> set w" and "c \<noteq> NUL"
  shows "header_state (match_field w h c pr) = h_general \<or>
    header_state (match_field w h c pr) = h \<and> p @ [c] = w \<or>
    header_state (match_field w h c pr) = header_state pr \<and> matching w (p @ [c]) (match_field w h c pr)"
proof -
  let ?i = "Suc (unat (index pr))"
  from m assms(2) have i: "unat (index pr + 1) = ?i" "length p = ?i" "?i < length w" "take ?i w = p"
    by (auto simp: matching_def unat_u5_suc)
  show ?thesis
  proof (cases "w ! ?i = c")
    case True
    with i have "take (Suc ?i) w = p @ [c]" by (simp add: take_Suc_conv_app_nth)
    with True i show ?thesis by (auto simp: match_field_def matching_def Let_def cstr_at_def)
  next
    case False
    with i show ?thesis by (simp add: match_field_def Let_def cstr_at_def)
  qed
qed

lemma recognised_general: "header_state pr = h_general \<Longrightarrow> recognised p pr"
  by (simp add: recognised_def)

lemma recognised_match:
  assumes m: "matching w p pr" and w: "length w \<le> 31" "NUL \<notin> set w" and "c \<noteq> NUL"
    and same: "\<And>pr'. header_state pr' = header_state pr \<Longrightarrow> recognised (p @ [c]) pr' = matching w (p @ [c]) pr'"
    and final: "\<And>pr'. header_state pr' = h \<Longrightarrow> p @ [c] = w \<Longrightarrow> recognised (p @ [c]) pr'"
  shows "recognised (p @ [c]) (match_field w h c pr)"
  using match_field_recognised [OF m w assms(4), of h] same final recognised_general by blast

lemma recognised_extra [simp]: "recognised p (pr\<lparr>extra_flags := x\<rparr>) = recognised p pr"
  by (simp add: recognised_def matching_def split: header_states.split)

lemma recognised_step:
  assumes "recognised p pr" and "header_field_char c ch pr = Some pr'" and "c \<noteq> NUL" and "ch \<noteq> SP"
  shows "recognised (p @ [c]) pr'"
proof (cases "header_state pr")
  case h_matching_connection
  with assms show ?thesis
    by (auto simp: header_field_char_def recognised_def intro!: recognised_match [unfolded recognised_def])
next
  case h_matching_proxy_connection
  with assms show ?thesis
    by (auto simp: header_field_char_def recognised_def intro!: recognised_match [unfolded recognised_def])
next
  case h_matching_content_length
  with assms show ?thesis
    by (auto simp: header_field_char_def recognised_def intro!: recognised_match [unfolded recognised_def])
next
  case h_matching_transfer_encoding
  with assms have "recognised (p @ [c]) (match_field ''transfer-encoding'' h_transfer_encoding c pr)"
    by (auto simp: recognised_def intro!: recognised_match [unfolded recognised_def])
  with h_matching_transfer_encoding assms show ?thesis
    by (auto simp: header_field_char_def Let_def split: if_splits)
next
  case h_matching_upgrade
  with assms show ?thesis
    by (auto simp: header_field_char_def recognised_def intro!: recognised_match [unfolded recognised_def])
qed (use assms in \<open>auto simp: header_field_char_def recognised_def matching_def unat_u5_suc\<close>)

lemma field_fold_recognised:
  assumes "recognised p pr" and "field_fold w pr = Some pr'" and "token_word w"
  shows "recognised (p @ map TOKEN w) pr'"
  using assms
proof (induction w arbitrary: p pr)
  case (Cons x w)
  show ?case
  proof (cases "header_state pr = h_general")
    case True
    with Cons.prems show ?thesis by (simp add: recognised_general)
  next
    case False
    with Cons.prems(2) obtain pr1 where step: "header_field_char (TOKEN x) x pr = Some pr1"
      and rest: "field_fold w pr1 = Some pr'" by (auto split: option.splits)
    have "x \<noteq> SP" using Cons.prems(3) by (auto simp: TOKEN_def STRICT_TOKEN_def)
    with recognised_step [OF Cons.prems(1) step] Cons.prems(3)
    have "recognised (p @ [TOKEN x]) pr1" by simp
    with Cons.IH [of "p @ [TOKEN x]", OF _ rest] Cons.prems(3) show ?thesis by simp
  qed
qed simp

text \<open>The matcher after the first character of a name.\<close>

definition field_start :: "char \<Rightarrow> http_parser \<Rightarrow> http_parser" where
  "field_start t pr =
    pr\<lparr>index := 0,
       header_state :=
         (if t = CHR ''c'' then h_C
          else if t = CHR ''p'' then h_matching_proxy_connection
          else if t = CHR ''t'' then h_matching_transfer_encoding
          else if t = CHR ''u'' then h_matching_upgrade
          else h_general)\<rparr>"

definition field_name :: "string \<Rightarrow> http_parser \<Rightarrow> http_parser option" where
  "field_name w pr = (case w of [] \<Rightarrow> None | x # w' \<Rightarrow> field_fold w' (field_start (TOKEN x) pr))"

lemma field_name_sound:
  assumes "field_name w pr = Some pr'" and "token_word w"
  shows "recognised (map TOKEN w) pr'"
proof -
  from assms(1) obtain x w' where w: "w = x # w'" "field_fold w' (field_start (TOKEN x) pr) = Some pr'"
    by (auto simp: field_name_def split: list.splits)
  have "recognised [TOKEN x] (field_start (TOKEN x) pr)"
    by (simp add: recognised_def field_start_def matching_def)
  from field_fold_recognised [OF this w(2)] assms(2) w(1) show ?thesis by simp
qed

lemma field_name_complete:
  "map TOKEN w = ''connection'' \<Longrightarrow>
    field_name w pr = Some (pr\<lparr>index := 9, header_state := h_connection\<rparr>)"
  "map TOKEN w = ''proxy-connection'' \<Longrightarrow>
    field_name w pr = Some (pr\<lparr>index := 15, header_state := h_connection\<rparr>)"
  "map TOKEN w = ''content-length'' \<Longrightarrow>
    field_name w pr = Some (pr\<lparr>index := 13, header_state := h_content_length\<rparr>)"
  "map TOKEN w = ''transfer-encoding'' \<Longrightarrow>
    field_name w pr = Some (pr\<lparr>index := 16, header_state := h_transfer_encoding,
      extra_flags := extra_flags pr OR F_TRANSFER_ENCODING_hi\<rparr>)"
  "map TOKEN w = ''upgrade'' \<Longrightarrow>
    field_name w pr = Some (pr\<lparr>index := 6, header_state := h_upgrade\<rparr>)"
  by (auto simp: field_name_def map_eq_Cons_conv field_start_def header_field_char_def
      match_field_def cstr_at_def)

section \<open>The run over a name\<close>

text \<open>A name changes only the matcher's fields.\<close>

definition name_frame :: "http_parser \<Rightarrow> http_parser \<Rightarrow> bool" where
  "name_frame pr pr' \<longleftrightarrow>
    pr' = pr\<lparr>index := index pr', header_state := header_state pr', extra_flags := extra_flags pr'\<rparr>"

lemma name_frame_refl [simp]: "name_frame pr pr"
  by (simp add: name_frame_def)

lemma name_frame_trans: "name_frame p1 p2 \<Longrightarrow> name_frame p2 p3 \<Longrightarrow> name_frame p1 p3"
  by (cases p1; cases p2; cases p3) (simp add: name_frame_def)

lemma name_frame_simps [simp]:
  "name_frame pr (pr\<lparr>index := j, header_state := h\<rparr>)" "name_frame pr (pr\<lparr>header_state := h\<rparr>)"
  "name_frame pr (match_field w d c pr)"
  "name_frame pr pr' \<Longrightarrow> name_frame pr (pr'\<lparr>extra_flags := x\<rparr>)"
  by (cases pr; cases pr'; simp add: name_frame_def match_field_def Let_def)+

lemma header_field_char_frame: "header_field_char c ch pr = Some pr' \<Longrightarrow> name_frame pr pr'"
  by (cases "header_state pr") (auto simp: header_field_char_def Let_def split: if_splits)

lemma field_fold_frame: "field_fold w pr = Some pr' \<Longrightarrow> name_frame pr pr'"
proof (induction w arbitrary: pr)
  case (Cons x w)
  then show ?case
    by (auto split: if_splits option.splits dest: header_field_char_frame intro: name_frame_trans)
qed simp

lemma field_name_frame:
  assumes "field_name w pr = Some pr'"
  shows "name_frame pr pr'"
proof -
  from assms obtain x w' where "field_fold w' (field_start (TOKEN x) pr) = Some pr'"
    by (auto simp: field_name_def split: list.splits)
  from field_fold_frame [OF this] show ?thesis
    by (rule name_frame_trans [rotated]) (simp add: field_start_def)
qed

lemma field_start_states: "header_state (field_start t pr) \<in> field_states"
  by (simp add: field_start_def) (simp add: field_states_def)

lemma field_fold_total:
  "header_state pr \<in> field_states \<Longrightarrow> \<exists>pr'. field_fold w pr = Some pr'"
proof (induction w arbitrary: pr)
  case (Cons x w)
  show ?case
  proof (cases "header_state pr = h_general")
    case False
    from header_field_char_ok [OF Cons.prems False, of "TOKEN x" x] obtain pr' where
      "header_field_char (TOKEN x) x pr = Some pr'" "header_state pr' \<in> field_states" by blast
    with Cons.IH show ?thesis by simp
  qed simp
qed simp

lemma field_name_total: "w \<noteq> [] \<Longrightarrow> \<exists>pr'. field_name w pr = Some pr'"
  using field_fold_total [OF field_start_states] by (auto simp: field_name_def split: list.split)

lemma header_name_run:
  assumes "tells (settings env) say skip" and "http_errno (parser c) = HPE_OK"
    and "p_state c = s_header_field_start" and "marks c = (\<lambda>_. None)"
    and w: "bytes_at (data env) (ptr c) (w @ '':'')" "token_word w" "w \<noteq> []"
    and room: "room env c (length w + 1)" and "field_name w (parser c) = Some pr'"
  shows "at_loop env c =
    at_loop env (c\<lparr>parser := pr'\<lparr>state := s_header_value_discard_ws\<rparr>,
      app := say (Received M_header_field w) (method (parser c)) (app c), p_state := s_header_value_discard_ws,
      ptr := ptr c + (length w + 1), n_read := n_read c + of_nat (length w + 1)\<rparr>)"
proof -
  obtain x w' where x: "w = x # w'" using w(3) by (cases w) auto
  let ?pr = "field_start (TOKEN x) (parser c)"
  let ?c = "c\<lparr>parser := ?pr, p_state := s_header_field, marks := (\<lambda>_. None)(M_header_field := Some (ptr c)),
    ptr := ptr c + 1, n_read := n_read c + 1\<rparr>"
  have tok: "TOKEN x \<noteq> NUL" "x \<noteq> CR" "x \<noteq> LF" using w x by (auto simp: TOKEN_eq token_of_def split: if_splits)
  have "step env (load env c) = Break ((load env c)\<lparr>parser := ?pr, p_state := s_header_field,
      marks := (\<lambda>_. None)(M_header_field := Some (ptr c))\<rparr>)"
    using assms(3,4) tok w x
    by (simp add: step_def at_header_field_start_def Let_def MARK_def field_start_def)
  from turn_to [OF _ _ this, where k = 0 and c' = ?c] assms x
  have first: "at_loop env c = at_loop env ?c" by (auto simp: load_def room_def)
  let ?c1 = "load env ?c"
  have hs: "header_state (parser ?c1) \<in> field_states" by (simp add: field_start_states)
  have fold: "field_fold w' (parser ?c1) = Some pr'" using assms(9) x by (simp add: field_name_def)
  have colon: "TOKEN CHR '':'' = NUL" by (simp add: TOKEN_eq token_of_def)
  have loop: "field_loop (data env) (max_header_size env) (ptr ?c1) (cur ?c1) (parser ?c1) =
      Some (ptr ?c1 + length w', CHR '':'', pr')"
    using field_loop_word [of "data env" "ptr ?c1" w' "CHR '':''" "max_header_size env" "parser ?c1" "cur ?c1"]
      w x room hs fold colon by (auto simp: room_def)
  have ok: "http_errno pr' = HPE_OK" "method pr' = method (parser c)"
    using field_name_frame [OF assms(9)] assms(2) by (cases pr'; cases "parser c"; simp add: name_frame_def)+
  have r1: "n_read c + 1 + 1 + of_nat (length w') \<le> max_header_size env"
    using unat_count(2) [of "n_read c" "length w' + 2" "max_header_size env"] room x
    by (simp add: room_def algebra_simps)
  have r2: "room env ?c (Suc 0)" using room_more [of env c 1] room x by (simp add: room_def)
  have seg: "seg (data env) (ptr c) (Suc (ptr c + length w')) = w"
    using seg_bytes_at [of "data env" "ptr c" w] w x by simp
  have lt: "Suc (ptr c + length w') < data_end env"
    using bytes_at_bound [OF w(1)] x by simp
  have "step env ?c1 = Break (?c1\<lparr>parser := pr'\<lparr>state := s_header_value_discard_ws\<rparr>, cur := CHR '':'',
      app := say (Received M_header_field w) (method (parser c)) (app c), p_state := s_header_value_discard_ws, marks := (\<lambda>_. None),
      ptr := ptr c + length w, n_read := n_read c + of_nat (length w + 1)\<rparr>)"
    using loop lt r1 assms(1) ok x seg
    by (simp add: step_def at_header_field_def Let_def COUNT_HEADER_SIZE_def CALLBACK_DATA_def tells_data
      load_def not_le [symmetric])
  from turn_to [OF _ r2 this] lt x assms(4) first show ?thesis by simp
qed

text \<open>The flag \<open>F_TRANSFER_ENCODING\<close> is set by a prefix of the name.\<close>

definition te_flag :: "string \<Rightarrow> u2 \<Rightarrow> u2" where
  "te_flag p x = (if take 17 p = ''transfer-encoding'' then x OR F_TRANSFER_ENCODING_hi else x)"

lemma match_field_done:
  assumes "matching w p pr" and "length w \<le> 31" and "NUL \<notin> set w" and "c \<noteq> NUL"
    and "header_state (match_field w h c pr) = h" and "h \<noteq> h_general" and "h \<noteq> header_state pr"
  shows "p @ [c] = w"
  using match_field_recognised [OF assms(1-4), of h] assms(5-7) by auto

lemma extra_flags_match [simp]: "extra_flags (match_field w h c pr) = extra_flags pr"
  by (simp add: match_field_def Let_def)

lemma header_field_char_extra:
  assumes "recognised p pr" and "header_field_char c ch pr = Some pr'" and "c \<noteq> NUL"
    and "extra_flags pr' \<noteq> extra_flags pr"
  shows "p @ [c] = ''transfer-encoding'' \<and> extra_flags pr' = extra_flags pr OR F_TRANSFER_ENCODING_hi"
proof (cases "header_state pr")
  case h_matching_transfer_encoding
  with assms have m: "matching ''transfer-encoding'' p pr" by (simp add: recognised_def)
  from assms(2,4) h_matching_transfer_encoding
  have d: "header_state (match_field ''transfer-encoding'' h_transfer_encoding c pr) = h_transfer_encoding"
    and "extra_flags pr' = extra_flags pr OR F_TRANSFER_ENCODING_hi"
    by (auto simp: header_field_char_def Let_def split: if_splits)
  with match_field_done [OF m _ _ assms(3) d] h_matching_transfer_encoding show ?thesis by simp
qed (use assms in \<open>auto simp: header_field_char_def split: if_splits\<close>)

lemma field_fold_extra:
  assumes "recognised p pr" and "field_fold w pr = Some pr'" and "token_word w"
    and "extra_flags pr' \<noteq> extra_flags pr"
  shows "take 17 (p @ map TOKEN w) = ''transfer-encoding''"
  using assms
proof (induction w arbitrary: p pr)
  case (Cons x w)
  have "header_state pr \<noteq> h_general" using Cons.prems(2,4) by auto
  with Cons.prems(2) obtain pr1 where step: "header_field_char (TOKEN x) x pr = Some pr1"
    and rest: "field_fold w pr1 = Some pr'" by (auto split: option.splits if_splits)
  have "x \<noteq> SP" using Cons.prems(3) by (auto simp: TOKEN_def STRICT_TOKEN_def)
  with recognised_step [OF Cons.prems(1) step] Cons.prems(3)
  have rec: "recognised (p @ [TOKEN x]) pr1" by simp
  show ?case
  proof (cases "extra_flags pr1 = extra_flags pr")
    case True
    with Cons.IH [OF rec rest] Cons.prems(3,4) show ?thesis by simp
  next
    case False
    with header_field_char_extra [OF Cons.prems(1) step] Cons.prems(3)
    have "p @ [TOKEN x] = ''transfer-encoding''" by simp
    then have "p @ TOKEN x # map TOKEN w = ''transfer-encoding'' @ map TOKEN w"
      by (metis append_Cons append_Nil append_assoc)
    then show ?thesis by simp
  qed
qed simp

lemma field_fold_append:
  "field_fold (u @ v) pr = (case field_fold u pr of None \<Rightarrow> None | Some pr' \<Rightarrow> field_fold v pr')"
  by (induction u arbitrary: pr) (auto split: option.split)

lemma field_fold_after_done:
  assumes "header_state pr = h_transfer_encoding" and "field_fold w pr = Some pr'"
  shows "extra_flags pr' = extra_flags pr"
  using assms
proof (induction w arbitrary: pr)
  case (Cons x w)
  then show ?case by (cases "x = SP") (auto simp: header_field_char_def)
qed simp

lemma field_name_extra:
  assumes "field_name w pr = Some pr'" and "token_word w"
  shows "extra_flags pr' = te_flag (map TOKEN w) (extra_flags pr)"
proof (cases "take 17 (map TOKEN w) = ''transfer-encoding''")
  case True
  let ?u = "take 17 w" and ?v = "drop 17 w"
  let ?pr = "pr\<lparr>index := 16, header_state := h_transfer_encoding,
    extra_flags := extra_flags pr OR F_TRANSFER_ENCODING_hi\<rparr>"
  from True have "map TOKEN ?u = ''transfer-encoding''" by (simp add: take_map)
  from field_name_complete(4) [OF this, of pr] have u: "field_name ?u pr = Some ?pr" .
  have split: "field_name w pr = field_fold ?v ?pr"
  proof (cases w)
    case Nil
    with True show ?thesis by simp
  next
    case (Cons x w')
    with u have "field_fold (take 16 w') (field_start (TOKEN x) pr) = Some ?pr"
      by (simp add: field_name_def)
    then have "field_fold (take 16 w' @ drop 16 w') (field_start (TOKEN x) pr) = field_fold (drop 16 w') ?pr"
      unfolding field_fold_append by simp
    with Cons show ?thesis by (simp add: field_name_def)
  qed
  with assms(1) have "field_fold ?v ?pr = Some pr'" by simp
  with field_fold_after_done [of ?pr ?v pr'] True show ?thesis by (simp add: te_flag_def)
next
  case False
  from assms(1) obtain x w' where w: "w = x # w'" and
    fold: "field_fold w' (field_start (TOKEN x) pr) = Some pr'"
    by (auto simp: field_name_def split: list.splits)
  have "recognised [TOKEN x] (field_start (TOKEN x) pr)"
    by (simp add: recognised_def field_start_def matching_def)
  from field_fold_extra [OF this fold] False assms(2) w show ?thesis
    by (auto simp: te_flag_def field_start_def)
qed

lemma field_name_kinds:
  assumes "field_name w pr = Some pr'" and "token_word w"
  shows "header_state pr' = h_connection \<longleftrightarrow> map TOKEN w \<in> {''connection'', ''proxy-connection''}"
    and "header_state pr' = h_content_length \<longleftrightarrow> map TOKEN w = ''content-length''"
    and "header_state pr' = h_transfer_encoding \<longleftrightarrow> map TOKEN w = ''transfer-encoding''"
    and "header_state pr' = h_upgrade \<longleftrightarrow> map TOKEN w = ''upgrade''"
proof -
  have rec: "recognised (map TOKEN w) pr'" by (rule field_name_sound [OF assms])
  have det: "pr1 = pr'" if "field_name w pr = Some pr1" for pr1 using assms(1) that by simp
  note ready = field_name_complete [of w pr, THEN det, symmetric]
  show "header_state pr' = h_connection \<longleftrightarrow> map TOKEN w \<in> {''connection'', ''proxy-connection''}"
    using rec ready(1,2) by (cases "header_state pr' = h_connection") (simp add: recognised_def, force)
  show "header_state pr' = h_content_length \<longleftrightarrow> map TOKEN w = ''content-length''"
    using rec ready(3) by (cases "header_state pr' = h_content_length") (simp add: recognised_def, force)
  show "header_state pr' = h_transfer_encoding \<longleftrightarrow> map TOKEN w = ''transfer-encoding''"
    using rec ready(4) by (cases "header_state pr' = h_transfer_encoding") (simp add: recognised_def, force)
  show "header_state pr' = h_upgrade \<longleftrightarrow> map TOKEN w = ''upgrade''"
    using rec ready(5) by (cases "header_state pr' = h_upgrade") (simp add: recognised_def, force)
qed

section \<open>Properties\<close>

text \<open>
  C18.  A header name, whatever its case, is delivered to the client unchanged, and the matcher
  recognises exactly five names: \<open>connection\<close> and \<open>proxy-connection\<close>, \<open>content-length\<close>,
  \<open>transfer-encoding\<close> and \<open>upgrade\<close>.  The flag \<open>F_TRANSFER_ENCODING\<close> however is raised by every
  name that begins with \<open>transfer-encoding\<close>: it is set when the last letter of the literal
  matches, before the next character is seen.
\<close>

theorem header_name_recognition:
  assumes "http_errno pr = HPE_OK" and "state pr = s_header_field_start"
    and "token_word w" and "w \<noteq> []" and "unat (nread pr) + length w < unat mhs"
  shows "\<exists>pr'.
    sn_http_parser_execute recorder mhs pr log (w @ '':'') =
      Some (Returned (length w + 1) pr' (log @ [Received M_header_field w])) \<and>
    http_errno pr' = HPE_OK \<and> state pr' = s_header_value_discard_ws \<and>
    (header_state pr' = h_connection \<longleftrightarrow> map TOKEN w \<in> {''connection'', ''proxy-connection''}) \<and>
    (header_state pr' = h_content_length \<longleftrightarrow> map TOKEN w = ''content-length'') \<and>
    (header_state pr' = h_transfer_encoding \<longleftrightarrow> map TOKEN w = ''transfer-encoding'') \<and>
    (header_state pr' = h_upgrade \<longleftrightarrow> map TOKEN w = ''upgrade'') \<and>
    extra_flags pr' =
      (if take 17 (map TOKEN w) = ''transfer-encoding''
       then extra_flags pr OR F_TRANSFER_ENCODING_hi else extra_flags pr)"
proof -
  let ?d = "w @ '':''"
  let ?env = "recording_env mhs ?d (lenient_http_headers pr)"
  let ?c = "entry_ctx pr log"
  obtain pr' where name: "field_name w pr = Some pr'" using field_name_total [OF assms(4)] by blast
  have exec: "sn_http_parser_execute recorder mhs pr log ?d = at_loop ?env ?c"
    using assms(1,4) by (simp add: execute_at_loop)
  have marks: "marks ?c = (\<lambda>_. None)" using assms(2) by (auto simp: initial_marks_def)
  have "http_errno pr' = HPE_OK"
    using field_name_frame [OF name] assms(1) by (cases pr'; cases pr) (simp add: name_frame_def)
  moreover have "at_loop ?env ?c = at_loop ?env (?c\<lparr>parser := pr'\<lparr>state := s_header_value_discard_ws\<rparr>,
      app := log @ [Received M_header_field w], p_state := s_header_value_discard_ws,
      ptr := length w + 1, n_read := n_read ?c + of_nat (length w + 1)\<rparr>)"
    using header_name_run [OF recorder_tells, of ?env ?c w pr'] assms name marks by (simp add: room_def log_event_def)
  ultimately have "sn_http_parser_execute recorder mhs pr log ?d =
      Some (Returned (length w + 1) (pr'\<lparr>state := s_header_value_discard_ws,
        nread := n_read ?c + of_nat (length w + 1)\<rparr>) (log @ [Received M_header_field w]))"
    using exec marks by (simp add: at_loop_end)
  then show ?thesis
    using field_name_kinds [OF name assms(3)] field_name_extra [OF name assms(3)] \<open>http_errno pr' = HPE_OK\<close>
    by (simp add: te_flag_def)
qed

lemma token_example: "map TOKEN ''Transfer-EncodingX'' = ''transfer-encodingx''"
  by code_simp

lemma header_name_recognition_witness:
  "\<exists>pr'.
    sn_http_parser_execute recorder 80 ((sn_http_parser_init HTTP_REQUEST)\<lparr>state := s_header_field_start\<rparr>) []
        (''Transfer-EncodingX'' @ '':'') =
      Some (Returned (length ''Transfer-EncodingX'' + 1) pr' ([] @ [Received M_header_field ''Transfer-EncodingX''])) \<and>
    header_state pr' \<noteq> h_transfer_encoding \<and> extra_flags pr' = F_TRANSFER_ENCODING_hi"
proof -
  let ?pr = "(sn_http_parser_init HTTP_REQUEST)\<lparr>state := s_header_field_start\<rparr>"
  have "token_word ''Transfer-EncodingX''"
    using token_example by (auto simp: token_word_def)
  then show ?thesis
    using header_name_recognition [of ?pr "''Transfer-EncodingX''" 80 "[]"] token_example
    by (auto simp: sn_http_parser_init_def)
qed

end
