(* ===== verification/HttpHeaderValue.thy ===== *)
theory HttpHeaderValue
  imports HttpHeaderName
begin

text \<open>
  Header values (\<open>src/src/httpparser.cpp\<close>, states \<open>s_header_value_discard_ws\<close> to
  \<open>s_header_value_lws\<close>): a plain value is delivered unchanged, and the digits of
  \<open>Content-Length\<close> are read as a decimal number without wrap-around.
\<close>

section \<open>One value up to its line end\<close>

text \<open>
  The turn in which the loop over the value reaches the carriage return, whatever the loop
  did with the characters before it.
\<close>

lemma value_turn:
  assumes "tells (settings env) say skip" and "http_errno (parser c) = HPE_OK" and "http_errno pr' = HPE_OK"
    and "p_state c = s_header_value" and "marks c = (\<lambda>_. None)(M_header_value := Some m)"
    and w: "bytes_at (data env) (ptr c) (w @ [CR])" and room: "room env c (length w + 1)"
    and loop: "\<And>ch. value_loop (data env) (max_header_size env) (lenient env) (ptr c) ch
      (header_state (parser c)) (parser c) = (Stop_CR, ptr c + length w, CR, h, pr')"
  shows "at_loop env c =
    at_loop env (c\<lparr>parser := pr'\<lparr>state := s_header_almost_done, header_state := h\<rparr>,
      app := say (Received M_header_value (seg (data env) m (ptr c + length w))) (method pr') (app c),
      p_state := s_header_almost_done, marks := (\<lambda>_. None),
      ptr := ptr c + (length w + 1), n_read := n_read c + of_nat (length w + 1)\<rparr>)"
proof -
  have lt: "ptr c + length w < data_end env" using bytes_at_bound [OF w] by simp
  then have "ptr c < data_end env" by simp
  have r: "n_read c + 1 + of_nat (length w) \<le> max_header_size env"
    using unat_count(2) [of "n_read c" "length w + 1" "max_header_size env"] room
    by (simp add: room_def algebra_simps)
  have "step env (load env c) = Break ((load env c)
     \<lparr>parser := pr'\<lparr>state := s_header_almost_done, header_state := h\<rparr>, cur := CR,
      app := say (Received M_header_value (seg (data env) m (ptr c + length w))) (method pr') (app c),
      p_state := s_header_almost_done, marks := (\<lambda>_. None),
      ptr := ptr c + length w, n_read := n_read c + of_nat (length w + 1)\<rparr>)"
    using lt r assms(1-5) loop
    by (simp add: step_def at_header_value_def Let_def COUNT_HEADER_SIZE_def CALLBACK_DATA_def
        tells_data load_def not_le [symmetric])
  from turn_to [OF _ _ this, where k = "length w"] assms(4) room lt \<open>ptr c < data_end env\<close>
  show ?thesis by (simp add: load_def)
qed

section \<open>Content-Length\<close>

definition digits :: "string \<Rightarrow> bool" where
  "digits ds \<longleftrightarrow> (\<forall>x \<in> set ds. IS_NUM x)"

lemma digits_simps [simp]: "digits []" "digits (x # ds) \<longleftrightarrow> IS_NUM x \<and> digits ds"
  by (simp_all add: digits_def)

text \<open>The number that a string of digits denotes, continued from \<open>n\<close>.\<close>

fun dec_from :: "nat \<Rightarrow> string \<Rightarrow> nat" where
  "dec_from n [] = n"
| "dec_from n (x # ds) = dec_from (10 * n + (ord x - 48)) ds"

lemma dec_from_ge: "n \<le> dec_from n ds"
proof (induction ds arbitrary: n)
  case (Cons x ds)
  from Cons [of "10 * n + (ord x - 48)"] show ?case by simp
qed simp

text \<open>The largest value the code accepts: \<open>((ULLONG_MAX - 10) / 10) * 10 + 9\<close>.\<close>

definition max_content_length :: nat where
  "max_content_length = (2 ^ 64 - 11) div 10 * 10 + 9"

lemma max_content_length_eq: "max_content_length = 2 ^ 64 - 7"
  by (simp add: max_content_length_def)

lemma digit_limit:
  fixes n :: u64
  shows "1844674407370955160 < n \<longleftrightarrow> 1844674407370955160 < unat n"
  by (simp add: word_less_nat_alt)

lemma content_length_digit_num:
  assumes "IS_NUM x"
  shows "content_length_digit h x pr =
    (if 10 * unat (content_length pr) + (ord x - 48) \<le> max_content_length
     then V_ok h (pr\<lparr>content_length := of_nat (10 * unat (content_length pr) + (ord x - 48))\<rparr>)
     else V_error HPE_INVALID_CONTENT_LENGTH h pr)"
proof -
  have x: "ord x - 48 < 10" "x \<noteq> SP" using assms by (auto simp: IS_NUM_iff)
  have "10 * unat (content_length pr) + (ord x - 48) \<le> max_content_length \<longleftrightarrow>
      unat (content_length pr) \<le> 1844674407370955160"
    using x by (simp add: max_content_length_def) linarith
  with assms x show ?thesis
    by (simp add: content_length_digit_def digit_limit not_less [symmetric] mult.commute)
qed

lemma num_char: "IS_NUM x \<Longrightarrow> x \<noteq> CR \<and> x \<noteq> LF \<and> IS_HEADER_CHAR x"
  by (auto simp: IS_NUM_iff IS_HEADER_CHAR_def)

lemma content_length_loop:
  assumes "bytes_at d i (ds @ [CR])" and "digits ds" and "unat (content_length pr) \<le> max_content_length"
  shows "if dec_from (unat (content_length pr)) ds \<le> max_content_length
    then value_loop d mhs lnt i ch h_content_length_num pr =
      (Stop_CR, i + length ds, CR, h_content_length_num,
       pr\<lparr>content_length := of_nat (dec_from (unat (content_length pr)) ds)\<rparr>)
    else \<exists>j ch' h' pr'. value_loop d mhs lnt i ch h_content_length_num pr =
      (Stop_error HPE_INVALID_CONTENT_LENGTH, j, ch', h', pr')"
  using assms
proof (induction ds arbitrary: i ch pr)
  case Nil
  then show ?case
    by (subst (1 2) value_loop.simps) (auto simp: Let_def)
next
  case (Cons x ds)
  let ?n = "10 * unat (content_length pr) + (ord x - 48)"
  have x: "i < length d" "d ! i = x" "d ! i \<noteq> CR" "d ! i \<noteq> LF" "lnt \<or> IS_HEADER_CHAR (d ! i)" "IS_NUM x"
    using Cons.prems num_char by auto
  note loop = value_loop_other [OF x(1,3-5), of h_content_length_num mhs ch pr, simplified]
  show ?case
  proof (cases "?n \<le> max_content_length")
    case True
    then have "unat (of_nat ?n :: u64) = ?n"
      by (intro unat_of_nat_small) (simp add: max_content_length_def)
    with Cons.IH [of "Suc i" "pr\<lparr>content_length := of_nat ?n\<rparr>" x] Cons.prems True x show ?thesis
      by (cases "dec_from ?n ds \<le> max_content_length")
        (simp_all add: loop header_value_char_def content_length_digit_num)
  next
    case False
    with dec_from_ge [of ?n ds] x show ?thesis
      by (simp add: loop header_value_char_def content_length_digit_num)
  qed
qed

text \<open>The parser after the first digit.\<close>

definition first_digit :: "char \<Rightarrow> http_parser \<Rightarrow> http_parser" where
  "first_digit x pr =
    pr\<lparr>index := 0, flags := flags pr OR F_CONTENTLENGTH, content_length := of_nat (ord x - 48),
       header_state := h_content_length_num\<rparr>"

lemma content_length_start:
  assumes "p_state c = s_header_value_discard_ws" and "marks c = (\<lambda>_. None)"
    and "header_state (parser c) = h_content_length"
    and "\<not> has_flag (flags (parser c)) F_CONTENTLENGTH" and "IS_NUM x"
    and "bytes_at (data env) (ptr c) [x]" and "room env c (Suc k)"
  shows "at_loop env c = at_loop env (c\<lparr>parser := first_digit x (parser c), p_state := s_header_value,
    marks := (\<lambda>_. None)(M_header_value := Some (ptr c)), ptr := ptr c + 1, n_read := n_read c + 1\<rparr>)"
proof -
  have x: "x \<noteq> SP" "x \<noteq> HT" "x \<noteq> CR" "x \<noteq> LF" using assms(5) by (auto simp: IS_NUM_iff)
  have "step env (load env c) = Break ((load env c)\<lparr>parser := first_digit x (parser c),
      p_state := s_header_value, marks := (\<lambda>_. None)(M_header_value := Some (ptr c))\<rparr>)"
    using assms x
    by (simp add: step_def at_header_value_discard_ws_def at_header_value_start_def Let_def MARK_def
        first_digit_def)
  from turn_to [OF _ _ this] assms(1,6,7) show ?thesis by (simp add: load_def)
qed

lemma content_length_run:
  assumes "tells (settings env) say skip" and "http_errno (parser c) = HPE_OK"
    and "p_state c = s_header_value_discard_ws" and "marks c = (\<lambda>_. None)"
    and "header_state (parser c) = h_content_length"
    and "\<not> has_flag (flags (parser c)) F_CONTENTLENGTH"
    and ds: "digits ds" "ds \<noteq> []" and w: "bytes_at (data env) (ptr c) (ds @ [CR])"
    and room: "room env c (length ds + 1)"
  shows "if dec_from 0 ds \<le> max_content_length
    then at_loop env c = at_loop env (c\<lparr>parser := (parser c)\<lparr>index := 0,
        flags := flags (parser c) OR F_CONTENTLENGTH, content_length := of_nat (dec_from 0 ds),
        state := s_header_almost_done, header_state := h_content_length_num\<rparr>,
      app := say (Received M_header_value ds) (method (parser c)) (app c), p_state := s_header_almost_done, marks := (\<lambda>_. None),
      ptr := ptr c + (length ds + 1), n_read := n_read c + of_nat (length ds + 1)\<rparr>)
    else \<exists>n pr log. at_loop env c = Some (Returned n pr log) \<and>
      http_errno pr = HPE_INVALID_CONTENT_LENGTH"
proof -
  obtain x ds' where x: "ds = x # ds'" using ds(2) by (cases ds) auto
  let ?c = "c\<lparr>parser := first_digit x (parser c), p_state := s_header_value,
    marks := (\<lambda>_. None)(M_header_value := Some (ptr c)), ptr := ptr c + 1, n_read := n_read c + 1\<rparr>"
  have first: "at_loop env c = at_loop env ?c"
    using content_length_start [of c x env "length ds' + 1"] assms x by simp
  have num: "IS_NUM x" "digits ds'" "ord x - 48 \<le> max_content_length"
    using ds x by (auto simp: IS_NUM_iff max_content_length_def)
  have small: "unat (of_nat (ord x - 48) :: u64) = ord x - 48"
    using num by (intro unat_of_nat_small) (simp add: max_content_length_def)
  have w': "bytes_at (data env) (ptr ?c) (ds' @ [CR])" using w x by simp
  have room': "room env ?c (length ds' + 1)"
    using room_more [of env c "length ds' + 1"] room x by (simp add: room_def)
  have loop: "if dec_from 0 ds \<le> max_content_length
    then value_loop (data env) (max_header_size env) (lenient env) (ptr ?c) ch (header_state (parser ?c)) (parser ?c) =
      (Stop_CR, ptr ?c + length ds', CR, h_content_length_num,
       (parser ?c)\<lparr>content_length := of_nat (dec_from 0 ds)\<rparr>)
    else \<exists>j ch' h' pr'. value_loop (data env) (max_header_size env) (lenient env) (ptr ?c) ch
      (header_state (parser ?c)) (parser ?c) = (Stop_error HPE_INVALID_CONTENT_LENGTH, j, ch', h', pr')" for ch
    using content_length_loop [OF w' num(2), of "parser ?c" "max_header_size env" "lenient env" ch] num(3) small x
    by (cases "dec_from 0 ds \<le> max_content_length") (simp_all add: first_digit_def)
  show ?thesis
  proof (cases "dec_from 0 ds \<le> max_content_length")
    case True
    have seg: "seg (data env) (ptr c) (Suc (ptr c + length ds')) = ds"
      using seg_bytes_at [of "data env" "ptr c" ds] w x by simp
    from True loop assms(1,2)
    have "at_loop env ?c = at_loop env (?c\<lparr>parser := (parser ?c)\<lparr>content_length := of_nat (dec_from 0 ds)\<rparr>
        \<lparr>state := s_header_almost_done, header_state := h_content_length_num\<rparr>,
      app := say (Received M_header_value (seg (data env) (ptr c) (ptr ?c + length ds'))) 
        (method ((parser ?c)\<lparr>content_length := of_nat (dec_from 0 ds)\<rparr>)) (app ?c),
      p_state := s_header_almost_done, marks := (\<lambda>_. None),
      ptr := ptr ?c + (length ds' + 1), n_read := n_read ?c + of_nat (length ds' + 1)\<rparr>)"
      by (intro value_turn [OF assms(1) _ _ _ _ w' room']) (simp_all add: first_digit_def)
    with True first seg x show ?thesis by (simp add: first_digit_def ac_simps)
  next
    case False
    have "ptr ?c < data_end env" using bytes_at_bound [OF w'] by simp
    moreover have "n_read ?c + 1 \<le> max_header_size env"
      using unat_count(2) [of "n_read ?c" 1 "max_header_size env"] room' by (simp add: room_def)
    moreover from False loop obtain j ch' h' pr' where "value_loop (data env) (max_header_size env) (lenient env)
      (ptr ?c) (data env ! ptr ?c) (header_state (parser ?c)) (parser ?c) =
        (Stop_error HPE_INVALID_CONTENT_LENGTH, j, ch', h', pr')" by metis
    ultimately show ?thesis
      using False first
      by (simp add: turn step_def at_header_value_def Let_def goto_error_def SET_ERRNO_def set_errno_def
          RETURN_def)
  qed
qed

section \<open>Plain values\<close>

definition value_word :: "string \<Rightarrow> bool" where
  "value_word v \<longleftrightarrow> (\<forall>x \<in> set v. IS_HEADER_CHAR x \<and> x \<noteq> CR \<and> x \<noteq> LF)"

lemma value_word_simps [simp]:
  "value_word []"
  "value_word (x # v) \<longleftrightarrow> IS_HEADER_CHAR x \<and> x \<noteq> CR \<and> x \<noteq> LF \<and> value_word v"
  by (auto simp: value_word_def)

lemma general_scan_word:
  assumes "bytes_at d i (w @ [CR])" and "value_word w" and "i + length w < pe"
  shows "general_scan d lnt i pe ch = (Inr (i + length w - 1), CR)"
  using assms
proof (induction w arbitrary: i ch)
  case Nil
  then show ?case by (subst general_scan.simps) simp
next
  case (Cons x w)
  then show ?case by (subst general_scan.simps) (simp add: Let_def)
qed

lemma value_loop_plain:
  assumes "bytes_at d i (w @ [CR])" and "value_word w" and "length w < unat mhs"
  shows "value_loop d mhs lnt i ch h_general pr = (Stop_CR, i + length w, CR, h_general, pr)"
proof (cases w)
  case Nil
  with assms show ?thesis by (subst value_loop.simps) (simp add: Let_def)
next
  case (Cons x w')
  let ?pe = "i + min (length d - i) (unat mhs)"
  have lt: "i + length w < length d" using bytes_at_bound [OF assms(1)] by simp
  with assms(3) have "i + length w < ?pe" by simp
  then have scan: "general_scan d lnt i ?pe x = (Inr (i + length w - 1), CR)"
    by (rule general_scan_word [OF assms(1,2)])
  have "value_loop d mhs lnt (i + length w) CR h_general pr = (Stop_CR, i + length w, CR, h_general, pr)"
    using assms(1) lt by (subst value_loop.simps) (simp add: Let_def)
  with scan assms(1,2) Cons lt show ?thesis
    by (subst value_loop_general) auto
qed

text \<open>The header states in which a value has no meaning for the parser.\<close>

definition plain_states :: "header_states set" where
  "plain_states =
    {h_general, h_C, h_CO, h_CON, h_matching_connection, h_matching_proxy_connection,
     h_matching_content_length, h_matching_transfer_encoding, h_matching_upgrade}"

definition plain_value :: "string \<Rightarrow> bool" where
  "plain_value v \<longleftrightarrow>
    (case v of [] \<Rightarrow> False | x # v' \<Rightarrow> x \<notin> {SP, HT, CR, LF} \<and> value_word v')"

lemma at_header_value_start_plain:
  assumes "header_state (parser c) \<in> plain_states" and "marks c = (\<lambda>_. None)"
  shows "at_header_value_start c =
    Break (c\<lparr>parser := (parser c)\<lparr>index := 0, header_state := h_general\<rparr>, p_state := s_header_value,
      marks := (\<lambda>_. None)(M_header_value := Some (ptr c))\<rparr>)"
  using assms
  by (cases "header_state (parser c)")
    (simp_all add: plain_states_def at_header_value_start_def Let_def MARK_def)

lemma plain_value_run:
  assumes "tells (settings env) say skip" and "http_errno (parser c) = HPE_OK"
    and "p_state c = s_header_value_discard_ws" and "marks c = (\<lambda>_. None)"
    and plain: "header_state (parser c) \<in> plain_states"
    and v: "plain_value v" and w: "bytes_at (data env) (ptr c) (v @ [CR])"
    and room: "room env c (length v + 1)"
  shows "at_loop env c = at_loop env (c\<lparr>parser := (parser c)\<lparr>index := 0,
        state := s_header_almost_done, header_state := h_general\<rparr>,
      app := say (Received M_header_value v) (method (parser c)) (app c), p_state := s_header_almost_done, marks := (\<lambda>_. None),
      ptr := ptr c + (length v + 1), n_read := n_read c + of_nat (length v + 1)\<rparr>)"
proof -
  obtain x v' where x: "v = x # v'" "x \<noteq> SP" "x \<noteq> HT" "x \<noteq> CR" "x \<noteq> LF" "value_word v'"
    using v by (cases v) (auto simp: plain_value_def)
  let ?pr = "(parser c)\<lparr>index := 0, header_state := h_general\<rparr>"
  let ?c = "c\<lparr>parser := ?pr, p_state := s_header_value,
    marks := (\<lambda>_. None)(M_header_value := Some (ptr c)), ptr := ptr c + 1, n_read := n_read c + 1\<rparr>"
  have "step env (load env c) = Break ((load env c)\<lparr>parser := ?pr,
      p_state := s_header_value, marks := (\<lambda>_. None)(M_header_value := Some (ptr c))\<rparr>)"
    using assms(3,4) plain x w
    by (simp add: step_def at_header_value_discard_ws_def at_header_value_start_plain)
  from turn_to [OF _ _ this, where k = "length v' + 1" and c' = ?c] assms x
  have first: "at_loop env c = at_loop env ?c" by (simp add: load_def)
  have w': "bytes_at (data env) (ptr ?c) (v' @ [CR])" using w x by simp
  have room': "room env ?c (length v' + 1)"
    using room_more [of env c "length v' + 1"] room x by (simp add: room_def)
  have seg: "seg (data env) (ptr c) (Suc (ptr c + length v')) = v"
    using seg_bytes_at [of "data env" "ptr c" v] w x by simp
  have "at_loop env ?c = at_loop env (?c\<lparr>parser := (parser ?c)
        \<lparr>state := s_header_almost_done, header_state := h_general\<rparr>,
      app := say (Received M_header_value (seg (data env) (ptr c) (ptr ?c + length v'))) (method (parser ?c)) (app ?c),
      p_state := s_header_almost_done, marks := (\<lambda>_. None),
      ptr := ptr ?c + (length v' + 1), n_read := n_read ?c + of_nat (length v' + 1)\<rparr>)"
    using value_loop_plain [OF w' x(6), of "max_header_size env" "lenient env"] room' assms(1,2)
    by (intro value_turn [OF assms(1) _ _ _ _ w' room']) (simp_all add: room_def)
  with first seg x show ?thesis by (simp add: ac_simps)
qed

section \<open>Properties\<close>

text \<open>
  C19.  The value of \<open>Content-Length\<close>: a string of digits is accepted exactly when the number it
  denotes is at most 2^64 - 7; then \<open>content_length\<close> is that number, without wrap-around and
  different from the sentinel \<open>ULLONG_MAX\<close>.  A larger number is refused with
  \<open>HPE_INVALID_CONTENT_LENGTH\<close>.
\<close>

theorem content_length_exact:
  assumes "http_errno pr = HPE_OK" and "state pr = s_header_value_discard_ws"
    and "header_state pr = h_content_length" and "\<not> has_flag (flags pr) F_CONTENTLENGTH"
    and "digits ds" and "ds \<noteq> []" and "unat (nread pr) + length ds < unat mhs"
  shows "\<exists>n pr' log'.
    sn_http_parser_execute recorder mhs pr log (ds @ [CR]) = Some (Returned n pr' log') \<and>
    (if dec_from 0 ds \<le> 2 ^ 64 - 7
     then http_errno pr' = HPE_OK \<and> unat (content_length pr') = dec_from 0 ds \<and>
       content_length pr' \<noteq> - 1 \<and> has_flag (flags pr') F_CONTENTLENGTH \<and>
       n = length ds + 1 \<and> log' = log @ [Received M_header_value ds]
     else http_errno pr' = HPE_INVALID_CONTENT_LENGTH)"
proof -
  let ?d = "ds @ [CR]"
  let ?env = "recording_env mhs ?d (lenient_http_headers pr)"
  let ?c = "entry_ctx pr log"
  have exec: "sn_http_parser_execute recorder mhs pr log ?d = at_loop ?env ?c"
    using assms(1) by (simp add: execute_at_loop)
  have marks: "marks ?c = (\<lambda>_. None)" using assms(2) by (auto simp: initial_marks_def)
  note run = content_length_run [OF recorder_tells, of ?env ?c ds]
  show ?thesis
  proof (cases "dec_from 0 ds \<le> max_content_length")
    case True
    then have val: "unat (of_nat (dec_from 0 ds) :: u64) = dec_from 0 ds"
      by (intro unat_of_nat_small) (simp add: max_content_length_def)
    with True have "(of_nat (dec_from 0 ds) :: u64) \<noteq> - 1"
      using unat_max_u64 by (auto simp: max_content_length_def)
    with True val run assms marks exec show ?thesis
      by (simp add: log_event_def at_loop_end room_def max_content_length_eq has_flag_or)
        (simp add: has_flag_def F_CONTENTLENGTH_def)
  next
    case False
    with run assms marks exec show ?thesis
      by (auto simp: room_def max_content_length_eq)
  qed
qed

lemma content_length_exact_witness:
  "\<exists>n pr' log'.
    sn_http_parser_execute recorder 80 ((sn_http_parser_init HTTP_REQUEST)
        \<lparr>state := s_header_value_discard_ws, header_state := h_content_length\<rparr>) []
      (''18446744073709551610'' @ [CR]) = Some (Returned n pr' log') \<and>
    http_errno pr' = HPE_INVALID_CONTENT_LENGTH"
proof -
  let ?pr = "(sn_http_parser_init HTTP_REQUEST)
      \<lparr>state := s_header_value_discard_ws, header_state := h_content_length\<rparr>"
  have "\<not> dec_from 0 ''18446744073709551610'' \<le> 2 ^ 64 - 7" by simp
  moreover have "digits ''18446744073709551610''" by (simp add: IS_NUM_iff)
  ultimately show ?thesis
    using content_length_exact [of ?pr "''18446744073709551610''" 80 "[]"]
    by (simp add: sn_http_parser_init_def del: dec_from.simps)
qed

end
