(* ===== verification/HttpMessage.thy ===== *)
theory HttpMessage
  imports HttpHeaderValue
begin

text \<open>
  Whole requests: the request line, header lines, the end of the head and a body of known
  length, one lemma per piece on how the loop of \<open>sn_http_parser_execute\<close> crosses it, and their
  composition: printing a request and parsing it gives the request back.
\<close>

section \<open>URLs\<close>

definition url_start :: "http_method \<Rightarrow> state" where
  "url_start m = (if m = HTTP_CONNECT then s_req_server_start else s_req_spaces_before_url)"

text \<open>The states of the URL automaton in which a space may end the URL.\<close>

definition url_final :: "state set" where
  "url_final =
    {s_req_server, s_req_server_with_at, s_req_path, s_req_query_string_start,
     s_req_query_string, s_req_fragment_start, s_req_fragment}"

definition valid_url :: "http_method \<Rightarrow> string \<Rightarrow> bool" where
  "valid_url m u \<longleftrightarrow> u \<noteq> [] \<and> foldl parse_url_char (url_start m) u \<in> url_final"

lemma load_parsing:
  "PARSING_HEADER (p_state c) \<Longrightarrow> load env c = c\<lparr>cur := data env ! ptr c, n_read := n_read c + 1\<rparr>"
  by (simp add: load_def del: PARSING_HEADER_iff)

lemma url_parsing: "s \<in> url_states \<Longrightarrow> PARSING_HEADER s"
  by (auto simp: url_states_def)

lemma url_final_states: "s \<in> url_final \<Longrightarrow> s \<in> url_states"
  by (auto simp: url_final_def url_states_def)

lemma parse_url_char_dead [simp]: "parse_url_char s_dead x = s_dead"
  by (simp add: parse_url_char_def)

lemma url_fold_dead [simp]: "foldl parse_url_char s_dead u = s_dead"
  by (induction u) simp_all

lemma parse_url_char_live:
  "parse_url_char s x \<noteq> s_dead \<Longrightarrow> x \<noteq> SP \<and> x \<noteq> CR \<and> x \<noteq> LF"
  by (auto simp: parse_url_char_def)

lemma step_url_char:
  assumes "p_state c \<in> url_states" and "cur c \<noteq> SP" and "cur c \<noteq> CR" and "cur c \<noteq> LF"
  shows "step env c = url_char c"
  using assms by (auto simp: url_states_def step_def at_req_schema_def at_req_url_def)

lemma url_chars_run:
  assumes "p_state c \<in> url_states" and "foldl parse_url_char (p_state c) u \<noteq> s_dead"
    and "bytes_at (data env) (ptr c) u" and "room env c (length u)"
  shows "at_loop env c = at_loop env (c\<lparr>p_state := foldl parse_url_char (p_state c) u,
    ptr := ptr c + length u, n_read := n_read c + of_nat (length u)\<rparr>)"
  using assms
proof (induction u arbitrary: c)
  case (Cons x u)
  let ?s = "parse_url_char (p_state c) x"
  let ?c = "c\<lparr>p_state := ?s, ptr := ptr c + 1, n_read := n_read c + 1\<rparr>"
  have s: "?s \<noteq> s_dead" using Cons.prems(2) by (cases "?s = s_dead") simp_all
  note x = parse_url_char_live [OF s]
  have "step env (load env c) = Break ((load env c)\<lparr>p_state := ?s\<rparr>)"
    using Cons.prems(1,3) x s by (simp add: step_url_char url_char_def Let_def)
  from turn_to [OF _ _ this, where k = "length u" and c' = ?c] Cons.prems
  have "at_loop env c = at_loop env ?c" by (simp add: load_parsing url_parsing del: PARSING_HEADER_iff)
  moreover have "room env ?c (length u)"
    using room_more [of env c "length u"] Cons.prems(4) by (simp add: room_def)
  ultimately show ?case
    using Cons.IH [of ?c] Cons.prems parse_url_char_range [OF s] by (simp add: ac_simps)
qed simp

lemma url_run:
  assumes "tells (settings env) say skip" and "http_errno (parser c) = HPE_OK"
    and "p_state c = s_req_spaces_before_url" and "marks c = (\<lambda>_. None)"
    and u: "valid_url (method (parser c)) u" and w: "bytes_at (data env) (ptr c) (u @ [SP])"
    and room: "room env c (length u + 1)"
  shows "at_loop env c = at_loop env (c\<lparr>parser := (parser c)\<lparr>state := s_req_http_start\<rparr>,
      app := say (Received M_url u) (method (parser c)) (app c), p_state := s_req_http_start, marks := (\<lambda>_. None),
      ptr := ptr c + (length u + 1), n_read := n_read c + of_nat (length u + 1)\<rparr>)"
proof -
  obtain x u' where x: "u = x # u'" using u by (cases u) (auto simp: valid_url_def)
  let ?s0 = "url_start (method (parser c))"
  let ?s1 = "parse_url_char ?s0 x" and ?s = "foldl parse_url_char ?s0 u"
  have fin: "?s \<in> url_final" using u by (simp add: valid_url_def)
  then have live: "foldl parse_url_char ?s1 u' \<noteq> s_dead" using x by (auto simp: url_final_def)
  then have s1: "?s1 \<noteq> s_dead" by (cases "?s1 = s_dead") simp_all
  let ?c = "c\<lparr>p_state := ?s1, marks := (\<lambda>_. None)(M_url := Some (ptr c)), ptr := ptr c + 1, n_read := n_read c + 1\<rparr>"
  have "step env (load env c) = Break ((load env c)\<lparr>p_state := ?s1, marks := (\<lambda>_. None)(M_url := Some (ptr c))\<rparr>)"
    using assms(3,4) w x s1 parse_url_char_live [OF s1]
    by (auto simp: step_def at_req_spaces_before_url_def Let_def MARK_def url_char_def url_start_def
        split: if_splits)
  from turn_to [OF _ _ this, where k = "length u' + 1" and c' = ?c] assms x
  have first: "at_loop env c = at_loop env ?c" by (simp add: load_def)
  have room1: "room env ?c (length u' + 1)"
    using room_more [of env c "length u' + 1"] room x by (simp add: room_def)
  let ?d = "?c\<lparr>p_state := ?s, ptr := ptr ?c + length u', n_read := n_read ?c + of_nat (length u')\<rparr>"
  have chars: "at_loop env ?c = at_loop env ?d"
    using url_chars_run [of ?c u' env] parse_url_char_range [OF s1] live w x room1 by (auto simp: room_def)
  have lt: "ptr ?d < data_end env" "data env ! ptr ?d = SP" using w x bytes_at_bound [OF w] by auto
  have room2: "room env ?d (Suc 0)"
    using room1 unat_count(1) [of "n_read ?c" "length u'" "max_header_size env"] by (simp add: room_def)
  have seg: "seg (data env) (ptr c) (Suc (ptr c + length u')) = u"
    using seg_bytes_at [of "data env" "ptr c" u] w x by simp
  have "step env (load env ?d) = at_req_url env (load env ?d)"
    using fin by (auto simp: step_def url_final_def)
  then have "step env (load env ?d) = Break ((load env ?d)\<lparr>parser := (parser c)\<lparr>state := s_req_http_start\<rparr>,
      app := say (Received M_url u) (method (parser c)) (app c), p_state := s_req_http_start, marks := (\<lambda>_. None)\<rparr>)"
    using lt assms(1,2) seg by (simp add: at_req_url_def CALLBACK_DATA_def tells_data)
  from turn_to [OF lt(1) room2 this, of "c\<lparr>parser := (parser c)\<lparr>state := s_req_http_start\<rparr>,
      app := say (Received M_url u) (method (parser c)) (app c), p_state := s_req_http_start, marks := (\<lambda>_. None),
      ptr := ptr c + (length u + 1), n_read := n_read c + of_nat (length u + 1)\<rparr>"] first chars x
    url_parsing [OF url_final_states [OF fin]]
  show ?thesis by (simp add: load_parsing ac_simps del: PARSING_HEADER_iff)
qed

section \<open>Fixed text\<close>

text \<open>
  The states that expect fixed text: one byte changes the state and the version fields, and no
  callback runs.
\<close>

definition text_step :: "state \<Rightarrow> char \<Rightarrow> http_parser \<Rightarrow> (state \<times> http_parser) option" where
  "text_step s x pr =
    (let go = (\<lambda>y s'. if x = y then Some (s', pr) else None);
         num = (\<lambda>s' pr'. if IS_NUM x then Some (s', pr') else None)
     in case s of
          s_req_http_start \<Rightarrow> go CHR ''H'' s_req_http_H
        | s_req_http_H \<Rightarrow> go CHR ''T'' s_req_http_HT
        | s_req_http_HT \<Rightarrow> go CHR ''T'' s_req_http_HTT
        | s_req_http_HTT \<Rightarrow> go CHR ''P'' s_req_http_HTTP
        | s_req_http_HTTP \<Rightarrow> go CHR ''/'' s_req_http_major
        | s_req_http_major \<Rightarrow> num s_req_http_dot (pr\<lparr>http_major := digit16 x\<rparr>)
        | s_req_http_dot \<Rightarrow> go CHR ''.'' s_req_http_minor
        | s_req_http_minor \<Rightarrow> num s_req_http_end (pr\<lparr>http_minor := digit16 x\<rparr>)
        | s_req_http_end \<Rightarrow> go CR s_req_line_almost_done
        | s_req_line_almost_done \<Rightarrow> go LF s_header_field_start
        | s_header_value_discard_ws \<Rightarrow> go SP s_header_value_discard_ws
        | s_header_almost_done \<Rightarrow> go LF s_header_value_lws
        | s_header_field_start \<Rightarrow> go CR s_headers_almost_done
        | _ \<Rightarrow> None)"

lemma text_step_sound:
  assumes "text_step (p_state c) (cur c) (parser c) = Some (s, pr)"
  shows "step env c = Break (c\<lparr>parser := pr, p_state := s\<rparr>) \<and> PARSING_HEADER (p_state c)"
proof -
  have id: "c = c\<lparr>parser := parser c\<rparr>" by simp
  show ?thesis
    using assms
    by (cases "p_state c")
      (auto simp: text_step_def Let_def step_def at_req_http_start_def at_req_HTTP_def expect_def STRICT_CHECK_def
        at_req_http_version_def at_req_http_end_def at_req_line_almost_done_def
        at_header_value_discard_ws_def at_header_almost_done_def at_header_field_start_def
        split: if_splits intro: id)
qed

fun text_word :: "state \<Rightarrow> string \<Rightarrow> http_parser \<Rightarrow> (state \<times> http_parser) option" where
  "text_word s [] pr = Some (s, pr)"
| "text_word s (x # w) pr =
    (case text_step s x pr of None \<Rightarrow> None | Some (s', pr') \<Rightarrow> text_word s' w pr')"

lemma text_run:
  assumes "text_word (p_state c) w (parser c) = Some (s, pr)"
    and "bytes_at (data env) (ptr c) w" and "room env c (length w)"
  shows "at_loop env c = at_loop env (c\<lparr>parser := pr, p_state := s, ptr := ptr c + length w,
    n_read := n_read c + of_nat (length w)\<rparr>)"
  using assms
proof (induction w arbitrary: c)
  case Nil
  then show ?case by (auto intro: arg_cong [of _ _ "at_loop env"])
next
  case (Cons x w)
  then obtain s1 pr1 where step: "text_step (p_state c) x (parser c) = Some (s1, pr1)"
    and rest: "text_word s1 w pr1 = Some (s, pr)"
    by (auto split: option.splits)
  let ?c = "c\<lparr>parser := pr1, p_state := s1, ptr := ptr c + 1, n_read := n_read c + 1\<rparr>"
  have "step env (load env c) = Break ((load env c)\<lparr>parser := pr1, p_state := s1\<rparr>) \<and> PARSING_HEADER (p_state c)"
    using text_step_sound [of "load env c"] step Cons.prems(2) by simp
  then have "at_loop env c = at_loop env ?c"
    using Cons.prems by (intro turn_to [where k = "length w"]) (auto simp: load_parsing simp del: PARSING_HEADER_iff)
  moreover have "room env ?c (length w)"
    using room_more [of env c "length w"] Cons.prems(3) by (simp add: room_def)
  ultimately show ?case
    using Cons.IH [of ?c] Cons.prems rest by (simp add: ac_simps)
qed

definition version_text :: "char \<Rightarrow> char \<Rightarrow> string" where
  "version_text a b = ''HTTP/'' @ [a, CHR ''.'', b, CR, LF]"

lemma version_word:
  "\<lbrakk>IS_NUM a; IS_NUM b\<rbrakk> \<Longrightarrow> text_word s_req_http_start (version_text a b) pr =
    Some (s_header_field_start, pr\<lparr>http_major := digit16 a, http_minor := digit16 b\<rparr>)"
  by (simp add: version_text_def text_step_def)

section \<open>Header lines\<close>

lemma at_loop_cong: "c = c' \<Longrightarrow> at_loop env c = at_loop env c'"
  by simp

text \<open>A header that is no instruction to the parser.\<close>

definition plain_header :: "string \<times> string \<Rightarrow> bool" where
  "plain_header h \<longleftrightarrow>
    fst h \<noteq> [] \<and> token_word (fst h) \<and>
    map TOKEN (fst h) \<notin> {''connection'', ''proxy-connection'', ''content-length'', ''upgrade''} \<and>
    take 17 (map TOKEN (fst h)) \<noteq> ''transfer-encoding'' \<and> plain_value (snd h)"

definition header_line :: "string \<times> string \<Rightarrow> string" where
  "header_line h = fst h @ CHR '':'' # SP # snd h @ [CR, LF]"

definition header_events :: "string \<times> string \<Rightarrow> event list" where
  "header_events h = [Received M_header_field (fst h), Received M_header_value (snd h)]"

text \<open>The loop after a header line, once the next byte is known not to continue it.\<close>

lemma lws_turn:
  assumes "p_state c = s_header_value_lws" and "ptr c < data_end env"
    and "data env ! ptr c \<noteq> SP" and "data env ! ptr c \<noteq> HT" and "room env c 1"
    and "finished_flag (header_state (parser c)) = 0"
  shows "at_loop env c = at_loop env (c\<lparr>p_state := s_header_field_start\<rparr>)"
proof -
  have count: "n_read c + 1 \<le> max_header_size env"
    using unat_count(2) [of "n_read c" 1 "max_header_size env"] assms(5) by (simp add: room_def)
  have "step env (load env c) = Reexecute ((load env c)\<lparr>p_state := s_header_field_start\<rparr>)"
    using assms by (simp add: step_def at_header_value_lws_def finish_header_def)
  then have "at_loop env c = run env (step env ((load env c)\<lparr>p_state := s_header_field_start\<rparr>))"
    using assms(1,2) count by (simp add: turn run_Reexecute)
  moreover have "at_loop env (c\<lparr>p_state := s_header_field_start\<rparr>) =
      run env (step env ((load env c)\<lparr>p_state := s_header_field_start\<rparr>))"
    using assms(1,2) count
    by (simp add: turn, intro arg_cong [of _ _ "\<lambda>c. run env (step env c)"]) (simp add: load_def)
  ultimately show ?thesis by simp
qed

lemma field_fold_states:
  "\<lbrakk>field_fold w pr = Some pr'; header_state pr \<in> field_states\<rbrakk> \<Longrightarrow> header_state pr' \<in> field_states"
proof (induction w arbitrary: pr)
  case (Cons x w)
  show ?case
  proof (cases "header_state pr = h_general")
    case False
    from header_field_char_ok [OF Cons.prems(2) False, of "TOKEN x" x] obtain pr1 where
      "header_field_char (TOKEN x) x pr = Some pr1" "header_state pr1 \<in> field_states" by blast
    with Cons.IH [of pr1] Cons.prems(1) False show ?thesis by simp
  qed (use Cons.prems in simp)
qed simp

text \<open>After a line the matcher fields are those of \<open>mid_head\<close>.\<close>

definition mid_head :: "http_parser \<Rightarrow> http_parser" where
  "mid_head pr = pr\<lparr>index := 0, header_state := h_general, state := s_header_almost_done\<rparr>"

lemma room_after:
  assumes "room env c (j + k)"
  shows "room env (c\<lparr>n_read := n_read c + of_nat j\<rparr>) k"
  using assms unat_count(1) [of "n_read c" j "max_header_size env"] by (simp add: room_def)

lemma room_n_read: "n_read c' = n_read c + of_nat j \<Longrightarrow> room env c (j + k) \<Longrightarrow> room env c' k"
  using room_after [of env c j k] by (simp add: room_def)

lemma field_name_plain:
  assumes "plain_header h" and "field_name (fst h) pr = Some pr'"
  shows "header_state pr' \<in> plain_states \<and> extra_flags pr' = extra_flags pr"
proof -
  from assms have t: "token_word (fst h)" by (simp add: plain_header_def)
  have "\<exists>x w'. field_fold w' (field_start (TOKEN x) pr) = Some pr'"
    using assms(2) by (auto simp: field_name_def split: list.splits)
  then have "header_state pr' \<in> field_states"
    using field_fold_states field_start_states by blast
  with field_name_kinds [OF assms(2) t] field_name_extra [OF assms(2) t] assms(1) show ?thesis
    by (auto simp: plain_header_def te_flag_def field_states_def plain_states_def)
qed

lemma http_errno_frame: "name_frame pr pr' \<Longrightarrow> http_errno pr' = http_errno pr"
  by (cases pr; cases pr') (simp add: name_frame_def)

lemma mid_head_frame:
  "\<lbrakk>name_frame pr pr'; extra_flags pr' = extra_flags pr\<rbrakk> \<Longrightarrow>
    pr'\<lparr>index := 0, state := s, header_state := h\<rparr> = pr\<lparr>index := 0, header_state := h, state := s\<rparr>"
  by (cases pr; cases pr') (simp add: name_frame_def)

text \<open>
  A name, the colon and the space after it.
\<close>

lemma name_colon_run:
  assumes "tells (settings env) say skip" and "http_errno (parser c) = HPE_OK"
    and "p_state c = s_header_field_start" and "marks c = (\<lambda>_. None)"
    and w: "bytes_at (data env) (ptr c) (w @ '': '')" "token_word w" "w \<noteq> []"
    and room: "room env c (length w + 2)" and name: "field_name w (parser c) = Some pr'"
  shows "at_loop env c =
    at_loop env (c\<lparr>parser := pr'\<lparr>state := s_header_value_discard_ws\<rparr>,
      app := say (Received M_header_field w) (method (parser c)) (app c), p_state := s_header_value_discard_ws,
      ptr := ptr c + (length w + 2), n_read := n_read c + of_nat (length w + 2)\<rparr>)"
proof -
  let ?c = "c\<lparr>parser := pr'\<lparr>state := s_header_value_discard_ws\<rparr>,
      app := say (Received M_header_field w) (method (parser c)) (app c), p_state := s_header_value_discard_ws,
      ptr := ptr c + (length w + 1), n_read := n_read c + of_nat (length w + 1)\<rparr>"
  have r: "room env ?c 1" by (rule room_n_read [of _ _ "length w + 1"]) (use room in simp_all)
  have "at_loop env c = at_loop env ?c"
    by (rule header_name_run [OF assms(1-4)]) (use w room name in \<open>simp_all add: room_def\<close>)
  also have "\<dots> = at_loop env (?c\<lparr>parser := parser ?c, p_state := s_header_value_discard_ws,
      ptr := ptr ?c + length [SP], n_read := n_read ?c + of_nat (length [SP])\<rparr>)"
    by (rule text_run) (use w r in \<open>simp_all add: text_step_def\<close>)
  finally show ?thesis by (rule trans) (rule at_loop_cong, simp add: ac_simps)
qed

lemma header_line_run:
  assumes "tells (settings env) say skip" and "http_errno (parser c) = HPE_OK"
    and "p_state c = s_header_field_start" and "marks c = (\<lambda>_. None)"
    and h: "plain_header h" and w: "bytes_at (data env) (ptr c) (header_line h)"
    and room: "room env c (length (header_line h))"
  shows "at_loop env c =
    at_loop env (c\<lparr>parser := mid_head (parser c), app := told say (method (parser c)) (header_events h) (app c),
      p_state := s_header_value_lws, ptr := ptr c + length (header_line h),
      n_read := n_read c + of_nat (length (header_line h))\<rparr>)"
proof -
  obtain w v where [simp]: "h = (w, v)" by (cases h)
  have t: "token_word w" "w \<noteq> []" "plain_value v" using h by (simp_all add: plain_header_def)
  obtain pr' where name: "field_name w (parser c) = Some pr'" using field_name_total [OF t(2)] by blast
  have pr': "header_state pr' \<in> plain_states" "extra_flags pr' = extra_flags (parser c)"
    "name_frame (parser c) pr'"
    using field_name_plain [OF h] field_name_frame name by simp_all
  let ?c1 = "c\<lparr>parser := pr'\<lparr>state := s_header_value_discard_ws\<rparr>,
      app := say (Received M_header_field w) (method (parser c)) (app c), p_state := s_header_value_discard_ws,
      ptr := ptr c + (length w + 2), n_read := n_read c + of_nat (length w + 2)\<rparr>"
  have step1: "at_loop env c = at_loop env ?c1"
    by (rule name_colon_run [OF assms(1-4)]) (use w room name t in \<open>simp_all add: header_line_def room_def\<close>)
  have r1: "room env ?c1 (length v + 2)"
    by (rule room_n_read [of _ _ "length w + 2"]) (use room in \<open>simp_all add: header_line_def\<close>)
  let ?c2 = "?c1\<lparr>parser := (parser ?c1)\<lparr>index := 0, state := s_header_almost_done, header_state := h_general\<rparr>,
      app := say (Received M_header_value v) (method (parser ?c1)) (app ?c1), p_state := s_header_almost_done, marks := (\<lambda>_. None),
      ptr := ptr ?c1 + (length v + 1), n_read := n_read ?c1 + of_nat (length v + 1)\<rparr>"
  have step2: "at_loop env ?c1 = at_loop env ?c2"
    by (rule plain_value_run)
      (use assms(1,2,4) http_errno_frame [OF pr'(3)] pr'(1) t w r1 in \<open>simp_all add: header_line_def room_def\<close>)
  have r2: "room env ?c2 1"
    by (rule room_n_read [of _ ?c1 "length v + 1"]) (use r1 in simp_all)
  have step3: "at_loop env ?c2 = at_loop env (?c2\<lparr>parser := parser ?c2, p_state := s_header_value_lws,
      ptr := ptr ?c2 + length [LF], n_read := n_read ?c2 + of_nat (length [LF])\<rparr>)"
    by (rule text_run) (use w r2 in \<open>simp_all add: header_line_def text_step_def\<close>)
  have "parser ?c2 = mid_head (parser c)" and "method pr' = method (parser c)"
    using mid_head_frame [OF pr'(3,2)] pr'(3) by (cases pr'; cases "parser c"; simp add: mid_head_def name_frame_def)+
  then show ?thesis
    using assms(4) unfolding step1 step2 step3
    by (intro at_loop_cong) (simp add: header_line_def header_events_def ac_simps)
qed

lemma token_not_space: "TOKEN x \<noteq> NUL \<Longrightarrow> x \<noteq> SP \<and> x \<noteq> HT"
  by (auto simp: TOKEN_eq token_of_def split: if_splits)

lemma mid_head_idem [simp]:
  "mid_head (mid_head pr) = mid_head pr" "http_errno (mid_head pr) = http_errno pr"
  "header_state (mid_head pr) = h_general" "method (mid_head pr) = method pr"
  by (simp_all add: mid_head_def)

definition after_headers :: "'b list \<Rightarrow> http_parser \<Rightarrow> http_parser" where
  "after_headers hs pr = (if hs = [] then pr else mid_head pr)"

definition headers_text :: "(string \<times> string) list \<Rightarrow> string" where
  "headers_text hs = concat (map header_line hs)"

definition headers_events :: "(string \<times> string) list \<Rightarrow> event list" where
  "headers_events hs = concat (map header_events hs)"

lemma headers_simps [simp]:
  "headers_text [] = []" "headers_text (h # hs) = header_line h @ headers_text hs"
  "headers_events [] = []" "headers_events (h # hs) = header_events h @ headers_events hs"
  "after_headers [] pr = pr" "after_headers (h # hs') pr = mid_head pr"
  by (simp_all add: headers_text_def headers_events_def after_headers_def)

text \<open>The byte after a line: the start of the next name, or the byte \<open>y\<close> after all lines.\<close>

lemma headers_next:
  assumes "bytes_at d i (headers_text hs @ [y])" and "list_all plain_header hs" and "y \<noteq> SP" and "y \<noteq> HT"
  shows "i < length d \<and> d ! i \<noteq> SP \<and> d ! i \<noteq> HT"
proof (cases hs)
  case Nil
  with assms show ?thesis by simp
next
  case (Cons h hs')
  with assms(2) obtain x w where "fst h = x # w" "TOKEN x \<noteq> NUL"
    by (cases "fst h") (auto simp: plain_header_def)
  with assms(1) Cons token_not_space show ?thesis by (simp add: header_line_def)
qed

lemma headers_run:
  assumes "tells (settings env) say skip" and "http_errno (parser c) = HPE_OK"
    and "p_state c = s_header_field_start" and "marks c = (\<lambda>_. None)"
    and "list_all plain_header hs" and "bytes_at (data env) (ptr c) (headers_text hs @ [y])"
    and "y \<noteq> SP" and "y \<noteq> HT" and "room env c (length (headers_text hs) + 1)"
  shows "at_loop env c =
    at_loop env (c\<lparr>parser := after_headers hs (parser c), app := told say (method (parser c)) (headers_events hs) (app c),
      ptr := ptr c + length (headers_text hs),
      n_read := n_read c + of_nat (length (headers_text hs))\<rparr>)"
  using assms
proof (induction hs arbitrary: c)
  case Nil
  show ?case by (rule at_loop_cong) simp
next
  case (Cons h hs)
  let ?n = "length (header_line h)"
  let ?c1 = "c\<lparr>parser := mid_head (parser c), app := told say (method (parser c)) (header_events h) (app c),
      p_state := s_header_value_lws, ptr := ptr c + ?n, n_read := n_read c + of_nat ?n\<rparr>"
  let ?c2 = "c\<lparr>parser := mid_head (parser c), app := told say (method (parser c)) (header_events h) (app c),
      ptr := ptr c + ?n, n_read := n_read c + of_nat ?n\<rparr>"
  have step1: "at_loop env c = at_loop env ?c1"
    by (rule header_line_run) (use Cons.prems in \<open>simp_all add: room_def\<close>)
  have next_byte: "ptr ?c1 < data_end env \<and> data env ! ptr ?c1 \<noteq> SP \<and> data env ! ptr ?c1 \<noteq> HT"
    using headers_next [of "data env" "ptr ?c1" hs y] Cons.prems by simp
  have r1: "room env ?c1 (length (headers_text hs) + 1)"
    by (rule room_n_read [of _ c ?n]) (use Cons.prems in simp_all)
  have step2: "at_loop env ?c1 = at_loop env (?c1\<lparr>p_state := s_header_field_start\<rparr>)"
    by (rule lws_turn) (use next_byte r1 in \<open>simp_all add: room_def finished_flag_def\<close>)
  have same: "?c1\<lparr>p_state := s_header_field_start\<rparr> = ?c2"
    using Cons.prems(3) by (cases c) simp
  have step3: "at_loop env ?c2 = at_loop env (?c2\<lparr>parser := after_headers hs (parser ?c2),
      app := told say (method (parser ?c2)) (headers_events hs) (app ?c2), ptr := ptr ?c2 + length (headers_text hs),
      n_read := n_read ?c2 + of_nat (length (headers_text hs))\<rparr>)"
    by (rule Cons.IH) (use Cons.prems r1 in \<open>simp_all add: room_def\<close>)
  show ?case
    unfolding step1 step2 same step3
    by (rule at_loop_cong) (simp add: after_headers_def ac_simps)
qed

text \<open>The header that announces a body.\<close>

definition length_header :: "string \<times> string \<Rightarrow> bool" where
  "length_header h \<longleftrightarrow>
    token_word (fst h) \<and> map TOKEN (fst h) = ''content-length'' \<and>
    digits (snd h) \<and> snd h \<noteq> [] \<and> dec_from 0 (snd h) \<le> max_content_length"

definition with_length :: "nat \<Rightarrow> http_parser \<Rightarrow> http_parser" where
  "with_length n pr =
    pr\<lparr>index := 0, flags := flags pr OR F_CONTENTLENGTH, content_length := of_nat n,
       state := s_header_almost_done, header_state := h_content_length_num\<rparr>"

lemma length_header_run:
  assumes "tells (settings env) say skip" and "http_errno (parser c) = HPE_OK"
    and "p_state c = s_header_field_start" and "marks c = (\<lambda>_. None)"
    and "\<not> has_flag (flags (parser c)) F_CONTENTLENGTH"
    and h: "length_header h" and w: "bytes_at (data env) (ptr c) (header_line h @ [y])"
    and y: "y \<noteq> SP" "y \<noteq> HT" and room: "room env c (length (header_line h) + 1)"
  shows "at_loop env c =
    at_loop env (c\<lparr>parser := with_length (dec_from 0 (snd h)) (parser c),
      app := told say (method (parser c)) (header_events h) (app c), ptr := ptr c + length (header_line h),
      n_read := n_read c + of_nat (length (header_line h))\<rparr>)"
proof -
  obtain w v where [simp]: "h = (w, v)" by (cases h)
  have t: "token_word w" "w \<noteq> []" "map TOKEN w = ''content-length''" "digits v" "v \<noteq> []"
    "dec_from 0 v \<le> max_content_length"
    using h by (auto simp: length_header_def)
  let ?pr = "(parser c)\<lparr>index := 13, header_state := h_content_length\<rparr>"
  let ?c1 = "c\<lparr>parser := ?pr\<lparr>state := s_header_value_discard_ws\<rparr>,
      app := say (Received M_header_field w) (method (parser c)) (app c), p_state := s_header_value_discard_ws,
      ptr := ptr c + (length w + 2), n_read := n_read c + of_nat (length w + 2)\<rparr>"
  have step1: "at_loop env c = at_loop env ?c1"
    by (rule name_colon_run [OF assms(1-4)])
      (use w room t field_name_complete(3) [OF t(3)] in \<open>simp_all add: header_line_def room_def\<close>)
  have r1: "room env ?c1 (length v + 1 + 2)"
    by (rule room_n_read [of _ c "length w + 2"]) (use room in \<open>simp_all add: header_line_def\<close>)
  let ?c2 = "?c1\<lparr>parser := (parser ?c1)\<lparr>index := 0,
        flags := flags (parser ?c1) OR F_CONTENTLENGTH, content_length := of_nat (dec_from 0 v),
        state := s_header_almost_done, header_state := h_content_length_num\<rparr>,
      app := say (Received M_header_value v) (method (parser ?c1)) (app ?c1), p_state := s_header_almost_done, marks := (\<lambda>_. None),
      ptr := ptr ?c1 + (length v + 1), n_read := n_read ?c1 + of_nat (length v + 1)\<rparr>"
  have step2: "at_loop env ?c1 = at_loop env ?c2"
    using content_length_run [of env say skip ?c1 v] assms(1,2,4,5) t w r1
    by (simp add: header_line_def room_def)
  have r2: "room env ?c2 2"
    by (rule room_n_read [of _ ?c1 "length v + 1"]) (use r1 in simp_all)
  let ?c3 = "?c2\<lparr>parser := parser ?c2, p_state := s_header_value_lws,
      ptr := ptr ?c2 + length [LF], n_read := n_read ?c2 + of_nat (length [LF])\<rparr>"
  have step3: "at_loop env ?c2 = at_loop env ?c3"
    by (rule text_run) (use w r2 in \<open>simp_all add: header_line_def text_step_def room_def\<close>)
  have r3: "room env ?c3 1"
    by (rule room_n_read [of _ ?c2 1]) (use r2 in \<open>simp_all add: numeral_2_eq_2\<close>)
  have step4: "at_loop env ?c3 = at_loop env (?c3\<lparr>p_state := s_header_field_start\<rparr>)"
    by (rule lws_turn) (use w y r3 in \<open>simp_all add: header_line_def finished_flag_def\<close>)
  show ?thesis
    unfolding step1 step2 step3 step4
    by (rule at_loop_cong) (use assms(3,4) in \<open>simp add: header_line_def header_events_def with_length_def ac_simps\<close>)
qed

section \<open>The end of the head\<close>

text \<open>A parser in the head of a request that asks for nothing special.\<close>

definition plain_request :: "http_parser \<Rightarrow> bool" where
  "plain_request pr \<longleftrightarrow>
    http_errno pr = HPE_OK \<and> type pr = HTTP_REQUEST \<and> method pr \<noteq> HTTP_CONNECT \<and>
    (flags pr = 0 \<or> flags pr = F_CONTENTLENGTH) \<and> extra_flags pr = 0"

lemma plain_request_flags:
  assumes "plain_request pr"
  shows "\<not> has_flag (flags pr) F_TRAILING" "\<not> has_flag (flags pr) F_CHUNKED"
    "\<not> has_flag (flags pr) F_SKIPBODY" "\<not> has_flag (flags pr) F_UPGRADE"
    "\<not> has_flag (extra_flags pr) F_TRANSFER_ENCODING_hi"
  using assms by (auto simp: plain_request_def has_flag_def flag_defs)

lemma NEW_MESSAGE_simps [simp]:
  "NEW_MESSAGE (pr\<lparr>nread := n\<rparr>) = NEW_MESSAGE pr" "NEW_MESSAGE (pr\<lparr>state := s\<rparr>) = NEW_MESSAGE pr"
  "NEW_MESSAGE (pr\<lparr>upgrade := u\<rparr>) = NEW_MESSAGE pr"
  by (simp_all add: NEW_MESSAGE_def start_state_def sn_http_should_keep_alive_def
      sn_http_message_needs_eof_def)

text \<open>The parser once the head is complete.\<close>

definition skipped :: "bool \<Rightarrow> http_parser \<Rightarrow> http_parser" where
  "skipped b pr = (if b then pr\<lparr>flags := flags pr OR F_SKIPBODY\<rparr> else pr)"

definition head_done :: "bool \<Rightarrow> http_parser \<Rightarrow> http_parser" where
  "head_done b pr = (skipped b pr)\<lparr>upgrade := False, nread := 0\<rparr>"

lemma skipped_fields [simp]:
  "http_errno (skipped b pr) = http_errno pr" "type (skipped b pr) = type pr" "method (skipped b pr) = method pr"
  "http_major (skipped b pr) = http_major pr" "http_minor (skipped b pr) = http_minor pr"
  "content_length (skipped b pr) = content_length pr" "extra_flags (skipped b pr) = extra_flags pr"
  "skipped False pr = pr"
  by (simp_all add: skipped_def)

lemma skipped_flags:
  "has_flag (flags (skipped b pr)) f \<longleftrightarrow> has_flag (flags pr) f \<or> b \<and> has_flag F_SKIPBODY f"
  by (simp add: skipped_def has_flag_or)

lemma F_SKIPBODY_only:
  "has_flag F_SKIPBODY F_SKIPBODY" "\<not> has_flag F_SKIPBODY F_CHUNKED" "\<not> has_flag F_SKIPBODY F_UPGRADE"
  by (simp_all add: has_flag_def flag_defs)

lemma NEW_MESSAGE_head_done: "type pr = HTTP_REQUEST \<Longrightarrow> NEW_MESSAGE (head_done b pr) = NEW_MESSAGE pr"
proof -
  have "\<not> has_flag F_SKIPBODY F_CONNECTION_CLOSE" "\<not> has_flag F_SKIPBODY F_CONNECTION_KEEP_ALIVE"
    by (simp_all add: has_flag_def flag_defs)
  moreover assume "type pr = HTTP_REQUEST"
  ultimately show ?thesis
    by (simp add: NEW_MESSAGE_def start_state_def sn_http_should_keep_alive_def sn_http_message_needs_eof_def
        head_done_def skipped_flags)
qed

lemma head_end_run:
  assumes st: "tells (settings env) say skip" and pr: "plain_request (parser c)"
    and s: "p_state c = s_header_field_start" and "marks c = (\<lambda>_. None)"
    and w: "bytes_at (data env) (ptr c) [CR, LF]" and room: "room env c 2"
    and a: "a = say Headers_complete (method (parser c)) (app c)"
    and empty: "bodiless \<longleftrightarrow> content_length (parser c) = 0 \<or> content_length (parser c) = - 1"
    and skips: "skip (app c) \<Longrightarrow> bodiless"
    and fin: "q = head_done (skip (app c)) (parser c)"
  shows "at_loop env c =
    (if bodiless
     then at_loop env (c\<lparr>parser := q\<lparr>state := NEW_MESSAGE (parser c)\<rparr>,
       app := say (Notified N_message_complete) (method (parser c)) a,
       p_state := NEW_MESSAGE (parser c), ptr := ptr c + 2, n_read := 0\<rparr>)
     else at_loop env (c\<lparr>parser := q, app := a, p_state := s_body_identity, ptr := ptr c + 2, n_read := 0\<rparr>))"
proof -
  note flags = plain_request_flags [OF pr]
  have ok: "http_errno (parser c) = HPE_OK" "type (parser c) = HTTP_REQUEST" "method (parser c) \<noteq> HTTP_CONNECT"
    using pr by (simp_all add: plain_request_def)
  let ?c1 = "c\<lparr>parser := parser c, p_state := s_headers_almost_done, ptr := ptr c + length [CR],
    n_read := n_read c + of_nat (length [CR])\<rparr>"
  have cr: "at_loop env c = at_loop env ?c1"
    by (rule text_run) (use s w room in \<open>simp_all add: text_step_def room_def\<close>)
  have r1: "room env ?c1 1" by (rule room_n_read [of _ c 1]) (use room in \<open>simp_all add: numeral_2_eq_2\<close>)
  have count: "n_read ?c1 + 1 \<le> max_header_size env"
    using unat_count(2) [of "n_read ?c1" 1 "max_header_size env"] r1 by (simp add: room_def)
  let ?c2 = "(load env ?c1)\<lparr>parser := skipped (skip (app c)) ((parser c)\<lparr>upgrade := False\<rparr>), app := a,
    p_state := s_headers_done\<rparr>"
  have "step env (load env ?c1) = Reexecute ?c2"
  proof -
    have up: "upgrade_requested (parser c) = False" using ok flags by (simp add: upgrade_requested_def)
    have cur: "cur (load env ?c1) = LF" using w by simp
    show ?thesis
    proof (cases "skip (app c)")
      case True
      then show ?thesis
        using ok flags cur
        by (simp add: step_def at_headers_almost_done_def STRICT_CHECK_def tells_headers [OF st] up skipped_def a)
    next
      case False
      then show ?thesis
        using ok flags cur
        by (simp add: step_def at_headers_almost_done_def STRICT_CHECK_def tells_headers [OF st] up skipped_def a)
    qed
  qed
  then have lf: "at_loop env ?c1 = run env (step env ?c2)"
    using w count by (simp add: turn run_Reexecute)
  have q: "(skipped (skip (app c)) ((parser c)\<lparr>upgrade := False\<rparr>))\<lparr>nread := 0\<rparr> = q"
    by (simp add: fin head_done_def skipped_def)
  have q_fields: "http_errno q = HPE_OK" "type q = HTTP_REQUEST" "\<not> upgrade q" "content_length q = content_length (parser c)"
    "extra_flags q = extra_flags (parser c)" "method q = method (parser c)"
    using ok by (simp_all add: fin head_done_def)
  have q_flags: "has_flag (flags q) F_SKIPBODY \<longleftrightarrow> skip (app c)" "\<not> has_flag (flags q) F_CHUNKED"
    "\<not> has_flag (flags q) F_UPGRADE"
    using flags F_SKIPBODY_only by (simp_all add: fin head_done_def skipped_flags)
  have new: "NEW_MESSAGE q = NEW_MESSAGE (parser c)" using ok(2) by (simp add: fin NEW_MESSAGE_head_done)
  let ?c3 = "?c2\<lparr>parser := q, n_read := 0\<rparr>"
  have headers_done: "step env ?c2 =
    (if skip (app c) \<or> content_length q = 0 \<or> content_length q = - 1 then message_complete env ?c3 Break
     else Break (?c3\<lparr>p_state := s_body_identity\<rparr>))"
  proof -
    have lf: "(cur ?c2 \<noteq> LF) = False" and c3: "?c2\<lparr>parser := (parser ?c2)\<lparr>nread := 0\<rparr>, n_read := 0\<rparr> = ?c3"
      using w q by simp_all
    have p: "parser ?c3 = q" by simp
    have eof: "sn_http_message_needs_eof q = False"
      using q_fields by (simp add: sn_http_message_needs_eof_def)
    have te: "has_flag (extra_flags q) F_TRANSFER_ENCODING_hi = False" using flags q_fields by simp
    have "step env ?c2 = at_headers_done env ?c2" by (simp add: step_def)
    then show ?thesis
      unfolding at_headers_done_def STRICT_CHECK_def lf if_False c3 Let_def p
      using q_fields q_flags te eof by simp
  qed
  have drop: "at_loop env (d\<lparr>cur := LF\<rparr>) = at_loop env d" for d by (rule at_loop_cur)
  show ?thesis
  proof (cases bodiless)
    case True
    then have "skip (app c) \<or> content_length q = 0 \<or> content_length q = - 1" using empty q_fields by simp
    then have last: "step env ?c2 = Break (?c3\<lparr>parser := q\<lparr>state := NEW_MESSAGE (parser c)\<rparr>,
      app := say (Notified N_message_complete) (method (parser c)) a, p_state := NEW_MESSAGE (parser c)\<rparr>)"
      using st q_fields new headers_done
      by (simp add: message_complete_def CALLBACK_NOTIFY_def tells_complete)
    show ?thesis
      unfolding cr lf last run_Break_loop if_P [OF True]
      by (subst (2) drop [symmetric], rule at_loop_cong) (use w in \<open>simp add: load_def\<close>)
  next
    case False
    then have "\<not> (skip (app c) \<or> content_length q = 0 \<or> content_length q = - 1)" using empty skips q_fields by auto
    then have last: "step env ?c2 = Break (?c3\<lparr>p_state := s_body_identity\<rparr>)" using headers_done by simp
    show ?thesis
      unfolding cr lf last run_Break_loop if_not_P [OF False]
      by (subst (2) drop [symmetric], rule at_loop_cong) (use w in \<open>simp add: load_def\<close>)
  qed
qed

lemma body_run:
  assumes st: "tells (settings env) say skip" and ok: "http_errno (parser c) = HPE_OK" "\<not> upgrade (parser c)"
    and s: "p_state c = s_body_identity" and "marks c = (\<lambda>_. None)"
    and w: "bytes_at (data env) (ptr c) bs" "bs \<noteq> []" and small: "data_end env < 2 ^ 64 - 1"
    and len: "content_length (parser c) = of_nat (length bs)"
  shows "at_loop env c = at_loop env (c\<lparr>parser := (parser c)\<lparr>content_length := 0,
        state := NEW_MESSAGE ((parser c)\<lparr>content_length := 0\<rparr>)\<rparr>,
      app := told say (method (parser c)) [Received M_body bs, Notified N_message_complete] (app c),
      p_state := NEW_MESSAGE ((parser c)\<lparr>content_length := 0\<rparr>), ptr := ptr c + length bs\<rparr>)"
proof -
  have le: "ptr c + length bs \<le> data_end env" by (rule bytes_at_bound [OF w(1)])
  have pos: "0 < length bs" using w(2) by simp
  have un: "unat (of_nat (length bs) :: u64) = length bs"
    using le small by (intro unat_of_nat_small) simp
  have nz: "(of_nat (length bs) :: u64) \<noteq> 0" "(of_nat (length bs) :: u64) \<noteq> - 1"
    using un pos le small unat_max_u64 by auto
  have read: "to_read env (load env c) = of_nat (length bs)"
    using le small un len unat_to_read [of env "load env c"] by (simp add: word_unat_eq_iff)
  let ?pr = "(parser c)\<lparr>content_length := 0\<rparr>"
  let ?c1 = "(load env c)\<lparr>parser := ?pr\<lparr>state := s_message_done\<rparr>,
    app := say (Received M_body bs) (method (parser c)) (app c), p_state := s_message_done, ptr := ptr c + length bs - 1\<rparr>"
  have lt: "ptr c < data_end env" using le pos by linarith
  have seg: "seg (data env) (ptr c) (ptr c + length bs) = bs" by (rule seg_bytes_at [OF w(1)])
  have "step env (load env c) = Reexecute ?c1"
    using st ok s assms(5) len nz read un pos seg
    by (simp add: step_def at_body_identity_def take_body_def MARK_def Let_def tells_data)
  moreover have "step env ?c1 = Break (?c1\<lparr>parser := ?pr\<lparr>state := NEW_MESSAGE ?pr\<rparr>,
      app := say (Notified N_message_complete) (method (parser c)) (app ?c1), p_state := NEW_MESSAGE ?pr\<rparr>)"
    using st ok by (simp add: step_def at_message_done_def message_complete_def CALLBACK_NOTIFY_def
        tells_complete)
  moreover have "at_loop env c = run env (step env (load env c))"
    by (rule turn [OF lt]) (use s in simp)
  ultimately have "at_loop env c = at_loop env (?c1\<lparr>parser := ?pr\<lparr>state := NEW_MESSAGE ?pr\<rparr>,
      app := say (Notified N_message_complete) (method (parser c)) (app ?c1), p_state := NEW_MESSAGE ?pr,
      ptr := ptr ?c1 + 1\<rparr>)" (is "_ = at_loop env ?c2")
    by (simp add: run_Reexecute run_Break_loop)
  also have "?c2 = (c\<lparr>parser := ?pr\<lparr>state := NEW_MESSAGE ?pr\<rparr>,
      app := told say (method (parser c)) [Received M_body bs, Notified N_message_complete] (app c),
      p_state := NEW_MESSAGE ?pr, ptr := ptr c + length bs\<rparr>)\<lparr>cur := data env ! ptr c\<rparr>"
    using s pos by (simp add: load_def)
  finally show ?thesis by simp
qed

section \<open>Requests\<close>

text \<open>
  A request as its sender sees it: method, URL, the two digits of the version, headers, and
  possibly a body with the \<open>Content-Length\<close> header that announces it.
\<close>

record request =
  rq_method :: http_method
  rq_url :: string
  rq_major :: char
  rq_minor :: char
  rq_headers :: "(string \<times> string) list"
  rq_body :: "((string \<times> string) \<times> byte list) option"

definition rq_head :: "request \<Rightarrow> string" where
  "rq_head r =
    method_strings (rq_method r) @ SP # rq_url r @ SP # version_text (rq_major r) (rq_minor r) @
    headers_text (rq_headers r) @
    (case rq_body r of None \<Rightarrow> [] | Some (h, bs) \<Rightarrow> header_line h) @ [CR, LF]"

definition rq_payload :: "request \<Rightarrow> byte list" where
  "rq_payload r = (case rq_body r of None \<Rightarrow> [] | Some (h, bs) \<Rightarrow> bs)"

definition print_request :: "request \<Rightarrow> byte list" where
  "print_request r = rq_head r @ rq_payload r"

definition wf_request :: "request \<Rightarrow> bool" where
  "wf_request r \<longleftrightarrow>
    rq_method r \<noteq> HTTP_CONNECT \<and> valid_url (rq_method r) (rq_url r) \<and>
    IS_NUM (rq_major r) \<and> IS_NUM (rq_minor r) \<and> list_all plain_header (rq_headers r) \<and>
    (case rq_body r of
       None \<Rightarrow> True
     | Some (h, bs) \<Rightarrow> length_header h \<and> dec_from 0 (snd h) = length bs)"

definition keeps_alive :: "request \<Rightarrow> bool" where
  "keeps_alive r \<longleftrightarrow> rq_major r \<noteq> CHR ''0'' \<and> rq_minor r \<noteq> CHR ''0''"

text \<open>What the client is told.\<close>

definition rq_events :: "request \<Rightarrow> event list" where
  "rq_events r =
    Notified N_message_begin # Received M_url (rq_url r) # headers_events (rq_headers r) @
    (case rq_body r of None \<Rightarrow> [] | Some (h, bs) \<Rightarrow> header_events h) @ Headers_complete #
    (if rq_payload r = [] then [] else [Received M_body (rq_payload r)]) @
    [Notified N_message_complete]"

definition rq_parsed :: "request \<Rightarrow> http_parser \<Rightarrow> bool" where
  "rq_parsed r pr \<longleftrightarrow>
    http_errno pr = HPE_OK \<and> type pr = HTTP_REQUEST \<and> method pr = rq_method r \<and>
    http_major pr = digit16 (rq_major r) \<and> http_minor pr = digit16 (rq_minor r) \<and>
    upgrade pr = False"

lemma digit16_pos: "IS_NUM x \<Longrightarrow> digit16 x > 0 \<longleftrightarrow> x \<noteq> CHR ''0''"
proof -
  assume x: "IS_NUM x"
  then have "unat (digit16 x) = ord x - 48"
    unfolding digit16_def by (subst unat_of_nat_small) (auto simp: IS_NUM_iff)
  with x show ?thesis using ord_eq_iff [of x "CHR ''0''"]
    by (auto simp: word_less_nat_alt IS_NUM_iff)
qed

lemma NEW_MESSAGE_plain:
  assumes "plain_request pr" and "http_major pr = digit16 a" and "http_minor pr = digit16 b"
    and "IS_NUM a" and "IS_NUM b"
  shows "NEW_MESSAGE pr = (if a \<noteq> CHR ''0'' \<and> b \<noteq> CHR ''0'' then s_start_req else s_dead)"
  using assms
  by (auto simp: NEW_MESSAGE_def start_state_def sn_http_should_keep_alive_def digit16_pos
      sn_http_message_needs_eof_def plain_request_def has_flag_def flag_defs)

lemma plain_request_after:
  "plain_request (after_headers hs pr) = plain_request pr"
  "http_major (after_headers hs pr) = http_major pr" "http_minor (after_headers hs pr) = http_minor pr"
  "content_length (after_headers hs pr) = content_length pr" "flags (after_headers hs pr) = flags pr"
  "method (after_headers hs pr) = method pr" "type (after_headers hs pr) = type pr"
  "http_errno (after_headers hs pr) = http_errno pr" "extra_flags (after_headers hs pr) = extra_flags pr"
  by (simp_all add: after_headers_def mid_head_def plain_request_def)

definition line_text :: "request \<Rightarrow> string" where
  "line_text r = method_strings (rq_method r) @ SP # rq_url r @ SP # version_text (rq_major r) (rq_minor r)"

definition line_parsed :: "request \<Rightarrow> http_parser \<Rightarrow> bool" where
  "line_parsed r pr \<longleftrightarrow>
    plain_request pr \<and> flags pr = 0 \<and> content_length pr = - 1 \<and> method pr = rq_method r \<and>
    http_major pr = digit16 (rq_major r) \<and> http_minor pr = digit16 (rq_minor r)"

text \<open>What a listening client is told of a request, in the order of the source.\<close>

definition line_told :: "(event \<Rightarrow> http_method \<Rightarrow> 'a \<Rightarrow> 'a) \<Rightarrow> request \<Rightarrow> 'a \<Rightarrow> 'a" where
  "line_told say r a =
    say (Received M_url (rq_url r)) (rq_method r)
      (say (Notified N_message_begin) (first_method (rq_method r)) a)"

lemma request_line_run:
  assumes st: "tells (settings env) say skip" and ok: "http_errno (parser c) = HPE_OK"
    and ty: "type (parser c) = HTTP_REQUEST" and s: "p_state c = s_start_req"
    and m: "marks c = (\<lambda>_. None)" and r: "wf_request r"
    and w: "bytes_at (data env) (ptr c) (line_text r)" and room: "room env c (length (line_text r))"
  shows "\<exists>pr. line_parsed r pr \<and> at_loop env c =
    at_loop env (c\<lparr>parser := pr,
      app := line_told say r (app c),
      p_state := s_header_field_start, ptr := ptr c + length (line_text r),
      n_read := n_read c + of_nat (length (line_text r))\<rparr>)"
proof -
  let ?m = "rq_method r" and ?u = "rq_url r" and ?v = "version_text (rq_major r) (rq_minor r)"
  have wf: "?m \<noteq> HTTP_CONNECT" "valid_url ?m ?u" "IS_NUM (rq_major r)" "IS_NUM (rq_minor r)"
    using r by (simp_all add: wf_request_def)
  note t = line_text_def
  obtain j where step1: "at_loop env c =
      at_loop env (c\<lparr>parser := request_head env ?m j (parser c),
        app := say (Notified N_message_begin) (first_method ?m) (app c),
        p_state := s_req_spaces_before_url, ptr := ptr c + (length (method_strings ?m) + 1),
        n_read := n_read c + of_nat (length (method_strings ?m) + 1)\<rparr>)" (is "_ = at_loop env ?c1")
    using method_accept [OF st s ok, of ?m] w room by (auto simp: t room_def)
  have r1: "room env ?c1 (length ?u + 1 + length ?v)"
    by (rule room_n_read [of _ c "length (method_strings ?m) + 1"]) (use room in \<open>simp_all add: t\<close>)
  let ?c2 = "?c1\<lparr>parser := (parser ?c1)\<lparr>state := s_req_http_start\<rparr>,
      app := say (Received M_url ?u) (method (parser ?c1)) (app ?c1), p_state := s_req_http_start, marks := (\<lambda>_. None),
      ptr := ptr ?c1 + (length ?u + 1), n_read := n_read ?c1 + of_nat (length ?u + 1)\<rparr>"
  have step2: "at_loop env ?c1 = at_loop env ?c2"
    by (rule url_run)
      (use st ok m w wf r1 in \<open>simp_all add: t request_head_def room_def\<close>)
  have r2: "room env ?c2 (length ?v)"
    by (rule room_n_read [of _ ?c1 "length ?u + 1"]) (use r1 in simp_all)
  let ?pr = "(parser ?c2)\<lparr>http_major := digit16 (rq_major r), http_minor := digit16 (rq_minor r)\<rparr>"
  have step3: "at_loop env ?c2 = at_loop env (?c2\<lparr>parser := ?pr, p_state := s_header_field_start,
      ptr := ptr ?c2 + length ?v, n_read := n_read ?c2 + of_nat (length ?v)\<rparr>)"
    by (rule text_run) (use w wf r2 in \<open>simp_all add: t version_word\<close>)
  have "line_parsed r ?pr"
    using ok ty wf by (simp add: line_parsed_def plain_request_def request_head_def)
  moreover have "at_loop env c = at_loop env (c\<lparr>parser := ?pr,
      app := line_told say r (app c),
      p_state := s_header_field_start, ptr := ptr c + length (line_text r),
      n_read := n_read c + of_nat (length (line_text r))\<rparr>)"
    unfolding step1 step2 step3 by (rule at_loop_cong) (use m in \<open>simp add: t line_told_def request_head_def ac_simps\<close>)
  ultimately show ?thesis by blast
qed

definition length_text :: "request \<Rightarrow> string" where
  "length_text r = (case rq_body r of None \<Rightarrow> [] | Some (h, bs) \<Rightarrow> header_line h)"

definition length_events :: "request \<Rightarrow> event list" where
  "length_events r = (case rq_body r of None \<Rightarrow> [] | Some (h, bs) \<Rightarrow> header_events h)"

text \<open>All headers of a request, up to the empty line.\<close>

definition head_parsed :: "request \<Rightarrow> http_parser \<Rightarrow> bool" where
  "head_parsed r pr \<longleftrightarrow>
    plain_request pr \<and> method pr = rq_method r \<and>
    http_major pr = digit16 (rq_major r) \<and> http_minor pr = digit16 (rq_minor r) \<and>
    content_length pr = (case rq_body r of None \<Rightarrow> - 1 | Some (h, bs) \<Rightarrow> of_nat (length bs))"

lemma request_headers_run:
  assumes st: "tells (settings env) say skip" and pr: "line_parsed r (parser c)"
    and s: "p_state c = s_header_field_start" and m: "marks c = (\<lambda>_. None)" and r: "wf_request r"
    and w: "bytes_at (data env) (ptr c) (headers_text (rq_headers r) @ length_text r @ [CR])"
    and room: "room env c (length (headers_text (rq_headers r)) + length (length_text r) + 1)"
  shows "\<exists>pr. head_parsed r pr \<and> at_loop env c =
    at_loop env (c\<lparr>parser := pr, app := told say (rq_method r) (headers_events (rq_headers r) @ length_events r) (app c),
      ptr := ptr c + (length (headers_text (rq_headers r)) + length (length_text r)),
      n_read := n_read c + of_nat (length (headers_text (rq_headers r)) + length (length_text r))\<rparr>)"
proof -
  let ?hs = "rq_headers r"
  have ok: "http_errno (parser c) = HPE_OK" "method (parser c) = rq_method r"
    using pr by (simp_all add: line_parsed_def plain_request_def)
  have hs: "list_all plain_header ?hs" using r by (simp add: wf_request_def)
  let ?c1 = "c\<lparr>parser := after_headers ?hs (parser c), app := told say (method (parser c)) (headers_events ?hs) (app c),
      ptr := ptr c + length (headers_text ?hs), n_read := n_read c + of_nat (length (headers_text ?hs))\<rparr>"
  have r1: "room env ?c1 (length (length_text r) + 1)"
    by (rule room_n_read [of _ c "length (headers_text ?hs)"]) (use room in simp_all)
  show ?thesis
  proof (cases "rq_body r")
    case None
    then have "at_loop env c = at_loop env ?c1"
      using w room by (intro headers_run [OF st ok(1) s m hs, of "CR"]) (simp_all add: length_text_def room_def)
    moreover have "head_parsed r (parser ?c1)"
      using pr None by (simp add: head_parsed_def line_parsed_def plain_request_after)
    ultimately show ?thesis
      using None by (intro exI [of _ "parser ?c1"]) (simp add: length_text_def length_events_def ok)
  next
    case (Some hb)
    obtain h bs where [simp]: "hb = (h, bs)" by (cases hb)
    have h: "length_header h" "dec_from 0 (snd h) = length bs"
      using r Some by (simp_all add: wf_request_def)
    then obtain x u where x: "fst h = x # u" "TOKEN x \<noteq> NUL"
      by (cases "fst h") (auto simp: length_header_def)
    have "header_line h = x # tl (header_line h)" using x by (simp add: header_line_def)
    with w Some have "bytes_at (data env) (ptr c) (headers_text ?hs @ [x])"
      by (auto simp: length_text_def header_line_def x)
    then have step1: "at_loop env c = at_loop env ?c1"
      using token_not_space [OF x(2)] room by (intro headers_run [OF st ok(1) s m hs]) (auto simp: room_def)
    let ?pr = "with_length (length bs) (parser ?c1)"
    have step2: "at_loop env ?c1 = at_loop env (?c1\<lparr>parser := with_length (dec_from 0 (snd h)) (parser ?c1),
      app := told say (method (parser ?c1)) (header_events h) (app ?c1), ptr := ptr ?c1 + length (header_line h),
      n_read := n_read ?c1 + of_nat (length (header_line h))\<rparr>)"
      by (rule length_header_run [where y = CR])
        (use st ok s m h w pr r1 Some in \<open>simp_all add: plain_request_after length_text_def line_parsed_def room_def\<close>)
    have "head_parsed r ?pr"
      using pr Some by (auto simp: head_parsed_def line_parsed_def plain_request_def plain_request_after with_length_def)
    moreover have "at_loop env c = at_loop env (c\<lparr>parser := ?pr, app := told say (rq_method r) (headers_events ?hs @ length_events r) (app c),
      ptr := ptr c + (length (headers_text ?hs) + length (length_text r)),
      n_read := n_read c + of_nat (length (headers_text ?hs) + length (length_text r))\<rparr>)"
      unfolding step1 step2
      by (rule at_loop_cong) (use Some h in \<open>simp add: length_text_def length_events_def ok plain_request_after ac_simps\<close>)
    ultimately show ?thesis by blast
  qed
qed

definition next_state :: "request \<Rightarrow> state" where
  "next_state r = (if keeps_alive r then s_start_req else s_dead)"

definition before_headers_complete :: "(event \<Rightarrow> http_method \<Rightarrow> 'a \<Rightarrow> 'a) \<Rightarrow> request \<Rightarrow> 'a \<Rightarrow> 'a" where
  "before_headers_complete say r a =
    told say (rq_method r) (headers_events (rq_headers r) @ length_events r) (line_told say r a)"

definition request_told :: "(event \<Rightarrow> http_method \<Rightarrow> 'a \<Rightarrow> 'a) \<Rightarrow> request \<Rightarrow> 'a \<Rightarrow> 'a" where
  "request_told say r a =
    told say (rq_method r)
      (Headers_complete # (if rq_payload r = [] then [] else [Received M_body (rq_payload r)]) @
        [Notified N_message_complete])
      (before_headers_complete say r a)"

lemma request_told_log [simp]: "request_told log_event r log = log @ rq_events r"
  by (simp add: request_told_def before_headers_complete_def line_told_def rq_events_def length_events_def
      log_event_def)

text \<open>The head alone, up to the first byte of the body if there is one.\<close>

lemma request_head_run:
  assumes st: "tells (settings env) say skip" and ok: "http_errno (parser c) = HPE_OK"
    and ty: "type (parser c) = HTTP_REQUEST" and s: "p_state c = s_start_req"
    and m: "marks c = (\<lambda>_. None)" and r: "wf_request r"
    and w: "bytes_at (data env) (ptr c) (rq_head r)" and room: "room env c (length (rq_head r))"
    and a: "a = before_headers_complete say r (app c)" and skips: "skip a \<Longrightarrow> rq_payload r = []"
    and small: "length (rq_payload r) < 2 ^ 64 - 1"
  shows "\<exists>pr. head_parsed r pr \<and> at_loop env c =
    (if rq_payload r = []
     then at_loop env (c\<lparr>parser := (head_done (skip a) pr)\<lparr>state := NEW_MESSAGE pr\<rparr>,
       app := say (Notified N_message_complete) (rq_method r) (say Headers_complete (rq_method r) a),
       p_state := NEW_MESSAGE pr, ptr := ptr c + length (rq_head r), n_read := 0\<rparr>)
     else at_loop env (c\<lparr>parser := head_done (skip a) pr, app := say Headers_complete (rq_method r) a,
       p_state := s_body_identity, ptr := ptr c + length (rq_head r), n_read := 0\<rparr>))"
proof -
  let ?h = "headers_text (rq_headers r)" and ?l = "length_text r" and ?bs = "rq_payload r"
  have head: "rq_head r = line_text r @ ?h @ ?l @ [CR, LF]"
    by (simp add: rq_head_def line_text_def length_text_def)
  obtain pr1 where p1: "line_parsed r pr1" and step1: "at_loop env c =
    at_loop env (c\<lparr>parser := pr1, app := line_told say r (app c),
      p_state := s_header_field_start, ptr := ptr c + length (line_text r),
      n_read := n_read c + of_nat (length (line_text r))\<rparr>)" (is "_ = at_loop env ?c1")
    using request_line_run [OF st ok ty s m r] w room by (auto simp: head room_def)
  have r1: "room env ?c1 (length ?h + length ?l + 2)"
    by (rule room_n_read [of _ c "length (line_text r)"]) (use room in \<open>simp_all add: head\<close>)
  obtain pr2 where p2: "head_parsed r pr2" and step2: "at_loop env ?c1 =
    at_loop env (?c1\<lparr>parser := pr2, app := a,
      ptr := ptr ?c1 + (length ?h + length ?l),
      n_read := n_read ?c1 + of_nat (length ?h + length ?l)\<rparr>)" (is "_ = at_loop env ?c2")
    using request_headers_run [OF st _ _ _ r, of ?c1] p1 m w r1
    by (auto simp: head room_def before_headers_complete_def a)
  have r2: "room env ?c2 2"
    by (rule room_n_read [of _ ?c1 "length ?h + length ?l"]) (use r1 in simp_all)
  have plain: "plain_request pr2" and meth: "method pr2 = rq_method r" using p2 by (simp_all add: head_parsed_def)
  have un: "unat (of_nat (length ?bs) :: u64) = length ?bs"
    using small by (intro unat_of_nat_small) simp
  have cl: "content_length pr2 = (case rq_body r of None \<Rightarrow> - 1 | Some _ \<Rightarrow> of_nat (length ?bs))"
    using p2 by (simp add: head_parsed_def rq_payload_def split: option.splits)
  have bodiless: "?bs = [] \<longleftrightarrow> content_length pr2 = 0 \<or> content_length pr2 = - 1"
  proof (cases "?bs = []")
    case False
    then have "content_length pr2 = of_nat (length ?bs)" using cl by (auto simp: rq_payload_def split: option.splits)
    with un False small unat_max_u64 show ?thesis by auto
  qed (use cl in \<open>auto split: option.splits\<close>)
  have "at_loop env ?c2 =
    (if ?bs = []
     then at_loop env (?c2\<lparr>parser := (head_done (skip a) pr2)\<lparr>state := NEW_MESSAGE pr2\<rparr>,
       app := say (Notified N_message_complete) (rq_method r) (say Headers_complete (rq_method r) a),
       p_state := NEW_MESSAGE pr2, ptr := ptr ?c2 + 2, n_read := 0\<rparr>)
     else at_loop env (?c2\<lparr>parser := head_done (skip a) pr2, app := say Headers_complete (rq_method r) a,
       p_state := s_body_identity, ptr := ptr ?c2 + 2, n_read := 0\<rparr>))"
    using head_end_run [OF st, of ?c2 "say Headers_complete (rq_method r) a" "?bs = []" "head_done (skip a) pr2"]
      plain meth m w r2 bodiless skips
    by (simp add: head ac_simps)
  with p2 step1 step2 show ?thesis by (auto simp: head ac_simps)
qed

lemma request_run:
  assumes st: "tells (settings env) say skip" and ok: "http_errno (parser c) = HPE_OK"
    and ty: "type (parser c) = HTTP_REQUEST" and s: "p_state c = s_start_req"
    and m: "marks c = (\<lambda>_. None)" and r: "wf_request r"
    and w: "bytes_at (data env) (ptr c) (print_request r)"
    and room: "room env c (length (rq_head r))" and small: "data_end env < 2 ^ 64 - 1"
    and skips: "skip (before_headers_complete say r (app c)) \<Longrightarrow> rq_payload r = []"
  shows "\<exists>pr. rq_parsed r pr \<and> at_loop env c =
    at_loop env (c\<lparr>parser := pr, app := request_told say r (app c), p_state := next_state r,
      ptr := ptr c + length (print_request r), n_read := 0\<rparr>)"
proof -
  let ?bs = "rq_payload r" and ?a = "before_headers_complete say r (app c)" and ?m = "rq_method r"
  have wf: "IS_NUM (rq_major r)" "IS_NUM (rq_minor r)" using r by (simp_all add: wf_request_def)
  have small_payload: "length ?bs < 2 ^ 64 - 1"
    using bytes_at_bound [OF w] small by (simp add: print_request_def)
  obtain pr2 where p2: "head_parsed r pr2" and fin: "at_loop env c =
    (if ?bs = []
     then at_loop env (c\<lparr>parser := (head_done (skip ?a) pr2)\<lparr>state := NEW_MESSAGE pr2\<rparr>,
       app := say (Notified N_message_complete) ?m (say Headers_complete ?m ?a),
       p_state := NEW_MESSAGE pr2, ptr := ptr c + length (rq_head r), n_read := 0\<rparr>)
     else at_loop env (c\<lparr>parser := head_done (skip ?a) pr2, app := say Headers_complete ?m ?a,
       p_state := s_body_identity, ptr := ptr c + length (rq_head r), n_read := 0\<rparr>))"
    using request_head_run [OF st ok ty s m r _ room refl skips small_payload] w by (auto simp: print_request_def)
  have plain: "plain_request pr2" and meth: "method pr2 = ?m" using p2 by (simp_all add: head_parsed_def)
  have new: "NEW_MESSAGE q = next_state r"
    if "plain_request q" "http_major q = http_major pr2" "http_minor q = http_minor pr2" for q
    using NEW_MESSAGE_plain [OF that(1) _ _ wf] that p2
    by (simp add: next_state_def keeps_alive_def head_parsed_def)
  let ?q = "head_done (skip ?a) pr2"
  show ?thesis
  proof (cases "?bs = []")
    case True
    have "rq_parsed r (?q\<lparr>state := NEW_MESSAGE pr2\<rparr>)"
      using p2 by (simp add: rq_parsed_def head_parsed_def head_done_def plain_request_def)
    moreover have "at_loop env c = at_loop env (c\<lparr>parser := ?q\<lparr>state := NEW_MESSAGE pr2\<rparr>,
        app := request_told say r (app c), p_state := next_state r,
        ptr := ptr c + length (print_request r), n_read := 0\<rparr>)"
      unfolding fin if_P [OF True]
      by (rule at_loop_cong) (use True new plain in \<open>simp add: print_request_def request_told_def\<close>)
    ultimately show ?thesis by blast
  next
    case False
    then have sk: "\<not> skip ?a" using skips by blast
    let ?c3 = "c\<lparr>parser := ?q, app := say Headers_complete ?m ?a, p_state := s_body_identity,
       ptr := ptr c + length (rq_head r), n_read := 0\<rparr>"
    let ?pr = "(head_done False pr2)\<lparr>content_length := 0\<rparr>"
    have len: "content_length pr2 = of_nat (length ?bs)"
      using p2 False by (auto simp: head_parsed_def rq_payload_def split: option.splits)
    have body: "at_loop env ?c3 = at_loop env (?c3\<lparr>parser := (parser ?c3)\<lparr>content_length := 0,
          state := NEW_MESSAGE ((parser ?c3)\<lparr>content_length := 0\<rparr>)\<rparr>,
        app := told say (method (parser ?c3)) [Received M_body ?bs, Notified N_message_complete] (app ?c3),
        p_state := NEW_MESSAGE ((parser ?c3)\<lparr>content_length := 0\<rparr>), ptr := ptr ?c3 + length ?bs\<rparr>)"
      by (rule body_run [OF st])
        (use plain m w False small len sk in \<open>simp_all add: print_request_def head_done_def plain_request_def\<close>)
    have next_body: "NEW_MESSAGE ?pr = next_state r"
      by (rule new) (use plain in \<open>simp_all add: head_done_def plain_request_def\<close>)
    have meth3: "method (parser ?c3) = ?m" using meth by (simp add: head_done_def)
    have "rq_parsed r (?pr\<lparr>state := NEW_MESSAGE ?pr\<rparr>)"
      using p2 by (simp add: rq_parsed_def head_parsed_def head_done_def plain_request_def)
    moreover have "at_loop env c = at_loop env (c\<lparr>parser := ?pr\<lparr>state := NEW_MESSAGE ?pr\<rparr>,
        app := request_told say r (app c), p_state := next_state r,
        ptr := ptr c + length (print_request r), n_read := 0\<rparr>)"
      unfolding fin if_not_P [OF False] body meth3
      by (rule at_loop_cong)
        (use False sk next_body m in \<open>simp add: print_request_def request_told_def ac_simps\<close>)
    ultimately show ?thesis by blast
  qed
qed

text \<open>Several requests on one connection.\<close>

definition fits :: "u32 \<Rightarrow> request \<Rightarrow> bool" where
  "fits mhs r \<longleftrightarrow> wf_request r \<and> length (rq_head r) \<le> unat mhs"

definition print_stream :: "request list \<Rightarrow> byte list" where
  "print_stream rs = concat (map print_request rs)"

definition stream_events :: "request list \<Rightarrow> event list" where
  "stream_events rs = concat (map rq_events rs)"

lemma print_request_nonempty: "print_request r \<noteq> []"
  by (simp add: print_request_def rq_head_def)

lemma stream_run:
  assumes st: "settings env = recorder" and small: "data_end env < 2 ^ 64 - 1"
    and "http_errno (parser c) = HPE_OK" and "type (parser c) = HTTP_REQUEST"
    and "p_state c = s_start_req" and "marks c = (\<lambda>_. None)" and "n_read c = 0"
    and "\<forall>r \<in> set rs. fits (max_header_size env) r \<and> keeps_alive r"
    and "bytes_at (data env) (ptr c) (print_stream rs)"
  shows "\<exists>pr. http_errno pr = HPE_OK \<and> type pr = HTTP_REQUEST \<and> at_loop env c =
    at_loop env (c\<lparr>parser := pr, app := app c @ stream_events rs,
      ptr := ptr c + length (print_stream rs)\<rparr>)"
  using assms(3-)
proof (induction rs arbitrary: c)
  case Nil
  then show ?case
    by (intro exI [of _ "parser c"]) (simp add: print_stream_def stream_events_def)
next
  case (Cons r rs)
  have r: "wf_request r" "keeps_alive r" "room env c (length (rq_head r))"
    using Cons.prems(5,6) by (simp_all add: fits_def room_def)
  have w: "bytes_at (data env) (ptr c) (print_request r)"
    "bytes_at (data env) (ptr c + length (print_request r)) (print_stream rs)"
    using Cons.prems(7) by (simp_all add: print_stream_def)
  obtain pr1 where p1: "rq_parsed r pr1" and step1: "at_loop env c =
    at_loop env (c\<lparr>parser := pr1, app := app c @ rq_events r, p_state := next_state r,
      ptr := ptr c + length (print_request r), n_read := 0\<rparr>)" (is "_ = at_loop env ?c1")
    using request_run [OF recorder_tells [OF st] _ _ _ _ r(1) w(1) r(3) small] Cons.prems by (auto simp: no_skip_def)
  have "\<exists>pr. http_errno pr = HPE_OK \<and> type pr = HTTP_REQUEST \<and> at_loop env ?c1 =
    at_loop env (?c1\<lparr>parser := pr, app := app ?c1 @ stream_events rs,
      ptr := ptr ?c1 + length (print_stream rs)\<rparr>)"
    by (rule Cons.IH) (use p1 r w Cons.prems in \<open>simp_all add: rq_parsed_def next_state_def\<close>)
  then obtain pr where pr: "http_errno pr = HPE_OK" "type pr = HTTP_REQUEST" and step2: "at_loop env ?c1 =
    at_loop env (?c1\<lparr>parser := pr, app := app ?c1 @ stream_events rs,
      ptr := ptr ?c1 + length (print_stream rs)\<rparr>)" by blast
  have "at_loop env c = at_loop env (c\<lparr>parser := pr, app := app c @ stream_events (r # rs),
      ptr := ptr c + length (print_stream (r # rs))\<rparr>)"
    unfolding step1 step2
    by (rule at_loop_cong)
      (use Cons.prems(3,5) r in \<open>cases c; simp add: next_state_def print_stream_def stream_events_def\<close>)
  with pr show ?case by blast
qed

section \<open>Properties\<close>

text \<open>
  C3.  A request that is printed (method, URL, version, headers without a meaning of their own,
  and a body announced by \<open>Content-Length\<close>) is parsed back exactly: one call consumes every
  byte, the client is told the URL, the headers and the body in order and nothing else, the
  parser holds the method and the version, and it waits for the next request, or for the end
  of the connection when the version does not keep it alive.
\<close>

theorem request_roundtrip:
  assumes "wf_request r" and "length (rq_head r) \<le> unat mhs" and "length (print_request r) < 2 ^ 64 - 1"
  shows "\<exists>pr. sn_http_parser_execute recorder mhs (sn_http_parser_init HTTP_REQUEST) log (print_request r) =
      Some (Returned (length (print_request r)) pr (log @ rq_events r)) \<and>
    http_errno pr = HPE_OK \<and> method pr = rq_method r \<and>
    http_major pr = digit16 (rq_major r) \<and> http_minor pr = digit16 (rq_minor r) \<and>
    nread pr = 0 \<and> state pr = (if keeps_alive r then s_start_req else s_dead)"
proof -
  let ?pr = "sn_http_parser_init HTTP_REQUEST" and ?d = "print_request r"
  let ?env = "recording_env mhs ?d False" and ?c = "entry_ctx ?pr log"
  have exec: "sn_http_parser_execute recorder mhs ?pr log ?d = at_loop ?env ?c"
    by (subst execute_at_loop) (simp_all add: sn_http_parser_init_def print_request_nonempty)
  have marks: "marks ?c = (\<lambda>_. None)" by (auto simp: sn_http_parser_init_def initial_marks_def)
  obtain pr where "rq_parsed r pr" "at_loop ?env ?c = at_loop ?env (?c\<lparr>parser := pr,
      app := app ?c @ rq_events r, p_state := next_state r, ptr := ptr ?c + length ?d, n_read := 0\<rparr>)"
    using request_run [OF recorder_tells, of ?env ?c r] assms marks no_skip_def [of "before_headers_complete log_event r log"]
    by (auto simp: sn_http_parser_init_def room_def)
  with exec marks show ?thesis
    by (simp add: at_loop_end rq_parsed_def next_state_def)
qed

definition example_request :: request where
  "example_request =
    \<lparr>rq_method = HTTP_POST, rq_url = ''/a?x'', rq_major = CHR ''1'', rq_minor = CHR ''1'',
     rq_headers = [(''Host'', ''h'')], rq_body = Some ((''Content-Length'', ''2''), ''hi'')\<rparr>"

lemma example_parts:
  "map TOKEN ''Content-Length'' = ''content-length''" "map TOKEN ''Host'' = ''host''"
  "foldl parse_url_char s_req_spaces_before_url ''/a?x'' = s_req_query_string"
  by code_simp+

lemma example_wf: "wf_request example_request" and example_keeps: "keeps_alive example_request"
proof -
  have "token_word ''Content-Length''" "token_word ''Host''"
    using example_parts(1,2) by (auto simp: token_word_def)
  with example_parts show "wf_request example_request"
    by (simp add: wf_request_def example_request_def valid_url_def url_start_def url_final_def
        IS_NUM_iff plain_header_def plain_value_def length_header_def max_content_length_def)
qed (simp add: keeps_alive_def example_request_def)

lemma example_size:
  "length (rq_head example_request) = 50" "length (print_request example_request) = 52"
  by (simp_all add: rq_head_def print_request_def rq_payload_def example_request_def version_text_def
      header_line_def)

lemma request_roundtrip_witness:
  "\<exists>pr. sn_http_parser_execute recorder 80 (sn_http_parser_init HTTP_REQUEST) [] (print_request example_request) =
      Some (Returned (length (print_request example_request)) pr ([] @ rq_events example_request)) \<and>
    http_errno pr = HPE_OK \<and> method pr = HTTP_POST \<and> state pr = s_start_req"
  using request_roundtrip [of example_request 80 "[]"] example_wf example_keeps example_size
  by (auto simp: example_request_def)

lemma stream_parsed:
  assumes "\<forall>r \<in> set rs. fits mhs r \<and> keeps_alive r" and "rs \<noteq> []"
    and "length (print_stream rs) < 2 ^ 64 - 1"
  shows "\<exists>pr. sn_http_parser_execute recorder mhs (sn_http_parser_init HTTP_REQUEST) log (print_stream rs) =
      Some (Returned (length (print_stream rs)) pr (log @ stream_events rs)) \<and>
    http_errno pr = HPE_OK \<and> state pr = s_start_req \<and> nread pr = 0"
proof -
  let ?pr = "sn_http_parser_init HTTP_REQUEST" and ?d = "print_stream rs"
  let ?env = "recording_env mhs ?d False" and ?c = "entry_ctx ?pr log"
  have "?d \<noteq> []"
    using assms(2) print_request_nonempty by (cases rs) (simp_all add: print_stream_def)
  then have exec: "sn_http_parser_execute recorder mhs ?pr log ?d = at_loop ?env ?c"
    by (subst execute_at_loop) (simp_all add: sn_http_parser_init_def)
  have c: "http_errno (parser ?c) = HPE_OK" "type (parser ?c) = HTTP_REQUEST" "p_state ?c = s_start_req"
    "marks ?c = (\<lambda>_. None)" "n_read ?c = 0"
    by (auto simp: sn_http_parser_init_def initial_marks_def)
  have "\<exists>pr. http_errno pr = HPE_OK \<and> type pr = HTTP_REQUEST \<and> at_loop ?env ?c =
    at_loop ?env (?c\<lparr>parser := pr, app := app ?c @ stream_events rs, ptr := ptr ?c + length ?d\<rparr>)"
    by (rule stream_run [OF _ _ c]) (use assms in simp_all)
  with exec c show ?thesis
    by (auto simp: at_loop_end)
qed

text \<open>
  C6.  Requests that keep the connection alive may follow one another in one buffer: the parser
  delivers all of them, each with its own header budget, and is ready for the next one.
\<close>

theorem request_stream_roundtrip:
  assumes "\<forall>r \<in> set rs. fits mhs r \<and> keeps_alive r" and "rs \<noteq> []"
    and "length (print_stream rs) < 2 ^ 64 - 1"
  shows "\<exists>pr. sn_http_parser_execute recorder mhs (sn_http_parser_init HTTP_REQUEST) log (print_stream rs) =
      Some (Returned (length (print_stream rs)) pr (log @ stream_events rs)) \<and>
    http_errno pr = HPE_OK \<and> state pr = s_start_req \<and> nread pr = 0"
  by (rule stream_parsed [OF assms])

lemma request_stream_roundtrip_witness:
  "\<exists>pr. sn_http_parser_execute recorder 80 (sn_http_parser_init HTTP_REQUEST) []
        (print_stream [example_request, example_request]) =
      Some (Returned (length (print_stream [example_request, example_request])) pr
        ([] @ stream_events [example_request, example_request])) \<and>
    http_errno pr = HPE_OK \<and> state pr = s_start_req \<and> nread pr = 0"
  by (rule request_stream_roundtrip)
    (simp_all add: fits_def example_wf example_keeps example_size print_stream_def)

end
