(* ===== verification/HttpBody.thy ===== *)
theory HttpBody
  imports HttpMessage
begin

text \<open>
  Bodies (\<open>src/src/httpparser.cpp\<close>, states \<open>s_body_identity\<close> and \<open>s_chunk_*\<close>): a body of known
  length arrives complete however it is cut into buffers, and a chunked body is the
  concatenation of its chunks.
\<close>

section \<open>A body in fragments\<close>

definition body_state :: "nat \<Rightarrow> http_parser \<Rightarrow> bool" where
  "body_state n pr \<longleftrightarrow>
    http_errno pr = HPE_OK \<and> state pr = s_body_identity \<and> \<not> upgrade pr \<and>
    unat (content_length pr) = n \<and> content_length pr \<noteq> - 1"

lemma unat_u64_bound: "unat (w :: u64) < 18446744073709551616"
proof -
  have "unat w < 2 ^ LENGTH(64)" by (rule unsigned_less)
  then show ?thesis by simp
qed

lemma loop_end_body:
  assumes "settings env = recorder" and "http_errno (parser c) = HPE_OK"
    and "ptr c = data_end env" and "marks c = (\<lambda>_. None)(M_body := Some i)"
  shows "at_loop env c = Some (Returned (data_end env)
    ((parser c)\<lparr>state := p_state c, nread := n_read c\<rparr>)
    (app c @ [Received M_body (seg (data env) i (data_end env))]))"
  using assms
  by (simp add: at_loop_def loop_head_def loop_end_def marks_set_def CALLBACK_DATA_NOADVANCE_def
      recorder_callback_data callback_data_unmarked RETURN_def)

lemma rest_of_body:
  assumes "body_state n pr" and "d \<noteq> []" and "length d < n"
  shows "body_state (n - length d) (pr\<lparr>content_length := content_length pr - of_nat (length d)\<rparr>)"
    and "content_length pr \<noteq> 0" and "content_length pr - of_nat (length d) \<noteq> 0"
    and "min (content_length pr) (of_nat (length d)) = of_nat (length d)"
    and "unat (of_nat (length d) :: u64) = length d"
proof -
  let ?cl = "content_length pr" and ?n = "of_nat (length d) :: u64"
  have b: "unat ?cl = n" "n < 18446744073709551616"
    using assms(1) unat_u64_bound [of ?cl] by (simp_all add: body_state_def)
  show un: "unat ?n = length d" using assms(3) b by (simp add: unat_of_nat_small)
  have le: "?n \<le> ?cl" using un b assms(3) by (simp add: word_le_nat_alt)
  then have sub: "unat (?cl - ?n) = n - length d" using un b by (simp add: unat_sub)
  show "min ?cl ?n = ?n" using le by (simp add: min_def)
  show "?cl \<noteq> 0" using b assms(3) by auto
  show "?cl - ?n \<noteq> 0" using sub assms(3) by auto
  have "0 < length d" using assms(2) by simp
  then have "n - length d < 18446744073709551615" using b(2) assms(3) by linarith
  then have "?cl - ?n \<noteq> - 1" using sub unat_max_u64 by auto
  with assms(1) sub show "body_state (n - length d) (pr\<lparr>content_length := ?cl - ?n\<rparr>)"
    by (simp add: body_state_def)
qed

lemma body_part:
  assumes b: "body_state n pr" and d: "d \<noteq> []" "length d < n"
  shows "sn_http_parser_execute recorder mhs pr log d =
    Some (Returned (length d) (pr\<lparr>content_length := content_length pr - of_nat (length d)\<rparr>)
      (log @ [Received M_body d]))"
proof -
  let ?env = "recording_env mhs d (lenient_http_headers pr)" and ?c = "entry_ctx pr log"
  let ?pr = "pr\<lparr>content_length := content_length pr - of_nat (length d)\<rparr>"
  note rest = rest_of_body [OF b d]
  have pr: "http_errno pr = HPE_OK" "state pr = s_body_identity" "content_length pr \<noteq> - 1"
    using b by (simp_all add: body_state_def)
  have marks: "marks ?c = (\<lambda>_. None)" using pr by (auto simp: initial_marks_def)
  have read: "to_read ?env (load ?env ?c) = of_nat (length d)"
    using rest(4) by (simp add: to_read_def)
  let ?c1 = "(load ?env ?c)\<lparr>parser := ?pr, marks := (\<lambda>_. None)(M_body := Some 0), ptr := length d - 1\<rparr>"
  have "at_loop ?env ?c = run ?env (step ?env (load ?env ?c))"
    by (rule turn) (use d pr in simp_all)
  also have "step ?env (load ?env ?c) = Break ?c1"
    using pr marks rest(2,3,5) read
    by (simp add: step_def at_body_identity_def take_body_def MARK_def Let_def)
  also have "run ?env (Break ?c1) = at_loop ?env (?c1\<lparr>ptr := length d\<rparr>)"
    using d by (simp add: run_Break_loop)
  also have "\<dots> = Some (Returned (length d) (?pr\<lparr>state := s_body_identity, nread := nread pr\<rparr>)
      (log @ [Received M_body d]))"
    by (subst loop_end_body [where i = 0]) (use pr in \<open>simp_all add: load_def\<close>)
  also have "?pr\<lparr>state := s_body_identity, nread := nread pr\<rparr> = ?pr"
    using pr(2) by (cases pr) simp
  finally show ?thesis using pr(1) d(1) by (simp add: execute_at_loop)
qed

lemma body_last:
  assumes b: "body_state (length d) pr" and d: "d \<noteq> []"
  shows "\<exists>pr'. sn_http_parser_execute recorder mhs pr log d =
      Some (Returned (length d) pr' (log @ [Received M_body d, Notified N_message_complete])) \<and>
    http_errno pr' = HPE_OK \<and> content_length pr' = 0 \<and>
    state pr' = NEW_MESSAGE (pr\<lparr>content_length := 0\<rparr>)"
proof -
  let ?env = "recording_env mhs d (lenient_http_headers pr)" and ?c = "entry_ctx pr log"
  let ?pr = "pr\<lparr>content_length := 0\<rparr>"
  have pr: "http_errno pr = HPE_OK" "state pr = s_body_identity" "\<not> upgrade pr" "content_length pr \<noteq> - 1"
    and cl: "unat (content_length pr) = length d"
    using b by (simp_all add: body_state_def)
  have marks: "marks ?c = (\<lambda>_. None)" using pr by (auto simp: initial_marks_def)
  have "content_length pr = of_nat (length d)"
    using arg_cong [OF cl, of "of_nat :: nat \<Rightarrow> u64"] by simp
  moreover have "length d < 2 ^ 64 - 1"
  proof -
    have "unat (content_length pr) \<noteq> unat (- 1 :: u64)" using pr(4) by (simp add: word_unat_eq_iff)
    with cl unat_u64_bound [of "content_length pr"] show ?thesis unfolding unat_max_u64 by simp
  qed
  ultimately have "at_loop ?env ?c = at_loop ?env (?c\<lparr>parser := ?pr\<lparr>state := NEW_MESSAGE ?pr\<rparr>,
      app := app ?c @ [Received M_body d, Notified N_message_complete],
      p_state := NEW_MESSAGE ?pr, ptr := ptr ?c + length d\<rparr>)"
    using body_run [OF recorder_tells, of ?env ?c d] pr marks d by (simp add: log_event_def)
  moreover have "\<dots> = Some (Returned (length d) (?pr\<lparr>state := NEW_MESSAGE ?pr, nread := nread pr\<rparr>)
      (log @ [Received M_body d, Notified N_message_complete]))"
    by (subst at_loop_end) (use pr marks in simp_all)
  ultimately show ?thesis using pr(1) d(1) by (simp add: execute_at_loop)
qed

text \<open>All fragments together.\<close>

lemma body_fragments:
  assumes "body_state (length (concat ds)) pr" and "ds \<noteq> []" and "[] \<notin> set ds"
  shows "\<exists>pr'. session recorder mhs (map Execute ds) pr log =
      Some (pr', log @ map (Received M_body) ds @ [Notified N_message_complete]) \<and>
    http_errno pr' = HPE_OK \<and> content_length pr' = 0 \<and>
    state pr' = NEW_MESSAGE (pr\<lparr>content_length := 0\<rparr>)"
  using assms
proof (induction ds arbitrary: pr log)
  case (Cons d ds)
  show ?case
  proof (cases "ds = []")
    case True
    with body_last [of d pr mhs log] Cons.prems show ?thesis by auto
  next
    case False
    let ?pr = "pr\<lparr>content_length := content_length pr - of_nat (length d)\<rparr>"
    have d: "d \<noteq> []" "length d < length (concat (d # ds))"
      using False Cons.prems(3) by (cases ds; auto)+
    note part = body_part [OF Cons.prems(1) d, of mhs log]
    have "body_state (length (concat ds)) ?pr"
      using rest_of_body(1) [OF Cons.prems(1) d] by simp
    from Cons.IH [OF this False, of "log @ [Received M_body d]"] Cons.prems(3) part
    show ?thesis by simp
  qed
qed simp

section \<open>Chunk sizes\<close>

definition hex_digit :: "char \<Rightarrow> bool" where
  "hex_digit x \<longleftrightarrow>
    48 \<le> ord x \<and> ord x \<le> 57 \<or> 65 \<le> ord x \<and> ord x \<le> 70 \<or> 97 \<le> ord x \<and> ord x \<le> 102"

definition hex_val :: "char \<Rightarrow> nat" where
  "hex_val x = (if ord x \<le> 57 then ord x - 48 else if ord x \<le> 70 then ord x - 55 else ord x - 87)"

fun hex_from :: "nat \<Rightarrow> string \<Rightarrow> nat" where
  "hex_from n [] = n"
| "hex_from n (x # hs) = hex_from (16 * n + hex_val x) hs"

lemma hex_from_ge: "n \<le> hex_from n hs"
proof (induction hs arbitrary: n)
  case (Cons x hs)
  from Cons [of "16 * n + hex_val x"] show ?case by simp
qed simp

lemma unhex_digit:
  assumes "hex_digit x"
  shows "unhex ! ord x = int (hex_val x)" and "hex_val x < 16" and "x \<noteq> CR"
  using assms by (auto simp: unhex_nth unhex_of_def hex_digit_def hex_val_def)

text \<open>The largest chunk size the code accepts: \<open>((ULLONG_MAX - 16) / 16) * 16 + 15\<close>.\<close>

definition max_chunk_size :: nat where
  "max_chunk_size = (2 ^ 64 - 17) div 16 * 16 + 15"

lemma max_chunk_size_eq: "max_chunk_size = 2 ^ 64 - 17"
  by (simp add: max_chunk_size_def)

lemma chunk_limit:
  fixes n :: u64
  assumes "v < 16"
  shows "1152921504606846974 < n \<longleftrightarrow> \<not> 16 * unat n + v \<le> max_chunk_size"
proof -
  have "1152921504606846974 < n \<longleftrightarrow> 1152921504606846974 < unat n"
    by (simp add: word_less_nat_alt)
  with assms show ?thesis by (simp add: max_chunk_size_def) linarith
qed

definition in_chunk_size :: "'a exec_env \<Rightarrow> 'a ctx \<Rightarrow> bool" where
  "in_chunk_size env c \<longleftrightarrow>
    p_state c = s_chunk_size \<and> has_flag (flags (parser c)) F_CHUNKED \<and>
    unat (content_length (parser c)) \<le> max_chunk_size"

lemma chunk_size_run:
  assumes "in_chunk_size env c" and "\<forall>x \<in> set hs. hex_digit x"
    and "bytes_at (data env) (ptr c) hs" and "room env c (length hs)"
  shows "if hex_from (unat (content_length (parser c))) hs \<le> max_chunk_size
    then at_loop env c = at_loop env (c\<lparr>parser := (parser c)\<lparr>content_length :=
        of_nat (hex_from (unat (content_length (parser c))) hs)\<rparr>,
      ptr := ptr c + length hs, n_read := n_read c + of_nat (length hs)\<rparr>)
    else \<exists>n pr. at_loop env c = Some (Returned n pr (app c)) \<and> http_errno pr = HPE_INVALID_CONTENT_LENGTH"
  using assms
proof (induction hs arbitrary: c)
  case Nil
  then show ?case by (auto simp: in_chunk_size_def intro!: at_loop_cong)
next
  case (Cons x hs)
  let ?cl = "unat (content_length (parser c))"
  let ?n = "16 * ?cl + hex_val x"
  have c: "p_state c = s_chunk_size" "has_flag (flags (parser c)) F_CHUNKED"
    using Cons.prems(1) by (simp_all add: in_chunk_size_def)
  have x: "hex_digit x" using Cons.prems(2) by simp
  note hex = unhex_digit [OF x]
  have v: "unhex ! ord x \<noteq> - 1" "(word_of_int (unhex ! ord x) :: u64) = of_nat (hex_val x)"
    using hex by simp_all
  show ?case
  proof (cases "?n \<le> max_chunk_size")
    case True
    let ?c = "c\<lparr>parser := (parser c)\<lparr>content_length := of_nat ?n\<rparr>, ptr := ptr c + 1, n_read := n_read c + 1\<rparr>"
    have un: "unat (of_nat ?n :: u64) = ?n"
      using True by (intro unat_of_nat_small) (simp add: max_chunk_size_def)
    have "step env (load env c) = Break ((load env c)\<lparr>parser := (parser c)\<lparr>content_length := of_nat ?n\<rparr>\<rparr>)"
      using c v hex(3) True chunk_limit [OF hex(2), of "content_length (parser c)"] Cons.prems(3)
      by (simp add: step_def at_chunk_size_def Let_def mult.commute)
    from turn_to [OF _ _ this, where k = "length hs" and c' = ?c] Cons.prems(3,4) c
    have turn: "at_loop env c = at_loop env ?c" by (simp add: load_def)
    have "in_chunk_size env ?c" using c un True by (simp add: in_chunk_size_def)
    moreover have "room env ?c (length hs)"
      using room_more [of env c "length hs"] Cons.prems(4) by (simp add: room_def)
    ultimately have ih: "if hex_from (unat (content_length (parser ?c))) hs \<le> max_chunk_size
      then at_loop env ?c = at_loop env (?c\<lparr>parser := (parser ?c)\<lparr>content_length :=
          of_nat (hex_from (unat (content_length (parser ?c))) hs)\<rparr>,
        ptr := ptr ?c + length hs, n_read := n_read ?c + of_nat (length hs)\<rparr>)
      else \<exists>n pr. at_loop env ?c = Some (Returned n pr (app ?c)) \<and> http_errno pr = HPE_INVALID_CONTENT_LENGTH"
      using Cons.IH [of ?c] Cons.prems(2,3) by simp
    show ?thesis
    proof (cases "hex_from ?n hs \<le> max_chunk_size")
      case small: True
      with ih un turn show ?thesis by (simp add: ac_simps)
    next
      case False
      with ih un turn show ?thesis by simp
    qed
  next
    case False
    with c v hex(3) chunk_limit [OF hex(2), of "content_length (parser c)"] Cons.prems(3)
    have "step env (load env c) = fail HPE_INVALID_CONTENT_LENGTH (load env c)"
      by (simp add: step_def at_chunk_size_def Let_def)
    with turn_fail [of c env "length hs"] Cons.prems(3,4) False hex_from_ge [of ?n hs]
    show ?thesis by simp
  qed
qed

lemma chunk_start_run:
  assumes "p_state c = s_chunk_size_start" and "n_read c = 0" and "has_flag (flags (parser c)) F_CHUNKED"
    and "hex_digit x" and "bytes_at (data env) (ptr c) [x]" and "room env c (Suc k)"
  shows "at_loop env c = at_loop env (c\<lparr>parser := (parser c)\<lparr>content_length := of_nat (hex_val x)\<rparr>,
    p_state := s_chunk_size, ptr := ptr c + 1, n_read := n_read c + 1\<rparr>)"
proof -
  note hex = unhex_digit [OF assms(4)]
  have v: "unhex ! ord x \<noteq> - 1" "(word_of_int (unhex ! ord x) :: u64) = of_nat (hex_val x)"
    using hex by simp_all
  have "step env (load env c) = Break ((load env c)\<lparr>parser := (parser c)\<lparr>content_length := of_nat (hex_val x)\<rparr>,
      p_state := s_chunk_size\<rparr>)"
    using assms(1-3,5) v by (simp add: step_def at_chunk_size_start_def Let_def load_def)
  from turn_to [OF _ _ this] assms(1,5,6) show ?thesis by (simp add: load_def)
qed

lemma chunk_digits_run:
  assumes "p_state c = s_chunk_size_start" and "n_read c = 0" and "has_flag (flags (parser c)) F_CHUNKED"
    and hs: "\<forall>x \<in> set hs. hex_digit x" "hs \<noteq> []"
    and w: "bytes_at (data env) (ptr c) (hs @ [CR])" and room: "room env c (length hs + 1)"
  shows "if hex_from 0 hs \<le> max_chunk_size
    then at_loop env c = at_loop env (c\<lparr>parser := (parser c)\<lparr>content_length := of_nat (hex_from 0 hs)\<rparr>,
      p_state := s_chunk_size_almost_done, ptr := ptr c + (length hs + 1),
      n_read := n_read c + of_nat (length hs + 1)\<rparr>)
    else \<exists>n pr. at_loop env c = Some (Returned n pr (app c)) \<and> http_errno pr = HPE_INVALID_CONTENT_LENGTH"
proof -
  obtain x hs' where x: "hs = x # hs'" using hs(2) by (cases hs) auto
  let ?c1 = "c\<lparr>parser := (parser c)\<lparr>content_length := of_nat (hex_val x)\<rparr>,
    p_state := s_chunk_size, ptr := ptr c + 1, n_read := n_read c + 1\<rparr>"
  have hex: "hex_digit x" "hex_val x < 16" using hs(1) x unhex_digit by simp_all
  then have un: "unat (of_nat (hex_val x) :: u64) = hex_val x" by (intro unat_of_nat_small) simp
  have step1: "at_loop env c = at_loop env ?c1"
    by (rule chunk_start_run [where k = "length hs' + 1"]) (use assms(1-3) hex w room x in simp_all)
  have r1: "room env ?c1 (length hs' + 1)"
    by (rule room_n_read [of _ c 1]) (use room x in simp_all)
  have "in_chunk_size env ?c1"
    using assms(3) hex un by (simp add: in_chunk_size_def max_chunk_size_def)
  note run = chunk_size_run [OF this, of hs']
  show ?thesis
  proof (cases "hex_from 0 hs \<le> max_chunk_size")
    case True
    let ?pr = "(parser c)\<lparr>content_length := of_nat (hex_from 0 hs)\<rparr>"
    let ?c2 = "?c1\<lparr>parser := ?pr, ptr := ptr ?c1 + length hs', n_read := n_read ?c1 + of_nat (length hs')\<rparr>"
    have step2: "at_loop env ?c1 = at_loop env ?c2"
      using run hs(1) w r1 True un x by (simp add: room_def)
    have r2: "room env ?c2 (Suc 0)"
      by (rule room_n_read [of _ ?c1 "length hs'"]) (use r1 in simp_all)
    have "step env (load env ?c2) = Break ((load env ?c2)\<lparr>p_state := s_chunk_size_almost_done\<rparr>)"
      using assms(3) w x by (simp add: step_def at_chunk_size_def)
    from turn_to [OF _ r2 this, of "?c2\<lparr>p_state := s_chunk_size_almost_done, ptr := ptr ?c2 + 1,
        n_read := n_read ?c2 + 1\<rparr>"] w x
    have step3: "at_loop env ?c2 = at_loop env (?c2\<lparr>p_state := s_chunk_size_almost_done, ptr := ptr ?c2 + 1,
        n_read := n_read ?c2 + 1\<rparr>)" by (simp add: load_def)
    show ?thesis
      unfolding if_P [OF True] step1 step2 step3
      by (rule at_loop_cong) (use x in \<open>simp add: ac_simps\<close>)
  next
    case False
    with run hs(1) w r1 un x step1 show ?thesis by (simp add: room_def)
  qed
qed

text \<open>The line feed after the size.\<close>

lemma chunk_size_line:
  assumes st: "settings env = recorder" and ok: "http_errno (parser c) = HPE_OK"
    and s: "p_state c = s_chunk_size_start" and n: "n_read c = 0"
    and fl: "has_flag (flags (parser c)) F_CHUNKED"
    and hs: "\<forall>x \<in> set hs. hex_digit x" "hs \<noteq> []" "hex_from 0 hs \<le> max_chunk_size"
    and w: "bytes_at (data env) (ptr c) (hs @ [CR, LF])" and room: "room env c (length hs + 2)"
  shows "at_loop env c = at_loop env (
    if hex_from 0 hs = 0
    then c\<lparr>parser := (parser c)\<lparr>content_length := 0, nread := 0, flags := flags (parser c) OR F_TRAILING,
        state := s_header_field_start\<rparr>, app := app c @ [Notified N_chunk_header],
      p_state := s_header_field_start, ptr := ptr c + (length hs + 2), n_read := 0\<rparr>
    else c\<lparr>parser := (parser c)\<lparr>content_length := of_nat (hex_from 0 hs), nread := 0, state := s_chunk_data\<rparr>,
      app := app c @ [Notified N_chunk_header],
      p_state := s_chunk_data, ptr := ptr c + (length hs + 2), n_read := 0\<rparr>)"
proof -
  let ?v = "hex_from 0 hs"
  let ?c1 = "c\<lparr>parser := (parser c)\<lparr>content_length := of_nat ?v\<rparr>,
      p_state := s_chunk_size_almost_done, ptr := ptr c + (length hs + 1),
      n_read := n_read c + of_nat (length hs + 1)\<rparr>"
  have step1: "at_loop env c = at_loop env ?c1"
    using chunk_digits_run [OF s n fl hs(1,2)] hs(3) w room by (simp add: room_def)
  have r1: "room env ?c1 (Suc 0)"
    by (rule room_n_read [of _ c "length hs + 1"]) (use room in simp_all)
  have un: "unat (of_nat ?v :: u64) = ?v"
    using hs(3) by (intro unat_of_nat_small) (simp add: max_chunk_size_def)
  have zero: "(of_nat ?v :: u64) = 0 \<longleftrightarrow> ?v = 0" using un by auto
  show ?thesis
  proof (cases "?v = 0")
    case True
    have "step env (load env ?c1) = Break ((load env ?c1)\<lparr>parser := (parser c)\<lparr>content_length := 0, nread := 0,
        flags := flags (parser c) OR F_TRAILING, state := s_header_field_start\<rparr>,
      app := app c @ [Notified N_chunk_header], p_state := s_header_field_start, n_read := 0\<rparr>)"
      using st ok fl w True by (simp add: step_def at_chunk_size_almost_done_def STRICT_CHECK_def Let_def
          CALLBACK_NOTIFY_def recorder_callback_notify)
    from turn_to [OF _ r1 this] w True step1 show ?thesis by (simp add: load_def)
  next
    case False
    have "step env (load env ?c1) = Break ((load env ?c1)\<lparr>parser := (parser c)\<lparr>content_length := of_nat ?v, nread := 0,
        state := s_chunk_data\<rparr>,
      app := app c @ [Notified N_chunk_header], p_state := s_chunk_data, n_read := 0\<rparr>)"
      using st ok fl w False zero by (simp add: step_def at_chunk_size_almost_done_def STRICT_CHECK_def Let_def
          CALLBACK_NOTIFY_def recorder_callback_notify)
    from turn_to [OF _ r1 this] w False step1 show ?thesis by (simp add: load_def)
  qed
qed

section \<open>Chunk data\<close>

lemma turn_quiet:
  assumes "ptr c < data_end env" and "\<not> PARSING_HEADER (p_state c)" and "step env (load env c) = Break d"
    and "c'\<lparr>cur := cur d\<rparr> = d\<lparr>ptr := ptr d + 1\<rparr>"
  shows "at_loop env c = at_loop env c'"
proof -
  have "at_loop env c = run env (step env (load env c))"
    by (rule turn [OF assms(1)]) (use assms(2) in blast)
  with assms(3,4) show ?thesis
    using at_loop_cur [of env "cur d" c'] by (simp add: run_Break_loop)
qed

lemma chunk_data_run:
  assumes st: "settings env = recorder" and ok: "http_errno (parser c) = HPE_OK"
    and s: "p_state c = s_chunk_data" and "marks c = (\<lambda>_. None)"
    and fl: "has_flag (flags (parser c)) F_CHUNKED"
    and w: "bytes_at (data env) (ptr c) (bs @ [CR, LF])" "bs \<noteq> []" and small: "data_end env < 2 ^ 64 - 1"
    and len: "content_length (parser c) = of_nat (length bs)"
  shows "at_loop env c = at_loop env (c\<lparr>parser := (parser c)\<lparr>content_length := 0, nread := 0,
        state := s_chunk_size_start\<rparr>,
      app := app c @ [Received M_body bs, Notified N_chunk_complete],
      p_state := s_chunk_size_start, ptr := ptr c + (length bs + 2), n_read := 0\<rparr>)"
proof -
  have le: "ptr c + length bs + 2 \<le> data_end env" using bytes_at_bound [OF w(1)] by simp
  have pos: "0 < length bs" using w(2) by simp
  have un: "unat (of_nat (length bs) :: u64) = length bs"
    using le small by (intro unat_of_nat_small) simp
  have nz: "(of_nat (length bs) :: u64) \<noteq> 0" "(of_nat (length bs) :: u64) \<noteq> - 1"
    using un pos le small unat_max_u64 by auto
  have read: "to_read env (load env c) = of_nat (length bs)"
    using le small un len unat_to_read [of env "load env c"] by (simp add: word_unat_eq_iff)
  have seg: "seg (data env) (ptr c) (ptr c + length bs) = bs" using w(1) by (intro seg_bytes_at) simp
  let ?pr = "(parser c)\<lparr>content_length := 0\<rparr>"
  let ?c1 = "c\<lparr>parser := ?pr, p_state := s_chunk_data_almost_done,
    marks := (\<lambda>_. None)(M_body := Some (ptr c)), ptr := ptr c + length bs\<rparr>"
  have "step env (load env c) = Break ((load env c)\<lparr>parser := ?pr, p_state := s_chunk_data_almost_done,
      marks := (\<lambda>_. None)(M_body := Some (ptr c)), ptr := ptr c + length bs - 1\<rparr>)"
    using s assms(4) len nz read un fl
    by (simp add: step_def at_chunk_data_def take_body_def MARK_def Let_def)
  from turn_quiet [OF _ _ this, of ?c1] s pos le
  have step1: "at_loop env c = at_loop env ?c1" by (simp add: load_def)
  let ?c2 = "?c1\<lparr>parser := ?pr\<lparr>state := s_chunk_data_done\<rparr>, app := app c @ [Received M_body bs],
    p_state := s_chunk_data_done, marks := (\<lambda>_. None), ptr := ptr ?c1 + 1\<rparr>"
  have "step env (load env ?c1) = Break ((load env ?c1)\<lparr>parser := ?pr\<lparr>state := s_chunk_data_done\<rparr>,
      app := app c @ [Received M_body bs], p_state := s_chunk_data_done, marks := (\<lambda>_. None)\<rparr>)"
    using st ok fl w seg by (simp add: step_def at_chunk_data_almost_done_def STRICT_CHECK_def Let_def CALLBACK_DATA_def
        recorder_callback_data)
  from turn_quiet [OF _ _ this, of ?c2] le
  have step2: "at_loop env ?c1 = at_loop env ?c2" by (simp add: load_def)
  let ?c3 = "?c2\<lparr>parser := ?pr\<lparr>nread := 0, state := s_chunk_size_start\<rparr>,
    app := app ?c2 @ [Notified N_chunk_complete], p_state := s_chunk_size_start, n_read := 0,
    ptr := ptr ?c2 + 1\<rparr>"
  have "step env (load env ?c2) = Break ((load env ?c2)\<lparr>parser := ?pr\<lparr>nread := 0, state := s_chunk_size_start\<rparr>,
      app := app ?c2 @ [Notified N_chunk_complete], p_state := s_chunk_size_start, n_read := 0\<rparr>)"
    using st ok fl w by (simp add: step_def at_chunk_data_done_def STRICT_CHECK_def Let_def CALLBACK_NOTIFY_def
        recorder_callback_notify)
  from turn_quiet [OF _ _ this, of ?c3] le
  have step3: "at_loop env ?c2 = at_loop env ?c3" by (simp add: load_def)
  show ?thesis
    unfolding step1 step2 step3 by (rule at_loop_cong) (use assms(4) in simp)
qed

text \<open>The empty line after the last chunk.\<close>

lemma chunks_end_run:
  assumes st: "settings env = recorder" and ok: "http_errno (parser c) = HPE_OK" "\<not> upgrade (parser c)"
    and s: "p_state c = s_header_field_start" and "has_flag (flags (parser c)) F_TRAILING"
    and w: "bytes_at (data env) (ptr c) [CR, LF]" and room: "room env c 2"
  shows "at_loop env c = at_loop env (c\<lparr>parser := (parser c)\<lparr>state := NEW_MESSAGE (parser c)\<rparr>,
      app := app c @ [Notified N_chunk_complete, Notified N_message_complete],
      p_state := NEW_MESSAGE (parser c), ptr := ptr c + 2, n_read := n_read c + 2\<rparr>)"
proof -
  let ?c1 = "c\<lparr>parser := parser c, p_state := s_headers_almost_done, ptr := ptr c + length [CR],
    n_read := n_read c + of_nat (length [CR])\<rparr>"
  have cr: "at_loop env c = at_loop env ?c1"
    by (rule text_run) (use s w room in \<open>simp_all add: text_step_def room_def\<close>)
  have r1: "room env ?c1 1" by (rule room_n_read [of _ c 1]) (use room in \<open>simp_all add: numeral_2_eq_2\<close>)
  have count: "n_read ?c1 + 1 \<le> max_header_size env"
    using unat_count(2) [of "n_read ?c1" 1 "max_header_size env"] r1 by (simp add: room_def)
  let ?c2 = "(load env ?c1)\<lparr>parser := (parser c)\<lparr>state := s_message_done\<rparr>,
    app := app c @ [Notified N_chunk_complete], p_state := s_message_done\<rparr>"
  have "step env (load env ?c1) = Reexecute ?c2"
    using st ok w assms(5)
    by (simp add: step_def at_headers_almost_done_def STRICT_CHECK_def CALLBACK_NOTIFY_NOADVANCE_def
        recorder_callback_notify)
  then have lf: "at_loop env ?c1 = run env (step env ?c2)"
    using w count by (simp add: turn run_Reexecute)
  have fin: "step env ?c2 = Break (?c2\<lparr>parser := (parser c)\<lparr>state := NEW_MESSAGE (parser c)\<rparr>,
      app := app ?c2 @ [Notified N_message_complete], p_state := NEW_MESSAGE (parser c)\<rparr>)"
    using st ok by (simp add: step_def at_message_done_def message_complete_def CALLBACK_NOTIFY_def
        recorder_callback_notify)
  have drop: "at_loop env (d\<lparr>cur := LF\<rparr>) = at_loop env d" for d by (rule at_loop_cur)
  show ?thesis
    unfolding cr lf fin run_Break_loop
    by (subst (2) drop [symmetric], rule at_loop_cong) (use w in \<open>simp add: load_def\<close>)
qed

section \<open>Properties\<close>

text \<open>
  C20.  A body of known length may arrive in any number of buffers: the client receives exactly
  the fragments, in order, then the end of the message, and never a byte more or less than the
  announced length.
\<close>

theorem body_arrives_in_fragments:
  assumes "http_errno pr = HPE_OK" and "state pr = s_body_identity" and "\<not> upgrade pr"
    and "unat (content_length pr) = length (concat ds)" and "content_length pr \<noteq> - 1"
    and "ds \<noteq> []" and "[] \<notin> set ds"
  shows "\<exists>pr'. session recorder mhs (map Execute ds) pr log =
      Some (pr', log @ map (Received M_body) ds @ [Notified N_message_complete]) \<and>
    http_errno pr' = HPE_OK \<and> content_length pr' = 0 \<and>
    state pr' = NEW_MESSAGE (pr\<lparr>content_length := 0\<rparr>)"
  by (rule body_fragments) (use assms in \<open>simp_all add: body_state_def\<close>)

lemma body_arrives_in_fragments_witness:
  "\<exists>pr'. session recorder 80 (map Execute [''ab'', ''c''])
        ((sn_http_parser_init HTTP_REQUEST)\<lparr>state := s_body_identity, content_length := 3\<rparr>) [] =
      Some (pr', [] @ map (Received M_body) [''ab'', ''c''] @ [Notified N_message_complete]) \<and>
    http_errno pr' = HPE_OK \<and> content_length pr' = 0"
  using body_arrives_in_fragments [of "(sn_http_parser_init HTTP_REQUEST)\<lparr>state := s_body_identity, content_length := 3\<rparr>"
      "[''ab'', ''c'']" 80 "[]"]
  by (auto simp: sn_http_parser_init_def)

text \<open>
  C21.  A chunk size: a string of hexadecimal digits of either case is accepted exactly when its
  value is at most 2^64 - 17, and \<open>content_length\<close> is then that value; a larger size is refused
  with \<open>HPE_INVALID_CONTENT_LENGTH\<close>, so it never wraps around.
\<close>

theorem chunk_size_exact:
  assumes "http_errno pr = HPE_OK" and "state pr = s_chunk_size_start" and "nread pr = 0"
    and "has_flag (flags pr) F_CHUNKED"
    and "\<forall>x \<in> set hs. hex_digit x" and "hs \<noteq> []" and "length hs < unat mhs"
  shows "\<exists>n pr'.
    sn_http_parser_execute recorder mhs pr log (hs @ [CR]) = Some (Returned n pr' log) \<and>
    (if hex_from 0 hs \<le> 2 ^ 64 - 17
     then http_errno pr' = HPE_OK \<and> unat (content_length pr') = hex_from 0 hs \<and>
       state pr' = s_chunk_size_almost_done \<and> n = length hs + 1
     else http_errno pr' = HPE_INVALID_CONTENT_LENGTH)"
proof -
  let ?d = "hs @ [CR]"
  let ?env = "recording_env mhs ?d (lenient_http_headers pr)" and ?c = "entry_ctx pr log"
  have exec: "sn_http_parser_execute recorder mhs pr log ?d = at_loop ?env ?c"
    using assms(1) by (simp add: execute_at_loop)
  have marks: "marks ?c = (\<lambda>_. None)" using assms(2) by (auto simp: initial_marks_def)
  note run = chunk_digits_run [of ?c hs ?env]
  show ?thesis
  proof (cases "hex_from 0 hs \<le> max_chunk_size")
    case True
    then have val: "unat (of_nat (hex_from 0 hs) :: u64) = hex_from 0 hs"
      by (intro unat_of_nat_small) (simp add: max_chunk_size_def)
    with True run assms marks exec show ?thesis
      by (simp add: at_loop_end room_def max_chunk_size_eq)
  next
    case False
    with run assms marks exec show ?thesis
      by (auto simp: room_def max_chunk_size_eq)
  qed
qed

definition chunking :: http_parser where
  "chunking = (sn_http_parser_init HTTP_REQUEST)\<lparr>state := s_chunk_size_start, flags := F_CHUNKED\<rparr>"

lemma chunking_simps:
  "http_errno chunking = HPE_OK" "state chunking = s_chunk_size_start" "nread chunking = 0"
  "has_flag (flags chunking) F_CHUNKED" "\<not> upgrade chunking"
  by (simp_all add: chunking_def sn_http_parser_init_def has_flag_def F_CHUNKED_def)

lemma chunk_size_exact_witness:
  "\<exists>n pr'. sn_http_parser_execute recorder 80 chunking [] (''1aF'' @ [CR]) = Some (Returned n pr' []) \<and>
    unat (content_length pr') = 431 \<and> state pr' = s_chunk_size_almost_done"
  using chunk_size_exact [of chunking "''1aF''" 80 "[]"]
  by (simp add: chunking_simps hex_digit_def hex_val_def) blast

type_synonym chunk = "string \<times> byte list"

definition wf_size :: "u32 \<Rightarrow> string \<Rightarrow> bool" where
  "wf_size mhs hs \<longleftrightarrow> hs \<noteq> [] \<and> (\<forall>x \<in> set hs. hex_digit x) \<and> length hs + 2 \<le> unat mhs"

definition wf_chunk :: "u32 \<Rightarrow> chunk \<Rightarrow> bool" where
  "wf_chunk mhs ch \<longleftrightarrow>
    wf_size mhs (fst ch) \<and> snd ch \<noteq> [] \<and> hex_from 0 (fst ch) = length (snd ch)"

definition print_chunk :: "chunk \<Rightarrow> byte list" where
  "print_chunk ch = fst ch @ [CR, LF] @ snd ch @ [CR, LF]"

definition print_chunks :: "chunk list \<Rightarrow> string \<Rightarrow> byte list" where
  "print_chunks chs z = concat (map print_chunk chs) @ z @ [CR, LF] @ [CR, LF]"

definition chunk_events :: "chunk \<Rightarrow> event list" where
  "chunk_events ch =
    [Notified N_chunk_header, Received M_body (snd ch), Notified N_chunk_complete]"

definition chunks_events :: "chunk list \<Rightarrow> event list" where
  "chunks_events chs = concat (map chunk_events chs) @
    [Notified N_chunk_header, Notified N_chunk_complete, Notified N_message_complete]"

text \<open>The fields a chunk does not touch.\<close>

definition chunk_frame :: "http_parser \<Rightarrow> http_parser \<Rightarrow> bool" where
  "chunk_frame pr pr' \<longleftrightarrow>
    (\<exists>n m s. pr' = pr\<lparr>content_length := n, nread := m, state := s\<rparr>)"

lemma chunk_frame_trans: "chunk_frame p1 p2 \<Longrightarrow> chunk_frame p2 p3 \<Longrightarrow> chunk_frame p1 p3"
  by (fastforce simp: chunk_frame_def)

lemma trailing_flags:
  "\<not> has_flag F_TRAILING F_CONNECTION_CLOSE" "\<not> has_flag F_TRAILING F_CONNECTION_KEEP_ALIVE"
  by (simp_all add: has_flag_def flag_defs)

lemma chunked_needs_no_eof: "has_flag (flags pr) F_CHUNKED \<Longrightarrow> \<not> sn_http_message_needs_eof pr"
  by (simp add: sn_http_message_needs_eof_def)

lemma NEW_MESSAGE_chunked:
  assumes "has_flag (flags pr) F_CHUNKED" and "chunk_frame pr pr'"
  shows "NEW_MESSAGE (pr'\<lparr>content_length := n, nread := 0, flags := flags pr' OR F_TRAILING,
    state := s\<rparr>) = NEW_MESSAGE pr"
proof -
  obtain k m t where pr': "pr' = pr\<lparr>content_length := k, nread := m, state := t\<rparr>"
    using assms(2) by (auto simp: chunk_frame_def)
  let ?q = "pr'\<lparr>content_length := n, nread := 0, flags := flags pr' OR F_TRAILING, state := s\<rparr>"
  have "has_flag (flags ?q) F_CHUNKED" using assms(1) by (simp add: pr' has_flag_or)
  note eof = chunked_needs_no_eof [OF assms(1)] chunked_needs_no_eof [OF this]
  have "sn_http_should_keep_alive ?q = sn_http_should_keep_alive pr"
    using eof by (simp add: sn_http_should_keep_alive_def pr' has_flag_or trailing_flags)
  then show ?thesis by (simp add: NEW_MESSAGE_def start_state_def pr')
qed

lemma chunk_run:
  assumes st: "settings env = recorder" and ok: "http_errno (parser c) = HPE_OK"
    and s: "p_state c = s_chunk_size_start" "n_read c = 0" and m: "marks c = (\<lambda>_. None)"
    and fl: "has_flag (flags (parser c)) F_CHUNKED" and ch: "wf_chunk (max_header_size env) ch"
    and w: "bytes_at (data env) (ptr c) (print_chunk ch)" and small: "data_end env < 2 ^ 64 - 17"
  shows "\<exists>pr. chunk_frame (parser c) pr \<and> at_loop env c =
    at_loop env (c\<lparr>parser := pr, app := app c @ chunk_events ch,
      ptr := ptr c + length (print_chunk ch), n_read := 0\<rparr>)"
proof -
  obtain hs bs where [simp]: "ch = (hs, bs)" by (cases ch)
  have hs: "\<forall>x \<in> set hs. hex_digit x" "hs \<noteq> []" "bs \<noteq> []" "hex_from 0 hs = length bs"
    "length hs + 2 \<le> unat (max_header_size env)"
    using ch by (simp_all add: wf_chunk_def wf_size_def)
  have le: "length bs \<le> max_chunk_size" "length bs \<noteq> 0"
    using bytes_at_bound [OF w] small hs(3) by (simp_all add: print_chunk_def max_chunk_size_def)
  let ?pr1 = "(parser c)\<lparr>content_length := of_nat (length bs), nread := 0, state := s_chunk_data\<rparr>"
  let ?c1 = "c\<lparr>parser := ?pr1,
      app := app c @ [Notified N_chunk_header],
      p_state := s_chunk_data, ptr := ptr c + (length hs + 2), n_read := 0\<rparr>"
  have step1: "at_loop env c = at_loop env ?c1"
    using chunk_size_line [OF st ok s fl hs(1,2)] hs le w s(2)
    by (simp add: print_chunk_def room_def)
  let ?pr2 = "?pr1\<lparr>content_length := 0, nread := 0, state := s_chunk_size_start\<rparr>"
  have step2: "at_loop env ?c1 = at_loop env (?c1\<lparr>parser := (parser ?c1)\<lparr>content_length := 0, nread := 0,
        state := s_chunk_size_start\<rparr>,
      app := app ?c1 @ [Received M_body bs, Notified N_chunk_complete],
      p_state := s_chunk_size_start, ptr := ptr ?c1 + (length bs + 2), n_read := 0\<rparr>)"
    by (rule chunk_data_run [OF st])
      (use ok m fl w hs small in \<open>simp_all add: print_chunk_def ac_simps\<close>)
  have "chunk_frame (parser c) ?pr2"
    unfolding chunk_frame_def by (intro exI [of _ 0] exI [of _ s_chunk_size_start]) simp
  moreover have "at_loop env c = at_loop env (c\<lparr>parser := ?pr2, app := app c @ chunk_events ch,
      ptr := ptr c + length (print_chunk ch), n_read := 0\<rparr>)"
    unfolding step1 step2
    by (rule at_loop_cong) (use s in \<open>cases c; simp add: print_chunk_def chunk_events_def\<close>)
  ultimately show ?thesis by blast
qed

lemma chunks_run:
  assumes st: "settings env = recorder" and small: "data_end env < 2 ^ 64 - 17"
    and "http_errno (parser c) = HPE_OK"
    and "p_state c = s_chunk_size_start" "n_read c = 0" and "marks c = (\<lambda>_. None)"
    and "has_flag (flags (parser c)) F_CHUNKED" and "\<forall>ch \<in> set chs. wf_chunk (max_header_size env) ch"
    and "bytes_at (data env) (ptr c) (concat (map print_chunk chs))"
  shows "\<exists>pr. chunk_frame (parser c) pr \<and> at_loop env c =
    at_loop env (c\<lparr>parser := pr, app := app c @ concat (map chunk_events chs),
      ptr := ptr c + length (concat (map print_chunk chs)), n_read := 0\<rparr>)"
  using assms(3-)
proof (induction chs arbitrary: c)
  case Nil
  then have "chunk_frame (parser c) (parser c)"
    unfolding chunk_frame_def
    by (intro exI [of _ "content_length (parser c)"] exI [of _ "nread (parser c)"] exI [of _ "state (parser c)"]) simp
  moreover have "c = c\<lparr>parser := parser c, n_read := 0\<rparr>" using Nil.prems(3) by (cases c) simp
  ultimately show ?case by (intro exI [of _ "parser c"]) simp
next
  case (Cons ch chs)
  have w: "bytes_at (data env) (ptr c) (print_chunk ch)"
    "bytes_at (data env) (ptr c + length (print_chunk ch)) (concat (map print_chunk chs))"
    using Cons.prems(7) by simp_all
  obtain pr1 where f1: "chunk_frame (parser c) pr1" and step1: "at_loop env c =
    at_loop env (c\<lparr>parser := pr1, app := app c @ chunk_events ch,
      ptr := ptr c + length (print_chunk ch), n_read := 0\<rparr>)" (is "_ = at_loop env ?c1")
    using chunk_run [OF st _ _ _ _ _ _ w(1) small] Cons.prems by auto
  have "\<exists>pr. chunk_frame (parser ?c1) pr \<and> at_loop env ?c1 =
    at_loop env (?c1\<lparr>parser := pr, app := app ?c1 @ concat (map chunk_events chs),
      ptr := ptr ?c1 + length (concat (map print_chunk chs)), n_read := 0\<rparr>)"
    by (rule Cons.IH) (use Cons.prems f1 w in \<open>auto simp: chunk_frame_def\<close>)
  then obtain pr2 where "chunk_frame pr1 pr2" and step2: "at_loop env ?c1 =
    at_loop env (?c1\<lparr>parser := pr2, app := app ?c1 @ concat (map chunk_events chs),
      ptr := ptr ?c1 + length (concat (map print_chunk chs)), n_read := 0\<rparr>)" by auto
  then have "chunk_frame (parser c) pr2" using f1 chunk_frame_trans by blast
  moreover have "at_loop env c = at_loop env (c\<lparr>parser := pr2, app := app c @ concat (map chunk_events (ch # chs)),
      ptr := ptr c + length (concat (map print_chunk (ch # chs))), n_read := 0\<rparr>)"
    unfolding step1 step2 by (rule at_loop_cong) simp
  ultimately show ?case by blast
qed

text \<open>
  C8.  A chunked body, printed as its chunks with their hexadecimal sizes (any digits, any
  leading zeros) and a final chunk of size 0, is parsed back: each chunk is announced, delivered
  and closed, and the message ends after the last one.  Every chunk has the whole header budget
  for its size line.
\<close>

theorem chunked_roundtrip:
  assumes "http_errno pr = HPE_OK" and "state pr = s_chunk_size_start" and "nread pr = 0"
    and "has_flag (flags pr) F_CHUNKED" and "\<not> upgrade pr"
    and "\<forall>ch \<in> set chs. wf_chunk mhs ch" and "wf_size mhs z" and "hex_from 0 z = 0"
    and "length (print_chunks chs z) < 2 ^ 64 - 17"
  shows "\<exists>pr'. sn_http_parser_execute recorder mhs pr log (print_chunks chs z) =
      Some (Returned (length (print_chunks chs z)) pr' (log @ chunks_events chs)) \<and>
    http_errno pr' = HPE_OK \<and> state pr' = NEW_MESSAGE pr"
proof -
  let ?all = "concat (map print_chunk chs)"
  obtain d where d: "print_chunks chs z = d" by blast
  let ?env = "recording_env mhs d (lenient_http_headers pr)" and ?c = "entry_ctx pr log"
  have layout: "?all @ z @ [CR, LF] @ [CR, LF] = d" using d by (simp add: print_chunks_def)
  then have "d \<noteq> []" by auto
  then have exec: "sn_http_parser_execute recorder mhs pr log d = at_loop ?env ?c"
    using assms(1) by (simp add: execute_at_loop)
  have marks: "marks ?c = (\<lambda>_. None)" using assms(2) by (auto simp: initial_marks_def)
  have "bytes_at d 0 (?all @ z @ [CR, LF] @ [CR, LF])" unfolding layout by simp
  then have w: "bytes_at d 0 ?all" "bytes_at d (length ?all) (z @ [CR, LF])"
    "bytes_at d (length ?all + (length z + 2)) [CR, LF]" by (simp_all add: ac_simps)
  obtain pr1 where f1: "chunk_frame pr pr1" and step1: "at_loop ?env ?c =
    at_loop ?env (?c\<lparr>parser := pr1, app := log @ concat (map chunk_events chs),
      ptr := length (concat (map print_chunk chs)), n_read := 0\<rparr>)" (is "_ = at_loop _ ?c1")
    using chunks_run [of ?env ?c chs] assms marks w(1) d by auto
  have p1: "http_errno pr1 = HPE_OK" "flags pr1 = flags pr" "upgrade pr1 = upgrade pr"
    using f1 assms(1) by (auto simp: chunk_frame_def)
  let ?pr2 = "pr1\<lparr>content_length := 0, nread := 0, flags := flags pr1 OR F_TRAILING,
        state := s_header_field_start\<rparr>"
  let ?c2 = "?c1\<lparr>parser := ?pr2, app := app ?c1 @ [Notified N_chunk_header],
      p_state := s_header_field_start, ptr := ptr ?c1 + (length z + 2), n_read := 0\<rparr>"
  have step2: "at_loop ?env ?c1 = at_loop ?env ?c2"
    using chunk_size_line [of ?env ?c1 z] assms p1 w(2) by (simp add: wf_size_def room_def)
  have step3: "at_loop ?env ?c2 = at_loop ?env (?c2\<lparr>parser := (parser ?c2)\<lparr>state := NEW_MESSAGE (parser ?c2)\<rparr>,
      app := app ?c2 @ [Notified N_chunk_complete, Notified N_message_complete],
      p_state := NEW_MESSAGE (parser ?c2), ptr := ptr ?c2 + 2, n_read := n_read ?c2 + 2\<rparr>)"
    by (rule chunks_end_run)
      (use assms p1 w(3) in \<open>simp_all add: has_flag_or wf_size_def room_def\<close>,
        simp add: has_flag_def F_TRAILING_def)
  have "NEW_MESSAGE ?pr2 = NEW_MESSAGE pr" by (rule NEW_MESSAGE_chunked [OF assms(4) f1])
  moreover have "length d = length ?all + (length z + 2) + 2"
    unfolding layout [symmetric] by simp
  ultimately show ?thesis
    unfolding d exec step1 step2 step3 using marks p1
    by (subst at_loop_end) (simp_all add: chunks_events_def)
qed

lemma chunked_roundtrip_witness:
  "\<exists>pr'. sn_http_parser_execute recorder 80 chunking [] (print_chunks [(''03'', ''abc''), (''1'', ''d'')] ''0'') =
      Some (Returned (length (print_chunks [(''03'', ''abc''), (''1'', ''d'')] ''0'')) pr'
        ([] @ chunks_events [(''03'', ''abc''), (''1'', ''d'')])) \<and>
    http_errno pr' = HPE_OK \<and> state pr' = NEW_MESSAGE chunking"
  by (rule chunked_roundtrip)
    (simp_all add: chunking_simps wf_chunk_def wf_size_def hex_digit_def hex_val_def print_chunks_def
      print_chunk_def)

end
