(* ===== verification/HttpScan.thy ===== *)
theory HttpScan
  imports HttpRun
begin

text \<open>
  The loops over header names and values (\<open>src/src/httpparser.cpp\<close>) skip ahead inside names and
  values without a meaning, up to a limit taken from \<open>max_header_size\<close>.  Here is the reading
  character by character that they stand for, and the proof that they agree with it.
\<close>

section \<open>Names\<close>

text \<open>The number of characters read, and the parser.\<close>

fun field_chars :: "byte list \<Rightarrow> http_parser \<Rightarrow> (nat \<times> http_parser) option" where
  "field_chars [] pr = Some (0, pr)"
| "field_chars (x # w) pr =
    (if TOKEN x = NUL then Some (0, pr)
     else case (if header_state pr = h_general then Some pr else header_field_char (TOKEN x) x pr) of
            None \<Rightarrow> None
          | Some pr' \<Rightarrow> map_option (\<lambda>(k, q). (Suc k, q)) (field_chars w pr'))"

definition field_end :: "(nat \<times> char \<times> http_parser) option \<Rightarrow> (nat \<times> http_parser) option" where
  "field_end = map_option (\<lambda>(j, ch, pr). (j, pr))"

lemma field_chars_general:
  "header_state pr = h_general \<Longrightarrow> \<forall>x \<in> set u. TOKEN x \<noteq> NUL \<Longrightarrow>
    field_chars (u @ w) pr = map_option (\<lambda>(k, q). (length u + k, q)) (field_chars w pr)"
  by (induction u) (auto simp: option.map_comp comp_def split_def option.map_ident)

lemma skip_tokens_all:
  "i < length d \<Longrightarrow> pe \<le> length d \<Longrightarrow> i < j \<Longrightarrow> j \<le> skip_tokens d i pe \<Longrightarrow> TOKEN (d ! j) \<noteq> NUL"
proof (induction d i pe rule: skip_tokens.induct)
  case (1 d i pe)
  show ?case
  proof (cases "i + 1 < pe \<and> TOKEN (d ! (i + 1)) \<noteq> NUL")
    case True
    with "1.prems" have "j \<le> skip_tokens d (i + 1) pe" by (subst (asm) skip_tokens.simps) simp
    with 1 True show ?thesis by (cases "j = i + 1") auto
  next
    case False
    then have "skip_tokens d i pe = i" by (subst skip_tokens.simps) auto
    with "1.prems" show ?thesis by simp
  qed
qed

lemma skip_tokens_max: "i < length d \<Longrightarrow> pe \<le> length d \<Longrightarrow> skip_tokens d i pe < length d"
proof (cases "i < pe")
  case True
  moreover assume "pe \<le> length d"
  ultimately show ?thesis using skip_tokens_less [OF True, of d] by simp
next
  case False
  then have "skip_tokens d i pe = i" by (subst skip_tokens.simps) auto
  moreover assume "i < length d"
  ultimately show ?thesis by simp
qed

lemma drop_seg: "i \<le> j \<Longrightarrow> drop i d = seg d i j @ drop j d"
  using append_take_drop_id [of "j - i" "drop i d"] by (simp add: seg_def)

lemma field_loop_chars:
  "field_end (field_loop d mhs i ch pr) = map_option (\<lambda>(k, q). (i + k, q)) (field_chars (drop i d) pr)"
proof (induction d mhs i ch pr rule: field_loop.induct)
  case (1 d mhs i ch pr)
  show ?case
  proof (cases "i < length d \<and> TOKEN (d ! i) \<noteq> NUL")
    case False
    then show ?thesis
      by (cases "i < length d"; subst field_loop.simps)
        (auto simp: field_end_def Let_def Cons_nth_drop_Suc [symmetric])
  next
    case tok: True
    then have drop: "drop i d = d ! i # drop (Suc i) d" by (simp add: Cons_nth_drop_Suc)
    show ?thesis
    proof (cases "header_state pr = h_general")
      case True
      let ?pe = "i + min (length d - i) (unat mhs)" and ?j = "skip_tokens d i (i + min (length d - i) (unat mhs))"
      have "?pe \<le> length d" using tok min.cobounded1 [of "length d - i" "unat mhs"] by linarith
      then have j: "i \<le> ?j" "?j < length d" using tok skip_tokens_ge skip_tokens_max [of i d ?pe] by simp_all
      have "TOKEN x \<noteq> NUL" if "x \<in> set (seg d i (Suc ?j))" for x
      proof -
        from that obtain k where k: "k < length (seg d i (Suc ?j))" "x = seg d i (Suc ?j) ! k"
          by (metis in_set_conv_nth)
        then have "x = d ! (i + k)" "i + k \<le> ?j" using j by (simp_all add: seg_nth)
        with tok skip_tokens_all [of i d ?pe "i + k"] j show ?thesis by (cases "k = 0") auto
      qed
      then have "field_chars (drop i d) pr =
          map_option (\<lambda>(k, q). (Suc ?j - i + k, q)) (field_chars (drop (Suc ?j) d) pr)"
        using field_chars_general [OF True, of "seg d i (Suc ?j)" "drop (Suc ?j) d"] j drop_seg [of i "Suc ?j" d]
        by simp
      moreover have "field_loop d mhs i ch pr = field_loop d mhs (Suc ?j) (d ! i) pr"
        using tok True by (subst field_loop.simps) (simp add: Let_def)
      ultimately show ?thesis
        using "1.IH"(1) [OF _ refl refl _ True refl] tok j by (simp add: option.map_comp comp_def split_def)
    next
      case False
      show ?thesis
      proof (cases "header_field_char (TOKEN (d ! i)) (d ! i) pr")
        case None
        with tok False drop show ?thesis by (subst field_loop.simps) (simp add: field_end_def Let_def)
      next
        case (Some pr')
        then have "field_loop d mhs i ch pr = field_loop d mhs (Suc i) (d ! i) pr'"
          using tok False by (subst field_loop.simps) (simp add: Let_def)
        with "1.IH"(2) [OF _ refl refl _ False Some] tok False Some drop show ?thesis
          by (simp add: option.map_comp comp_def split_def)
      qed
    qed
  qed
qed

section \<open>Values\<close>

text \<open>Why the reading stops, the number of characters read, \<open>h_state\<close> and the parser.\<close>

fun value_chars ::
  "bool \<Rightarrow> byte list \<Rightarrow> header_states \<Rightarrow> http_parser \<Rightarrow> value_stop \<times> nat \<times> header_states \<times> http_parser"
where
  "value_chars lnt [] h pr = (Stop_end, 0, h, pr)"
| "value_chars lnt (x # w) h pr =
    (if x = CR then (Stop_CR, 0, h, pr)
     else if x = LF then (Stop_LF, 0, h, pr)
     else if \<not> lnt \<and> \<not> IS_HEADER_CHAR x then (Stop_invalid, 0, h, pr)
     else case (if h = h_general then V_ok h pr else header_value_char (LOWER x) x h pr) of
            V_ok h' pr' \<Rightarrow> (case value_chars lnt w h' pr' of (s, k, r) \<Rightarrow> (s, Suc k, r))
          | V_error e h' pr' \<Rightarrow> (Stop_error e, 0, h', pr')
          | V_assert \<Rightarrow> (Stop_assert, 0, h, pr))"

definition value_char :: "bool \<Rightarrow> char \<Rightarrow> bool" where
  "value_char lnt x \<longleftrightarrow> x \<noteq> CR \<and> x \<noteq> LF \<and> (lnt \<or> IS_HEADER_CHAR x)"

lemma value_chars_general:
  "\<forall>x \<in> set u. value_char lnt x \<Longrightarrow> value_chars lnt (u @ w) h_general pr =
    (case value_chars lnt w h_general pr of (s, k, r) \<Rightarrow> (s, length u + k, r))"
  by (induction u) (auto simp: value_char_def split: prod.split)

text \<open>The scan of a value without a meaning: over its characters, or up to the limit.\<close>

lemma general_scan_chars:
  assumes "\<forall>k < j. value_char lnt (d ! (i + k))" and "i + j \<le> pe"
  shows "general_scan d lnt i pe ch = general_scan d lnt (i + j) pe (if j = 0 then ch else d ! (i + j - 1))"
  using assms
proof (induction j arbitrary: i ch)
  case (Suc j)
  have "value_char lnt (d ! i)" using Suc.prems(1) [rule_format, of 0] by simp
  then have step: "general_scan d lnt i pe ch = general_scan d lnt (Suc i) pe (d ! i)"
    using Suc.prems(2) by (subst general_scan.simps) (auto simp: value_char_def Let_def)
  have "general_scan d lnt (Suc i) pe (d ! i) =
      general_scan d lnt (Suc i + j) pe (if j = 0 then d ! i else d ! (Suc i + j - 1))"
    by (rule Suc.IH) (use Suc.prems(1) [rule_format, of "Suc _"] Suc.prems(2) in simp_all)
  also have "(if j = 0 then d ! i else d ! (Suc i + j - 1)) = d ! (i + Suc j - 1)" by simp
  finally show ?case unfolding step by simp
qed simp

lemma value_loop_ge: "value_loop d mhs lnt i ch h pr = (s, j, c, h', pr') \<Longrightarrow> i \<le> j"
proof (induction d mhs lnt i ch h pr rule: value_loop.induct)
  case (1 d mhs lnt i ch h pr)
  note unfolded = "1.prems" [unfolded value_loop.simps [of d mhs lnt i ch h pr]]
  show ?case
  proof (cases "i < length d \<and> value_char lnt (d ! i)")
    case False
    with unfolded show ?thesis by (auto simp: Let_def value_char_def split: if_splits)
  next
    case go: True
    then have v: "d ! i \<noteq> CR" "d ! i \<noteq> LF" "lnt \<or> IS_HEADER_CHAR (d ! i)" by (simp_all add: value_char_def)
    show ?thesis
    proof (cases "h = h_general")
      case True
      obtain r c1 where scan: "general_scan d lnt i (i + min (length d - i) (unat mhs)) (d ! i) = (r, c1)"
        by fastforce
      show ?thesis
      proof (cases r)
        case (Inl k)
        with scan have "i \<le> k" by (simp add: general_scan_Inl)
        with unfolded go v True scan Inl show ?thesis by auto
      next
        case (Inr k)
        with scan have "i \<le> k" by (intro general_scan_ge [of d lnt i _ "d ! i" k c1]) (use go v in auto)
        moreover from "1.prems" go v True scan Inr
        have "value_loop d mhs lnt ((if k = length d then k - 1 else k) + 1) c1 h pr = (s, j, c, h', pr')"
          using value_loop_general [of i d lnt mhs ch pr] by simp
        with "1.IH"(1) [OF _ refl _ _ _ True scan [symmetric] Inr] go v
        have "(if k = length d then k - 1 else k) + 1 \<le> j" by blast
        ultimately show ?thesis by (simp split: if_splits)
      qed
    next
      case False
      show ?thesis
      proof (cases "header_value_char (LOWER (d ! i)) (d ! i) h pr")
        case (V_ok h1 pr1)
        with "1.prems" go v False have "value_loop d mhs lnt (i + 1) (d ! i) h1 pr1 = (s, j, c, h', pr')"
          using value_loop_other [of i d lnt h mhs ch pr] by simp
        with "1.IH"(2) [OF _ refl _ _ _ False V_ok] go v have "i + 1 \<le> j" by blast
        then show ?thesis by simp
      qed (use "1.prems" go v False value_loop_other [of i d lnt h mhs ch pr] in auto)
    qed
  qed
qed

text \<open>
  The loop reads the characters one by one, unless there are \<open>max_header_size\<close> of them: then it may
  go on beyond so many.
\<close>

definition reads_chars :: "byte list \<Rightarrow> u32 \<Rightarrow> bool \<Rightarrow> nat \<Rightarrow> char \<Rightarrow> header_states \<Rightarrow> http_parser \<Rightarrow> bool" where
  "reads_chars d mhs lnt i ch h pr \<longleftrightarrow>
    (case value_chars lnt (drop i d) h pr of (s, k, h1, pr1) \<Rightarrow>
       (\<exists>c. value_loop d mhs lnt i ch h pr = (s, i + k, c, h1, pr1)) \<or>
       unat mhs \<le> k \<and> i + unat mhs < fst (snd (value_loop d mhs lnt i ch h pr)))"

lemma general_reads_chars:
  assumes i: "i < length d" and v: "value_char lnt (d ! i)"
  shows "reads_chars d mhs lnt i ch h_general pr"
proof -
  define u where "u = takeWhile (value_char lnt) (drop i d)"
  define m where "m = length u"
  let ?pe = "i + min (length d - i) (unat mhs)"
  have drop: "drop i d = u @ drop (i + m) d"
    using takeWhile_dropWhile_id [of "value_char lnt" "drop i d"]
    by (simp add: u_def m_def dropWhile_eq_drop add.commute)
  have plain: "value_char lnt (d ! (i + k))" if "k < m" for k
    using that i takeWhile_nth [of k "value_char lnt" "drop i d"] nth_mem [of k u]
    by (auto simp: u_def m_def dest: set_takeWhileD)
  have stop: "\<not> value_char lnt (d ! (i + m))" if "i + m < length d"
    using nth_length_takeWhile [of "value_char lnt" "drop i d"] that i by (simp add: u_def m_def)
  have m: "0 < m" "i + m \<le> length d"
    using i v length_takeWhile_le [of "value_char lnt" "drop i d"]
    by (auto simp: m_def u_def Cons_nth_drop_Suc [symmetric])
  have chars: "value_chars lnt (drop i d) h_general pr =
      (case value_chars lnt (drop (i + m) d) h_general pr of (s, k, r) \<Rightarrow> (s, m + k, r))"
    unfolding drop m_def by (rule value_chars_general) (auto simp: u_def dest: set_takeWhileD)
  have go: "value_loop d mhs lnt i ch h_general pr =
    (case general_scan d lnt i ?pe (d ! i) of
       (Inl j, ch') \<Rightarrow> (Stop_invalid, j, ch', h_general, pr)
     | (Inr j, ch') \<Rightarrow> value_loop d mhs lnt ((if j = length d then j - 1 else j) + 1) ch' h_general pr)"
    by (rule value_loop_general) (use i v in \<open>auto simp: value_char_def\<close>)
  show ?thesis
  proof (cases "i + m < ?pe")
    case True
    then have lt: "i + m < length d" using min.cobounded1 [of "length d - i" "unat mhs"] by linarith
    have scan: "general_scan d lnt i ?pe (d ! i) = general_scan d lnt (i + m) ?pe (d ! (i + m - 1))"
      using general_scan_chars [of m lnt d i ?pe "d ! i"] plain True m by simp
    have rest: "drop (i + m) d = d ! (i + m) # drop (Suc (i + m)) d" using lt by (simp add: Cons_nth_drop_Suc)
    show ?thesis
    proof (cases "d ! (i + m) = CR \<or> d ! (i + m) = LF")
      case True
      have before: "(if i + m - 1 = length d then i + m - 1 - 1 else i + m - 1) + 1 = i + m"
        using m(1) lt by simp arith
      from True have "general_scan d lnt (i + m) ?pe (d ! (i + m - 1)) = (Inr (i + m - 1), d ! (i + m))"
        using \<open>i + m < ?pe\<close> by (subst general_scan.simps) (auto simp: Let_def)
      then have "value_loop d mhs lnt i ch h_general pr = value_loop d mhs lnt (i + m) (d ! (i + m)) h_general pr"
        unfolding go scan by (simp only: prod.case sum.case before)
      also have "\<dots> = (if d ! (i + m) = CR then Stop_CR else Stop_LF, i + m, d ! (i + m), h_general, pr)"
        using True lt by (subst value_loop.simps) (auto simp: Let_def)
      finally show ?thesis using chars rest True by (auto simp: reads_chars_def)
    next
      case False
      with stop [OF lt] have bad: "\<not> lnt" "\<not> IS_HEADER_CHAR (d ! (i + m))" by (auto simp: value_char_def)
      with False have "general_scan d lnt (i + m) ?pe (d ! (i + m - 1)) = (Inl (i + m), d ! (i + m))"
        using \<open>i + m < ?pe\<close> by (subst general_scan.simps) (auto simp: Let_def)
      then show ?thesis using go scan chars rest False bad by (auto simp: reads_chars_def)
    qed
  next
    case False
    have pe: "i + (?pe - i) = ?pe" by simp
    have "\<forall>k < ?pe - i. value_char lnt (d ! (i + k))" using plain False m(2) by auto
    then obtain c where "general_scan d lnt i ?pe (d ! i) = general_scan d lnt ?pe ?pe c"
      using general_scan_chars [of "?pe - i" lnt d i ?pe "d ! i"] unfolding pe by blast
    then have scan: "general_scan d lnt i ?pe (d ! i) = (Inr ?pe, c)"
      by (simp add: general_scan.simps [of d lnt ?pe ?pe c])
    show ?thesis
    proof (cases "?pe = length d")
      case True
      then have "i + m = length d" using False m by simp
      moreover have "value_loop d mhs lnt (length d) c h_general pr = (Stop_end, length d, c, h_general, pr)"
        by (subst value_loop.simps) simp
      moreover have "Suc (length d - Suc 0) = length d" using i by simp
      ultimately show ?thesis using go scan chars True i by (auto simp: reads_chars_def)
    next
      case bound: False
      then have "unat mhs \<le> m" "?pe = i + unat mhs" using False i by (auto simp: min_def split: if_splits)
      moreover have "?pe + 1 \<le> fst (snd (value_loop d mhs lnt i ch h_general pr))"
        using go scan bound value_loop_ge [of d mhs lnt "?pe + 1" c h_general pr]
        by (cases "value_loop d mhs lnt (?pe + 1) c h_general pr") auto
      ultimately show ?thesis using chars by (auto simp: reads_chars_def split: prod.splits)
    qed
  qed
qed

lemma value_loop_chars: "i \<le> length d \<Longrightarrow> reads_chars d mhs lnt i ch h pr"
proof (induction "length d - i" arbitrary: i ch h pr)
  case (0 i ch h pr)
  then show ?case by (simp add: reads_chars_def value_loop.simps)
next
  case (Suc n i ch h pr)
  then have i: "i < length d" by simp
  then have drop: "drop i d = d ! i # drop (Suc i) d" by (simp add: Cons_nth_drop_Suc)
  show ?case
  proof (cases "value_char lnt (d ! i)")
    case False
    with i drop show ?thesis
      by (subst reads_chars_def, subst value_loop.simps) (auto simp: value_char_def Let_def value_loop.simps)
  next
    case v: True
    then have ok: "d ! i \<noteq> CR" "d ! i \<noteq> LF" "lnt \<or> IS_HEADER_CHAR (d ! i)" by (simp_all add: value_char_def)
    show ?thesis
    proof (cases "h = h_general")
      case True
      with general_reads_chars [OF i v] show ?thesis by simp
    next
      case False
      note loop = value_loop_other [OF i ok False, of mhs ch pr]
      show ?thesis
      proof (cases "header_value_char (LOWER (d ! i)) (d ! i) h pr")
        case (V_ok h1 pr1)
        have "reads_chars d mhs lnt (Suc i) (d ! i) h1 pr1" by (rule Suc.hyps) (use Suc.hyps(2) i in simp_all)
        with loop V_ok drop ok False show ?thesis by (auto simp: reads_chars_def split: prod.splits)
      qed (use loop drop ok False in \<open>auto simp: reads_chars_def\<close>)
    qed
  qed
qed

section \<open>Reading in pieces\<close>

lemma field_chars_append:
  "field_chars (u @ w) pr =
    (case field_chars u pr of
       None \<Rightarrow> None
     | Some (k, q) \<Rightarrow>
         if k < length u then Some (k, q) else map_option (\<lambda>(l, r). (length u + l, r)) (field_chars w q))"
  by (induction u arbitrary: pr)
    (auto simp: option.map_comp comp_def split_def option.map_ident Let_def split: option.splits)

lemma field_chars_le: "field_chars w pr = Some (k, q) \<Longrightarrow> k \<le> length w"
  by (induction w arbitrary: pr k q) (auto split: if_splits option.splits)

lemma value_chars_append:
  "value_chars lnt (u @ w) h pr =
    (case value_chars lnt u h pr of
       (s, k, h', q) \<Rightarrow>
         if k < length u then (s, k, h', q)
         else case value_chars lnt w h' q of (s', l, r) \<Rightarrow> (s', length u + l, r))"
  by (induction u arbitrary: h pr) (auto split: value_step.splits prod.splits)

lemma value_chars_le: "value_chars lnt w h pr = (s, k, h', q) \<Longrightarrow> k \<le> length w"
  by (induction w arbitrary: h pr s k h' q) (auto split: if_splits value_step.splits prod.splits)

lemma value_chars_end: "value_chars lnt w h pr = (s, k, h', q) \<Longrightarrow> s = Stop_end \<longleftrightarrow> k = length w"
  by (induction w arbitrary: h pr s k h' q) (auto split: if_splits value_step.splits prod.splits)

lemma field_loop_at: "field_loop d mhs i ch pr = Some (j, ch', pr') \<Longrightarrow> j < length d \<Longrightarrow> ch' = d ! j"
proof (induction d mhs i ch pr rule: field_loop.induct)
  case (1 d mhs i ch pr)
  note unfolded = "1.prems"(1) [unfolded field_loop.simps [of d mhs i ch pr]]
  show ?case
    using unfolded "1.prems"(2) "1.IH" [OF _ refl refl]
    by (auto simp: Let_def split: if_splits option.splits)
qed

text \<open>The fields \<open>nread\<close> and \<open>state\<close> play no part, nor the stored state of the header's value.\<close>

lemma match_field_core:
  "match_field w h c (pr\<lparr>nread := n, state := s\<rparr>) = (match_field w h c pr)\<lparr>nread := n, state := s\<rparr>"
  by (simp add: match_field_def Let_def)

lemma header_field_char_core:
  "header_field_char c ch (pr\<lparr>nread := n, state := s\<rparr>) =
    map_option (\<lambda>q. q\<lparr>nread := n, state := s\<rparr>) (header_field_char c ch pr)"
  by (cases "header_state pr") (simp_all add: header_field_char_def match_field_core Let_def)

lemma field_chars_core:
  "field_chars w (pr\<lparr>nread := n, state := s\<rparr>) =
    map_option (\<lambda>(k, q). (k, q\<lparr>nread := n, state := s\<rparr>)) (field_chars w pr)"
  by (induction w arbitrary: pr)
    (auto simp: header_field_char_core option.map_comp comp_def split_def split: option.split)

lemma header_value_char_core:
  "header_value_char c ch h (pr\<lparr>nread := n, state := s\<rparr>) =
    (case header_value_char c ch h pr of
       V_ok h' q \<Rightarrow> V_ok h' (q\<lparr>nread := n, state := s\<rparr>)
     | V_error e h' q \<Rightarrow> V_error e h' (q\<lparr>nread := n, state := s\<rparr>)
     | V_assert \<Rightarrow> V_assert)"
  "header_value_char c ch h (pr\<lparr>header_state := g\<rparr>) =
    (case header_value_char c ch h pr of
       V_ok h' q \<Rightarrow> V_ok h' (q\<lparr>header_state := g\<rparr>)
     | V_error e h' q \<Rightarrow> V_error e h' (q\<lparr>header_state := g\<rparr>)
     | V_assert \<Rightarrow> V_assert)"
  by (cases h; simp add: header_value_char_def content_length_digit_def match_value_def Let_def)+

lemma value_chars_core:
  "value_chars lnt w h (pr\<lparr>nread := n, state := s\<rparr>) =
    (case value_chars lnt w h pr of (t, k, h', q) \<Rightarrow> (t, k, h', q\<lparr>nread := n, state := s\<rparr>))"
  "value_chars lnt w h (pr\<lparr>header_state := g\<rparr>) =
    (case value_chars lnt w h pr of (t, k, h', q) \<Rightarrow> (t, k, h', q\<lparr>header_state := g\<rparr>))"
  by (induction w arbitrary: h pr) (auto simp: header_value_char_core split: value_step.splits prod.splits)

text \<open>No error is set.\<close>

lemma field_chars_errno: "field_chars w pr = Some (k, q) \<Longrightarrow> http_errno q = http_errno pr"
proof (induction w arbitrary: pr k q)
  case (Cons x w)
  have "header_field_char c ch pr = Some pr' \<Longrightarrow> http_errno pr' = http_errno pr" for c ch pr'
    by (cases "header_state pr") (auto simp: header_field_char_def match_field_def Let_def)
  with Cons show ?case by (force split: if_splits option.splits)
qed simp

lemma value_chars_errno: "value_chars lnt w h pr = (s, k, h', q) \<Longrightarrow> http_errno q = http_errno pr"
proof (induction w arbitrary: h pr s k h' q)
  case (Cons x w)
  have "(case header_value_char c ch h pr of V_ok h' q \<Rightarrow> http_errno q = http_errno pr
      | V_error e h' q \<Rightarrow> http_errno q = http_errno pr | V_assert \<Rightarrow> True)" for c ch
    by (cases h) (auto simp: header_value_char_def content_length_digit_def match_value_def Let_def)
  from this [of "LOWER x" x] Cons show ?case
    by (auto split: if_splits value_step.splits prod.splits)
qed simp

end
