(* ===== verification/HttpWindow.thy ===== *)
theory HttpWindow
  imports HttpScan
begin

text \<open>
  Input in pieces: a client may hand \<open>sn_http_parser_execute\<close> (\<open>src/src/httpparser.cpp\<close>) the bytes
  it receives as they come.  Input that the parser accepts as a whole it accepts in pieces, with
  the same events, only that names, values and bodies come in pieces, too.
\<close>

section \<open>What the client hears\<close>

text \<open>Pieces that follow one another are put together.\<close>

fun join :: "event \<Rightarrow> event list \<Rightarrow> event list" where
  "join (Received m s) (Received m' t # es) =
    (if m = m' then Received m (s @ t) # es else Received m s # Received m' t # es)"
| "join e es = e # es"

primrec glue :: "event list \<Rightarrow> event list" where
  "glue [] = []"
| "glue (e # es) = join e (glue es)"

lemma join_join: "join (Received m s) (join (Received m t) es) = join (Received m (s @ t)) es"
  by (cases es rule: list.exhaust [case_names Nil Cons]; (simp; fail)?) (rename_tac e r, case_tac e; simp)

lemma join_foldr: "foldr join (join e r) z = join e (foldr join r z)"
  by (cases "(e, r)" rule: join.cases) (auto simp: join_join)

lemma glue_foldr: "glue es = foldr join es []"
  by (induction es) simp_all

lemma foldr_glue: "foldr join (glue es) z = foldr join es z"
  by (induction es) (simp_all add: join_foldr)

lemma glue_glue: "glue (glue a @ b) = glue (a @ b)"
  by (simp add: glue_foldr foldr_append foldr_glue [unfolded glue_foldr])

lemma glue_cong: "glue a = glue a' \<Longrightarrow> glue (a @ b) = glue (a' @ b)"
  by (metis glue_glue)

lemma glue_pieces: "glue (a @ Received m s # Received m t # b) = glue (a @ Received m (s @ t) # b)"
  by (simp add: glue_foldr join_join)

text \<open>What is marked and not yet reported.\<close>

definition pending :: "byte list \<Rightarrow> 'a ctx \<Rightarrow> event list" where
  "pending d c =
    concat (map (\<lambda>m. case marks c m of None \<Rightarrow> [] | Some i \<Rightarrow> [Received m (seg d i (ptr c))])
      [M_header_field, M_header_value, M_url, M_body, M_status])"

lemma pending_none [simp]: "marks c = (\<lambda>_. None) \<Longrightarrow> pending d c = []"
  by (simp add: pending_def)

lemma pending_one [simp]:
  "marks c = (\<lambda>_. None)(m := Some i) \<Longrightarrow> pending d c = [Received m (seg d i (ptr c))]"
  by (cases m) (simp_all add: pending_def)

section \<open>A run on a part of the buffer\<close>

text \<open>The buffer of \<open>F\<close> is the part of the buffer of \<open>W\<close> from \<open>n\<close> on.\<close>

definition window :: "event list exec_env \<Rightarrow> nat \<Rightarrow> event list exec_env \<Rightarrow> bool" where
  "window W n F \<longleftrightarrow>
    settings W = recorder \<and> settings F = recorder \<and> max_header_size W = max_header_size F \<and>
    lenient W = lenient F \<and> (\<exists>post. drop n (data W) = data F @ post) \<and> n \<le> data_end W"

lemma window_drop:
  assumes "window W n F" and "i \<le> data_end F"
  shows "drop (n + i) (data W) = drop i (data F) @ drop (n + data_end F) (data W)"
    and "n + data_end F \<le> data_end W"
proof -
  from assms obtain post where d: "drop n (data W) = data F @ post" and n: "n \<le> data_end W" by (auto simp: window_def)
  have drop: "drop (n + j) (data W) = drop j (drop n (data W))" for j by (simp add: add.commute)
  show "drop (n + i) (data W) = drop i (data F) @ drop (n + data_end F) (data W)" using assms(2) by (simp add: drop d)
  from arg_cong [OF d, of length] n show "n + data_end F \<le> data_end W" by simp
qed

lemma window_seg:
  assumes "window W n F" and "i \<le> j" and "j \<le> data_end F"
  shows "seg (data W) (n + i) (n + j) = seg (data F) i j"
  using window_drop(1) [OF assms(1), of i] assms(2,3) by (simp add: seg_def)

text \<open>Parsers that differ in nothing the switch reads.\<close>

definition core_eq :: "http_parser \<Rightarrow> http_parser \<Rightarrow> bool" where
  "core_eq p q \<longleftrightarrow> p\<lparr>nread := 0, state := s_dead\<rparr> = q\<lparr>nread := 0, state := s_dead\<rparr>"

lemma core_eqD:
  assumes "core_eq p q"
  shows "type p = type q" and "flags p = flags q" and "header_state p = header_state q" and "index p = index q"
    and "extra_flags p = extra_flags q" and "lenient_http_headers p = lenient_http_headers q"
    and "content_length p = content_length q" and "http_major p = http_major q" and "http_minor p = http_minor q"
    and "status_code p = status_code q" and "method p = method q" and "http_errno p = http_errno q"
    and "upgrade p = upgrade q"
  using assms by (cases p; cases q; simp add: core_eq_def)+

lemma core_eq_refl [simp]: "core_eq p p"
  by (simp add: core_eq_def)

lemma core_eq_update:
  "core_eq p q \<Longrightarrow> p = q\<lparr>nread := nread p, state := state p\<rparr>"
  "core_eq p q \<Longrightarrow> p\<lparr>nread := x, state := s\<rparr> = q\<lparr>nread := x, state := s\<rparr>"
  by (cases p; cases q; simp add: core_eq_def)+

text \<open>Two contexts, in the whole buffer and in the part, at corresponding points.\<close>

definition sim :: "nat \<Rightarrow> byte list \<Rightarrow> byte list \<Rightarrow> event list ctx \<Rightarrow> event list ctx \<Rightarrow> bool" where
  "sim n d d' c c' \<longleftrightarrow>
    ptr c = n + ptr c' \<and> p_state c = p_state c' \<and> n_read c = n_read c' \<and>
    core_eq (parser c) (parser c') \<and> marks_ok c \<and> marks_ok c' \<and>
    (\<forall>m. marks c m = None \<longrightarrow> marks c' m = None) \<and>
    (\<forall>m. m \<noteq> M_body \<and> marks c' m = None \<longrightarrow> marks c m = None) \<and>
    (\<forall>m. m \<noteq> M_body \<and> p_state c' \<in> mark_states m \<longrightarrow> marks c m \<noteq> None) \<and>
    glue (app c @ pending d c) = glue (app c' @ pending d' c')"

text \<open>No mark is needed between two buffers.\<close>

definition unmarked :: "state \<Rightarrow> bool" where
  "unmarked s \<longleftrightarrow> (\<forall>m. m \<noteq> M_body \<longrightarrow> s \<notin> mark_states m)"

lemma unmarked_iff: "unmarked s \<longleftrightarrow> s \<notin> url_states \<and> s \<notin> {s_header_field, s_header_value, s_res_status}"
proof
  assume "unmarked s"
  then have "\<And>m. m \<noteq> M_body \<Longrightarrow> s \<notin> mark_states m" by (simp add: unmarked_def)
  from this [of M_header_field] this [of M_header_value] this [of M_url] this [of M_status]
  show "s \<notin> url_states \<and> s \<notin> {s_header_field, s_header_value, s_res_status}" by simp
next
  assume *: "s \<notin> url_states \<and> s \<notin> {s_header_field, s_header_value, s_res_status}"
  have "s \<notin> mark_states m" if "m \<noteq> M_body" for m using * that by (cases m) auto
  then show "unmarked s" by (simp add: unmarked_def)
qed

lemma initial_marks_iff: "initial_marks s m = (if m \<noteq> M_body \<and> s \<in> mark_states m then Some 0 else None)"
  by (cases m) (auto simp: initial_marks_def url_states_def)

lemma sim_glue: "sim n d d' c c' \<Longrightarrow> glue (app c @ pending d c) = glue (app c' @ pending d' c')"
  by (simp only: sim_def)

lemma sim_no_marks:
  assumes "ptr c = n + ptr c'" and "p_state c = p_state c'" and "n_read c = n_read c'"
    and "core_eq (parser c) (parser c')" and "marks c = (\<lambda>_. None)" and "marks c' = (\<lambda>_. None)"
    and "unmarked (p_state c')" and "glue (app c) = glue (app c')"
  shows "sim n d d' c c'"
  using assms unfolding sim_def unmarked_def by (auto simp del: not_None_eq)

lemma sim_one_mark:
  assumes "ptr c = n + ptr c'" and "p_state c = p_state c'" and "n_read c = n_read c'"
    and "core_eq (parser c) (parser c')"
    and "marks c = (\<lambda>_. None)(m := Some i)" and "marks c' = (\<lambda>_. None)(m := Some i')"
    and "i \<le> n + ptr c'" and "i' \<le> ptr c'" and "p_state c' \<in> mark_states m"
    and "glue (app c @ [Received m (seg d i (n + ptr c'))]) = glue (app c' @ [Received m (seg d' i' (ptr c'))])"
  shows "sim n d d' c c'"
proof -
  have "m' = m" if "p_state c' \<in> mark_states m'" for m' using mark_states_disjoint [OF that assms(9)] .
  then have "\<forall>m'. m' \<noteq> M_body \<and> p_state c' \<in> mark_states m' \<longrightarrow> m' = m" by blast
  moreover have "marks_ok c" "marks_ok c'" using assms by (simp_all add: marks_ok_single)
  ultimately show ?thesis using assms unfolding sim_def by (simp del: not_None_eq)
qed

lemma sim_none:
  assumes "sim n d d' c c'" and "markless (p_state c')"
  shows "marks c = (\<lambda>_. None)" and "marks c' = (\<lambda>_. None)" and "glue (app c) = glue (app c')"
  using assms marks_markless [of c] marks_markless [of c'] by (simp_all add: sim_def)

lemma sim_one:
  assumes "sim n d d' c c'" and "p_state c' \<in> mark_states m" and "m \<noteq> M_body"
  obtains i i' where "marks c = (\<lambda>_. None)(m := Some i)" and "marks c' = (\<lambda>_. None)(m := Some i')"
    and "i \<le> ptr c" and "i' \<le> ptr c'"
    and "glue (app c @ [Received m (seg d i (ptr c))]) = glue (app c' @ [Received m (seg d' i' (ptr c'))])"
proof -
  from assms obtain i i' where i: "marks c m = Some i" "marks c' m = Some i'"
    unfolding sim_def by (metis not_None_eq)
  have s: "marks_ok c" "marks_ok c'" "p_state c = p_state c'" using assms(1) by (simp_all add: sim_def)
  have eq: "marks c = (\<lambda>_. None)(m := Some i)" "marks c' = (\<lambda>_. None)(m := Some i')"
    using marks_ok_cleared [OF s(1), of m] marks_ok_cleared [OF s(2), of m] i s(3) assms(2)
    by (metis fun_upd_triv fun_upd_upd)+
  then have "i \<le> ptr c" "i' \<le> ptr c'" using marks_okD s i by blast+
  moreover have "glue (app c @ [Received m (seg d i (ptr c))]) = glue (app c' @ [Received m (seg d' i' (ptr c'))])"
    using sim_glue [OF assms(1)] unfolding pending_one [OF eq(1)] pending_one [OF eq(2)] .
  ultimately show ?thesis by (rule that [OF eq])
qed

section \<open>Following the whole\<close>

text \<open>Without an error, and to the end of the buffer.\<close>

definition fine :: "nat \<Rightarrow> 'a exec_result option \<Rightarrow> bool" where
  "fine k res \<longleftrightarrow> (\<exists>pr a. res = Some (Returned k pr a) \<and> http_errno pr = HPE_OK)"

lemma fine_Returned [simp]: "fine k (Some (Returned v pr a)) \<longleftrightarrow> v = k \<and> http_errno pr = HPE_OK"
  by (auto simp: fine_def)

lemma fine_Aborted [simp]: "\<not> fine k (Some Aborted)"
  by (simp add: fine_def)

inductive alike :: "nat \<Rightarrow> byte list \<Rightarrow> byte list \<Rightarrow> event list outcome \<Rightarrow> event list outcome \<Rightarrow> bool"
  for n d d' where
  alike_Break: "sim n d d' (c\<lparr>ptr := ptr c + 1\<rparr>) (c'\<lparr>ptr := ptr c' + 1\<rparr>) \<Longrightarrow> alike n d d' (Break c) (Break c')"
| alike_Reexecute: "sim n d d' c c' \<Longrightarrow> cur c = cur c' \<Longrightarrow> p_state c' \<noteq> s_header_value \<Longrightarrow>
    alike n d d' (Reexecute c) (Reexecute c')"
| alike_Return: "glue a = glue a' \<Longrightarrow> alike n d d' (Return (n + v) pr a) (Return v pr a')"

text \<open>The outcome in the part leads on like the one in the whole, or like one that the whole comes to.\<close>

definition follows ::
  "event list exec_env \<Rightarrow> nat \<Rightarrow> event list exec_env \<Rightarrow> event list outcome \<Rightarrow> event list outcome \<Rightarrow> bool"
where
  "follows W n F out out' \<longleftrightarrow>
    (fine (data_end W) (run W out) \<longrightarrow> (\<exists>o'. run W out = run W o' \<and> alike n (data W) (data F) o' out'))"

lemma follows_alike: "alike n (data W) (data F) out out' \<Longrightarrow> follows W n F out out'"
  by (auto simp: follows_def)

lemma run_fail: "e \<noteq> HPE_OK \<Longrightarrow> \<not> fine k (run W (fail e c))"
  by (simp add: fail_def goto_error_def SET_ERRNO_def set_errno_def RETURN_def)

lemma follows_fail: "e \<noteq> HPE_OK \<Longrightarrow> follows W n F (fail e c) out'"
  by (simp add: follows_def run_fail)

lemma follows_Abort: "follows W n F Abort out'"
  by (simp add: follows_def)

lemma follows_error: "http_errno (parser c) \<noteq> HPE_OK \<Longrightarrow> follows W n F (RETURN v c) out'"
  by (simp add: follows_def RETURN_def)

lemma follows_strict:
  "cond = cond' \<Longrightarrow> (\<not> cond' \<Longrightarrow> follows W n F (k c) (k' c')) \<Longrightarrow>
    follows W n F (STRICT_CHECK cond c k) (STRICT_CHECK cond' c' k')"
  by (simp add: STRICT_CHECK_def follows_fail)

lemma follows_if:
  "cond = cond' \<Longrightarrow> (cond' \<Longrightarrow> follows W n F a a') \<Longrightarrow> (\<not> cond' \<Longrightarrow> follows W n F b b') \<Longrightarrow>
    follows W n F (if cond then a else b) (if cond' then a' else b')"
  by simp

lemma follows_RETURN:
  assumes "p_state c = p_state c'" and "n_read c = n_read c'" and "core_eq (parser c) (parser c')"
    and "glue (app c) = glue (app c')"
  shows "follows W n F (RETURN (Suc (n + v)) c) (RETURN (Suc v) c')"
proof -
  have "(parser c)\<lparr>nread := n_read c', state := p_state c'\<rparr> = (parser c')\<lparr>nread := n_read c', state := p_state c'\<rparr>"
    by (rule core_eq_update(2) [OF assms(3)])
  with assms alike_Return [of "app c" "app c'" n "data W" "data F" "Suc v"] show ?thesis
    by (simp add: RETURN_def follows_alike)
qed

lemma follows_Break:
  assumes "ptr c = n + ptr c'" and "p_state c = p_state c'" and "n_read c = n_read c'"
    and "core_eq (parser c) (parser c')" and "marks c = (\<lambda>_. None)" and "marks c' = (\<lambda>_. None)"
    and "unmarked (p_state c')" and "glue (app c) = glue (app c')"
  shows "follows W n F (Break c) (Break c')"
  by (intro follows_alike alike_Break sim_no_marks) (use assms in simp_all)

lemma follows_Reexecute:
  assumes "ptr c = n + ptr c'" and "p_state c = p_state c'" and "n_read c = n_read c'"
    and "core_eq (parser c) (parser c')" and "marks c = (\<lambda>_. None)" and "marks c' = (\<lambda>_. None)"
    and "unmarked (p_state c')" and "glue (app c) = glue (app c')"
    and "cur c = cur c'"
  shows "follows W n F (Reexecute c) (Reexecute c')"
  by (intro follows_alike alike_Reexecute sim_no_marks)
    (use assms in \<open>auto simp: unmarked_iff\<close>)

text \<open>A byte more.\<close>

lemma seg_Suc: "i \<le> j \<Longrightarrow> j < length d \<Longrightarrow> seg d i (Suc j) = seg d i j @ [d ! j]"
  using seg_append [of i j "Suc j" d] by (simp add: seg_def take_Suc_conv_app_nth)

lemma glue_more:
  assumes "glue (a @ [Received m (seg d i p)]) = glue (a' @ [Received m (seg d' i' p')])"
    and "i \<le> p" and "p \<le> q" and "i' \<le> p'" and "p' \<le> q'" and "seg d p q = seg d' p' q'"
  shows "glue (a @ [Received m (seg d i q)]) = glue (a' @ [Received m (seg d' i' q')])"
proof -
  have "seg d i q = seg d i p @ seg d p q" "seg d' i' q' = seg d' i' p' @ seg d p q"
    using seg_append assms by metis+
  with glue_cong [OF assms(1), of "[Received m (seg d p q)]"] show ?thesis
    by (simp add: glue_pieces)
qed

lemma follows_Reexecute_marked:
  assumes "ptr c = n + ptr c'" and "p_state c = p_state c'" and "n_read c = n_read c'"
    and "core_eq (parser c) (parser c')"
    and "marks c = (\<lambda>_. None)(m := Some i)" and "marks c' = (\<lambda>_. None)(m := Some i')"
    and "i \<le> n + ptr c'" and "i' \<le> ptr c'" and "p_state c' \<in> mark_states m"
    and "glue (app c @ [Received m (seg (data W) i (n + ptr c'))]) =
      glue (app c' @ [Received m (seg (data F) i' (ptr c'))])"
    and "cur c = cur c'" and "p_state c' \<noteq> s_header_value"
  shows "follows W n F (Reexecute c) (Reexecute c')"
  using assms by (intro follows_alike alike_Reexecute sim_one_mark [of _ _ _ m i i']) auto

lemma follows_Break_from:
  assumes "ptr c = n + ptr c'" and "p_state c = p_state c'" and "n_read c = n_read c'"
    and "core_eq (parser c) (parser c')"
    and "marks c = (\<lambda>_. None)(m := Some i)" and "marks c' = (\<lambda>_. None)(m := Some i')"
    and "i \<le> n + p" and "i' \<le> p" and "p \<le> ptr c'" and "p_state c' \<in> mark_states m"
    and glue: "glue (app c @ [Received m (seg (data W) i (n + p))]) = glue (app c' @ [Received m (seg (data F) i' p)])"
    and seg: "seg (data W) (n + p) (Suc (n + ptr c')) = seg (data F) p (Suc (ptr c'))"
  shows "follows W n F (Break c) (Break c')"
proof -
  have "glue (app c @ [Received m (seg (data W) i (Suc (n + ptr c')))]) =
      glue (app c' @ [Received m (seg (data F) i' (Suc (ptr c')))])"
    by (rule glue_more [OF glue _ _ _ _ seg]) (use assms in simp_all)
  with assms show ?thesis
    by (intro follows_alike alike_Break sim_one_mark [of _ _ _ m i i']) auto
qed

lemma follows_Break_marked:
  assumes "ptr c = n + ptr c'" and "p_state c = p_state c'" and "n_read c = n_read c'"
    and "core_eq (parser c) (parser c')"
    and "marks c = (\<lambda>_. None)(m := Some i)" and "marks c' = (\<lambda>_. None)(m := Some i')"
    and "i \<le> n + ptr c'" and "i' \<le> ptr c'" and "p_state c' \<in> mark_states m"
    and "glue (app c @ [Received m (seg (data W) i (n + ptr c'))]) =
      glue (app c' @ [Received m (seg (data F) i' (ptr c'))])"
    and "n + ptr c' < data_end W" and "ptr c' < data_end F" and "data W ! (n + ptr c') = data F ! ptr c'"
  shows "follows W n F (Break c) (Break c')"
  by (rule follows_Break_from [where m = m and i = i and i' = i' and p = "ptr c'"])
    (use assms in \<open>simp_all add: seg_def take_Suc_conv_app_nth\<close>)

lemma follows_count:
  assumes "max_header_size W = max_header_size F" and "n_read c = n_read c'"
    and "n_read c' + of_nat v \<le> max_header_size F \<Longrightarrow>
      follows W n F (k (c\<lparr>n_read := n_read c' + of_nat v\<rparr>)) (k' (c'\<lparr>n_read := n_read c' + of_nat v\<rparr>))"
  shows "follows W n F (COUNT_HEADER_SIZE W v c k) (COUNT_HEADER_SIZE F v c' k')"
  using assms by (auto simp: COUNT_HEADER_SIZE_def Let_def follows_fail not_less)

lemma follows_via:
  assumes "fine (data_end W) (run W out) \<Longrightarrow> run W out = run W o1 \<and> follows W n F o1 out'"
  shows "follows W n F out out'"
  using assms by (auto simp: follows_def)

section \<open>Case by case\<close>

definition here :: "event list exec_env \<Rightarrow> nat \<Rightarrow> event list exec_env \<Rightarrow> event list ctx \<Rightarrow> event list ctx \<Rightarrow> bool" where
  "here W n F c c' \<longleftrightarrow>
    window W n F \<and> sim n (data W) (data F) c c' \<and> cur c = cur c' \<and> ptr c' < data_end F \<and>
    http_errno (parser c') = HPE_OK"

lemma here_facts:
  assumes "here W n F c c'"
  shows "settings W = recorder" and "settings F = recorder" and "lenient W = lenient F"
    and "max_header_size W = max_header_size F" and "ptr c = n + ptr c'" and "p_state c = p_state c'"
    and "n_read c = n_read c'" and "cur c = cur c'" and "http_errno (parser c') = HPE_OK"
    and "ptr c' < data_end F" and "core_eq (parser c) (parser c')"
  using assms by (simp_all add: here_def sim_def window_def)

lemma window_byte:
  assumes "window W n F" and "i < data_end F"
  shows "data W ! (n + i) = data F ! i" and "n + i < data_end W"
proof -
  have "drop (n + i) (data W) = data F ! i # drop (Suc i) (data F) @ drop (n + data_end F) (data W)"
    using window_drop(1) [OF assms(1), of i] assms(2) by (simp add: Cons_nth_drop_Suc [symmetric])
  moreover show "n + i < data_end W" using window_drop(2) [OF assms(1), of i] assms(2) by simp
  ultimately show "data W ! (n + i) = data F ! i" by (simp add: Cons_nth_drop_Suc [symmetric])
qed

lemma here_byte:
  assumes "here W n F c c'"
  shows "n + ptr c' < data_end W" and "ptr c' < data_end F" and "data W ! (n + ptr c') = data F ! ptr c'"
  using assms window_byte [of W n F "ptr c'"] by (simp_all add: here_def)

text \<open>Between the parts of a message that are marked, the two contexts differ in three places.\<close>

lemma markless_unmarked: "markless s \<Longrightarrow> unmarked s"
  by (simp add: markless_def unmarked_def)

lemma here_noneE:
  assumes "here W n F c c'" and "markless (p_state c')"
  obtains x y a where "c = c'\<lparr>ptr := n + ptr c', parser := (parser c')\<lparr>nread := x, state := y\<rparr>, app := a\<rparr>"
    and "glue a = glue (app c')" and "marks c' = (\<lambda>_. None)" and "http_errno (parser c') = HPE_OK"
    and "settings W = recorder" and "settings F = recorder" and "lenient W = lenient F" and "unmarked (p_state c')"
proof -
  have "sim n (data W) (data F) c c'" using assms(1) by (simp add: here_def)
  note none = sim_none [OF this assms(2)]
  have eq: "c = c'\<lparr>ptr := n + ptr c', parser := (parser c')\<lparr>nread := nread (parser c), state := state (parser c)\<rparr>, app := app c\<rparr>"
    using core_eq_update(1) [OF here_facts(11) [OF assms(1)]] here_facts(5-8) [OF assms(1)] none
    by (cases c; cases c') simp
  note facts = here_facts [OF assms(1)]
  show ?thesis by (rule that [OF eq none(3) none(2) facts(9,1,2,3) markless_unmarked [OF assms(2)]])
qed

lemma here_oneE:
  assumes "here W n F c c'" and "p_state c' \<in> mark_states m" and "m \<noteq> M_body"
  obtains x y a i i' where
    "c = c'\<lparr>ptr := n + ptr c', parser := (parser c')\<lparr>nread := x, state := y\<rparr>, app := a, marks := (\<lambda>_. None)(m := Some i)\<rparr>"
    and "marks c' = (\<lambda>_. None)(m := Some i')" and "i \<le> n + ptr c'" and "i' \<le> ptr c'"
    and "glue (a @ [Received m (seg (data W) i (n + ptr c'))]) = glue (app c' @ [Received m (seg (data F) i' (ptr c'))])"
    and "http_errno (parser c') = HPE_OK" and "settings W = recorder" and "settings F = recorder"
    and "lenient W = lenient F"
proof -
  have "sim n (data W) (data F) c c'" using assms(1) by (simp add: here_def)
  from sim_one [OF this assms(2,3)] obtain i i' where
    one: "marks c = (\<lambda>_. None)(m := Some i)" "marks c' = (\<lambda>_. None)(m := Some i')" "i \<le> ptr c" "i' \<le> ptr c'"
      "glue (app c @ [Received m (seg (data W) i (ptr c))]) = glue (app c' @ [Received m (seg (data F) i' (ptr c'))])"
    by blast
  note facts = here_facts [OF assms(1)]
  have eq: "c = c'\<lparr>ptr := n + ptr c', parser := (parser c')\<lparr>nread := nread (parser c), state := state (parser c)\<rparr>,
      app := app c, marks := (\<lambda>_. None)(m := Some i)\<rparr>"
    using core_eq_update(1) [OF facts(11)] facts(5-8) one(1) by (cases c; cases c') simp
  show ?thesis by (rule that [OF eq one(2) one(3-5) [unfolded facts(5)] facts(9,1,2,3)])
qed

end
