(* ===== verification/HttpPieceCases.thy ===== *)
theory HttpPieceCases
  imports HttpWindow
begin

text \<open>
  The cases of the switch that take one byte, on a part of the buffer and on the whole.
\<close>

lemma glue_same: "glue a = glue a' \<Longrightarrow> (glue (a @ b) = glue (a' @ b)) = True"
  using glue_cong by blast

lemma needs_eof_core [simp]:
  "sn_http_message_needs_eof (pr\<lparr>nread := x\<rparr>) = sn_http_message_needs_eof pr"
  "sn_http_message_needs_eof (pr\<lparr>state := y\<rparr>) = sn_http_message_needs_eof pr"
  by (simp_all add: sn_http_message_needs_eof_def)

lemma NEW_MESSAGE_core [simp]:
  "NEW_MESSAGE (pr\<lparr>nread := x\<rparr>) = NEW_MESSAGE pr" "NEW_MESSAGE (pr\<lparr>state := y\<rparr>) = NEW_MESSAGE pr"
  by (simp_all add: NEW_MESSAGE_def start_state_def sn_http_should_keep_alive_def)

lemma unmarked_NEW_MESSAGE [simp]: "unmarked (NEW_MESSAGE pr)"
  by (simp add: NEW_MESSAGE_def start_state_def unmarked_iff url_states_def)

lemma unmarked_states [simp]:
  "unmarked s_dead" "unmarked s_start_req_or_res" "unmarked s_res_or_resp_H" "unmarked s_start_res" "unmarked s_res_H"
  "unmarked s_res_HT" "unmarked s_res_HTT" "unmarked s_res_HTTP" "unmarked s_res_http_major" "unmarked s_res_http_dot"
  "unmarked s_res_http_minor" "unmarked s_res_http_end" "unmarked s_res_first_status_code" "unmarked s_res_status_code"
  "unmarked s_res_status_start" "unmarked s_res_line_almost_done" "unmarked s_start_req" "unmarked s_req_method"
  "unmarked s_req_spaces_before_url" "unmarked s_req_http_start" "unmarked s_req_http_H" "unmarked s_req_http_HT"
  "unmarked s_req_http_HTT" "unmarked s_req_http_HTTP" "unmarked s_req_http_I" "unmarked s_req_http_IC"
  "unmarked s_req_http_major" "unmarked s_req_http_dot" "unmarked s_req_http_minor" "unmarked s_req_http_end"
  "unmarked s_req_line_almost_done" "unmarked s_header_field_start" "unmarked s_header_value_discard_ws"
  "unmarked s_header_value_discard_ws_almost_done" "unmarked s_header_value_discard_lws" "unmarked s_header_value_start"
  "unmarked s_header_value_lws" "unmarked s_header_almost_done" "unmarked s_chunk_size_start" "unmarked s_chunk_size"
  "unmarked s_chunk_parameters" "unmarked s_chunk_size_almost_done" "unmarked s_headers_almost_done"
  "unmarked s_headers_done" "unmarked s_chunk_data" "unmarked s_chunk_data_almost_done" "unmarked s_chunk_data_done"
  "unmarked s_body_identity" "unmarked s_body_identity_eof" "unmarked s_message_done"
  by (simp_all add: unmarked_iff url_states_def)

lemma method_char_unmarked: "method_char m i ch = Some (m', s) \<Longrightarrow> unmarked s"
  by (auto simp: method_char_def split: if_splits)

lemmas piece_rules =
  Let_def STRICT_CHECK_def CALLBACK_NOTIFY_def CALLBACK_NOTIFY_NOADVANCE_def recorder_callback_notify core_eq_def
  follows_fail follows_Abort follows_Break follows_Reexecute glue_same

section \<open>Between the marked parts\<close>

lemma follows_dead:
  assumes "here W n F c c'" and "markless (p_state c')"
  shows "follows W n F (at_dead c) (at_dead c')"
  by (rule here_noneE [OF assms]) (simp add: at_dead_def piece_rules)

lemma follows_start_req_or_res:
  assumes "here W n F c c'" and "markless (p_state c')"
  shows "follows W n F (at_start_req_or_res W c) (at_start_req_or_res F c')"
  by (rule here_noneE [OF assms]) (simp add: at_start_req_or_res_def reset_message_def piece_rules)

lemma follows_res_or_resp_H:
  assumes "here W n F c c'" and "markless (p_state c')"
  shows "follows W n F (at_res_or_resp_H c) (at_res_or_resp_H c')"
  by (rule here_noneE [OF assms]) (simp add: at_res_or_resp_H_def piece_rules)

lemma follows_start_res:
  assumes "here W n F c c'" and "markless (p_state c')"
  shows "follows W n F (at_start_res W c) (at_start_res F c')"
  by (rule here_noneE [OF assms]) (simp add: at_start_res_def reset_message_def piece_rules)

lemma follows_res_HTTP:
  assumes "here W n F c c'" and "markless (p_state c')"
  shows "follows W n F (at_res_HTTP c) (at_res_HTTP c')"
  by (rule here_noneE [OF assms]; cases "p_state c'"; simp add: at_res_HTTP_def expect_def piece_rules)

lemma follows_res_http_version:
  assumes "here W n F c c'" and "markless (p_state c')"
  shows "follows W n F (at_res_http_version c) (at_res_http_version c')"
  by (rule here_noneE [OF assms]; cases "p_state c'"; simp add: at_res_http_version_def piece_rules)

lemma follows_res_first_status_code:
  assumes "here W n F c c'" and "markless (p_state c')"
  shows "follows W n F (at_res_first_status_code c) (at_res_first_status_code c')"
  by (rule here_noneE [OF assms]) (simp add: at_res_first_status_code_def piece_rules)

lemma follows_res_status_code:
  assumes "here W n F c c'" and "markless (p_state c')"
  shows "follows W n F (at_res_status_code c) (at_res_status_code c')"
  by (rule here_noneE [OF assms]) (simp add: at_res_status_code_def piece_rules)

lemma follows_start_req:
  assumes "here W n F c c'" and "markless (p_state c')"
  shows "follows W n F (at_start_req W c) (at_start_req F c')"
  by (rule here_noneE [OF assms]) (simp add: at_start_req_def reset_message_def piece_rules split: option.split)

lemma follows_req_method:
  assumes "here W n F c c'" and "markless (p_state c')"
  shows "follows W n F (at_req_method c) (at_req_method c')"
  by (rule here_noneE [OF assms]) (auto simp: at_req_method_def piece_rules dest: method_char_unmarked split: option.split)

lemma follows_req_http_start:
  assumes "here W n F c c'" and "markless (p_state c')"
  shows "follows W n F (at_req_http_start c) (at_req_http_start c')"
  by (rule here_noneE [OF assms]) (simp add: at_req_http_start_def piece_rules)

lemma follows_req_HTTP:
  assumes "here W n F c c'" and "markless (p_state c')"
  shows "follows W n F (at_req_HTTP c) (at_req_HTTP c')"
  by (rule here_noneE [OF assms]; cases "p_state c'"; simp add: at_req_HTTP_def expect_def piece_rules)

lemma follows_req_http_version:
  assumes "here W n F c c'" and "markless (p_state c')"
  shows "follows W n F (at_req_http_version c) (at_req_http_version c')"
  by (rule here_noneE [OF assms]; cases "p_state c'"; simp add: at_req_http_version_def piece_rules)

lemma follows_req_http_end:
  assumes "here W n F c c'" and "markless (p_state c')"
  shows "follows W n F (at_req_http_end c) (at_req_http_end c')"
  by (rule here_noneE [OF assms]) (simp add: at_req_http_end_def piece_rules)

lemma follows_req_line_almost_done:
  assumes "here W n F c c'" and "markless (p_state c')"
  shows "follows W n F (at_req_line_almost_done c) (at_req_line_almost_done c')"
  by (rule here_noneE [OF assms]) (simp add: at_req_line_almost_done_def piece_rules)

lemma follows_header_almost_done:
  assumes "here W n F c c'" and "markless (p_state c')"
  shows "follows W n F (at_header_almost_done c) (at_header_almost_done c')"
  by (rule here_noneE [OF assms]) (simp add: at_header_almost_done_def piece_rules)

lemma follows_header_value_lws:
  assumes "here W n F c c'" and "markless (p_state c')"
  shows "follows W n F (at_header_value_lws c) (at_header_value_lws c')"
  by (rule here_noneE [OF assms]) (simp add: at_header_value_lws_def finish_header_def piece_rules)

lemma follows_chunk_size_start:
  assumes "here W n F c c'" and "markless (p_state c')"
  shows "follows W n F (at_chunk_size_start c) (at_chunk_size_start c')"
  by (rule here_noneE [OF assms]) (simp add: at_chunk_size_start_def piece_rules)

lemma follows_chunk_size:
  assumes "here W n F c c'" and "markless (p_state c')"
  shows "follows W n F (at_chunk_size c) (at_chunk_size c')"
  by (rule here_noneE [OF assms]) (simp add: at_chunk_size_def piece_rules)

lemma follows_chunk_parameters:
  assumes "here W n F c c'" and "markless (p_state c')"
  shows "follows W n F (at_chunk_parameters c) (at_chunk_parameters c')"
  by (rule here_noneE [OF assms]) (simp add: at_chunk_parameters_def piece_rules)

lemma follows_chunk_size_almost_done:
  assumes "here W n F c c'" and "markless (p_state c')"
  shows "follows W n F (at_chunk_size_almost_done W c) (at_chunk_size_almost_done F c')"
  by (rule here_noneE [OF assms]) (simp add: at_chunk_size_almost_done_def piece_rules)

lemma follows_chunk_data_done:
  assumes "here W n F c c'" and "markless (p_state c')"
  shows "follows W n F (at_chunk_data_done W c) (at_chunk_data_done F c')"
  by (rule here_noneE [OF assms]) (simp add: at_chunk_data_done_def piece_rules)

lemma follows_message_done:
  assumes "here W n F c c'" and "markless (p_state c')"
  shows "follows W n F (at_message_done W c) (at_message_done F c')"
  by (rule here_noneE [OF assms]) (simp add: at_message_done_def message_complete_def follows_RETURN piece_rules)

lemma follows_headers_almost_done:
  assumes "here W n F c c'" and "markless (p_state c')"
  shows "follows W n F (at_headers_almost_done W c) (at_headers_almost_done F c')"
  by (rule here_noneE [OF assms], simp only: at_headers_almost_done_def recorder_headers Let_def option.case prod.case;
      intro follows_strict follows_if; simp add: upgrade_requested_def piece_rules)

lemma follows_headers_done:
  assumes "here W n F c c'" and "markless (p_state c')"
  shows "follows W n F (at_headers_done W c) (at_headers_done F c')"
  by (rule here_noneE [OF assms], simp only: at_headers_done_def message_complete_def Let_def;
      intro follows_strict follows_if;
      simp add: has_body_def SET_ERRNO_def set_errno_def follows_error follows_RETURN piece_rules)

section \<open>Where a mark is set\<close>

lemma url_state_mark [simp]: "parse_url_char s ch \<noteq> s_dead \<Longrightarrow> parse_url_char s ch \<in> url_states"
  by (rule parse_url_char_range)

lemma follows_res_status_start:
  assumes "here W n F c c'" and "markless (p_state c')"
  shows "follows W n F (at_res_status_start c) (at_res_status_start c')"
  by (rule here_noneE [OF assms])
    (simp add: at_res_status_start_def MARK_def piece_rules here_byte [OF assms(1)]
      follows_Break_marked [of _ n _ M_status "n + ptr c'" "ptr c'" W F]
      follows_Reexecute_marked [of _ n _ M_status "n + ptr c'" "ptr c'" W F])

lemma follows_req_spaces_before_url:
  assumes "here W n F c c'" and "markless (p_state c')"
  shows "follows W n F (at_req_spaces_before_url c) (at_req_spaces_before_url c')"
  by (rule here_noneE [OF assms])
    (simp add: at_req_spaces_before_url_def url_char_def MARK_def piece_rules here_byte [OF assms(1)]
      follows_Break_marked [of _ n _ M_url "n + ptr c'" "ptr c'" W F])

lemma follows_header_field_start:
  assumes "here W n F c c'" and "markless (p_state c')"
  shows "follows W n F (at_header_field_start c) (at_header_field_start c')"
  by (rule here_noneE [OF assms])
    (simp add: at_header_field_start_def MARK_def piece_rules here_byte [OF assms(1)]
      follows_Break_marked [of _ n _ M_header_field "n + ptr c'" "ptr c'" W F])

lemma follows_header_value_start:
  assumes "here W n F c c'" and "markless (p_state c')"
  shows "follows W n F (at_header_value_start c) (at_header_value_start c')"
  by (rule here_noneE [OF assms]; cases "header_state (parser c')";
      simp add: at_header_value_start_def MARK_def piece_rules here_byte [OF assms(1)]
        follows_Break_marked [of _ n _ M_header_value "n + ptr c'" "ptr c'" W F])

lemma follows_header_value_discard_ws:
  assumes "here W n F c c'" and "markless (p_state c')"
  shows "follows W n F (at_header_value_discard_ws c) (at_header_value_discard_ws c')"
proof -
  note start = follows_header_value_start [OF assms]
  show ?thesis
    by (rule here_noneE [OF assms])
      (use start in \<open>simp add: at_header_value_discard_ws_def piece_rules\<close>)
qed

lemma follows_header_value_discard_lws:
  assumes "here W n F c c'" and "markless (p_state c')"
  shows "follows W n F (at_header_value_discard_lws W c) (at_header_value_discard_lws F c')"
  by (rule here_noneE [OF assms])
    (simp add: at_header_value_discard_lws_def finish_header_def MARK_def CALLBACK_DATA_NOADVANCE_def
      recorder_callback_data piece_rules)

section \<open>Under a mark\<close>

lemma follows_req_schema:
  assumes "here W n F c c'" and "p_state c' \<in> url_states"
  shows "follows W n F (at_req_schema c) (at_req_schema c')"
  by (rule here_oneE [OF assms(1), of M_url])
    (use assms(2) in \<open>simp_all add: at_req_schema_def url_char_def Let_def core_eq_def here_byte [OF assms(1)]
      follows_fail follows_Break_marked parse_url_char_range\<close>)

lemma follows_req_url:
  assumes "here W n F c c'" and "p_state c' \<in> url_states"
  shows "follows W n F (at_req_url W c) (at_req_url F c')"
  by (rule here_oneE [OF assms(1), of M_url])
    (use assms(2) in \<open>simp_all add: at_req_url_def url_char_def CALLBACK_DATA_def recorder_callback_data Let_def core_eq_def
       here_byte [OF assms(1)] follows_fail follows_Break follows_Break_marked parse_url_char_range\<close>)

lemma follows_res_status:
  assumes "here W n F c c'" and "p_state c' = s_res_status"
  shows "follows W n F (at_res_status W c) (at_res_status F c')"
  by (rule here_oneE [OF assms(1), of M_status])
    (use assms(2) in \<open>simp_all add: at_res_status_def CALLBACK_DATA_def recorder_callback_data core_eq_def
       here_byte [OF assms(1)] follows_Break follows_Break_marked\<close>)

end
