(* ===== verification/HttpPieceFields.thy ===== *)
theory HttpPieceFields
  imports HttpWindow
begin

text \<open>
  The cases of the switch that take many bytes at a time, on a part of the buffer and on the whole: over
  a whole buffer they go on where a part ends.
\<close>

section \<open>Counting header bytes\<close>

lemma fine_count:
  assumes "fine k (run W (COUNT_HEADER_SIZE W v c f))"
  shows "n_read c + of_nat v \<le> max_header_size W"
    and "run W (COUNT_HEADER_SIZE W v c f) = run W (f (c\<lparr>n_read := n_read c + of_nat v\<rparr>))"
proof -
  show "n_read c + of_nat v \<le> max_header_size W"
    using assms run_fail by (fastforce simp: COUNT_HEADER_SIZE_def Let_def split: if_splits)
  then have "\<not> max_header_size W < n_read c + of_nat v" by (simp add: not_less)
  then show "run W (COUNT_HEADER_SIZE W v c f) = run W (f (c\<lparr>n_read := n_read c + of_nat v\<rparr>))"
    by (simp add: COUNT_HEADER_SIZE_def Let_def)
qed

lemma count_ok:
  "n_read c + of_nat v = m \<Longrightarrow> m \<le> max_header_size env \<Longrightarrow> COUNT_HEADER_SIZE env v c f = f (c\<lparr>n_read := m\<rparr>)"
  by (auto simp: COUNT_HEADER_SIZE_def Let_def leD)

text \<open>No wrap-around: the counter and the buffer together are below \<open>2 ^ 32\<close>.\<close>

definition countable :: "'a exec_env \<Rightarrow> bool" where
  "countable env \<longleftrightarrow> unat (max_header_size env) + data_end env < 2 ^ 32"

lemma unat_add_small:
  fixes m :: u32
  assumes "unat m + k < 2 ^ 32"
  shows "unat (m + of_nat k) = unat m + k"
proof -
  from assms have "k < 2 ^ LENGTH(32)" by simp
  with assms show ?thesis by (simp add: unat_word_ariths unat_of_nat_small)
qed

lemma count_less:
  assumes "countable env" and "n \<le> max_header_size env" and "v \<le> w" and "w \<le> data_end env"
    and "n + of_nat w \<le> max_header_size env"
  shows "n + of_nat v \<le> max_header_size env"
proof -
  have "unat n \<le> unat (max_header_size env)" using assms(2) by (simp add: word_le_nat_alt)
  with assms(1,3,4) have "unat (n + of_nat w) = unat n + w" "unat (n + of_nat v) = unat n + v"
    by (auto intro!: unat_add_small simp: countable_def)
  with assms show ?thesis by (simp add: word_le_nat_alt)
qed

text \<open>The next turn, after a case that stopped before the end.\<close>

lemma run_Break_turn:
  assumes "Suc (ptr c) < data_end W" and "PARSING_HEADER (p_state c)" and "n_read c + 1 \<le> max_header_size W"
  shows "run W (Break c) = run W (step W (load W (c\<lparr>ptr := Suc (ptr c)\<rparr>)))"
  using assms by (simp add: run_Break_loop turn)

lemma run_Break_cur: "run W (Break (c\<lparr>cur := x\<rparr>)) = run W (Break c)"
proof -
  have "run W (Break (c\<lparr>cur := x\<rparr>)) = at_loop W (c\<lparr>cur := x, ptr := ptr c + 1\<rparr>)" by (simp add: run_Break_loop)
  also have "c\<lparr>cur := x, ptr := ptr c + 1\<rparr> = (c\<lparr>ptr := ptr c + 1\<rparr>)\<lparr>cur := x\<rparr>" by simp
  finally show ?thesis by (simp only: at_loop_cur run_Break_loop)
qed

lemma run_Break_eq: "c\<lparr>cur := x\<rparr> = c'\<lparr>cur := x\<rparr> \<Longrightarrow> run W (Break c) = run W (Break c')"
  using run_Break_cur by metis

lemma count_sum: "n + of_nat a + of_nat b = n + (of_nat (a + b) :: u32)"
  by (simp add: add.assoc)

section \<open>Header names\<close>

lemma header_field_end:
  assumes "ptr c < data_end env" and "field_chars (drop (ptr c) (data env)) (parser c) = Some (k, q)"
    and "ptr c + k = data_end env"
  obtains x where "at_header_field env c =
    COUNT_HEADER_SIZE env (k - 1) (c\<lparr>cur := x, parser := q, ptr := data_end env - 1\<rparr>) Break"
proof -
  have "field_end (field_loop (data env) (max_header_size env) (ptr c) (cur c) (parser c)) = Some (data_end env, q)"
    unfolding field_loop_chars using assms by simp
  then obtain x where "field_loop (data env) (max_header_size env) (ptr c) (cur c) (parser c) = Some (data_end env, x, q)"
    by (auto simp: field_end_def)
  then have "at_header_field env c =
      COUNT_HEADER_SIZE env (data_end env - 1 - ptr c) (c\<lparr>cur := x, parser := q, ptr := data_end env - 1\<rparr>) Break"
    by (simp add: at_header_field_def Let_def)
  moreover have "data_end env - 1 - ptr c = k - 1" using assms(3) by simp
  ultimately show ?thesis by (intro that) simp
qed

definition after_field :: "'a exec_env \<Rightarrow> 'a ctx \<Rightarrow> 'a outcome" where
  "after_field env c =
    (if cur c = CHR '':'' then CALLBACK_DATA env M_header_field (UPDATE_STATE s_header_value_discard_ws c) Break
     else fail HPE_INVALID_HEADER_TOKEN c)"

lemma header_field_stop:
  assumes "field_chars (drop (ptr c) (data env)) (parser c) = Some (k, q)" and "ptr c + k < data_end env"
  shows "at_header_field env c =
    COUNT_HEADER_SIZE env k (c\<lparr>ptr := ptr c + k, cur := data env ! (ptr c + k), parser := q\<rparr>) (after_field env)"
proof -
  have "field_end (field_loop (data env) (max_header_size env) (ptr c) (cur c) (parser c)) = Some (ptr c + k, q)"
    unfolding field_loop_chars using assms by simp
  then obtain x where x: "field_loop (data env) (max_header_size env) (ptr c) (cur c) (parser c) = Some (ptr c + k, x, q)"
    by (auto simp: field_end_def)
  with assms(2) have "x = data env ! (ptr c + k)" by (simp add: field_loop_at)
  with x assms show ?thesis by (simp add: at_header_field_def Let_def after_field_def [abs_def])
qed

lemma header_field_Abort:
  assumes "field_chars (drop (ptr c) (data env)) (parser c) = None"
  shows "at_header_field env c = Abort"
proof -
  have "field_end (field_loop (data env) (max_header_size env) (ptr c) (cur c) (parser c)) = None"
    unfolding field_loop_chars using assms by simp
  then show ?thesis by (auto simp: field_end_def at_header_field_def)
qed

text \<open>Over a boundary \<open>e\<close> of pieces.\<close>

lemma header_field_split:
  assumes s: "p_state c = s_header_field" and e: "ptr c < e" "e < data_end W"
    and u: "field_chars (seg (data W) (ptr c) e) (parser c) = Some (e - ptr c, q)"
    and room: "countable W" "n_read c \<le> max_header_size W"
    and fine: "fine k (run W (at_header_field W c))"
  shows "n_read c + of_nat (e - 1 - ptr c) \<le> max_header_size W"
    and "run W (at_header_field W c) =
      run W (Break (c\<lparr>parser := q, ptr := e - 1, n_read := n_read c + of_nat (e - 1 - ptr c)\<rparr>))"
proof -
  let ?m = "c\<lparr>parser := q, ptr := e - 1, n_read := n_read c + of_nat (e - 1 - ptr c)\<rparr>"
  let ?i = "ptr c" and ?n = "n_read c"
  have drop: "drop ?i (data W) = seg (data W) ?i e @ drop e (data W)" using e by (intro drop_seg) simp
  have chars: "field_chars (drop ?i (data W)) (parser c) =
      map_option (\<lambda>(l, r). (e - ?i + l, r)) (field_chars (drop e (data W)) q)"
    using e by (simp add: drop field_chars_append u)
  obtain l r where l: "field_chars (drop e (data W)) q = Some (l, r)"
    using fine header_field_Abort [of c W] chars by (cases "field_chars (drop e (data W)) q") auto
  with chars have all: "field_chars (drop ?i (data W)) (parser c) = Some (e - ?i + l, r)" by simp
  have "l \<le> data_end W - e" using field_chars_le [OF l] by simp
  then have le: "e + l \<le> data_end W" using e by simp
  have on: "run W (Break ?m) = run W (at_header_field W (?m\<lparr>ptr := e, cur := data W ! e, n_read := ?n + of_nat (e - ?i)\<rparr>))"
    if "?n + of_nat (e - ?i) \<le> max_header_size W"
  proof -
    have "?n + of_nat (e - 1 - ?i) + 1 = ?n + of_nat (e - ?i)"
      using count_sum [of ?n "e - 1 - ?i" 1] e by simp
    with that s e show ?thesis
      by (simp add: run_Break_turn step_def load_def)
  qed
  have less: "?n + of_nat v \<le> max_header_size W"
    if "v \<le> w" "w \<le> data_end W" "?n + of_nat w \<le> max_header_size W" for v w
    by (rule count_less [OF room that])
  have "?n + of_nat (e - ?i) \<le> max_header_size W \<and> run W (at_header_field W c) = run W (Break ?m)"
  proof (cases "e + l = data_end W")
    case True
    then have "?i + (e - ?i + l) = data_end W" "?i < data_end W" using e by simp_all
    from header_field_end [OF this(2) all this(1)] obtain x where
      whole: "at_header_field W c = COUNT_HEADER_SIZE W (e - ?i + l - 1) (c\<lparr>cur := x, parser := r, ptr := data_end W - 1\<rparr>) Break"
      by blast
    note count = fine_count [OF fine [unfolded whole]]
    from count(1) have total: "?n + of_nat (e - ?i + l - 1) \<le> max_header_size W" by simp
    have n: "?n + of_nat (e - ?i) \<le> max_header_size W"
      by (rule less [OF _ _ total]) (use True e in auto)
    let ?c2 = "?m\<lparr>ptr := e, cur := data W ! e, n_read := ?n + of_nat (e - ?i)\<rparr>"
    obtain x' where
      rest: "at_header_field W ?c2 = COUNT_HEADER_SIZE W (l - 1) (?c2\<lparr>cur := x', parser := r, ptr := data_end W - 1\<rparr>) Break"
      using header_field_end [of ?c2 W l r] l True e by auto
    have "1 \<le> l" using True e by simp
    then have sum: "?n + of_nat (e - ?i) + of_nat (l - 1) = ?n + of_nat (e - ?i + l - 1)"
      using count_sum [of ?n "e - ?i" "l - 1"] by simp
    let ?c3 = "?c2\<lparr>cur := x', parser := r, ptr := data_end W - 1\<rparr>"
    have "run W (Break ?m) = run W (COUNT_HEADER_SIZE W (l - 1) ?c3 Break)"
      using on [OF n] rest by simp
    also have "COUNT_HEADER_SIZE W (l - 1) ?c3 Break = Break (?c3\<lparr>n_read := ?n + of_nat (e - ?i + l - 1)\<rparr>)"
      by (rule count_ok [OF _ total]) (use sum in simp)
    also have "run W \<dots> = run W (at_header_field W c)"
      unfolding whole count(2) by (rule run_Break_eq [where x = NUL]) simp
    finally show ?thesis using n by simp
  next
    case False
    with le have lt: "e + l < data_end W" by simp
    have ptr: "?i + (e - ?i + l) = e + l" using e by simp
    have whole: "at_header_field W c =
        COUNT_HEADER_SIZE W (e - ?i + l) (c\<lparr>ptr := e + l, cur := data W ! (e + l), parser := r\<rparr>) (after_field W)"
      using header_field_stop [OF all] lt by (simp add: ptr)
    note count = fine_count [OF fine [unfolded whole]]
    from count(1) have total: "?n + of_nat (e - ?i + l) \<le> max_header_size W" by simp
    have n: "?n + of_nat (e - ?i) \<le> max_header_size W"
      by (rule less [OF _ _ total]) (use lt e in auto)
    let ?c2 = "?m\<lparr>ptr := e, cur := data W ! e, n_read := ?n + of_nat (e - ?i)\<rparr>"
    let ?c3 = "?c2\<lparr>ptr := e + l, cur := data W ! (e + l), parser := r\<rparr>"
    have rest: "at_header_field W ?c2 = COUNT_HEADER_SIZE W l ?c3 (after_field W)"
      using header_field_stop [of ?c2 W l r] l lt by simp
    have sum: "?n + of_nat (e - ?i) + of_nat l = ?n + of_nat (e - ?i + l)" by (rule count_sum)
    have "run W (Break ?m) = run W (COUNT_HEADER_SIZE W l ?c3 (after_field W))"
      using on [OF n] rest by simp
    also have "COUNT_HEADER_SIZE W l ?c3 (after_field W) = after_field W (?c3\<lparr>n_read := ?n + of_nat (e - ?i + l)\<rparr>)"
      by (rule count_ok [OF _ total]) (use sum in simp)
    also have "run W \<dots> = run W (at_header_field W c)"
      unfolding whole count(2) by simp
    finally show ?thesis using n by simp
  qed
  with less [of "e - 1 - ?i" "e - ?i"] e
  show "run W (at_header_field W c) = run W (Break ?m)" "n_read c + of_nat (e - 1 - ptr c) \<le> max_header_size W"
    by simp_all
qed

lemma follows_header_field:
  assumes here: "here W n F c c'" and s: "p_state c' = s_header_field" and "countable W"
    and "n_read c \<le> max_header_size W"
  shows "follows W n F (at_header_field W c) (at_header_field F c')"
proof -
  have w: "window W n F" using here by (simp add: here_def)
  note facts = here_facts [OF here]
  let ?p = "ptr c'"
  have "p_state c' \<in> mark_states M_header_field" using s by simp
  from here_oneE [OF here this] obtain x y a i i' where
    c: "c = c'\<lparr>ptr := n + ?p, parser := (parser c')\<lparr>nread := x, state := y\<rparr>, app := a, marks := (\<lambda>_. None)(M_header_field := Some i)\<rparr>"
    and c': "marks c' = (\<lambda>_. None)(M_header_field := Some i')" and i: "i \<le> n + ?p" "i' \<le> ?p"
    and glue: "glue (a @ [Received M_header_field (seg (data W) i (n + ?p))]) =
      glue (app c' @ [Received M_header_field (seg (data F) i' ?p)])"
    by (metis mark.distinct(5))
  let ?u = "drop ?p (data F)" and ?post = "drop (n + data_end F) (data W)"
  have drop: "drop (ptr c) (data W) = ?u @ ?post"
    using window_drop(1) [OF w, of ?p] facts(5,10) by simp
  show ?thesis
  proof (cases "field_chars ?u (parser c')")
    case None
    with drop have "field_chars (drop (ptr c) (data W)) (parser c) = None"
      by (simp add: c field_chars_append field_chars_core)
    then show ?thesis by (simp add: header_field_Abort follows_Abort)
  next
    case (Some r)
    then obtain k q where u: "field_chars ?u (parser c') = Some (k, q)" by (cases r) auto
    have k: "k \<le> data_end F - ?p" using field_chars_le [OF u] by simp
    show ?thesis
    proof (cases "k < data_end F - ?p")
      case True
      have all: "field_chars (drop (ptr c) (data W)) (parser c) = Some (k, q\<lparr>nread := x, state := y\<rparr>)"
        using drop u True by (simp add: c field_chars_append field_chars_core)
      have lt: "?p + k < data_end F" using True by simp
      have byte: "data W ! (n + ?p + k) = data F ! (?p + k)" "n + ?p + k < data_end W"
        using window_byte [OF w lt] by (simp_all add: add.assoc)
      have "glue (a @ [Received M_header_field (seg (data W) i (n + ?p + k))]) =
          glue (app c' @ [Received M_header_field (seg (data F) i' (?p + k))])"
        by (rule glue_more [OF glue]) (use i lt window_seg [OF w, of ?p "?p + k"] in \<open>simp_all add: add.assoc\<close>)
      moreover have "http_errno q = HPE_OK" using field_chars_errno [OF u] facts(9) by simp
      ultimately have after: "follows W n F
          (after_field W (c\<lparr>ptr := ptr c + k, cur := data W ! (ptr c + k), parser := q\<lparr>nread := x, state := y\<rparr>, n_read := m\<rparr>))
          (after_field F (c'\<lparr>ptr := ?p + k, cur := data F ! (?p + k), parser := q, n_read := m\<rparr>))" for m
        using facts(1,2) byte c'
        by (simp add: c after_field_def CALLBACK_DATA_def recorder_callback_data follows_fail follows_Break core_eq_def
            unmarked_iff url_states_def add.assoc)
      have "at_header_field W c = COUNT_HEADER_SIZE W k
          (c\<lparr>ptr := ptr c + k, cur := data W ! (ptr c + k), parser := q\<lparr>nread := x, state := y\<rparr>\<rparr>) (after_field W)"
        by (rule header_field_stop [OF all]) (use byte facts(5) in \<open>simp add: add.assoc\<close>)
      then show ?thesis
        unfolding header_field_stop [OF u lt]
        by simp (rule follows_count, use facts after in simp_all)
    next
      case False
      with k have stop: "?p + k = data_end F" using facts(10) by simp
      from header_field_end [OF facts(10) u stop] obtain z where
        F: "at_header_field F c' = COUNT_HEADER_SIZE F (k - 1) (c'\<lparr>cur := z, parser := q, ptr := data_end F - 1\<rparr>) Break"
        by blast
      let ?e = "n + data_end F" and ?q = "q\<lparr>nread := x, state := y\<rparr>"
      have Suc: "Suc (?e - 1) = ?e" "Suc (data_end F - 1) = data_end F" using facts(10) by simp_all
      have Break: "follows W n F (Break (c\<lparr>cur := z', parser := ?q, ptr := ?e - 1, n_read := m\<rparr>))
          (Break (c'\<lparr>cur := z, parser := q, ptr := data_end F - 1, n_read := m\<rparr>))" for z' m
        by (rule follows_Break_from [where m = M_header_field and i = i and i' = i' and p = ?p])
          (use c' i glue s facts(10) window_seg [OF w, of ?p "data_end F"] Suc in \<open>simp_all add: c core_eq_def\<close>)
      show ?thesis
      proof (cases "?e < data_end W")
        case True
        have u': "field_chars (seg (data W) (ptr c) ?e) (parser c) = Some (?e - ptr c, ?q)"
          using window_seg [OF w, of ?p "data_end F"] facts(10) u stop
          by (simp add: c field_chars_core seg_def)
        have "p_state c = s_header_field" "ptr c < ?e" using facts s by simp_all
        note split = header_field_split [OF this True u' assms(3,4)]
        have sum: "?e - 1 - ptr c = k - 1" using stop facts(5) by simp
        show ?thesis
        proof (rule follows_via, rule conjI)
          assume fine: "fine (data_end W) (run W (at_header_field W c))"
          show "run W (at_header_field W c) = run W (Break (c\<lparr>parser := ?q, ptr := ?e - 1, n_read := n_read c + of_nat (k - 1)\<rparr>))"
            using split(2) [OF fine] by (simp only: sum)
          have "n_read c' + of_nat (k - 1) \<le> max_header_size F" using split(1) [OF fine] facts(4,7) by (simp only: sum)
          then show "follows W n F (Break (c\<lparr>parser := ?q, ptr := ?e - 1, n_read := n_read c + of_nat (k - 1)\<rparr>)) (at_header_field F c')"
            using Break [of _ "cur c"] facts(7) by (simp add: F count_ok [OF refl])
        qed
      next
        case False
        with window_drop(2) [OF w, of 0] have e: "?e = data_end W" by simp
        have all: "field_chars (drop (ptr c) (data W)) (parser c) = Some (k, ?q)"
          using drop u False by (simp add: c field_chars_core)
        from facts(5,10) stop e have "ptr c < data_end W" "ptr c + k = data_end W" by simp_all
        from header_field_end [OF this(1) all this(2)] obtain z' where
          W: "at_header_field W c = COUNT_HEADER_SIZE W (k - 1) (c\<lparr>cur := z', parser := ?q, ptr := data_end W - 1\<rparr>) Break"
          by blast
        show ?thesis
          unfolding F W by (rule follows_count) (use facts Break [of _ z'] e in simp_all)
      qed
    qed
  qed
qed

end
