(* ===== verification/HttpPieceValues.thy ===== *)
theory HttpPieceValues
  imports HttpPieceFields
begin

text \<open>
  The case of header values on a part of the buffer and on the whole.
\<close>

text \<open>Where the case leads to, once the bytes are counted.\<close>

definition value_done :: "event list exec_env \<Rightarrow> value_stop \<Rightarrow> event list ctx \<Rightarrow> event list outcome" where
  "value_done env s c =
    (let c' = c\<lparr>p_state := s_header_almost_done, parser := (parser c)\<lparr>state := s_header_almost_done\<rparr>,
        app := app c @ [Received M_header_value (seg (data env) (the (marks c M_header_value)) (ptr c))],
        marks := (marks c)(M_header_value := None)\<rparr>
     in if s = Stop_end then Break (c\<lparr>ptr := ptr c - 1\<rparr>) else if s = Stop_CR then Break c' else Reexecute c')"

definition counted :: "value_stop \<Rightarrow> nat \<Rightarrow> nat" where
  "counted s k = (if s = Stop_end then k - 1 else k)"

text \<open>What is the same for the case in \<open>W\<close> and in \<open>F\<close>.\<close>

definition at_value :: "event list exec_env \<Rightarrow> event list ctx \<Rightarrow> bool" where
  "at_value env c \<longleftrightarrow>
    settings env = recorder \<and> p_state c = s_header_value \<and> marks c M_header_value \<noteq> None \<and>
    http_errno (parser c) = HPE_OK \<and> ptr c < data_end env \<and>
    header_state (parser c) \<noteq> h_connection \<and> header_state (parser c) \<noteq> h_transfer_encoding"

lemma header_value_done:
  assumes "at_value env c"
    and loop: "value_loop (data env) (max_header_size env) (lenient env) (ptr c) (cur c) (header_state (parser c)) (parser c) =
      (s, ptr c + k, x, h, q)"
    and s: "s \<in> {Stop_end, Stop_CR, Stop_LF}" and q: "http_errno q = HPE_OK"
  shows "n_read c + of_nat (counted s k) = m \<Longrightarrow> m \<le> max_header_size env \<Longrightarrow>
      at_header_value env c =
        value_done env s (c\<lparr>cur := x, parser := q\<lparr>header_state := h\<rparr>, ptr := ptr c + k, n_read := m\<rparr>)"
    and "fine j (run env (at_header_value env c)) \<Longrightarrow> n_read c + of_nat (counted s k) \<le> max_header_size env"
proof -
  from assms(1) obtain i where at: "settings env = recorder" "marks c M_header_value = Some i" "ptr c \<le> data_end env"
    "header_state (parser c) \<noteq> h_connection" "header_state (parser c) \<noteq> h_transfer_encoding"
    by (auto simp: at_value_def)
  from value_loop_ok [OF at(4,5,3) loop] s
  have stop: "s = Stop_end \<Longrightarrow> ptr c + k = data_end env" "s \<noteq> Stop_end \<Longrightarrow> ptr c + k \<noteq> data_end env" by auto
  have ends: "data_end env - Suc (ptr c) = k - Suc 0" if "s = Stop_end" using stop(1) [OF that] by simp
  show "at_header_value env c =
      value_done env s (c\<lparr>cur := x, parser := q\<lparr>header_state := h\<rparr>, ptr := ptr c + k, n_read := m\<rparr>)"
    if "n_read c + of_nat (counted s k) = m" "m \<le> max_header_size env"
    using s loop at stop that q ends
    by (auto simp: at_header_value_def value_done_def counted_def Let_def CALLBACK_DATA_def CALLBACK_DATA_NOADVANCE_def
        recorder_callback_data count_ok)
  show "n_read c + of_nat (counted s k) \<le> max_header_size env" if "fine j (run env (at_header_value env c))"
    using s loop at stop that q ends
    by (auto simp: at_header_value_def counted_def Let_def CALLBACK_DATA_def CALLBACK_DATA_NOADVANCE_def
        recorder_callback_data dest!: fine_count(1))
qed

lemma value_fine_stops:
  assumes "at_value env c"
    and "value_loop (data env) (max_header_size env) (lenient env) (ptr c) (cur c) (header_state (parser c)) (parser c) =
      (s, j, x, h, q)"
    and "fine k (run env (at_header_value env c))"
  shows "s \<in> {Stop_end, Stop_CR, Stop_LF}"
proof -
  have "header_state (parser c) \<noteq> h_connection" "header_state (parser c) \<noteq> h_transfer_encoding" "ptr c \<le> data_end env"
    using assms(1) by (simp_all add: at_value_def)
  from value_loop_ok [OF this assms(2)] show ?thesis
    using assms(2,3) run_fail by (cases s)
      (auto simp: at_header_value_def Let_def goto_error_def SET_ERRNO_def set_errno_def RETURN_def)
qed

lemma counted_less:
  assumes "countable env" and "0 < n" and "n \<le> max_header_size env" and "n + of_nat v \<le> max_header_size env"
    and "v \<le> data_end env"
  shows "v < unat (max_header_size env)"
proof -
  have "unat n \<le> unat (max_header_size env)" using assms(3) by (simp add: word_le_nat_alt)
  with assms(1,5) have "unat (n + of_nat v) = unat n + v" by (intro unat_add_small) (simp add: countable_def)
  moreover have "0 < unat n" using assms(2) by (simp add: word_less_nat_alt)
  ultimately show ?thesis using assms(4) by (simp add: word_le_nat_alt)
qed

lemma header_value_exact:
  assumes at: "at_value env c" and room: "countable env" "0 < n_read c" "n_read c \<le> max_header_size env"
    and fine: "fine j (run env (at_header_value env c))"
    and chars: "value_chars (lenient env) (drop (ptr c) (data env)) (header_state (parser c)) (parser c) = (s, k, h, q)"
  obtains x where
    "value_loop (data env) (max_header_size env) (lenient env) (ptr c) (cur c) (header_state (parser c)) (parser c) =
      (s, ptr c + k, x, h, q)"
    and "s \<in> {Stop_end, Stop_CR, Stop_LF}" and "http_errno q = HPE_OK"
    and "n_read c + of_nat (counted s k) \<le> max_header_size env" and "counted s k < unat (max_header_size env)"
proof -
  obtain s' e x h' q' where loop:
    "value_loop (data env) (max_header_size env) (lenient env) (ptr c) (cur c) (header_state (parser c)) (parser c) =
      (s', e, x, h', q')"
    by (metis prod_cases5)
  note stops = value_fine_stops [OF at loop fine]
  from at have hs: "header_state (parser c) \<noteq> h_connection" "header_state (parser c) \<noteq> h_transfer_encoding" "ptr c \<le> data_end env"
    by (simp_all add: at_value_def)
  from value_loop_ok [OF hs loop] have e: "ptr c \<le> e" "e \<le> data_end env" and q': "http_errno q' = HPE_OK"
    using at by (simp_all add: matcher_frame_def at_value_def)
  have bound: "n_read c + of_nat (counted s' (e - ptr c)) \<le> max_header_size env"
    by (rule header_value_done(2) [OF at _ stops q' fine]) (use loop e in simp)
  have less: "counted s' (e - ptr c) < unat (max_header_size env)"
    by (rule counted_less [OF room bound]) (use e in \<open>auto simp: counted_def\<close>)
  then have "\<not> ptr c + unat (max_header_size env) < e" by (auto simp: counted_def split: if_splits)
  with value_loop_chars [OF hs(3), of "max_header_size env" "lenient env" "cur c" "header_state (parser c)" "parser c"] loop chars
  have "s' = s \<and> e = ptr c + k \<and> h' = h \<and> q' = q" by (auto simp: reads_chars_def)
  with loop stops q' bound less show ?thesis by (intro that [of x]) simp_all
qed

lemma value_chars_states:
  "value_chars lnt w h pr = (Stop_end, k, h', q) \<Longrightarrow> h \<noteq> h_connection \<Longrightarrow> h \<noteq> h_transfer_encoding \<Longrightarrow>
    h' \<noteq> h_connection \<and> h' \<noteq> h_transfer_encoding"
proof (induction w arbitrary: h pr k)
  case (Cons x w)
  show ?case
  proof (cases "h = h_general")
    case True
    with Cons show ?thesis by (auto split: if_splits prod.splits)
  next
    case False
    with header_value_char_ok [OF Cons.prems(2,3) False, where c = "LOWER x" and ch = x and pr = pr] Cons show ?thesis
      by (auto split: if_splits prod.splits value_step.splits)
  qed
qed simp

lemma run_value_done_cur:
  assumes "s \<in> {Stop_end, Stop_CR, Stop_LF}" and "s = Stop_LF \<Longrightarrow> x = y"
  shows "run W (value_done W s (c\<lparr>cur := x\<rparr>)) = run W (value_done W s (c\<lparr>cur := y\<rparr>))"
proof (cases "s = Stop_LF")
  case False
  with assms(1) show ?thesis by (auto simp: value_done_def Let_def intro!: run_Break_eq [where x = NUL])
qed (use assms in simp)

text \<open>Over a boundary \<open>e\<close> of pieces.\<close>

lemma header_value_split:
  assumes at: "at_value W c" and e: "ptr c < e" "e < data_end W"
    and u: "value_chars (lenient W) (seg (data W) (ptr c) e) (header_state (parser c)) (parser c) = (Stop_end, e - ptr c, h1, q)"
    and room: "countable W" "0 < n_read c" "n_read c \<le> max_header_size W"
    and fine: "fine j (run W (at_header_value W c))"
  defines "c1 \<equiv> c\<lparr>parser := q\<lparr>header_state := h1\<rparr>, ptr := e - 1, n_read := n_read c + of_nat (e - 1 - ptr c)\<rparr>"
  shows "n_read c + of_nat (e - 1 - ptr c) \<le> max_header_size W"
    and "run W (at_header_value W c) = run W (Break c1)"
proof -
  let ?i = "ptr c" and ?n = "n_read c" and ?h = "header_state (parser c)"
  obtain s l h2 r where l: "value_chars (lenient W) (drop e (data W)) h1 q = (s, l, h2, r)" by (metis prod_cases4)
  have drop: "drop ?i (data W) = seg (data W) ?i e @ drop e (data W)" using e by (intro drop_seg) simp
  have chars: "value_chars (lenient W) (drop ?i (data W)) ?h (parser c) = (s, e - ?i + l, h2, r)"
    using e by (simp add: drop value_chars_append u l)
  from header_value_exact [OF at room fine chars] obtain x where
    loop: "value_loop (data W) (max_header_size W) (lenient W) ?i (cur c) ?h (parser c) = (s, ?i + (e - ?i + l), x, h2, r)"
    and s: "s \<in> {Stop_end, Stop_CR, Stop_LF}" and r: "http_errno r = HPE_OK"
    and total: "?n + of_nat (counted s (e - ?i + l)) \<le> max_header_size W"
    and less: "counted s (e - ?i + l) < unat (max_header_size W)" .
  have le: "l \<le> data_end W - e" using value_chars_le [OF l] by simp
  have pos: "s = Stop_end \<Longrightarrow> 1 \<le> l" using value_chars_end [OF l] e by auto
  have n: "?n + of_nat v \<le> max_header_size W" if "v \<le> e - ?i" for v
    by (rule count_less [OF room(1,3) _ _ total]) (use that pos le e in \<open>auto simp: counted_def\<close>)
  show "?n + of_nat (e - 1 - ?i) \<le> max_header_size W" by (rule n) simp
  let ?c2 = "c1\<lparr>ptr := e, cur := data W ! e, n_read := ?n + of_nat (e - ?i)\<rparr>"
  have sum: "?n + of_nat (e - 1 - ?i) + 1 = ?n + of_nat (e - ?i)"
    using count_sum [of ?n "e - 1 - ?i" 1] e by simp
  have on: "run W (Break c1) = run W (at_header_value W ?c2)"
    using n [of "e - ?i"] sum e at by (simp add: c1_def run_Break_turn step_def load_def at_value_def)
  have "h1 \<noteq> h_connection \<and> h1 \<noteq> h_transfer_encoding"
    by (rule value_chars_states [OF u]) (use at in \<open>simp_all add: at_value_def\<close>)
  then have at2: "at_value W ?c2"
    using at e value_chars_errno [OF u] by (simp add: at_value_def c1_def)
  have "\<not> unat (max_header_size W) \<le> l" using less e by (auto simp: counted_def split: if_splits)
  with value_loop_chars [OF less_imp_le [OF e(2)], of "max_header_size W" "lenient W" "data W ! e" h1 "q\<lparr>header_state := h1\<rparr>"]
  obtain x' where loop2: "value_loop (data W) (max_header_size W) (lenient W) e (data W ! e) h1 (q\<lparr>header_state := h1\<rparr>) =
      (s, e + l, x', h2, r\<lparr>header_state := h1\<rparr>)"
    by (auto simp: reads_chars_def value_chars_core l)
  have sum2: "?n + of_nat (e - ?i) + of_nat (counted s l) = ?n + of_nat (counted s (e - ?i + l))"
    using count_sum [of ?n "e - ?i" "counted s l"] pos by (auto simp: counted_def)
  let ?m = "?n + of_nat (counted s (e - ?i + l))"
  have two: "at_header_value W ?c2 =
      value_done W s (?c2\<lparr>cur := x', parser := r\<lparr>header_state := h2\<rparr>, ptr := e + l, n_read := ?m\<rparr>)"
    using header_value_done(1) [OF at2, of s l x' h2 "r\<lparr>header_state := h1\<rparr>" ?m] loop2 s r sum2 total
    by (simp add: c1_def)
  have one: "at_header_value W c =
      value_done W s (c\<lparr>cur := x, parser := r\<lparr>header_state := h2\<rparr>, ptr := ?i + (e - ?i + l), n_read := ?m\<rparr>)"
    by (rule header_value_done(1) [OF at loop s r refl total])
  have "x = x'" if "s = Stop_LF"
  proof -
    have "x = LF" using value_loop_ok [OF _ _ _ loop] that at by (simp add: at_value_def)
    moreover have "x' = LF"
      using value_loop_ok [OF _ _ _ loop2] that e \<open>h1 \<noteq> h_connection \<and> h1 \<noteq> h_transfer_encoding\<close> by simp
    ultimately show ?thesis by simp
  qed
  note same = run_value_done_cur [OF s this]
  let ?r = "c\<lparr>parser := r\<lparr>header_state := h2\<rparr>, ptr := e + l, n_read := ?m\<rparr>"
  have eqs: "?c2\<lparr>cur := x', parser := r\<lparr>header_state := h2\<rparr>, ptr := e + l, n_read := ?m\<rparr> = ?r\<lparr>cur := x'\<rparr>"
    "c\<lparr>cur := x, parser := r\<lparr>header_state := h2\<rparr>, ptr := ?i + (e - ?i + l), n_read := ?m\<rparr> = ?r\<lparr>cur := x\<rparr>"
    using e by (simp_all add: c1_def)
  show "run W (at_header_value W c) = run W (Break c1)"
    unfolding on two one eqs by (rule same)
qed

text \<open>The buffer of a part is read exactly if its bytes may be counted.\<close>

lemma header_value_part:
  assumes at: "at_value env c" and room: "countable env" "0 < n_read c" "n_read c \<le> max_header_size env"
    and chars: "value_chars (lenient env) (drop (ptr c) (data env)) (header_state (parser c)) (parser c) = (s, k, h, q)"
    and s: "s \<in> {Stop_end, Stop_CR, Stop_LF}" and total: "n_read c + of_nat (counted s k) \<le> max_header_size env"
  obtains x where "at_header_value env c =
      value_done env s (c\<lparr>cur := x, parser := q\<lparr>header_state := h\<rparr>, ptr := ptr c + k, n_read := n_read c + of_nat (counted s k)\<rparr>)"
    and "s = Stop_LF \<Longrightarrow> x = LF"
proof -
  obtain s' e x h' q' where loop:
    "value_loop (data env) (max_header_size env) (lenient env) (ptr c) (cur c) (header_state (parser c)) (parser c) =
      (s', e, x, h', q')"
    by (metis prod_cases5)
  from at have hs: "header_state (parser c) \<noteq> h_connection" "header_state (parser c) \<noteq> h_transfer_encoding" "ptr c \<le> data_end env"
    and ok: "http_errno (parser c) = HPE_OK" by (simp_all add: at_value_def)
  note bounds = value_loop_ok [OF hs loop]
  have k: "k \<le> data_end env - ptr c" using value_chars_le [OF chars] by simp
  have stop: "s = Stop_end \<longleftrightarrow> k = data_end env - ptr c" using value_chars_end [OF chars] by simp
  have "counted s k < unat (max_header_size env)"
    by (rule counted_less [OF room total]) (use k in \<open>auto simp: counted_def\<close>)
  then have "\<not> (unat (max_header_size env) \<le> k \<and> ptr c + unat (max_header_size env) < e)"
    using bounds stop hs(3) by (auto simp: counted_def split: if_splits)
  with value_loop_chars [OF hs(3), of "max_header_size env" "lenient env" "cur c" "header_state (parser c)" "parser c"] loop chars
  have eq: "s' = s \<and> e = ptr c + k \<and> h' = h \<and> q' = q" by (auto simp: reads_chars_def)
  have q: "http_errno q = HPE_OK" using value_chars_errno [OF chars] ok by simp
  have loop': "value_loop (data env) (max_header_size env) (lenient env) (ptr c) (cur c) (header_state (parser c)) (parser c) =
      (s, ptr c + k, x, h, q)" using loop eq by simp
  show ?thesis
    by (rule that [OF header_value_done(1) [OF at loop' s q refl total]]) (use bounds eq in simp)
qed

lemma follows_header_value:
  assumes here: "here W n F c c'" and s: "p_state c' = s_header_value" and W: "countable W" and F: "countable F"
    and room: "0 < n_read c'" "n_read c' \<le> max_header_size F"
    and hs: "header_state (parser c') \<noteq> h_connection" "header_state (parser c') \<noteq> h_transfer_encoding"
  shows "follows W n F (at_header_value W c) (at_header_value F c')"
proof (cases "fine (data_end W) (run W (at_header_value W c))")
  case False
  then show ?thesis by (simp add: follows_def)
next
  case fine: True
  have w: "window W n F" using here by (simp add: here_def)
  note facts = here_facts [OF here]
  let ?p = "ptr c'"
  have "p_state c' \<in> mark_states M_header_value" using s by simp
  from here_oneE [OF here this] obtain x y a i i' where
    c: "c = c'\<lparr>ptr := n + ?p, parser := (parser c')\<lparr>nread := x, state := y\<rparr>, app := a, marks := (\<lambda>_. None)(M_header_value := Some i)\<rparr>"
    and c': "marks c' = (\<lambda>_. None)(M_header_value := Some i')" and i: "i \<le> n + ?p" "i' \<le> ?p"
    and glue: "glue (a @ [Received M_header_value (seg (data W) i (n + ?p))]) =
      glue (app c' @ [Received M_header_value (seg (data F) i' ?p)])"
    by (metis mark.distinct(11))
  let ?u = "drop ?p (data F)" and ?post = "drop (n + data_end F) (data W)" and ?e = "n + data_end F"
  have drop: "drop (ptr c) (data W) = ?u @ ?post"
    using window_drop(1) [OF w, of ?p] facts(5,10) by simp
  have at': "at_value F c'" using facts s hs c' by (simp add: at_value_def)
  have at: "at_value W c" using facts s hs window_byte(2) [OF w facts(10)] by (simp add: at_value_def c)
  have room': "0 < n_read c" "n_read c \<le> max_header_size W" using room facts by simp_all
  obtain t k h q where u: "value_chars (lenient F) ?u (header_state (parser c')) (parser c') = (t, k, h, q)"
    by (metis prod_cases4)
  have k: "k \<le> data_end F - ?p" using value_chars_le [OF u] by simp
  let ?q = "q\<lparr>nread := x, state := y\<rparr>"
  show ?thesis
  proof (cases "t = Stop_end")
    case False
    with value_chars_end [OF u] k have lt: "?p + k < data_end F" "k < data_end F - ?p" by simp_all
    have all: "value_chars (lenient W) (drop (ptr c) (data W)) (header_state (parser c)) (parser c) = (t, k, h, ?q)"
      using lt facts(3) u by (simp add: drop) (simp add: c value_chars_append value_chars_core)
    from header_value_exact [OF at W room' fine all] have
      t: "t \<in> {Stop_end, Stop_CR, Stop_LF}" and tot: "n_read c + of_nat (counted t k) \<le> max_header_size W"
      by blast+
    from tot have tot': "n_read c' + of_nat (counted t k) \<le> max_header_size F" using facts by simp
    obtain z where Wv: "at_header_value W c = value_done W t
        (c\<lparr>cur := z, parser := ?q\<lparr>header_state := h\<rparr>, ptr := ptr c + k, n_read := n_read c + of_nat (counted t k)\<rparr>)"
      and z: "t = Stop_LF \<Longrightarrow> z = LF"
      using header_value_part [OF at W room' all t tot] by blast
    obtain z' where Fv: "at_header_value F c' = value_done F t
        (c'\<lparr>cur := z', parser := q\<lparr>header_state := h\<rparr>, ptr := ?p + k, n_read := n_read c' + of_nat (counted t k)\<rparr>)"
      and z': "t = Stop_LF \<Longrightarrow> z' = LF"
      using header_value_part [OF at' F room u t tot'] by blast
    have "glue (a @ [Received M_header_value (seg (data W) i (n + ?p + k))]) =
        glue (app c' @ [Received M_header_value (seg (data F) i' (?p + k))])"
      by (rule glue_more [OF glue]) (use i lt window_seg [OF w, of ?p "?p + k"] in \<open>simp_all add: add.assoc\<close>)
    with False t z z' c' show ?thesis
      unfolding Wv Fv
      by (auto simp: value_done_def c core_eq_def unmarked_iff url_states_def add.assoc intro!: follows_Break follows_Reexecute)
  next
    case end_: True
    with value_chars_end [OF u] k facts(10) have stop: "?p + k = data_end F" "1 \<le> k" by auto
    have k1: "counted t k = k - 1" using end_ by (simp add: counted_def)
    have Suc: "Suc (?e - 1) = ?e" "Suc (data_end F - 1) = data_end F" using facts(10) by simp_all
    have Break: "follows W n F (Break (c\<lparr>cur := z', parser := ?q\<lparr>header_state := h\<rparr>, ptr := ?e - 1, n_read := m\<rparr>))
        (Break (c'\<lparr>cur := z, parser := q\<lparr>header_state := h\<rparr>, ptr := data_end F - 1, n_read := m\<rparr>))" for z z' m
      by (rule follows_Break_from [where m = M_header_value and i = i and i' = i' and p = ?p])
        (use c' i glue s facts(10) window_seg [OF w, of ?p "data_end F"] Suc in \<open>simp_all add: c core_eq_def\<close>)
    have part: "\<exists>z. at_header_value F c' =
        Break (c'\<lparr>cur := z, parser := q\<lparr>header_state := h\<rparr>, ptr := data_end F - 1, n_read := n_read c' + of_nat (k - 1)\<rparr>)"
      if tot: "n_read c' + of_nat (k - 1) \<le> max_header_size F"
    proof -
      have "t \<in> {Stop_end, Stop_CR, Stop_LF}" "n_read c' + of_nat (counted t k) \<le> max_header_size F"
        using end_ tot k1 by simp_all
      from header_value_part [OF at' F room u this] obtain z where "at_header_value F c' = value_done F t
          (c'\<lparr>cur := z, parser := q\<lparr>header_state := h\<rparr>, ptr := ?p + k, n_read := n_read c' + of_nat (counted t k)\<rparr>)"
        by blast
      then show ?thesis using end_ stop k1 by (intro exI [of _ z]) (simp add: value_done_def)
    qed
    show ?thesis
    proof (cases "?e < data_end W")
      case True
      have u': "value_chars (lenient W) (seg (data W) (ptr c) ?e) (header_state (parser c)) (parser c) = (Stop_end, ?e - ptr c, h, ?q)"
        using window_seg [OF w, of ?p "data_end F"] facts(3,10) u stop end_
        by (simp add: c value_chars_core seg_def)
      have "ptr c < ?e" using facts by simp
      note split = header_value_split [OF at this True u' W room' fine]
      have k': "?e - 1 - ptr c = k - 1" using stop facts(5) by simp
      have "n_read c' + of_nat (k - 1) \<le> max_header_size F" using split(1) facts(4,7) by (simp only: k')
      from part [OF this] obtain z where Fv: "at_header_value F c' =
          Break (c'\<lparr>cur := z, parser := q\<lparr>header_state := h\<rparr>, ptr := data_end F - 1, n_read := n_read c' + of_nat (k - 1)\<rparr>)" ..
      have "follows W n F (Break (c\<lparr>parser := ?q\<lparr>header_state := h\<rparr>, ptr := ?e - 1, n_read := n_read c + of_nat (k - 1)\<rparr>))
          (at_header_value F c')"
        using Break [where z' = "cur c"] facts(7) Fv by simp
      with split(2) show ?thesis unfolding k' by (simp add: follows_def)
    next
      case False
      with window_drop(2) [OF w, of 0] have e: "?e = data_end W" by simp
      have all: "value_chars (lenient W) (drop (ptr c) (data W)) (header_state (parser c)) (parser c) = (t, k, h, ?q)"
        using drop u False facts(3) by (simp add: c value_chars_core)
      from header_value_exact [OF at W room' fine all] have
        t: "t \<in> {Stop_end, Stop_CR, Stop_LF}" and tot: "n_read c + of_nat (counted t k) \<le> max_header_size W"
        by blast+
      obtain z' where Wv: "at_header_value W c = value_done W t
          (c\<lparr>cur := z', parser := ?q\<lparr>header_state := h\<rparr>, ptr := ptr c + k, n_read := n_read c + of_nat (counted t k)\<rparr>)"
        using header_value_part [OF at W room' all t tot] by blast
      have "n_read c' + of_nat (k - 1) \<le> max_header_size F" using tot facts k1 by simp
      from part [OF this] obtain z where Fv: "at_header_value F c' =
          Break (c'\<lparr>cur := z, parser := q\<lparr>header_state := h\<rparr>, ptr := data_end F - 1, n_read := n_read c' + of_nat (k - 1)\<rparr>)" ..
      have "at_header_value W c = Break (c\<lparr>cur := z', parser := ?q\<lparr>header_state := h\<rparr>, ptr := ?e - 1,
          n_read := n_read c' + of_nat (k - 1)\<rparr>)"
        unfolding Wv using facts(5,7) stop end_ by (simp add: value_done_def counted_def add.assoc)
      then show ?thesis using Fv Break [where z' = z' and z = z] by simp
    qed
  qed
qed

end
