(* ===== verification/HttpPieceBodies.thy ===== *)
theory HttpPieceBodies
  imports HttpPieceFields
begin

text \<open>
  The cases of bodies and chunk data on a part of the buffer and on the whole.  A body that goes on
  in the next buffer is marked there anew, without a mark at its beginning.
\<close>

section \<open>The mark of a body\<close>

lemma here_markE:
  assumes here: "here W n F c c'" and s: "p_state c' \<in> mark_states M_body"
  obtains x y a i i' where
    "MARK M_body c = c'\<lparr>ptr := n + ptr c', parser := (parser c')\<lparr>nread := x, state := y\<rparr>, app := a,
      marks := (\<lambda>_. None)(M_body := Some i)\<rparr>"
    and "MARK M_body c' = c'\<lparr>marks := (\<lambda>_. None)(M_body := Some i')\<rparr>" and "i \<le> n + ptr c'" and "i' \<le> ptr c'"
    and "glue (a @ [Received M_body (seg (data W) i (n + ptr c'))]) = glue (app c' @ [Received M_body (seg (data F) i' (ptr c'))])"
proof -
  note facts = here_facts [OF here]
  have sim: "sim n (data W) (data F) c c'" using here by (simp add: here_def)
  have ok: "marks_ok c" "marks_ok c'" using sim by (simp_all add: sim_def)
  let ?i = "case marks c M_body of None \<Rightarrow> n + ptr c' | Some i \<Rightarrow> i"
  let ?i' = "case marks c' M_body of None \<Rightarrow> ptr c' | Some i \<Rightarrow> i"
  let ?a = "app c"
  have clear: "(marks c)(M_body := None) = (\<lambda>_. None)" "(marks c')(M_body := None) = (\<lambda>_. None)"
    using marks_ok_cleared [OF ok(1), of M_body] marks_ok_cleared [OF ok(2) s] s facts(6) by simp_all
  have mk: "marks c = (\<lambda>_. None)(M_body := marks c M_body)" "marks c' = (\<lambda>_. None)(M_body := marks c' M_body)"
    using clear by (metis fun_upd_triv fun_upd_upd)+
  have eq: "MARK M_body c = c'\<lparr>ptr := n + ptr c', parser := (parser c')\<lparr>nread := nread (parser c), state := state (parser c)\<rparr>,
      app := ?a, marks := (\<lambda>_. None)(M_body := Some ?i)\<rparr>"
    using core_eq_update(1) [OF facts(11)] facts(5-8) mk(1)
    by (cases c; cases c'; cases "marks c M_body") (simp_all add: MARK_def)
  have eq': "MARK M_body c' = c'\<lparr>marks := (\<lambda>_. None)(M_body := Some ?i')\<rparr>"
    using mk(2) by (cases c'; cases "marks c' M_body") (simp_all add: MARK_def)
  have i: "?i \<le> n + ptr c'" "?i' \<le> ptr c'"
    using marks_okD [OF ok(1)] marks_okD [OF ok(2)] facts(5) by (auto split: option.split)
  have "glue (?a @ [Received M_body (seg (data W) ?i (n + ptr c'))]) =
      glue (app c' @ [Received M_body (seg (data F) ?i' (ptr c'))])"
  proof (cases "marks c M_body")
    case None
    then have none: "marks c = (\<lambda>_. None)" "marks c' = (\<lambda>_. None)" using mk sim by (auto simp: sim_def)
    with sim_glue [OF sim] have "glue ?a = glue (app c')" by simp
    from glue_cong [OF this, of "[Received M_body []]"] none show ?thesis by simp
  next
    case (Some i)
    with mk(1) have whole: "marks c = (\<lambda>_. None)(M_body := Some i)" by simp
    show ?thesis
    proof (cases "marks c' M_body")
      case None
      with mk(2) have none: "marks c' = (\<lambda>_. None)" by auto
      have "glue (?a @ [Received M_body (seg (data W) i (ptr c))]) = glue (app c')"
        using sim_glue [OF sim] unfolding pending_one [OF whole] pending_none [OF none] by simp
      from glue_cong [OF this, of "[Received M_body []]"] show ?thesis
        using Some None facts(5) by (simp add: glue_pieces)
    next
      case (Some j)
      with mk(2) have part: "marks c' = (\<lambda>_. None)(M_body := Some j)" by simp
      show ?thesis
        using sim_glue [OF sim] \<open>marks c M_body = Some i\<close> Some facts(5)
        unfolding pending_one [OF whole] pending_one [OF part] by simp
    qed
  qed
  with eq eq' i show ?thesis by (rule that)
qed

section \<open>Bytes of a body\<close>

definition taken :: "'a exec_env \<Rightarrow> 'a ctx \<Rightarrow> 'a ctx" where
  "taken env c = take_body (to_read env c) (MARK M_body c)"

lemma taken_cur [simp]: "taken env (c\<lparr>cur := x\<rparr>) = (taken env c)\<lparr>cur := x\<rparr>"
  by (simp add: taken_def take_body_def to_read_def MARK_def)

lemma of_nat_less_u64: "k < 2 ^ 64 \<Longrightarrow> unat (of_nat k :: u64) = k"
  by (simp add: unat_of_nat_small)

text \<open>Over a boundary \<open>e\<close> of pieces.\<close>

lemma taken_split:
  assumes e: "ptr c < e" "e < data_end W" "data_end W < 2 ^ 64"
    and more: "e - ptr c < unat (content_length (parser c))" and cl: "content_length (parser c) \<noteq> - 1"
  defines "c1 \<equiv> take_body (of_nat (e - ptr c)) (MARK M_body c)"
  shows "ptr c1 = e - 1" and "content_length (parser c1) \<noteq> 0" and "content_length (parser c1) \<noteq> - 1"
    and "taken W (c1\<lparr>ptr := e\<rparr>) = taken W c"
proof -
  let ?r = "e - ptr c" and ?cl = "content_length (parser c)"
  have r: "unat (of_nat ?r :: u64) = ?r" by (rule of_nat_less_u64) (use e in simp)
  then show ptr: "ptr c1 = e - 1" using e by (simp add: c1_def take_body_def MARK_def)
  have le: "of_nat ?r \<le> ?cl" using more r by (simp add: word_le_nat_alt)
  have cl1: "content_length (parser c1) = ?cl - of_nat ?r" by (simp add: c1_def take_body_def MARK_def)
  then have un: "unat (content_length (parser c1)) = unat ?cl - ?r" using unat_sub [OF le] r by simp
  then show "content_length (parser c1) \<noteq> 0" using more by auto
  have "unat ?cl < 2 ^ LENGTH(64)" by (rule unsigned_less)
  then show "content_length (parser c1) \<noteq> - 1" using un more e by (auto simp: unat_max_u64)
  let ?c2 = "c1\<lparr>ptr := e\<rparr>"
  have "unat (to_read W ?c2) = min (unat ?cl - ?r) (data_end W - e)"
    using unat_to_read [OF e(3), of ?c2] un by simp
  moreover have "unat (to_read W c) = min (unat ?cl) (data_end W - ptr c)" by (rule unat_to_read [OF e(3)])
  ultimately have sum: "unat (to_read W c) = ?r + unat (to_read W ?c2)" using more e by (auto simp: min_def)
  then have "(of_nat (unat (to_read W c)) :: u64) = of_nat ?r + of_nat (unat (to_read W ?c2))" by simp
  then have word: "to_read W c = of_nat ?r + to_read W ?c2" by simp
  have mark: "MARK M_body ?c2 = ?c2" by (simp add: c1_def take_body_def MARK_def)
  show "taken W ?c2 = taken W c"
    unfolding taken_def mark using sum word e(1) by (simp add: take_body_def c1_def MARK_def r)
qed

text \<open>What the two cases that take a counted number of bytes do with them.\<close>

definition body_bytes_taken :: "'a exec_env \<Rightarrow> 'a ctx \<Rightarrow> 'a outcome" where
  "body_bytes_taken env c =
    (if content_length (parser c) \<noteq> 0 then Break c
     else if p_state c = s_chunk_data then Break (UPDATE_STATE s_chunk_data_almost_done c)
     else callback_data env M_body (ptr c + 1) (ptr c) (UPDATE_STATE s_message_done c) Reexecute)"

lemma step_body:
  assumes "p_state c = s_chunk_data \<and> has_flag (flags (parser c)) F_CHUNKED \<or> p_state c = s_body_identity"
    and "content_length (parser c) \<noteq> 0" and "content_length (parser c) \<noteq> - 1"
  shows "step env c = body_bytes_taken env (taken env c)"
  using assms
  by (auto simp: step_def at_chunk_data_def at_body_identity_def body_bytes_taken_def taken_def take_body_def MARK_def Let_def)

lemma run_message_done_cur:
  assumes "settings W = recorder" and "http_errno (parser c) = HPE_OK" and "p_state c = s_message_done"
  shows "run W (Reexecute (c\<lparr>cur := x\<rparr>)) = run W (Reexecute c)"
  using assms
  by (auto simp: run_Reexecute step_def at_message_done_def message_complete_def CALLBACK_NOTIFY_def
      recorder_callback_notify RETURN_def intro!: run_Break_eq [where x = NUL])

lemma run_message_done_eq:
  assumes "c\<lparr>cur := x\<rparr> = c'\<lparr>cur := x\<rparr>" and "settings W = recorder" and "http_errno (parser c) = HPE_OK"
    and "http_errno (parser c') = HPE_OK" and "p_state c = s_message_done" and "p_state c' = s_message_done"
  shows "run W (Reexecute c) = run W (Reexecute c')"
  using run_message_done_cur [of W c x] run_message_done_cur [of W c' x] assms by simp

lemma run_taken_cur:
  assumes "settings W = recorder" and "http_errno (parser c) = HPE_OK" and "marks c M_body \<noteq> None"
  shows "run W (body_bytes_taken W (c\<lparr>cur := x\<rparr>)) = run W (body_bytes_taken W c)"
  using assms
  by (auto simp: body_bytes_taken_def recorder_callback_data
      intro!: run_Break_eq [where x = NUL] run_message_done_eq [where x = NUL])

text \<open>At a place where the case goes on after the end of a part.\<close>

definition in_body :: "'a ctx \<Rightarrow> bool" where
  "in_body c \<longleftrightarrow>
    (p_state c = s_chunk_data \<and> has_flag (flags (parser c)) F_CHUNKED \<or> p_state c = s_body_identity) \<and>
    content_length (parser c) \<noteq> 0 \<and> content_length (parser c) \<noteq> - 1"

lemma body_split:
  assumes W: "settings W = recorder" "data_end W < 2 ^ 64" and ok: "http_errno (parser c) = HPE_OK" and at: "in_body c"
    and e: "ptr c < e" "e < data_end W" and more: "e - ptr c < unat (content_length (parser c))"
  shows "run W (step W c) = run W (Break (take_body (of_nat (e - ptr c)) (MARK M_body c)))"
proof -
  let ?c1 = "take_body (of_nat (e - ptr c)) (MARK M_body c)"
  have cl: "content_length (parser c) \<noteq> - 1" using at by (simp add: in_body_def)
  note split = taken_split [OF e W(2) more cl]
  let ?c2 = "?c1\<lparr>ptr := e\<rparr>"
  have c2: "in_body (?c2\<lparr>cur := data W ! e\<rparr>)" and s: "\<not> PARSING_HEADER (p_state ?c2)"
    using split(2,3) at by (auto simp: in_body_def take_body_def MARK_def)
  have "run W (Break ?c1) = at_loop W ?c2" using split(1) e by (simp add: run_Break_loop)
  also have "\<dots> = run W (step W (load W ?c2))" by (rule turn) (use s e in simp_all)
  also have "load W ?c2 = ?c2\<lparr>cur := data W ! e\<rparr>" using s by (simp add: load_def)
  also have "step W \<dots> = body_bytes_taken W (taken W (?c2\<lparr>cur := data W ! e\<rparr>))"
    using c2 by (intro step_body) (simp_all add: in_body_def)
  also have "taken W (?c2\<lparr>cur := data W ! e\<rparr>) = (taken W c)\<lparr>cur := data W ! e\<rparr>"
    using split(4) by simp
  also have "run W (body_bytes_taken W \<dots>) = run W (body_bytes_taken W (taken W c))"
    by (rule run_taken_cur) (use W ok in \<open>auto simp: taken_def take_body_def MARK_def\<close>)
  also have "\<dots> = run W (step W c)" using at by (simp add: step_body in_body_def)
  finally show ?thesis by simp
qed

lemma follows_body:
  assumes here: "here W n F c c'" and at: "in_body c'" and small: "data_end W < 2 ^ 64"
  shows "follows W n F (step W c) (step F c')"
proof -
  have w: "window W n F" using here by (simp add: here_def)
  note facts = here_facts [OF here]
  let ?p = "ptr c'" and ?cl = "content_length (parser c')" and ?e = "n + data_end F" and ?r = "data_end F - ptr c'"
  have state: "p_state c' = s_chunk_data \<or> p_state c' = s_body_identity" using at by (auto simp: in_body_def)
  then have "p_state c' \<in> mark_states M_body" by auto
  from here_markE [OF here this] obtain x y a i i' where
    c: "MARK M_body c = c'\<lparr>ptr := n + ?p, parser := (parser c')\<lparr>nread := x, state := y\<rparr>, app := a, marks := (\<lambda>_. None)(M_body := Some i)\<rparr>"
    and c': "MARK M_body c' = c'\<lparr>marks := (\<lambda>_. None)(M_body := Some i')\<rparr>" and i: "i \<le> n + ?p" "i' \<le> ?p"
    and glue: "glue (a @ [Received M_body (seg (data W) i (n + ?p))]) = glue (app c' @ [Received M_body (seg (data F) i' ?p)])" .
  have at_c: "in_body c" using at by (simp add: in_body_def facts(6) core_eqD(2,7) [OF facts(11)])
  have cl: "content_length (parser c) = ?cl" by (rule core_eqD(7) [OF facts(11)])
  have e: "?e \<le> data_end W" and small': "data_end F < 2 ^ 64" using window_drop(2) [OF w, of 0] small by simp_all
  have Fs: "step F c' = body_bytes_taken F (taken F c')" using at by (simp add: step_body in_body_def)
  have Ws: "step W c = body_bytes_taken W (taken W c)" using at_c by (simp add: step_body in_body_def)
  have un: "unat (to_read F c') = min (unat ?cl) ?r" "unat (to_read W c) = min (unat ?cl) (data_end W - ptr c)"
    using unat_to_read [OF small', of c'] unat_to_read [OF small, of c] cl by simp_all
  show ?thesis
  proof (cases "unat ?cl \<le> ?r")
    case True
    then have "unat (to_read F c') = unat ?cl" "unat (to_read W c) = unat ?cl" using un e facts(5) by auto
    then have all: "to_read F c' = ?cl" "to_read W c = ?cl" by (simp_all only: word_unat_eq_iff)
    let ?k = "unat ?cl"
    have "0 < ?k" using at by (simp add: in_body_def unat_gt_0)
    with True facts(10) have k: "?p + ?k \<le> data_end F" "0 < ?k" by simp_all
    have more: "glue (a @ [Received M_body (seg (data W) i (n + ?p + ?k))]) = glue (app c' @ [Received M_body (seg (data F) i' (?p + ?k))])"
      by (rule glue_more [OF glue]) (use i k window_seg [OF w, of ?p "?p + ?k"] in \<open>simp_all add: add.assoc\<close>)
    let ?w = "take_body ?cl (MARK M_body c)" and ?f = "take_body ?cl (MARK M_body c')"
    have w0: "body_bytes_taken W ?w = (if p_state c' = s_chunk_data then Break (UPDATE_STATE s_chunk_data_almost_done ?w)
        else callback_data W M_body (n + ?p + ?k) (n + ?p + ?k - 1) (UPDATE_STATE s_message_done ?w) Reexecute)"
      using k by (simp add: body_bytes_taken_def c take_body_def)
    have f0: "body_bytes_taken F ?f = (if p_state c' = s_chunk_data then Break (UPDATE_STATE s_chunk_data_almost_done ?f)
        else callback_data F M_body (?p + ?k) (?p + ?k - 1) (UPDATE_STATE s_message_done ?f) Reexecute)"
      using k by (simp add: body_bytes_taken_def c' take_body_def)
    have "follows W n F (Break (UPDATE_STATE s_chunk_data_almost_done ?w)) (Break (UPDATE_STATE s_chunk_data_almost_done ?f))"
      by (rule follows_Break_from [where m = M_body and i = i and i' = i' and p = ?p])
        (use i glue k window_seg [OF w, of ?p "?p + ?k"] in \<open>simp_all add: c c' core_eq_def take_body_def add.assoc\<close>)
    moreover have "follows W n F (callback_data W M_body (n + ?p + ?k) j (UPDATE_STATE s_message_done ?w) Reexecute)
        (callback_data F M_body (?p + ?k) j' (UPDATE_STATE s_message_done ?f) Reexecute)" for j j'
      using facts(1,2,9) more k
      by (simp add: c c' take_body_def recorder_callback_data follows_Reexecute core_eq_def unmarked_iff url_states_def)
    ultimately show ?thesis unfolding Fs Ws taken_def all w0 f0 by simp
  next
    case False
    then have big: "?r \<le> unat ?cl" by simp
    with un(1) have "unat (to_read F c') = ?r" by simp
    then have "(of_nat (unat (to_read F c')) :: u64) = of_nat ?r" by (simp only:)
    then have read: "to_read F c' = of_nat ?r" by simp
    have r: "unat (of_nat ?r :: u64) = ?r" by (rule of_nat_less_u64) (use small' in simp)
    let ?w = "take_body (of_nat ?r) (MARK M_body c)" and ?f = "take_body (of_nat ?r) (MARK M_body c')"
    have "of_nat ?r \<noteq> ?cl" using False r by auto
    then have "step F c' = Break ?f" unfolding Fs taken_def read by (simp add: body_bytes_taken_def take_body_def c')
    moreover have Suc: "Suc (n + (data_end F - 1)) = n + data_end F" "Suc (data_end F - 1) = data_end F"
      "n + ?p + ?r - 1 = n + (data_end F - 1)" "?p + ?r - 1 = data_end F - 1" using facts(10) by simp_all
    moreover have "follows W n F (Break ?w) (Break ?f)"
      by (rule follows_Break_from [where m = M_body and i = i and i' = i' and p = ?p])
        (use i glue r Suc state facts(10) window_seg [OF w, of ?p "data_end F"] in
          \<open>auto simp add: c c' core_eq_def take_body_def\<close>)
    moreover have "run W (step W c) = run W (Break ?w)"
    proof (cases "?e < data_end W")
      case True
      have "http_errno (parser c) = HPE_OK" using core_eqD(12) [OF facts(11)] facts(9) by simp
      from body_split [OF facts(1) small this at_c _ True] False cl facts show ?thesis by simp
    next
      case False
      with e have "?e = data_end W" by simp
      with un(2) facts(5) big have "unat (to_read W c) = ?r" by simp
      then have "(of_nat (unat (to_read W c)) :: u64) = of_nat ?r" by (simp only:)
      then have "to_read W c = of_nat ?r" by simp
      moreover have "content_length (parser ?w) \<noteq> 0" using \<open>of_nat ?r \<noteq> ?cl\<close> by (simp add: c take_body_def)
      ultimately show ?thesis unfolding Ws taken_def by (simp add: body_bytes_taken_def)
    qed
    ultimately show ?thesis by (simp add: follows_def)
  qed
qed

section \<open>A body up to the end of the connection, and the end of a chunk\<close>

lemma eof_split:
  assumes s: "p_state c = s_body_identity_eof" and e: "0 < e" "e < data_end W"
  shows "run W (at_body_identity_eof W c) = run W (Break ((MARK M_body c)\<lparr>ptr := e - 1\<rparr>))"
proof -
  let ?c2 = "(MARK M_body c)\<lparr>ptr := e\<rparr>"
  have s2: "p_state ?c2 = s_body_identity_eof" using s by (simp add: MARK_def)
  have mark: "MARK M_body (?c2\<lparr>cur := x\<rparr>) = ?c2\<lparr>cur := x\<rparr>" for x by (simp add: MARK_def)
  have "run W (Break ((MARK M_body c)\<lparr>ptr := e - 1\<rparr>)) = at_loop W ?c2" using e by (simp add: run_Break_loop)
  also have "\<dots> = run W (step W (load W ?c2))" by (rule turn) (use e s2 in simp_all)
  also have "load W ?c2 = ?c2\<lparr>cur := data W ! e\<rparr>" using s2 by (simp add: load_def)
  also have "step W \<dots> = at_body_identity_eof W (?c2\<lparr>cur := data W ! e\<rparr>)" using s2 by (simp add: step_def)
  also have "run W \<dots> = run W (at_body_identity_eof W c)"
    unfolding at_body_identity_eof_def mark by (rule run_Break_eq [where x = NUL]) simp
  finally show ?thesis by simp
qed

lemma follows_body_identity_eof:
  assumes here: "here W n F c c'" and s: "p_state c' = s_body_identity_eof"
  shows "follows W n F (at_body_identity_eof W c) (at_body_identity_eof F c')"
proof -
  have w: "window W n F" using here by (simp add: here_def)
  note facts = here_facts [OF here]
  let ?p = "ptr c'" and ?e = "n + data_end F"
  have "p_state c' \<in> mark_states M_body" using s by simp
  from here_markE [OF here this] obtain x y a i i' where
    c: "MARK M_body c = c'\<lparr>ptr := n + ?p, parser := (parser c')\<lparr>nread := x, state := y\<rparr>, app := a, marks := (\<lambda>_. None)(M_body := Some i)\<rparr>"
    and c': "MARK M_body c' = c'\<lparr>marks := (\<lambda>_. None)(M_body := Some i')\<rparr>" and i: "i \<le> n + ?p" "i' \<le> ?p"
    and glue: "glue (a @ [Received M_body (seg (data W) i (n + ?p))]) = glue (app c' @ [Received M_body (seg (data F) i' ?p)])" .
  have Suc: "Suc (n + (data_end F - 1)) = n + data_end F" "Suc (data_end F - 1) = data_end F"
    "n + data_end F - 1 = n + (data_end F - 1)" using facts(10) by simp_all
  have "follows W n F (Break ((MARK M_body c)\<lparr>ptr := ?e - 1\<rparr>)) (Break ((MARK M_body c')\<lparr>ptr := data_end F - 1\<rparr>))"
    by (rule follows_Break_from [where m = M_body and i = i and i' = i' and p = ?p])
      (use i glue Suc s facts(10) window_seg [OF w, of ?p "data_end F"] in \<open>auto simp add: c c' core_eq_def\<close>)
  moreover have "run W (at_body_identity_eof W c) = run W (Break ((MARK M_body c)\<lparr>ptr := ?e - 1\<rparr>))"
  proof (cases "?e < data_end W")
    case True
    moreover have "0 < ?e" using facts(10) by linarith
    ultimately show ?thesis using eof_split [of c ?e W] s facts(6) by simp
  next
    case False
    with window_drop(2) [OF w, of 0] have "?e = data_end W" by simp
    then show ?thesis by (simp add: at_body_identity_eof_def)
  qed
  ultimately show ?thesis by (simp add: follows_def at_body_identity_eof_def [of F])
qed

text \<open>What is pending is reported.\<close>

lemma recorder_report:
  assumes "settings env = recorder" and "http_errno (parser c) = HPE_OK" and "(marks c)(m := None) = (\<lambda>_. None)"
  obtains y where "callback_data env m (ptr c) er c k =
    k (c\<lparr>parser := (parser c)\<lparr>state := y\<rparr>, app := app c @ pending (data env) c, marks := (\<lambda>_. None)\<rparr>)"
proof (cases "marks c m")
  case None
  with assms(3) have "marks c = (\<lambda>_. None)" by (metis fun_upd_triv)
  then have "c\<lparr>parser := (parser c)\<lparr>state := state (parser c)\<rparr>, app := app c @ pending (data env) c, marks := (\<lambda>_. None)\<rparr> = c"
    by simp
  then show ?thesis
    using None assms by (intro that [of "state (parser c)"]) (simp only: callback_data_def simp_thms if_False option.case)
next
  case (Some i)
  with assms(3) have "marks c = (\<lambda>_. None)(m := Some i)" by (metis fun_upd_triv fun_upd_upd)
  from pending_one [OF this] Some assms show ?thesis
    by (intro that [of "p_state c"]) (simp add: recorder_callback_data)
qed

lemma follows_chunk_data_almost_done:
  assumes here: "here W n F c c'" and s: "p_state c' = s_chunk_data_almost_done"
  shows "follows W n F (at_chunk_data_almost_done W c) (at_chunk_data_almost_done F c')"
proof -
  note facts = here_facts [OF here] and core = core_eqD [OF here_facts(11) [OF here]]
  have sim: "sim n (data W) (data F) c c'" using here by (simp add: here_def)
  have mk: "(marks c)(M_body := None) = (\<lambda>_. None)" "(marks c')(M_body := None) = (\<lambda>_. None)"
    using sim s facts(6) by (auto intro!: marks_ok_cleared simp: sim_def)
  have pending: "pending d (UPDATE_STATE t x) = pending d x" for d t and x :: "event list ctx" by (simp add: pending_def cong: option.case_cong)
  let ?c = "UPDATE_STATE s_chunk_data_done c" and ?c' = "UPDATE_STATE s_chunk_data_done c'"
  obtain y where y: "callback_data W M_body (ptr c) (ptr c + 1) ?c Break =
      Break (?c\<lparr>parser := (parser c)\<lparr>state := y\<rparr>, app := app c @ pending (data W) c, marks := (\<lambda>_. None)\<rparr>)"
    using recorder_report [of W ?c M_body "ptr c + 1" Break] facts(1,9) core(12) mk(1) by (auto simp: pending)
  obtain y' where y': "callback_data F M_body (ptr c') (ptr c' + 1) ?c' Break =
      Break (?c'\<lparr>parser := (parser c')\<lparr>state := y'\<rparr>, app := app c' @ pending (data F) c', marks := (\<lambda>_. None)\<rparr>)"
    using recorder_report [of F ?c' M_body "ptr c' + 1" Break] facts(2,9) mk(2) by (auto simp: pending)
  have core': "core_eq ((parser c)\<lparr>state := y\<rparr>) ((parser c')\<lparr>state := y'\<rparr>)"
    using facts(11) by (simp add: core_eq_def)
  have "follows W n F (CALLBACK_DATA W M_body ?c Break) (CALLBACK_DATA F M_body ?c' Break)"
    unfolding CALLBACK_DATA_def using y y' sim_glue [OF sim] core' facts(5,7)
    by (simp add: follows_Break unmarked_iff url_states_def)
  then show ?thesis
    by (simp add: at_chunk_data_almost_done_def core(2,7) facts(8) follows_Abort follows_strict)
qed

end
