(* ===== verification/HttpLenient.thy ===== *)
theory HttpLenient
  imports HttpScan
begin

text \<open>
  The switch never writes \<open>lenient_http_headers\<close>: the setting that \<open>sn_http_parser_execute\<close>
  (\<open>src/src/httpparser.cpp\<close>) reads at its start is the same in the next call.
\<close>

definition keeps :: "bool \<Rightarrow> 'a outcome \<Rightarrow> bool" where
  "keeps l out \<longleftrightarrow>
    (case out of
       Break c \<Rightarrow> lenient_http_headers (parser c) = l
     | Reexecute c \<Rightarrow> lenient_http_headers (parser c) = l
     | Return n pr a \<Rightarrow> lenient_http_headers pr = l
     | Abort \<Rightarrow> True)"

lemma keeps_simps [simp]:
  "keeps l (Break c) \<longleftrightarrow> lenient_http_headers (parser c) = l"
  "keeps l (Reexecute c) \<longleftrightarrow> lenient_http_headers (parser c) = l"
  "keeps l (Return n pr a) \<longleftrightarrow> lenient_http_headers pr = l"
  "keeps l Abort"
  by (simp_all add: keeps_def)

lemma keeps_RETURN [simp]: "keeps l (RETURN v c) \<longleftrightarrow> lenient_http_headers (parser c) = l"
  by (simp add: RETURN_def)

lemma keeps_fail [simp]: "keeps l (fail e c) \<longleftrightarrow> lenient_http_headers (parser c) = l"
  by (simp add: fail_def goto_error_def SET_ERRNO_def set_errno_def Let_def)

lemma keeps_goto_error [simp]: "keeps l (goto_error c) \<longleftrightarrow> lenient_http_headers (parser c) = l"
  by (simp add: goto_error_def SET_ERRNO_def set_errno_def Let_def)

lemma keeps_count:
  "lenient_http_headers (parser c) = l \<Longrightarrow> (\<And>m. keeps l (k (c\<lparr>n_read := m\<rparr>))) \<Longrightarrow> keeps l (COUNT_HEADER_SIZE env v c k)"
  by (simp add: COUNT_HEADER_SIZE_def Let_def)

lemma keeps_strict:
  "lenient_http_headers (parser c) = l \<Longrightarrow> keeps l (k c) \<Longrightarrow> keeps l (STRICT_CHECK cond c k)"
  by (simp add: STRICT_CHECK_def)

lemma keeps_notify:
  assumes "settings env = recorder" and "\<And>s a. keeps l (k (c\<lparr>parser := (parser c)\<lparr>state := s\<rparr>, app := a\<rparr>))"
  shows "keeps l (callback_notify env n er c k)"
proof (cases "http_errno (parser c) = HPE_OK")
  case True
  with assms show ?thesis by (simp add: recorder_callback_notify)
qed (simp add: callback_notify_def)

lemma keeps_data:
  assumes "settings env = recorder"
    and "\<And>s a mk. keeps l (k (c\<lparr>parser := (parser c)\<lparr>state := s\<rparr>, app := a, marks := mk\<rparr>))"
  shows "keeps l (callback_data env m e er c k)"
proof (cases "http_errno (parser c) = HPE_OK")
  case True
  show ?thesis
  proof (cases "marks c m")
    case None
    with True assms(2) [where s = "state (parser c)" and a = "app c" and mk = "marks c"] show ?thesis by (simp add: callback_data_def)
  next
    case (Some i)
    with True assms show ?thesis by (simp add: recorder_callback_data)
  qed
qed (simp add: callback_data_def)

lemmas keeps_defs =
  Let_def expect_def reset_message_def url_char_def MARK_def take_body_def finish_header_def message_complete_def
  CALLBACK_NOTIFY_def CALLBACK_NOTIFY_NOADVANCE_def CALLBACK_DATA_def CALLBACK_DATA_NOADVANCE_def SET_ERRNO_def set_errno_def

lemmas keeps_intros = keeps_strict keeps_notify keeps_data

lemma keeps_start:
  assumes "settings env = recorder" and "lenient_http_headers (parser c) = l"
  shows "keeps l (at_dead c)" "keeps l (at_start_req_or_res env c)" "keeps l (at_res_or_resp_H c)" "keeps l (at_start_res env c)" "keeps l (at_start_req env c)"
  using assms
  by (auto simp: keeps_defs at_dead_def at_res_or_resp_H_def at_start_req_def at_start_req_or_res_def at_start_res_def
      intro!: keeps_intros split: option.split)

lemma keeps_status:
  assumes "settings env = recorder" and "lenient_http_headers (parser c) = l"
  shows "keeps l (at_res_first_status_code c)" "keeps l (at_res_status_code c)" "keeps l (at_res_status_start c)" "keeps l (at_res_status env c)" "keeps l (expect x s c)"
  using assms
  by (auto simp: keeps_defs at_res_first_status_code_def at_res_status_code_def at_res_status_def at_res_status_start_def
      intro!: keeps_intros)

lemma keeps_versions:
  assumes "settings env = recorder" and "lenient_http_headers (parser c) = l"
  shows "keeps l (at_res_HTTP c)" "keeps l (at_res_http_version c)" "keeps l (at_req_HTTP c)" "keeps l (at_req_http_version c)"
  using assms
  by (auto simp: keeps_defs at_req_HTTP_def at_req_http_version_def at_res_HTTP_def at_res_http_version_def
      intro!: keeps_intros split: state.split)

lemma keeps_request:
  assumes "settings env = recorder" and "lenient_http_headers (parser c) = l"
  shows "keeps l (at_req_method c)" "keeps l (at_req_spaces_before_url c)" "keeps l (at_req_schema c)" "keeps l (at_req_url env c)" "keeps l (at_req_http_start c)" "keeps l (at_req_http_end c)" "keeps l (at_req_line_almost_done c)"
  using assms
  by (auto simp: keeps_defs at_req_http_end_def at_req_http_start_def at_req_line_almost_done_def at_req_method_def at_req_schema_def at_req_spaces_before_url_def at_req_url_def
      intro!: keeps_intros split: option.split)

lemma keeps_body:
  assumes "settings env = recorder" and "lenient_http_headers (parser c) = l"
  shows "keeps l (at_body_identity env c)" "keeps l (at_body_identity_eof env c)" "keeps l (at_message_done env c)" "keeps l (at_headers_done env c)"
  using assms
  by (auto simp: keeps_defs at_body_identity_def at_body_identity_eof_def at_headers_done_def at_message_done_def
      intro!: keeps_intros)

lemma keeps_chunks:
  assumes "settings env = recorder" and "lenient_http_headers (parser c) = l"
  shows "keeps l (at_chunk_size_start c)" "keeps l (at_chunk_size c)" "keeps l (at_chunk_parameters c)" "keeps l (at_chunk_size_almost_done env c)" "keeps l (at_chunk_data env c)" "keeps l (at_chunk_data_almost_done env c)" "keeps l (at_chunk_data_done env c)"
  using assms
  by (auto simp: keeps_defs at_chunk_data_almost_done_def at_chunk_data_def at_chunk_data_done_def at_chunk_parameters_def at_chunk_size_almost_done_def at_chunk_size_def at_chunk_size_start_def
      intro!: keeps_intros)

lemma keeps_header_value_start:
  "lenient_http_headers (parser c) = l \<Longrightarrow> keeps l (at_header_value_start c)"
  by (cases "header_state (parser c)") (simp_all add: at_header_value_start_def keeps_defs)

lemma keeps_header:
  assumes "settings env = recorder" and "lenient_http_headers (parser c) = l"
  shows "keeps l (at_header_field_start c)" "keeps l (at_header_value_discard_ws c)" "keeps l (at_header_almost_done c)"
    "keeps l (at_header_value_lws c)" "keeps l (at_header_value_discard_lws env c)"
  using assms keeps_header_value_start
  by (auto simp: keeps_defs at_header_field_start_def at_header_value_discard_ws_def at_header_almost_done_def
      at_header_value_lws_def at_header_value_discard_lws_def intro!: keeps_intros)

lemma keeps_headers_almost_done:
  assumes "settings env = recorder" and "lenient_http_headers (parser c) = l"
  shows "keeps l (at_headers_almost_done env c)"
  using assms by (auto simp: keeps_defs at_headers_almost_done_def recorder_headers intro!: keeps_intros)

lemma header_field_char_keeps:
  "header_field_char c x pr = Some q \<Longrightarrow> lenient_http_headers q = lenient_http_headers pr"
proof -
  have "lenient_http_headers (match_field w h c pr) = lenient_http_headers pr" for w h
    by (simp add: match_field_def Let_def)
  then have "case header_field_char c x pr of None \<Rightarrow> True | Some q \<Rightarrow> lenient_http_headers q = lenient_http_headers pr"
    by (cases "header_state pr") (simp_all add: header_field_char_def Let_def)
  then show "header_field_char c x pr = Some q \<Longrightarrow> lenient_http_headers q = lenient_http_headers pr" by simp
qed

lemma field_loop_keeps:
  assumes "field_loop d mhs i ch pr = Some (j, ch', pr')"
  shows "lenient_http_headers pr' = lenient_http_headers pr"
proof -
  have chars: "field_chars w pr = Some (k, q) \<Longrightarrow> lenient_http_headers q = lenient_http_headers pr" for w k q
  proof (induction w arbitrary: pr k q)
    case (Cons x w)
    show ?case
    proof (cases "if header_state pr = h_general then Some pr else header_field_char (TOKEN x) x pr")
      case (Some pr')
      then have "lenient_http_headers pr' = lenient_http_headers pr"
        using header_field_char_keeps by (simp split: if_splits)
      with Cons Some show ?thesis by (fastforce split: if_splits)
    qed (use Cons in \<open>simp split: if_splits\<close>)
  qed simp
  have "field_end (field_loop d mhs i ch pr) = Some (j, pr')" using assms by (simp add: field_end_def)
  then show ?thesis unfolding field_loop_chars using chars by auto
qed

lemma value_loop_keeps:
  "value_loop d mhs lnt i ch h pr = (s, j, ch', h', pr') \<Longrightarrow> lenient_http_headers pr' = lenient_http_headers pr"
proof (induction d mhs lnt i ch h pr rule: value_loop.induct)
  case (1 d mhs lnt i ch h pr)
  note unfolded = "1.prems" [unfolded value_loop.simps [of d mhs lnt i ch h pr]]
  show ?case
  proof (cases "i < length d \<and> value_char lnt (d ! i)")
    case False
    with unfolded show ?thesis by (simp add: Let_def value_char_def split: if_splits)
  next
    case go: True
    then have v: "d ! i \<noteq> CR" "d ! i \<noteq> LF" "lnt \<or> IS_HEADER_CHAR (d ! i)" by (simp_all add: value_char_def)
    show ?thesis
    proof (cases "h = h_general")
      case True
      obtain r c1 where scan: "general_scan d lnt i (i + min (length d - i) (unat mhs)) (d ! i) = (r, c1)"
        by fastforce
      show ?thesis
      proof (cases r)
        case (Inl k)
        with unfolded go v True scan show ?thesis by auto
      next
        case (Inr k)
        with "1.prems" go v True scan
        have "value_loop d mhs lnt ((if k = length d then k - 1 else k) + 1) c1 h pr = (s, j, ch', h', pr')"
          using value_loop_general [of i d lnt mhs ch pr] by simp
        with "1.IH"(1) [OF _ refl _ _ _ True scan [symmetric] Inr] go v show ?thesis by blast
      qed
    next
      case False
      have step: "case header_value_char c x h pr of
          V_ok h' q \<Rightarrow> lenient_http_headers q = lenient_http_headers pr
        | V_error e h' q \<Rightarrow> lenient_http_headers q = lenient_http_headers pr | V_assert \<Rightarrow> True" for c x
        by (cases h) (simp_all add: header_value_char_def content_length_digit_def match_value_def Let_def)
      show ?thesis
      proof (cases "header_value_char (LOWER (d ! i)) (d ! i) h pr")
        case (V_ok h1 pr1)
        with "1.prems" go v False have "value_loop d mhs lnt (i + 1) (d ! i) h1 pr1 = (s, j, ch', h', pr')"
          using value_loop_other [of i d lnt h mhs ch pr] by simp
        with "1.IH"(2) [OF _ refl _ _ _ False V_ok] go v have "lenient_http_headers pr' = lenient_http_headers pr1" by blast
        with step [of "LOWER (d ! i)" "d ! i"] V_ok show ?thesis by simp
      qed (use "1.prems" go v False value_loop_other [of i d lnt h mhs ch pr] step [of "LOWER (d ! i)" "d ! i"] in simp_all)
    qed
  qed
qed

lemma keeps_header_field:
  assumes "settings env = recorder" and "lenient_http_headers (parser c) = l"
  shows "keeps l (at_header_field env c)"
proof (cases "field_loop (data env) (max_header_size env) (ptr c) (cur c) (parser c)")
  case (Some r)
  then obtain j ch pr where loop: "field_loop (data env) (max_header_size env) (ptr c) (cur c) (parser c) = Some (j, ch, pr)"
    by (cases r) auto
  from field_loop_keeps [OF loop] assms(2) have "lenient_http_headers pr = l" by simp
  with loop assms(1) show ?thesis
    by (auto simp: at_header_field_def keeps_defs intro!: keeps_count keeps_intros)
qed (simp add: at_header_field_def)

lemma keeps_header_value:
  assumes "settings env = recorder" and "lenient_http_headers (parser c) = l"
  shows "keeps l (at_header_value env c)"
proof -
  obtain s j ch h pr where
    loop: "value_loop (data env) (max_header_size env) (lenient env) (ptr c) (cur c) (header_state (parser c)) (parser c) =
      (s, j, ch, h, pr)" by (metis prod_cases5)
  from value_loop_keeps [OF loop] assms(2) have "lenient_http_headers pr = l" by simp
  with loop assms(1) show ?thesis
    by (cases s; cases "j = data_end env")
      (auto simp: at_header_value_def keeps_defs intro!: keeps_count keeps_intros)
qed

section \<open>The run\<close>

lemma step_keeps:
  assumes "settings env = recorder" and "lenient_http_headers (parser c) = l"
  shows "keeps l (step env c)"
  by (cases "p_state c")
    (simp_all add: step_def keeps_start [OF assms] keeps_status [OF assms] keeps_versions [OF assms] keeps_request [OF assms]
      keeps_header [OF assms] keeps_body [OF assms] keeps_chunks [OF assms] keeps_header_value_start [OF assms(2)]
      keeps_headers_almost_done [OF assms] keeps_header_field [OF assms] keeps_header_value [OF assms])

lemma loop_head_keeps:
  assumes "settings env = recorder" and "lenient_http_headers (parser c) = l"
  shows "keeps l (loop_head env c)"
  using assms
  by (auto simp: loop_head_def loop_end_def Let_def CALLBACK_DATA_NOADVANCE_def intro!: keeps_count keeps_data)

definition keeps_result :: "bool \<Rightarrow> 'a exec_result \<Rightarrow> bool" where
  "keeps_result l res \<longleftrightarrow> (case res of Returned n pr a \<Rightarrow> lenient_http_headers pr = l | Aborted \<Rightarrow> True)"

lemma run_keeps_result:
  assumes "run env out = Some res"
  shows "settings env = recorder \<longrightarrow> keeps l out \<longrightarrow> keeps_result l res"
proof (rule run.raw_induct [where P = "\<lambda>env out res. settings env = recorder \<longrightarrow> keeps l out \<longrightarrow> keeps_result l res", OF _ assms],
    goal_cases)
  case (1 go env out res)
  show ?case
  proof (intro impI)
    assume st: "settings env = recorder" and l: "keeps l out"
    show "keeps_result l res"
    proof (cases out)
      case (Break c)
      with l have "keeps l (loop_head env (c\<lparr>ptr := ptr c + 1\<rparr>))" by (intro loop_head_keeps [OF st]) simp
      with 1 Break st show ?thesis by simp
    next
      case (Reexecute c)
      with l have "keeps l (step env c)" by (intro step_keeps [OF st]) simp
      with 1 Reexecute st show ?thesis by simp
    qed (use 1 l in \<open>auto simp: keeps_result_def\<close>)
  qed
qed

lemma execute_keeps_lenient:
  assumes "sn_http_parser_execute recorder mhs pr a d = Some (Returned n pr' a')" and "http_errno pr = HPE_OK" and "d \<noteq> []"
  shows "lenient_http_headers pr' = lenient_http_headers pr"
proof -
  let ?env = "recording_env mhs d (lenient_http_headers pr)"
  have "run ?env (loop_head ?env (entry_ctx pr a)) = Some (Returned n pr' a')"
    using assms by (simp add: execute_at_loop at_loop_def)
  from run_keeps_result [OF this, of "lenient_http_headers pr"] show ?thesis
    using loop_head_keeps [of ?env "entry_ctx pr a" "lenient_http_headers pr"] by (simp add: keeps_result_def)
qed

end
