(* ===== verification/HttpPieces.thy ===== *)
theory HttpPieces
  imports HttpPieceCases HttpPieceValues HttpPieceBodies HttpLenient
begin

text \<open>
  The switch, the loop and \<open>sn_http_parser_execute\<close> (\<open>src/src/httpparser.cpp\<close>) on a part of the
  buffer and on the whole, and a call that is split in two.
\<close>

section \<open>The switch\<close>

lemma follows_expect:
  assumes "here W n F c c'" and "markless (p_state c')" and "unmarked s"
  shows "follows W n F (expect x s c) (expect x s c')"
  by (rule here_noneE [OF assms(1,2)]) (use assms(3) in \<open>simp add: expect_def piece_rules\<close>)

lemma window_countable: "window W n F \<Longrightarrow> countable W \<Longrightarrow> countable F \<and> data_end W < 2 ^ 64"
proof -
  assume w: "window W n F" and c: "countable W"
  then have "max_header_size W = max_header_size F" "data_end F \<le> data_end W"
    using window_drop(2) [OF w, of 0] by (simp_all add: window_def)
  with c show ?thesis by (simp add: countable_def)
qed

lemma step_follows:
  assumes here: "here W n F c c'" and inv: "ctx_inv F 1 c'" and count: "countable W"
    and pos: "p_state c' = s_header_value \<Longrightarrow> 0 < n_read c'"
  shows "follows W n F (step W c) (step F c')"
proof -
  have w: "window W n F" using here by (simp add: here_def)
  note facts = here_facts [OF here] and bounds = window_countable [OF w count]
  have n: "n_read c' \<le> max_header_size F" "n_read c \<le> max_header_size W"
    using ctx_invD(5) [OF inv] facts by (auto simp: ctx_inv_def)
  have st: "state_inv 1 (parser c') (p_state c') (n_read c')" using inv by (simp add: ctx_inv_def)
  have body: "in_body c'" if "p_state c' = s_chunk_data \<or> p_state c' = s_body_identity"
    using st that by (auto simp: in_body_def)
  show ?thesis
  proof (cases "p_state c' \<in> {s_header_field, s_header_value, s_chunk_data, s_body_identity}")
    case True
    then consider (field) "p_state c' = s_header_field" | (val) "p_state c' = s_header_value"
      | (bod) "p_state c' = s_chunk_data \<or> p_state c' = s_body_identity" by auto
    then show ?thesis
    proof cases
      case field
      with follows_header_field [OF here field count n(2)] facts(6) show ?thesis by (simp add: step_def)
    next
      case val
      from st val have hs: "header_state (parser c') \<noteq> h_connection" "header_state (parser c') \<noteq> h_transfer_encoding"
        by simp_all
      have "countable F" using bounds by simp
      from follows_header_value [OF here val count this pos [OF val] n(1) hs] val facts(6) show ?thesis by (simp add: step_def)
    next
      case bod
      from follows_body [OF here body [OF bod]] bounds show ?thesis by simp
    qed
  next
    case False
    then show ?thesis
      by (cases "p_state c'")
        (simp_all add: step_def facts(6) markless_iff url_states_def
          follows_dead [OF here] follows_start_req_or_res [OF here] follows_res_or_resp_H [OF here]
          follows_start_res [OF here] follows_res_HTTP [OF here] follows_res_http_version [OF here]
          follows_res_first_status_code [OF here] follows_res_status_code [OF here] follows_res_status_start [OF here]
          follows_res_status [OF here] follows_expect [OF here] follows_start_req [OF here] follows_req_method [OF here]
          follows_req_spaces_before_url [OF here] follows_req_schema [OF here] follows_req_url [OF here]
          follows_req_http_start [OF here] follows_req_HTTP [OF here] follows_req_http_version [OF here]
          follows_req_http_end [OF here] follows_req_line_almost_done [OF here] follows_header_field_start [OF here]
          follows_header_value_discard_ws [OF here] follows_header_value_discard_lws [OF here]
          follows_header_value_start [OF here] follows_header_value_lws [OF here] follows_header_almost_done [OF here]
          follows_chunk_size_start [OF here] follows_chunk_size [OF here] follows_chunk_parameters [OF here]
          follows_chunk_size_almost_done [OF here] follows_headers_almost_done [OF here] follows_headers_done [OF here]
          follows_chunk_data_almost_done [OF here] follows_chunk_data_done [OF here] follows_body_identity_eof [OF here]
          follows_message_done [OF here])
  qed
qed

section \<open>The loop\<close>

lemma pending_updates [simp]:
  "pending d (c\<lparr>cur := x\<rparr>) = pending d c" "pending d (c\<lparr>n_read := m\<rparr>) = pending d c"
  by (simp_all add: pending_def cong: option.case_cong)

lemma marks_ok_updates [simp]:
  "marks_ok (c\<lparr>cur := x\<rparr>) = marks_ok c" "marks_ok (c\<lparr>n_read := m\<rparr>) = marks_ok c"
  by (simp_all add: marks_ok_def)

lemma sim_cur [simp]: "sim n d d' (c\<lparr>cur := x\<rparr>) (c'\<lparr>cur := x'\<rparr>) = sim n d d' c c'"
  by (simp add: sim_def)

lemma sim_count: "sim n d d' c c' \<Longrightarrow> sim n d d' (c\<lparr>cur := x, n_read := m\<rparr>) (c'\<lparr>cur := x', n_read := m\<rparr>)"
  by (simp add: sim_def)

text \<open>After the last byte, what is pending is reported.\<close>

lemma marks_ok_cases:
  assumes "marks_ok c"
  obtains "marks c = (\<lambda>_. None)" | m i where "marks c = (\<lambda>_. None)(m := Some i)" "p_state c \<in> mark_states m"
proof (cases "marks c = (\<lambda>_. None)")
  case False
  then obtain m i where mi: "marks c m = Some i" by (metis not_None_eq)
  then have s: "p_state c \<in> mark_states m" using marks_okD [OF assms] by blast
  with marks_ok_cleared [OF assms s] mi have "marks c = (\<lambda>_. None)(m := Some i)" by (metis fun_upd_triv fun_upd_upd)
  with s show ?thesis by (rule that(2) [rotated])
qed (rule that(1))

lemma recorder_loop_end:
  assumes "settings env = recorder" and "http_errno (parser c) = HPE_OK" and "marks_ok c" and "ptr c = data_end env"
  shows "at_loop env c =
    Some (Returned (data_end env) ((parser c)\<lparr>nread := n_read c, state := p_state c\<rparr>) (app c @ pending (data env) c))"
  using assms(3)
proof (cases rule: marks_ok_cases)
  case 1
  with assms show ?thesis by (simp add: at_loop_end)
next
  case (2 m i)
  have "loop_end env c = RETURN (data_end env)
      (c\<lparr>parser := (parser c)\<lparr>state := p_state c\<rparr>, app := app c @ [Received m (seg (data env) i (ptr c))],
        marks := (\<lambda>_. None)\<rparr>)"
    using assms 2 by (cases m) (simp_all add: loop_end_def marks_set_def CALLBACK_DATA_NOADVANCE_def
        recorder_callback_data callback_data_unmarked)
  then show ?thesis
    using assms pending_one [OF 2(1)] by (simp add: at_loop_def loop_head_def RETURN_def)
qed

lemma head_follows:
  assumes w: "window W n F" and sim: "sim n (data W) (data F) d d'" and inv: "loop_inv F d'" and lt: "ptr d' < data_end F"
    and count: "countable W" and fine: "fine (data_end W) (at_loop W d)"
  obtains c c' where "at_loop W d = run W (Reexecute c)" and "at_loop F d' = run F (Reexecute c')" and "here W n F c c'"
    and "ctx_inv F 1 c'" and "ptr c' = ptr d'" and "p_state c' = s_header_value \<Longrightarrow> 0 < n_read c'"
proof -
  have s: "ptr d = n + ptr d'" "p_state d = p_state d'" "n_read d = n_read d'" using sim by (simp_all add: sim_def)
  note byte = window_byte [OF w lt]
  have st: "settings F = recorder" "max_header_size W = max_header_size F" using w by (simp_all add: window_def)
  have ok: "http_errno (parser d') = HPE_OK" "n_read d' \<le> max_header_size F" using inv by (simp_all add: loop_inv_def)
  note head = recording.loop_head_good [OF st(1) inv]
  let ?c = "load W d" and ?c' = "load F d'"
  have "sim n (data W) (data F) ?c ?c'"
    using s sim_count [OF sim] sim_count [OF sim, where m = "n_read d'"] by (simp add: load_def del: PARSING_HEADER_iff)
  then have here: "here W n F ?c ?c'" using w s byte lt ok by (simp add: here_def)
  show ?thesis
  proof (cases "PARSING_HEADER (p_state d')")
    case True
    have "at_loop W d = run W (COUNT_HEADER_SIZE W 1 (d\<lparr>cur := data W ! ptr d\<rparr>) Reexecute)"
      using True s byte by (simp add: at_loop_def loop_head_def Let_def del: PARSING_HEADER_iff)
    with fine have n: "n_read d' + 1 \<le> max_header_size F"
      using fine_count(1) [of "data_end W" W 1 "d\<lparr>cur := data W ! ptr d\<rparr>" Reexecute] s st by simp
    have W: "at_loop W d = run W (Reexecute ?c)" 
      using turn [of d W] s st n byte by (simp add: run_Reexecute)
    have F: "loop_head F d' = Reexecute ?c'" 
      using True n lt by (simp add: loop_head_def COUNT_HEADER_SIZE_def load_def Let_def leD del: PARSING_HEADER_iff)
    have "unat (n_read d') + 1 < 2 ^ 32"
      using window_countable [OF w count] ok(2) lt by (simp add: countable_def word_le_nat_alt)
    from unat_add_small [OF this] have "0 < unat (n_read d' + 1)" by simp
    then have "0 < n_read ?c'" using True by (simp add: load_def word_less_nat_alt del: PARSING_HEADER_iff)
    then show ?thesis using head F W here by (intro that [of ?c ?c']) (simp_all add: at_loop_def)
  next
    case False
    have W: "at_loop W d = run W (Reexecute ?c)" 
      using turn [of d W] s False byte by (simp add: run_Reexecute del: PARSING_HEADER_iff)
    have F: "loop_head F d' = Reexecute ?c'" 
      using False lt by (simp add: loop_head_def load_def Let_def del: PARSING_HEADER_iff)
    show ?thesis using head F W False here by (intro that [of ?c ?c']) (auto simp add: at_loop_def)
  qed
qed

text \<open>A run on a part ends where the whole goes on, or as the run on the whole does.\<close>

lemma run_follows:
  assumes w: "window W n F" and count: "countable W"
    and "here W n F c c'" and "ctx_inv F 1 c'" and "p_state c' = s_header_value \<Longrightarrow> 0 < n_read c'"
    and "fine (data_end W) (run W (Reexecute c))"
  shows "(\<exists>d d'. run W (Reexecute c) = at_loop W d \<and> run F (Reexecute c') = at_loop F d' \<and>
      sim n (data W) (data F) d d' \<and> loop_inv F d' \<and> ptr d' = data_end F) \<or>
    (\<exists>v pr a a'. run W (Reexecute c) = Some (Returned (n + v) pr a) \<and>
      run F (Reexecute c') = Some (Returned v pr a') \<and> v \<le> data_end F \<and> glue a = glue a')"
    (is "?reached c c'")
  using assms(3-)
proof (induction "(data_end F - ptr c') * 4 + rank (p_state c')" arbitrary: c c' rule: less_induct)
  case less
  have st: "settings F = recorder" using w by (simp add: window_def)
  have small: "data_end F < 2 ^ 64" using window_countable [OF w count] by (simp add: countable_def)
  have good: "good F c' (step F c')" by (rule recording.step_good [OF st small less.prems(2)])
  have runs: "run W (Reexecute c) = run W (step W c)" "run F (Reexecute c') = run F (step F c')"
    by (simp_all add: run_Reexecute)
  have "fine (data_end W) (run W (step W c))" using less.prems(4) runs by simp
  with step_follows [OF less.prems(1,2) count less.prems(3)] obtain o'
    where o': "run W (step W c) = run W o'" and alike: "alike n (data W) (data F) o' (step F c')"
    by (auto simp: follows_def)
  from alike show ?case
  proof cases
    case (alike_Break c1 c1')
    let ?d = "c1\<lparr>ptr := ptr c1 + 1\<rparr>" and ?d' = "c1'\<lparr>ptr := ptr c1' + 1\<rparr>"
    have W: "run W (Reexecute c) = at_loop W ?d" using runs(1) o' alike_Break by (simp add: run_Break_loop)
    have F: "run F (Reexecute c') = at_loop F ?d'" using runs(2) alike_Break by (simp add: run_Break_loop)
    have inv: "loop_inv F ?d'" and le: "ptr c' \<le> ptr c1'" "ptr c1' < data_end F"
      using good alike_Break loop_inv_advance by (auto simp: ctx_inv_def)
    show ?thesis
    proof (cases "ptr ?d' = data_end F")
      case True
      with W F inv alike_Break show ?thesis by blast
    next
      case False
      with le have lt: "ptr ?d' < data_end F" by simp
      have "fine (data_end W) (at_loop W ?d)" using less.prems(4) W by simp
      from head_follows [OF w alike_Break(3) inv lt count this] obtain c2 c2' where
        next_runs: "at_loop W ?d = run W (Reexecute c2)" "at_loop F ?d' = run F (Reexecute c2')"
        and here: "here W n F c2 c2'" and inv2: "ctx_inv F 1 c2'" and ptr: "ptr c2' = ptr ?d'"
        and pos: "p_state c2' = s_header_value \<Longrightarrow> 0 < n_read c2'" by blast
      have "(data_end F - ptr c2') * 4 + rank (p_state c2') < (data_end F - ptr c') * 4 + rank (p_state c')"
        using ptr le recording.rank_le [of "p_state c2'"] by auto
      from less.hyps [OF this here inv2 pos] less.prems(4) show ?thesis
        unfolding W F next_runs by blast
    qed
  next
    case (alike_Reexecute c1 c1')
    with good have inv: "ctx_inv F 1 c1'" "ptr c' \<le> ptr c1'" "rank (p_state c1') < rank (p_state c')" by simp_all
    then have m: "(data_end F - ptr c1') * 4 + rank (p_state c1') < (data_end F - ptr c') * 4 + rank (p_state c')"
      by (simp add: add_le_less_mono)
    have here: "here W n F c1 c1'" using alike_Reexecute inv(1) w by (simp add: here_def ctx_inv_def)
    have W: "run W (Reexecute c) = run W (Reexecute c1)" using runs(1) o' alike_Reexecute by simp
    have F: "run F (Reexecute c') = run F (Reexecute c1')" using runs(2) alike_Reexecute by simp
    from less.hyps [OF m here inv(1)] alike_Reexecute less.prems(4) show ?thesis
      unfolding W F by blast
  next
    case (alike_Return a a' v pr)
    with good have "v \<le> data_end F" by simp
    with alike_Return runs o' show ?thesis by auto
  qed
qed

lemma at_loop_follows:
  assumes w: "window W n F" and count: "countable W" and sim: "sim n (data W) (data F) c c'" and inv: "loop_inv F c'"
    and fine: "fine (data_end W) (at_loop W c)"
  obtains
    (reached) d d' where "at_loop W c = at_loop W d" and "at_loop F c' = at_loop F d'"
      and "sim n (data W) (data F) d d'" and "loop_inv F d'" and "ptr d' = data_end F"
  | (returned) v pr a a' where "at_loop W c = Some (Returned (n + v) pr a)" and "at_loop F c' = Some (Returned v pr a')"
      and "v \<le> data_end F" and "glue a = glue a'"
proof (cases "ptr c' = data_end F")
  case True
  with reached [OF refl refl sim inv] show ?thesis by simp
next
  case False
  with inv have "ptr c' < data_end F" by (simp add: loop_inv_def)
  from head_follows [OF w sim inv this count fine] obtain e e' where
    runs: "at_loop W c = run W (Reexecute e)" "at_loop F c' = run F (Reexecute e')"
    and e: "here W n F e e'" "ctx_inv F 1 e'" "p_state e' = s_header_value \<Longrightarrow> 0 < n_read e'" by blast
  have "fine (data_end W) (run W (Reexecute e))" using fine runs(1) by simp
  from run_follows [OF w count e(1,2) _ this] e(3)
  consider (a) "\<exists>d d'. run W (Reexecute e) = at_loop W d \<and> run F (Reexecute e') = at_loop F d' \<and>
      sim n (data W) (data F) d d' \<and> loop_inv F d' \<and> ptr d' = data_end F"
    | (b) "\<exists>v pr a a'. run W (Reexecute e) = Some (Returned (n + v) pr a) \<and>
      run F (Reexecute e') = Some (Returned v pr a') \<and> v \<le> data_end F \<and> glue a = glue a'"
    by argo
  then show ?thesis
  proof cases
    case a
    with runs reached show ?thesis by metis
  next
    case b
    with runs returned show ?thesis by metis
  qed
qed

lemma sim_end:
  assumes "window W n F" and sim: "sim n (data W) (data F) d d'" and inv: "loop_inv F d'" and "ptr d' = data_end F"
  shows "at_loop F d' = Some (Returned (data_end F) ((parser d')\<lparr>nread := n_read d', state := p_state d'\<rparr>)
      (app d' @ pending (data F) d'))"
    and "n + data_end F = data_end W \<Longrightarrow>
      at_loop W d = Some (Returned (data_end W) ((parser d')\<lparr>nread := n_read d', state := p_state d'\<rparr>)
        (app d @ pending (data W) d))"
proof -
  have st: "settings W = recorder" "settings F = recorder" using assms(1) by (simp_all add: window_def)
  have ok: "http_errno (parser d') = HPE_OK" "marks_ok d'" using inv by (simp_all add: loop_inv_def)
  show "at_loop F d' = Some (Returned (data_end F) ((parser d')\<lparr>nread := n_read d', state := p_state d'\<rparr>)
      (app d' @ pending (data F) d'))"
    by (rule recorder_loop_end [OF st(2) ok assms(4)])
  have d: "ptr d = n + ptr d'" "p_state d = p_state d'" "n_read d = n_read d'" "marks_ok d"
    and core: "core_eq (parser d) (parser d')" using sim by (simp_all add: sim_def)
  assume "n + data_end F = data_end W"
  with d(1) assms(4) have "ptr d = data_end W" by simp
  moreover have "http_errno (parser d) = HPE_OK" using core_eqD(12) [OF core] ok(1) by simp
  ultimately show "at_loop W d = Some (Returned (data_end W) ((parser d')\<lparr>nread := n_read d', state := p_state d'\<rparr>)
      (app d @ pending (data W) d))"
    using recorder_loop_end [OF st(1) _ d(4)] core_eq_update(2) [OF core] d by simp
qed

section \<open>From one call to the next\<close>

lemma entry_inv:
  assumes "parser_ok (max_header_size env) pr" and "http_errno pr = HPE_OK"
  shows "loop_inv env (entry_ctx pr a)"
  using assms recording.mark_states_initial
  by (fastforce simp: loop_inv_def marks_ok_def parser_ok_def)

lemma entry_sim: "sim 0 d d' (entry_ctx pr a) (entry_ctx pr a)"
proof -
  have "marks_ok (entry_ctx pr a)" by (auto simp: marks_ok_def initial_marks_iff split: if_splits)
  moreover have "pending d (entry_ctx pr a) = pending d' (entry_ctx pr a)"
    by (simp add: pending_def initial_marks_iff cong: option.case_cong)
  ultimately show ?thesis by (auto simp: sim_def initial_marks_iff)
qed

text \<open>Between two calls the marks are set anew, for names, values, URLs and reasons.\<close>

lemma next_call_sim:
  assumes sim: "sim n d d1 c c1" and pr: "core_eq (parser c) pr" "state pr = p_state c" "nread pr = n_read c"
    and log: "log = app c1 @ pending d1 c1"
  shows "sim (ptr c) d d2 c (entry_ctx pr log)"
proof -
  have ok: "marks_ok c" and marked: "\<And>m. m \<noteq> M_body \<Longrightarrow> p_state c \<in> mark_states m \<Longrightarrow> marks c m \<noteq> None"
    using sim by (auto simp: sim_def)
  have glue: "glue (app c @ pending d c) = glue log" using sim_glue [OF sim] log by simp
  have "marks_ok (entry_ctx pr log)" by (auto simp: marks_ok_def initial_marks_iff split: if_splits)
  moreover have "initial_marks (p_state c) m = None" if "marks c m = None" for m
    using marked [of m] that by (auto simp: initial_marks_iff)
  moreover have "marks c m = None" if "m \<noteq> M_body" "initial_marks (p_state c) m = None" for m
  proof (rule ccontr)
    assume "marks c m \<noteq> None"
    then obtain i where "marks c m = Some i" by blast
    from marks_okD [OF ok this] have "p_state c \<in> mark_states m" by simp
    with that show False by (simp add: initial_marks_iff)
  qed
  moreover have "glue (app c @ pending d c) = glue (log @ pending d2 (entry_ctx pr log))"
  proof (cases "\<exists>m. m \<noteq> M_body \<and> p_state c \<in> mark_states m")
    case False
    then have "marks (entry_ctx pr log) = (\<lambda>_. None)" using pr by (auto simp: initial_marks_iff)
    then have "pending d2 (entry_ctx pr log) = []" by (rule pending_none)
    with glue show ?thesis by simp
  next
    case True
    then obtain m where m: "m \<noteq> M_body" "p_state c \<in> mark_states m" by blast
    with marked obtain i where i: "marks c m = Some i" by blast
    with marks_ok_cleared [OF ok m(2)] have "marks c = (\<lambda>_. None)(m := Some i)" by (metis fun_upd_triv fun_upd_upd)
    then have p: "pending d c = [Received m (seg d i (ptr c))]" by (rule pending_one)
    have "initial_marks (p_state c) m' = ((\<lambda>_. None)(m := Some 0)) m'" for m'
    proof (cases "m' = m")
      case False
      with mark_states_disjoint [OF m(2), of m'] have "p_state c \<notin> mark_states m'" by blast
      with False show ?thesis by (simp only: initial_marks_iff) simp
    qed (simp only: initial_marks_iff m, simp add: m(1))
    then have "marks (entry_ctx pr log) = (\<lambda>_. None)(m := Some 0)" by (simp add: pr(2) fun_eq_iff)
    then have "pending d2 (entry_ctx pr log) = [Received m (seg d2 0 (ptr (entry_ctx pr log)))]" by (rule pending_one)
    then have q: "pending d2 (entry_ctx pr log) = [Received m []]" by simp
    have "glue (log @ [Received m []]) = glue ((app c @ pending d c) @ [Received m []])"
      by (rule glue_cong) (rule glue [symmetric])
    also have "\<dots> = glue (app c @ pending d c)"
      using glue_pieces [of "app c" m "seg d i (ptr c)" "[]" "[]"] by (simp only: p append_assoc append.simps append_Nil2)
    finally show ?thesis by (simp only: q)
  qed
  moreover have e: "marks (entry_ctx pr log) = initial_marks (p_state c)" "ptr (entry_ctx pr log) = 0"
    "p_state (entry_ctx pr log) = p_state c" "n_read (entry_ctx pr log) = n_read c" "parser (entry_ctx pr log) = pr"
    "app (entry_ctx pr log) = log"
    using pr by simp_all
  ultimately show ?thesis using ok marked pr(1) unfolding sim_def e
    by (intro conjI) (assumption | simp only: add_0_right | blast)+
qed

text \<open>A call that takes all of two pieces does what two calls do.\<close>

lemma execute_split:
  assumes ok: "parser_ok mhs pr" "http_errno pr = HPE_OK" and d: "d1 \<noteq> []" "d2 \<noteq> []"
    and small: "unat mhs + length (d1 @ d2) < 2 ^ 32"
    and whole: "sn_http_parser_execute recorder mhs pr log (d1 @ d2) = Some (Returned (length (d1 @ d2)) pr' log')"
    and ok': "http_errno pr' = HPE_OK"
  obtains pr1 log1 log2 where "sn_http_parser_execute recorder mhs pr log d1 = Some (Returned (length d1) pr1 log1)"
    and "http_errno pr1 = HPE_OK" and "parser_ok mhs pr1"
    and "sn_http_parser_execute recorder mhs pr1 log1 d2 = Some (Returned (length d2) pr' log2)" and "glue log2 = glue log'"
proof -
  let ?L = "lenient_http_headers pr"
  let ?W = "recording_env mhs (d1 @ d2) ?L" and ?F1 = "recording_env mhs d1 ?L" and ?F2 = "recording_env mhs d2 ?L"
  let ?c = "entry_ctx pr log"
  have W: "at_loop ?W ?c = Some (Returned (data_end ?W) pr' log')" using whole ok(2) d by (simp add: execute_at_loop)
  have w: "window ?W 0 ?F1" "window ?W (length d1) ?F2" by (simp_all add: window_def)
  have count: "countable ?W" using small by (simp add: countable_def)
  have fine: "fine (data_end ?W) (at_loop ?W ?c)" using W ok' by (simp only: fine_Returned simp_thms)
  have inv: "loop_inv ?F1 ?c" by (rule entry_inv) (use ok in simp_all)
  obtain c c1 where c: "at_loop ?W ?c = at_loop ?W c" "at_loop ?F1 ?c = at_loop ?F1 c1" "sim 0 (data ?W) (data ?F1) c c1"
      "loop_inv ?F1 c1" "ptr c1 = data_end ?F1"
  proof (rule at_loop_follows [OF w(1) count entry_sim inv fine])
    fix v pr2 a a'
    assume "at_loop ?W ?c = Some (Returned (0 + v) pr2 a)" and "v \<le> data_end ?F1"
    with W d(2) show thesis by simp
  qed (rule that)
  let ?pr1 = "(parser c1)\<lparr>nread := n_read c1, state := p_state c1\<rparr>" and ?log1 = "app c1 @ pending (data ?F1) c1"
  have part: "sn_http_parser_execute recorder mhs pr log d1 = Some (Returned (length d1) ?pr1 ?log1)"
    using sim_end(1) [OF w(1) c(3-5)] c(2) ok(2) d(1) by (simp add: execute_at_loop)
  have errno: "http_errno ?pr1 = HPE_OK" using c(4) by (simp add: loop_inv_def)
  have "length d1 < 2 ^ 64" using small by simp
  from recording.execute_returns [OF ok(1) this, of log] part have ok1: "parser_ok mhs ?pr1" by simp
  have L: "lenient_http_headers ?pr1 = ?L" by (rule execute_keeps_lenient [OF part ok(2) d(1)])
  have at: "ptr c = length d1" "p_state c = p_state c1" "n_read c = n_read c1" "core_eq (parser c) (parser c1)"
    using c(3,5) by (simp_all add: sim_def)
  have "core_eq (parser c) ?pr1" using at(4) by (simp add: core_eq_def)
  then have sim: "sim (length d1) (data ?W) (data ?F2) c (entry_ctx ?pr1 ?log1)"
    using next_call_sim [OF c(3), of ?pr1 ?log1 "data ?F2"] at by simp
  have inv2: "loop_inv ?F2 (entry_ctx ?pr1 ?log1)" by (rule entry_inv) (use ok1 errno in simp_all)
  have Wc: "at_loop ?W c = Some (Returned (data_end ?W) pr' log')" using W c(1) by simp
  then have fine2: "fine (data_end ?W) (at_loop ?W c)" using ok' by (simp only: fine_Returned simp_thms)
  obtain log2 where rest: "at_loop ?F2 (entry_ctx ?pr1 ?log1) = Some (Returned (length d2) pr' log2)" "glue log2 = glue log'"
  proof (rule at_loop_follows [OF w(2) count sim inv2 fine2])
    fix e e'
    assume e: "at_loop ?W c = at_loop ?W e" "at_loop ?F2 (entry_ctx ?pr1 ?log1) = at_loop ?F2 e'"
      "sim (length d1) (data ?W) (data ?F2) e e'" "loop_inv ?F2 e'" "ptr e' = data_end ?F2"
    from sim_end [OF w(2) e(3-5)] e(1,2) Wc sim_glue [OF e(3)] show thesis by (intro that) simp_all
  next
    fix v pr2 a a'
    assume "at_loop ?W c = Some (Returned (length d1 + v) pr2 a)" "glue a = glue a'"
      "at_loop ?F2 (entry_ctx ?pr1 ?log1) = Some (Returned v pr2 a')"
    with Wc show thesis by (intro that) simp_all
  qed
  have "sn_http_parser_execute recorder mhs ?pr1 ?log1 d2 = Some (Returned (length d2) pr' log2)"
    using rest(1) errno d(2) L by (simp add: execute_at_loop)
  from that [OF part errno ok1 this rest(2)] show ?thesis .
qed

end
