(* ===== verification/HttpFeed.thy ===== *)
theory HttpFeed
  imports HttpPieces HttpMessage
begin

text \<open>
  A client that hands \<open>sn_http_parser_execute\<close> (\<open>src/src/httpparser.cpp\<close>) the bytes it receives
  piece by piece, and what becomes of a message that arrives so.  (\<open>HttpPeerLink::on_data\<close> of
  \<open>src/src/httpserver.cpp\<close> is no such client: it initialises the parser anew at every read.)
\<close>

text \<open>A client that hands on each piece it receives and stops when a call does not take all of it.\<close>

fun feed :: "u32 \<Rightarrow> byte list list \<Rightarrow> http_parser \<Rightarrow> event list \<Rightarrow> (http_parser \<times> event list) option" where
  "feed mhs [] pr log = Some (pr, log)"
| "feed mhs (d # ds) pr log =
    (case sn_http_parser_execute recorder mhs pr log d of
       Some (Returned n pr' log') \<Rightarrow>
         if n = length d \<and> http_errno pr' = HPE_OK then feed mhs ds pr' log' else None
     | _ \<Rightarrow> None)"

lemma feed_pieces:
  assumes "parser_ok mhs pr" and "http_errno pr = HPE_OK" and "ds \<noteq> []" and "[] \<notin> set ds"
    and "unat mhs + length (concat ds) < 2 ^ 32"
    and "sn_http_parser_execute recorder mhs pr log (concat ds) = Some (Returned (length (concat ds)) pr' log')"
    and "http_errno pr' = HPE_OK"
  shows "\<exists>log''. feed mhs ds pr log = Some (pr', log'') \<and> glue log'' = glue log'"
  using assms
proof (induction ds arbitrary: pr log log')
  case (Cons d ds)
  show ?case
  proof (cases "ds = []")
    case True
    with Cons.prems show ?thesis by simp
  next
    case False
    then have "concat ds \<noteq> []" "d \<noteq> []" using Cons.prems(4) by (cases ds; auto)+
    with Cons.prems(5-7) obtain pr1 log1 log2
      where p: "sn_http_parser_execute recorder mhs pr log d = Some (Returned (length d) pr1 log1)"
        "http_errno pr1 = HPE_OK" "parser_ok mhs pr1"
        "sn_http_parser_execute recorder mhs pr1 log1 (concat ds) = Some (Returned (length (concat ds)) pr' log2)"
        "glue log2 = glue log'"
      using execute_split [OF Cons.prems(1,2), of d "concat ds" log pr' log'] by auto
    from Cons.IH [OF p(3,2) False _ _ p(4)] Cons.prems(4,5,7) p show ?thesis by auto
  qed
qed simp

text \<open>
  C5.  Input that the parser accepts as a whole it accepts in pieces, wherever it is cut: each call
  takes its piece without an error, the parser is left in the same state, and the client hears the
  same, pieces of one name, value, URL, reason or body put together.  (A piece is not empty: an empty
  buffer tells the parser that the connection has ended.)
\<close>

theorem pieces_like_whole:
  assumes "parser_ok mhs pr" and "http_errno pr = HPE_OK" and "ds \<noteq> []" and "[] \<notin> set ds"
    and "unat mhs + length (concat ds) < 2 ^ 32"
    and "sn_http_parser_execute recorder mhs pr log (concat ds) = Some (Returned (length (concat ds)) pr' log')"
    and "http_errno pr' = HPE_OK"
  shows "\<exists>log''. feed mhs ds pr log = Some (pr', log'') \<and> glue log'' = glue log'"
  by (rule feed_pieces [OF assms])

lemma init_errno: "http_errno (sn_http_parser_init t) = HPE_OK"
  by (simp add: sn_http_parser_init_def)

lemma concat_bytes [simp]: "concat (map (\<lambda>b. [b]) d) = d"
  by (induction d) simp_all

lemma pieces_like_whole_witness:
  "\<exists>pr log. feed 80 (map (\<lambda>b. [b]) (print_stream [example_request])) (sn_http_parser_init HTTP_REQUEST) [] = Some (pr, log) \<and>
    glue log = glue (stream_events [example_request])"
proof -
  let ?d = "print_stream [example_request]" and ?pr = "sn_http_parser_init HTTP_REQUEST"
  have size: "length ?d = 52" by (simp add: print_stream_def example_size)
  then have "?d \<noteq> []" by (metis list.size(3) zero_neq_numeral)
  have "length ?d < 2 ^ 64 - 1" by (simp add: size)
  with stream_parsed [of "[example_request]" 80 "[]"] obtain pr where
    "sn_http_parser_execute recorder 80 ?pr [] ?d = Some (Returned (length ?d) pr (stream_events [example_request]))"
    "http_errno pr = HPE_OK"
    by (auto simp: fits_def example_wf example_keeps example_size)
  with pieces_like_whole [of 80 ?pr "map (\<lambda>b. [b]) ?d" "[]" pr "stream_events [example_request]"] \<open>?d \<noteq> []\<close> size show ?thesis
    by (auto simp: parser_ok_init init_errno)
qed

text \<open>
  C7.  A stream of printed requests that keep the connection alive may arrive in pieces of any size:
  every piece is taken, and method, URL, headers and bodies of every request are delivered as printed.
\<close>

theorem stream_in_pieces:
  assumes "\<forall>r \<in> set rs. fits mhs r \<and> keeps_alive r" and "rs \<noteq> []"
    and "concat ds = print_stream rs" and "[] \<notin> set ds" and "unat mhs + length (print_stream rs) < 2 ^ 32"
  shows "\<exists>pr log. feed mhs ds (sn_http_parser_init HTTP_REQUEST) [] = Some (pr, log) \<and>
    glue log = glue (stream_events rs) \<and> http_errno pr = HPE_OK \<and> state pr = s_start_req \<and> nread pr = 0"
proof -
  let ?pr = "sn_http_parser_init HTTP_REQUEST"
  have "ds \<noteq> []" using assms(2,3) print_request_nonempty by (cases rs) (auto simp: print_stream_def)
  have "length (print_stream rs) < 2 ^ 64 - 1" using assms(5) by simp
  from stream_parsed [OF assms(1,2) this, of "[]"] obtain pr where
    "sn_http_parser_execute recorder mhs ?pr [] (concat ds) = Some (Returned (length (concat ds)) pr (stream_events rs))"
    and pr: "http_errno pr = HPE_OK" "state pr = s_start_req" "nread pr = 0"
    by (auto simp: assms(3))
  with feed_pieces [of mhs ?pr ds "[]" pr "stream_events rs"] \<open>ds \<noteq> []\<close> assms(3-5) show ?thesis
    by (auto simp: parser_ok_init init_errno)
qed

lemma stream_in_pieces_witness:
  "\<exists>pr log. feed 80 [take 30 (print_stream [example_request, example_request]), drop 30 (print_stream [example_request, example_request])]
        (sn_http_parser_init HTTP_REQUEST) [] = Some (pr, log) \<and>
    glue log = glue (stream_events [example_request, example_request]) \<and>
    http_errno pr = HPE_OK \<and> state pr = s_start_req \<and> nread pr = 0"
proof (rule stream_in_pieces)
  have size: "length (print_stream [example_request, example_request]) = 104" by (simp add: print_stream_def example_size)
  then show "[] \<notin> set [take 30 (print_stream [example_request, example_request]), drop 30 (print_stream [example_request, example_request])]"
    by (auto dest: arg_cong [where f = length])
  show "unat (80 :: u32) + length (print_stream [example_request, example_request]) < 2 ^ 32" by (simp add: size)
qed (simp_all add: fits_def example_wf example_keeps example_size)

end
