(* ===== verification/HttpUrl.thy ===== *)
theory HttpUrl
  imports HttpHeaderValue
begin

text \<open>
  \<open>sn_http_parser_parse_url\<close> of \<open>src/src/httpparser.cpp\<close>: the split of a URL into its fields,
  the second automaton over the authority part, and the conversion of the port.

  Offsets and lengths are \<open>uint16_t\<close>.  The result is the function's return value together with
  the structure it fills, which a failing call leaves half filled; \<open>None\<close> is a failing
  assertion.
\<close>

section \<open>The structure\<close>

primrec uf_num :: "http_parser_url_fields \<Rightarrow> nat" where
  "uf_num UF_SCHEMA = 0"
| "uf_num UF_HOST = 1"
| "uf_num UF_PORT = 2"
| "uf_num UF_PATH = 3"
| "uf_num UF_QUERY = 4"
| "uf_num UF_FRAGMENT = 5"
| "uf_num UF_USERINFO = 6"
| "uf_num UF_MAX = 7"

definition uf_bit :: "http_parser_url_fields \<Rightarrow> u16" where
  "uf_bit f = push_bit (uf_num f) 1"

definition sn_http_parser_url_init :: http_parser_url where
  "sn_http_parser_url_init = \<lparr>field_set = 0, port = 0, field_data = (\<lambda>_. \<lparr>off = 0, len = 0\<rparr>)\<rparr>"

definition is_set :: "http_parser_url \<Rightarrow> http_parser_url_fields \<Rightarrow> bool" where
  "is_set u f \<longleftrightarrow> has_flag (field_set u) (uf_bit f)"

definition set_off :: "http_parser_url_fields \<Rightarrow> u16 \<Rightarrow> http_parser_url \<Rightarrow> http_parser_url" where
  "set_off f i u = u\<lparr>field_data := (field_data u)(f := (field_data u f)\<lparr>off := i\<rparr>)\<rparr>"

definition set_len :: "http_parser_url_fields \<Rightarrow> u16 \<Rightarrow> http_parser_url \<Rightarrow> http_parser_url" where
  "set_len f n u = u\<lparr>field_data := (field_data u)(f := (field_data u f)\<lparr>len := n\<rparr>)\<rparr>"

definition inc_len :: "http_parser_url_fields \<Rightarrow> http_parser_url \<Rightarrow> http_parser_url" where
  "inc_len f u = set_len f (len (field_data u f) + 1) u"

definition mark_set :: "http_parser_url_fields \<Rightarrow> http_parser_url \<Rightarrow> http_parser_url" where
  "mark_set f u = u\<lparr>field_set := field_set u OR uf_bit f\<rparr>"

section \<open>The authority part\<close>

definition sn_http_parse_host_char :: "http_host_state \<Rightarrow> char \<Rightarrow> http_host_state" where
  "sn_http_parse_host_char s ch =
    (let port = (if ch = CHR '':'' then s_http_host_port_start else s_http_host_dead);
         v6 = (if IS_HEX ch \<or> ch = CHR '':'' \<or> ch = CHR ''.'' then s_http_host_v6
               else if s = s_http_host_v6 \<and> ch = CHR ''%'' then s_http_host_v6_zone_start
               else s_http_host_dead);
         zone = (if IS_ALPHANUM ch \<or> ch = CHR ''%'' \<or> ch = CHR ''.'' \<or> ch = CHR ''-'' \<or>
                    ch = CHR ''_'' \<or> ch = CHR ''~''
                 then s_http_host_v6_zone else s_http_host_dead);
         userinfo = (if ch = CHR ''@'' then s_http_host_start
                     else if IS_USERINFO_CHAR ch then s_http_userinfo
                     else s_http_host_dead);
         digit = (if IS_NUM ch then s_http_host_port else s_http_host_dead)
     in case s of
          s_http_userinfo \<Rightarrow> userinfo
        | s_http_userinfo_start \<Rightarrow> userinfo
        | s_http_host_start \<Rightarrow>
            if ch = CHR ''['' then s_http_host_v6_start
            else if IS_HOST_CHAR ch then s_http_host
            else s_http_host_dead
        | s_http_host \<Rightarrow> if IS_HOST_CHAR ch then s_http_host else port
        | s_http_host_v6_end \<Rightarrow> port
        | s_http_host_v6 \<Rightarrow> if ch = CHR '']'' then s_http_host_v6_end else v6
        | s_http_host_v6_start \<Rightarrow> v6
        | s_http_host_v6_zone \<Rightarrow> if ch = CHR '']'' then s_http_host_v6_end else zone
        | s_http_host_v6_zone_start \<Rightarrow> zone
        | s_http_host_port \<Rightarrow> digit
        | s_http_host_port_start \<Rightarrow> digit
        | s_http_host_dead \<Rightarrow> s_http_host_dead)"

text \<open>The bookkeeping for one character at offset \<open>i\<close>, from state \<open>s\<close> to \<open>s'\<close>.\<close>

definition host_char :: "nat \<Rightarrow> http_host_state \<Rightarrow> http_host_state \<Rightarrow> http_parser_url \<Rightarrow> http_parser_url" where
  "host_char i s s' u =
    (let start = (\<lambda>f. mark_set f (set_len f 0 (set_off f (of_nat i) u)))
     in case s' of
          s_http_host \<Rightarrow>
            inc_len UF_HOST (if s \<noteq> s_http_host then set_off UF_HOST (of_nat i) u else u)
        | s_http_host_v6 \<Rightarrow>
            inc_len UF_HOST (if s \<noteq> s_http_host_v6 then set_off UF_HOST (of_nat i) u else u)
        | s_http_host_v6_zone_start \<Rightarrow> inc_len UF_HOST u
        | s_http_host_v6_zone \<Rightarrow> inc_len UF_HOST u
        | s_http_host_port \<Rightarrow> inc_len UF_PORT (if s \<noteq> s_http_host_port then start UF_PORT else u)
        | s_http_userinfo \<Rightarrow> inc_len UF_USERINFO (if s \<noteq> s_http_userinfo then start UF_USERINFO else u)
        | _ \<Rightarrow> u)"

text \<open>The loop over the bytes of the authority, from offset \<open>i\<close>: a dead state fails.\<close>

fun host_loop ::
  "byte list \<Rightarrow> nat \<Rightarrow> http_host_state \<Rightarrow> http_parser_url \<Rightarrow> http_host_state \<times> http_parser_url"
where
  "host_loop [] i s u = (s, u)"
| "host_loop (ch # d) i s u =
    (let s' = sn_http_parse_host_char s ch
     in if s' = s_http_host_dead then (s_http_host_dead, u)
        else host_loop d (i + 1) s' (host_char i s s' u))"

definition host_final :: "http_host_state \<Rightarrow> bool" where
  "host_final s \<longleftrightarrow>
    s \<notin> {s_http_host_start, s_http_host_v6_start, s_http_host_v6, s_http_host_v6_zone_start,
          s_http_host_v6_zone, s_http_host_port_start, s_http_userinfo, s_http_userinfo_start}"

definition sn_http_parse_host ::
  "byte list \<Rightarrow> http_parser_url \<Rightarrow> bool \<Rightarrow> (int \<times> http_parser_url) option"
where
  "sn_http_parse_host buf u found_at =
    (let i = unat (off (field_data u UF_HOST));
         buflen = i + unat (len (field_data u UF_HOST))
     in if \<not> is_set u UF_HOST then None
        else case host_loop (seg buf i buflen) i
                    (if found_at then s_http_userinfo_start else s_http_host_start)
                    (set_len UF_HOST 0 u) of
               (s, u') \<Rightarrow> Some (if s \<noteq> s_http_host_dead \<and> host_final s then 0 else 1, u'))"

section \<open>The fields of a URL\<close>

text \<open>What the inner switch does with the state after a character.\<close>

datatype url_class = U_dead | U_delimiter | U_field http_parser_url_fields | U_unexpected

definition url_class_of :: "state \<Rightarrow> url_class" where
  "url_class_of s =
    (case s of
       s_dead \<Rightarrow> U_dead
     | s_req_schema_slash \<Rightarrow> U_delimiter
     | s_req_schema_slash_slash \<Rightarrow> U_delimiter
     | s_req_server_start \<Rightarrow> U_delimiter
     | s_req_query_string_start \<Rightarrow> U_delimiter
     | s_req_fragment_start \<Rightarrow> U_delimiter
     | s_req_schema \<Rightarrow> U_field UF_SCHEMA
     | s_req_server_with_at \<Rightarrow> U_field UF_HOST
     | s_req_server \<Rightarrow> U_field UF_HOST
     | s_req_path \<Rightarrow> U_field UF_PATH
     | s_req_query_string \<Rightarrow> U_field UF_QUERY
     | s_req_fragment \<Rightarrow> U_field UF_FRAGMENT
     | _ \<Rightarrow> U_unexpected)"

text \<open>One character of the field \<open>uf\<close> at offset \<open>i\<close>.\<close>

definition field_char :: "nat \<Rightarrow> http_parser_url_fields \<Rightarrow> http_parser_url_fields \<Rightarrow> http_parser_url \<Rightarrow> http_parser_url" where
  "field_char i uf old_uf u =
    (if uf = old_uf then inc_len uf u
     else mark_set uf (set_len uf 1 (set_off uf (of_nat i) u)))"

fun url_loop ::
  "byte list \<Rightarrow> nat \<Rightarrow> state \<Rightarrow> http_parser_url_fields \<Rightarrow> bool \<Rightarrow> http_parser_url \<Rightarrow>
    (int \<times> bool \<times> http_parser_url) option"
where
  "url_loop [] i s old_uf found_at u = Some (0, found_at, u)"
| "url_loop (ch # d) i s old_uf found_at u =
    (let s = parse_url_char s ch
     in case url_class_of s of
          U_dead \<Rightarrow> Some (1, found_at, u)
        | U_delimiter \<Rightarrow> url_loop d (i + 1) s old_uf found_at u
        | U_field uf \<Rightarrow>
            url_loop d (i + 1) s uf (found_at \<or> s = s_req_server_with_at) (field_char i uf old_uf u)
        | U_unexpected \<Rightarrow> None)"

section \<open>The port\<close>

text \<open>A plain \<open>char\<close> is signed on the platform; \<open>v\<close> is an \<open>unsigned long\<close> of 64 bits.\<close>

definition schar :: "char \<Rightarrow> int" where
  "schar ch = (if ord ch < 128 then int (ord ch) else int (ord ch) - 256)"

fun port_loop :: "byte list \<Rightarrow> u64 \<Rightarrow> u64 option" where
  "port_loop [] v = Some v"
| "port_loop (ch # d) v =
    (let v = v * 10 + of_int (schar ch - 48)
     in if v > 0xffff then None else port_loop d v)"

definition parse_port :: "byte list \<Rightarrow> http_parser_url \<Rightarrow> (int \<times> http_parser_url) option" where
  "parse_port buf u =
    (let i = unat (off (field_data u UF_PORT)); n = unat (len (field_data u UF_PORT))
     in if \<not> i + n \<le> length buf then None
        else case port_loop (seg buf i (i + n)) 0 of
               None \<Rightarrow> Some (1, u)
             | Some v \<Rightarrow> Some (0, u\<lparr>port := ucast v\<rparr>))"

text \<open>The last part of the function, after the host.\<close>

definition url_tail :: "byte list \<Rightarrow> bool \<Rightarrow> http_parser_url \<Rightarrow> (int \<times> http_parser_url) option" where
  "url_tail buf is_connect u =
    (if is_connect \<and> field_set u \<noteq> uf_bit UF_HOST OR uf_bit UF_PORT then Some (1, u)
     else if is_set u UF_PORT then parse_port buf u
     else Some (0, u))"

definition sn_http_parser_parse_url ::
  "byte list \<Rightarrow> bool \<Rightarrow> http_parser_url \<Rightarrow> (int \<times> http_parser_url) option"
where
  "sn_http_parser_parse_url buf is_connect u =
    (if buf = [] then Some (1, u)
     else case url_loop buf 0 (if is_connect then s_req_server_start else s_req_spaces_before_url)
                 UF_MAX False (u\<lparr>port := 0, field_set := 0\<rparr>) of
            None \<Rightarrow> None
          | Some (r, found_at, u) \<Rightarrow>
              if r \<noteq> 0 then Some (r, u)
              else if is_set u UF_SCHEMA \<and> \<not> is_set u UF_HOST then Some (1, u)
              else if is_set u UF_HOST then
                (case sn_http_parse_host buf u found_at of
                   None \<Rightarrow> None
                 | Some (r, u) \<Rightarrow> if r \<noteq> 0 then Some (1, u) else url_tail buf is_connect u)
              else url_tail buf is_connect u)"

section \<open>Every field lies inside the URL\<close>

lemma uf_bit_iff: "has_flag (uf_bit f) (uf_bit g) \<longleftrightarrow> f = g" if "f \<noteq> UF_MAX" "g \<noteq> UF_MAX"
  using that by (cases f; cases g) (simp_all add: uf_bit_def has_flag_def)

lemma uf_bit_max: "has_flag (uf_bit f) (uf_bit UF_MAX) \<longleftrightarrow> f = UF_MAX"
  "has_flag (uf_bit UF_MAX) (uf_bit f) \<longleftrightarrow> f = UF_MAX"
  by (cases f; simp add: uf_bit_def has_flag_def)+

lemma has_uf_bit [simp]: "has_flag (uf_bit f) (uf_bit g) \<longleftrightarrow> f = g"
  using uf_bit_iff uf_bit_max by metis

definition start_of :: "http_parser_url \<Rightarrow> http_parser_url_fields \<Rightarrow> nat" where
  "start_of u f = unat (off (field_data u f))"

definition len_of :: "http_parser_url \<Rightarrow> http_parser_url_fields \<Rightarrow> nat" where
  "len_of u f = unat (len (field_data u f))"

lemma field_simps [simp]:
  "is_set (mark_set f u) g \<longleftrightarrow> g = f \<or> is_set u g"
  "is_set (set_off f i u) g \<longleftrightarrow> is_set u g" "is_set (set_len f n u) g \<longleftrightarrow> is_set u g"
  "is_set (inc_len f u) g \<longleftrightarrow> is_set u g" "is_set (u\<lparr>port := v\<rparr>) g \<longleftrightarrow> is_set u g"
  "start_of (mark_set f u) g = start_of u g" "start_of (set_len f n u) g = start_of u g"
  "start_of (inc_len f u) g = start_of u g" "start_of (u\<lparr>port := v\<rparr>) g = start_of u g"
  "start_of (set_off f i u) g = (if g = f then unat i else start_of u g)"
  "len_of (mark_set f u) g = len_of u g" "len_of (set_off f i u) g = len_of u g"
  "len_of (set_len f n u) g = (if g = f then unat n else len_of u g)"
  "len_of (u\<lparr>port := v\<rparr>) g = len_of u g"
  "port (mark_set f u) = port u" "port (set_off f i u) = port u" "port (set_len f n u) = port u"
  "port (inc_len f u) = port u"
  by (auto simp: is_set_def start_of_def len_of_def mark_set_def set_off_def set_len_def inc_len_def
      has_flag_or)

lemma len_of_inc_len [simp]:
  "len_of (inc_len f u) g = (if g = f then (len_of u f + 1) mod 65536 else len_of u g)"
  by (simp add: inc_len_def len_of_def set_len_def unat_word_ariths)

text \<open>What the first loop has filled in before offset \<open>i\<close>.\<close>

definition split_inv :: "nat \<Rightarrow> http_parser_url_fields \<Rightarrow> http_parser_url \<Rightarrow> bool" where
  "split_inv i old u \<longleftrightarrow>
    (\<forall>f. is_set u f \<longrightarrow> 0 < len_of u f \<and> start_of u f + len_of u f \<le> i) \<and>
    (old \<noteq> UF_MAX \<longrightarrow> is_set u old) \<and>
    \<not> is_set u UF_PORT \<and> \<not> is_set u UF_USERINFO \<and> \<not> is_set u UF_MAX \<and> port u = 0"

lemma url_class_parts:
  "url_class_of s \<noteq> U_field UF_MAX" "url_class_of s \<noteq> U_field UF_PORT" "url_class_of s \<noteq> U_field UF_USERINFO"
  by (cases s; simp add: url_class_of_def)+

lemma url_class_expected: "url_class_of (parse_url_char s ch) \<noteq> U_unexpected"
proof (cases "parse_url_char s ch = s_dead")
  case False
  from parse_url_char_range [OF this] show ?thesis
    by (auto simp: url_states_def url_class_of_def)
qed (simp add: url_class_of_def)

lemma field_char_inv:
  assumes "split_inv i old u" and "i < 65535" and "uf \<notin> {UF_MAX, UF_PORT, UF_USERINFO}"
  shows "split_inv (i + 1) uf (field_char i uf old u)"
proof (cases "uf = old")
  case True
  then have "0 < len_of u uf \<and> start_of u uf + len_of u uf \<le> i"
    using assms by (auto simp: split_inv_def)
  then show ?thesis
    using assms True by (auto simp: split_inv_def field_char_def le_SucI)
next
  case False
  have "unat (of_nat i :: u16) = i" using assms(2) by (intro unat_of_nat_small) simp
  then show ?thesis
    using assms False by (auto simp: split_inv_def field_char_def le_SucI)
qed

lemma url_loop_inv:
  "\<lbrakk>url_loop d i s old fa u = Some (r, fa', u'); split_inv i old u; i + length d \<le> 65535\<rbrakk> \<Longrightarrow>
    split_inv (i + length d) UF_MAX u'"
proof (induction d i s old fa u rule: url_loop.induct)
  case (1 i s old fa u)
  then show ?case by (simp add: split_inv_def)
next
  case (2 ch d i s old fa u)
  have weaken: "split_inv (i + k) UF_MAX u" for k
    using 2(4) by (auto simp: split_inv_def intro: trans_le_add1)
  show ?case
  proof (cases "url_class_of (parse_url_char s ch)")
    case U_dead
    with 2(3) weaken [of "length (ch # d)"] show ?thesis by (simp add: Let_def)
  next
    case U_delimiter
    have "split_inv (i + 1) old u"
      using 2(4) by (auto simp: split_inv_def intro: le_SucI)
    from 2(1) [OF refl U_delimiter _ this] U_delimiter 2(3,5) show ?thesis by (simp add: Let_def)
  next
    case (U_field uf)
    have "split_inv (i + 1) uf (field_char i uf old u)"
      using 2(4,5) url_class_parts [of "parse_url_char s ch"] U_field by (intro field_char_inv) auto
    from 2(2) [OF refl U_field _ this] U_field 2(3,5) show ?thesis by (simp add: Let_def)
  next
    case U_unexpected
    with url_class_expected show ?thesis by simp
  qed
qed

lemma url_loop_total: "url_loop d i s old fa u \<noteq> None"
proof (induction d i s old fa u rule: url_loop.induct)
  case (2 ch d i s old fa u)
  then show ?case
    using url_class_expected [of s ch] by (auto simp: Let_def split: url_class.split)
qed simp

lemma url_loop_result: "url_loop d i s old fa u = Some (r, fa', u') \<Longrightarrow> r \<in> {0, 1}"
  by (induction d i s old fa u rule: url_loop.induct) (auto simp: Let_def split: url_class.splits)

text \<open>What the loop over the authority has filled in after the bytes \<open>pre\<close>; \<open>n\<close> is the URL's length.\<close>

definition host_inv :: "nat \<Rightarrow> byte list \<Rightarrow> http_host_state \<Rightarrow> http_parser_url \<Rightarrow> bool" where
  "host_inv n pre s u \<longleftrightarrow>
    port u = 0 \<and> is_set u UF_HOST \<and> \<not> is_set u UF_MAX \<and>
    (\<forall>f. is_set u f \<longrightarrow> f \<notin> {UF_HOST, UF_PORT, UF_USERINFO} \<longrightarrow>
       0 < len_of u f \<and> start_of u f + len_of u f \<le> n) \<and>
    start_of u UF_HOST + len_of u UF_HOST \<le> length pre \<and>
    (if s \<in> {s_http_userinfo_start, s_http_userinfo, s_http_host_start, s_http_host_v6_start}
     then len_of u UF_HOST = 0 else 0 < len_of u UF_HOST) \<and>
    (is_set u UF_PORT \<longleftrightarrow> s = s_http_host_port) \<and>
    (is_set u UF_PORT \<longrightarrow> 0 < len_of u UF_PORT \<and> start_of u UF_PORT + len_of u UF_PORT = length pre \<and>
       digits (seg pre (start_of u UF_PORT) (length pre))) \<and>
    (is_set u UF_USERINFO \<longrightarrow>
       0 < len_of u UF_USERINFO \<and> start_of u UF_USERINFO + len_of u UF_USERINFO \<le> length pre) \<and>
    (s = s_http_userinfo \<longrightarrow> is_set u UF_USERINFO)"

lemma host_edges:
  "sn_http_parse_host_char s ch = s_http_host_port \<Longrightarrow>
    IS_NUM ch \<and> (s = s_http_host_port \<or> s = s_http_host_port_start)"
  "sn_http_parse_host_char s ch = s_http_host_port_start \<Longrightarrow> s = s_http_host \<or> s = s_http_host_v6_end"
  "sn_http_parse_host_char s ch = s_http_host \<Longrightarrow> s = s_http_host \<or> s = s_http_host_start"
  "sn_http_parse_host_char s ch = s_http_host_v6 \<Longrightarrow> s = s_http_host_v6 \<or> s = s_http_host_v6_start"
  "sn_http_parse_host_char s ch = s_http_host_v6_zone \<Longrightarrow>
    s = s_http_host_v6_zone \<or> s = s_http_host_v6_zone_start"
  "sn_http_parse_host_char s ch = s_http_host_v6_zone_start \<Longrightarrow> s = s_http_host_v6"
  "sn_http_parse_host_char s ch = s_http_host_v6_end \<Longrightarrow> s = s_http_host_v6 \<or> s = s_http_host_v6_zone"
  "sn_http_parse_host_char s ch = s_http_host_v6_start \<Longrightarrow> s = s_http_host_start"
  "sn_http_parse_host_char s ch = s_http_host_start \<Longrightarrow> s = s_http_userinfo \<or> s = s_http_userinfo_start"
  "sn_http_parse_host_char s ch = s_http_userinfo \<Longrightarrow> s = s_http_userinfo \<or> s = s_http_userinfo_start"
  "sn_http_parse_host_char s ch \<noteq> s_http_userinfo_start"
  by (cases s; simp add: sn_http_parse_host_char_def Let_def split: if_splits)+

lemma seg_snoc: "i \<le> length pre \<Longrightarrow> seg (pre @ [ch]) i (Suc (length pre)) = seg pre i (length pre) @ [ch]"
  by (simp add: seg_def Suc_diff_le)

lemma digits_append [simp]: "digits (a @ b) \<longleftrightarrow> digits a \<and> digits b"
  by (auto simp: digits_def)

lemma digits_seg_snoc:
  assumes "digits (seg pre i (length pre))" and "IS_NUM ch" and "i \<le> length pre"
  shows "digits (seg (pre @ [ch]) i (Suc (length pre)))"
  using assms by (simp add: seg_snoc)

lemma host_char_inv:
  assumes inv: "host_inv n pre s u" and lt: "length pre < 65535"
    and s': "sn_http_parse_host_char s ch = s'" and live: "s' \<noteq> s_http_host_dead"
  shows "host_inv n (pre @ [ch]) s' (host_char (length pre) s s' u)"
proof -
  have [simp]: "unat (of_nat (length pre) :: u16) = length pre"
    using lt by (intro unat_of_nat_small) simp
  note i = inv [unfolded host_inv_def]
  show ?thesis
  proof (cases s')
    case s_http_host_port
    then have num: "IS_NUM ch" and src: "s = s_http_host_port \<or> s = s_http_host_port_start"
      using s' host_edges(1) [of s ch] by auto
    show ?thesis
    proof (cases "s = s_http_host_port")
      case True
      with i lt num show ?thesis
        by (auto simp: host_inv_def host_char_def s_http_host_port digits_seg_snoc)
    next
      case False
      have "digits (seg (pre @ [ch]) (length pre) (Suc (length pre)))"
        using num by (simp add: seg_snoc)
      with False src i lt show ?thesis
        by (auto simp: host_inv_def host_char_def s_http_host_port)
    qed
  next
    case s_http_userinfo
    then have "s = s_http_userinfo \<or> s = s_http_userinfo_start"
      using s' host_edges(10) by simp
    with i lt show ?thesis
      by (auto simp: host_inv_def host_char_def s_http_userinfo)
  next
    case s_http_host
    then have "s = s_http_host \<or> s = s_http_host_start"
      using s' host_edges(3) by simp
    with i lt show ?thesis
      by (auto simp: host_inv_def host_char_def s_http_host)
  next
    case s_http_host_v6
    then have "s = s_http_host_v6 \<or> s = s_http_host_v6_start"
      using s' host_edges(4) by simp
    with i lt show ?thesis
      by (auto simp: host_inv_def host_char_def s_http_host_v6)
  next
    case s_http_host_v6_zone
    then have "s = s_http_host_v6_zone \<or> s = s_http_host_v6_zone_start"
      using s' host_edges(5) by simp
    with i lt show ?thesis
      by (auto simp: host_inv_def host_char_def s_http_host_v6_zone)
  next
    case s_http_host_v6_zone_start
    then have "s = s_http_host_v6"
      using s' host_edges(6) by simp
    with i lt show ?thesis
      by (auto simp: host_inv_def host_char_def s_http_host_v6_zone_start)
  next
    case s_http_userinfo_start
    with s' host_edges(11) show ?thesis by simp
  next
    case s_http_host_start
    then have "s = s_http_userinfo \<or> s = s_http_userinfo_start"
      using s' host_edges(9) by simp
    with i show ?thesis
      by (auto simp: host_inv_def host_char_def s_http_host_start)
  next
    case s_http_host_v6_start
    then have "s = s_http_host_start"
      using s' host_edges(8) by simp
    with i show ?thesis
      by (auto simp: host_inv_def host_char_def s_http_host_v6_start)
  next
    case s_http_host_v6_end
    then have "s = s_http_host_v6 \<or> s = s_http_host_v6_zone"
      using s' host_edges(7) by simp
    with i show ?thesis
      by (auto simp: host_inv_def host_char_def s_http_host_v6_end)
  next
    case s_http_host_port_start
    then have "s = s_http_host \<or> s = s_http_host_v6_end"
      using s' host_edges(2) by simp
    with i show ?thesis
      by (auto simp: host_inv_def host_char_def s_http_host_port_start)
  qed (use live in simp)
qed

lemma host_loop_inv:
  "\<lbrakk>host_loop d (length pre) s u = (s', u'); host_inv n pre s u; s' \<noteq> s_http_host_dead;
    length pre + length d \<le> 65535\<rbrakk> \<Longrightarrow> host_inv n (pre @ d) s' u'"
proof (induction d arbitrary: pre s u)
  case (Cons ch d)
  let ?s = "sn_http_parse_host_char s ch"
  have live: "?s \<noteq> s_http_host_dead"
    using Cons.prems(1,3) by (auto simp: Let_def)
  have "host_inv n (pre @ [ch]) ?s (host_char (length pre) s ?s u)"
    using Cons.prems(2,4) live by (intro host_char_inv) auto
  from Cons.IH [OF _ this Cons.prems(3)] Cons.prems(1,4) live show ?case by (simp add: Let_def)
qed simp

section \<open>The port\<close>

lemma port_loop_value:
  "digits ds \<Longrightarrow> unat v \<le> 65535 \<Longrightarrow>
    port_loop ds v = (if dec_from (unat v) ds \<le> 65535 then Some (of_nat (dec_from (unat v) ds)) else None)"
proof (induction ds arbitrary: v)
  case (Cons ch ds)
  let ?v = "v * 10 + of_int (schar ch - 48)" and ?n = "10 * unat v + (ord ch - 48)"
  have num: "48 \<le> ord ch" "ord ch \<le> 57"
    using Cons.prems(1) by (auto simp: IS_NUM_iff)
  then have "(of_int (schar ch - 48) :: u64) = of_nat (ord ch - 48)"
    by (simp add: schar_def of_nat_diff)
  then have v: "?v = of_nat ?n"
    by simp
  have un: "unat ?v = ?n"
    unfolding v by (rule unat_of_nat_small) (use Cons.prems(2) num in simp)
  have gt: "?v > 0xffff \<longleftrightarrow> 65535 < ?n"
    unfolding word_less_nat_alt un by simp
  show ?case
  proof (cases "65535 < ?n")
    case True
    with gt dec_from_ge [of ?n ds] show ?thesis by (simp add: Let_def)
  next
    case False
    with gt un Cons.IH [of ?v] Cons.prems(1) show ?thesis by (simp add: Let_def)
  qed
qed simp

section \<open>The whole function\<close>

text \<open>The text of a field.\<close>

definition field_text :: "byte list \<Rightarrow> http_parser_url \<Rightarrow> http_parser_url_fields \<Rightarrow> byte list" where
  "field_text buf u f = seg buf (start_of u f) (start_of u f + len_of u f)"

text \<open>A URL of at most 65535 bytes that has been split.\<close>

definition url_split :: "byte list \<Rightarrow> http_parser_url \<Rightarrow> bool" where
  "url_split buf u \<longleftrightarrow>
    (\<forall>f. is_set u f \<longrightarrow> 0 < len_of u f \<and> start_of u f + len_of u f \<le> length buf)"

definition port_read :: "byte list \<Rightarrow> http_parser_url \<Rightarrow> bool" where
  "port_read buf u \<longleftrightarrow>
    (if is_set u UF_PORT
     then digits (field_text buf u UF_PORT) \<and> unat (port u) = dec_from 0 (field_text buf u UF_PORT)
     else port u = 0)"

lemma split_inv_split: "split_inv (length buf) old u \<Longrightarrow> url_split buf u"
  by (auto simp: split_inv_def url_split_def)

lemma seg_prefix: "j \<le> n \<Longrightarrow> seg (take n xs) i j = seg xs i j"
  by (simp add: seg_def drop_take min_def)

lemma parse_host_inv:
  assumes "split_inv (length buf) old u" and "is_set u UF_HOST" and n: "length buf \<le> 65535"
  shows "\<exists>r u'. sn_http_parse_host buf u fa = Some (r, u') \<and> r \<in> {0, 1} \<and>
    (r = 0 \<longrightarrow> url_split buf u' \<and> port u' = 0 \<and> (is_set u' UF_PORT \<longrightarrow> digits (field_text buf u' UF_PORT)))"
proof -
  let ?i = "start_of u UF_HOST" and ?e = "start_of u UF_HOST + len_of u UF_HOST"
  let ?s = "if fa then s_http_userinfo_start else s_http_host_start"
  let ?u = "set_len UF_HOST 0 u"
  have e: "?e \<le> length buf"
    using assms(1,2) by (simp add: split_inv_def)
  obtain s' u' where loop: "host_loop (seg buf ?i ?e) ?i ?s ?u = (s', u')"
    by (cases "host_loop (seg buf ?i ?e) ?i ?s ?u")
  have res: "sn_http_parse_host buf u fa =
      Some (if s' \<noteq> s_http_host_dead \<and> host_final s' then 0 else 1, u')"
    using assms(2) loop
    by (simp add: sn_http_parse_host_def is_set_def start_of_def [symmetric] len_of_def [symmetric] Let_def)
  have good: "url_split buf u' \<and> port u' = 0 \<and> (is_set u' UF_PORT \<longrightarrow> digits (field_text buf u' UF_PORT))"
    if live: "s' \<noteq> s_http_host_dead" "host_final s'"
  proof -
    have "host_inv (length buf) (take ?i buf) ?s ?u"
      using assms(1,2) e by (auto simp: host_inv_def split_inv_def)
    then have "host_inv (length buf) (take ?i buf @ seg buf ?i ?e) s' u'"
      using loop live(1) e n by (intro host_loop_inv [of "seg buf ?i ?e"]) auto
    moreover have "take ?i buf @ seg buf ?i ?e = take ?e buf"
      by (simp add: seg_def take_add)
    ultimately have inv: "host_inv (length buf) (take ?e buf) s' u'" by simp
    have len: "length (take ?e buf) = ?e" using e by simp
    have "0 < len_of u' UF_HOST"
      using inv live by (auto simp: host_inv_def host_final_def split: if_splits)
    then have "url_split buf u'"
      using inv e unfolding host_inv_def url_split_def len by fastforce
    moreover have "digits (field_text buf u' UF_PORT)" if "is_set u' UF_PORT"
      using inv that unfolding host_inv_def len field_text_def by (simp add: seg_prefix)
    ultimately show ?thesis using inv by (simp add: host_inv_def)
  qed
  from res good show ?thesis by auto
qed

lemma ucast_of_nat_16: "(ucast (of_nat n :: u64) :: u16) = of_nat n"
  by transfer simp

lemma parse_port_read:
  assumes "url_split buf u" and "is_set u UF_PORT" and "digits (field_text buf u UF_PORT)"
  shows "parse_port buf u =
    Some (if dec_from 0 (field_text buf u UF_PORT) \<le> 65535
          then (0, u\<lparr>port := of_nat (dec_from 0 (field_text buf u UF_PORT))\<rparr>) else (1, u))"
proof -
  have "start_of u UF_PORT + len_of u UF_PORT \<le> length buf"
    using assms(1,2) by (simp add: url_split_def)
  with port_loop_value [OF assms(3), of 0] show ?thesis
    by (simp add: parse_port_def Let_def start_of_def [symmetric] len_of_def [symmetric]
        field_text_def [symmetric] ucast_of_nat_16)
qed

lemma port_keeps [simp]: "field_text buf (u\<lparr>port := v\<rparr>) f = field_text buf u f"
  "url_split buf (u\<lparr>port := v\<rparr>) = url_split buf u"
  by (simp_all add: field_text_def url_split_def)

lemma url_tail_good:
  assumes "url_split buf u" and "port u = 0" and "is_set u UF_PORT \<longrightarrow> digits (field_text buf u UF_PORT)"
  shows "\<exists>r u'. url_tail buf c u = Some (r, u') \<and> r \<in> {0, 1} \<and>
    (r = 0 \<longrightarrow> url_split buf u' \<and> port_read buf u' \<and>
      (c \<longrightarrow> (\<forall>f. is_set u' f \<longleftrightarrow> f = UF_HOST \<or> f = UF_PORT)))"
proof -
  have fields: "\<forall>f. is_set u f \<longleftrightarrow> f = UF_HOST \<or> f = UF_PORT"
    if "field_set u = uf_bit UF_HOST OR uf_bit UF_PORT"
    using that by (auto simp: is_set_def has_flag_or)
  have small: "unat (of_nat k :: u16) = k" if "k \<le> 65535" for k
    using that by (intro unat_of_nat_small) simp
  show ?thesis
    using assms fields parse_port_read [OF assms(1)] by (auto simp: url_tail_def port_read_def small)
qed

text \<open>
  C22.  Splitting a URL of at most 65535 bytes never fails an assertion and answers 0 or 1.  On
  success every field that is set is a non-empty part of the URL, the port is a string of digits
  whose value is in \<open>port\<close> (0 without one), and a CONNECT target has exactly a host and a port.
\<close>

theorem parse_url_fields:
  assumes "length buf \<le> 65535"
  shows "\<exists>r u'. sn_http_parser_parse_url buf c u = Some (r, u') \<and> r \<in> {0, 1} \<and>
    (r = 0 \<longrightarrow> url_split buf u' \<and> port_read buf u' \<and>
      (c \<longrightarrow> (\<forall>f. is_set u' f \<longleftrightarrow> f = UF_HOST \<or> f = UF_PORT)))"
proof (cases "buf = []")
  case True
  then show ?thesis by (simp add: sn_http_parser_parse_url_def)
next
  case False
  let ?s = "if c then s_req_server_start else s_req_spaces_before_url"
  let ?u = "u\<lparr>port := 0, field_set := 0\<rparr>"
  obtain r fa u1 where loop: "url_loop buf 0 ?s UF_MAX False ?u = Some (r, fa, u1)"
    using url_loop_total [of buf 0 ?s UF_MAX False ?u] by auto
  have "split_inv 0 UF_MAX ?u" by (simp add: split_inv_def is_set_def)
  from url_loop_inv [OF loop this] assms have inv: "split_inv (length buf) UF_MAX u1" by simp
  have r: "r \<in> {0, 1}" by (rule url_loop_result [OF loop])
  have noport: "\<not> is_set u1 UF_PORT" "port u1 = 0" using inv by (simp_all add: split_inv_def)
  show ?thesis
  proof (cases "r = 0 \<and> is_set u1 UF_HOST")
    case True
    from parse_host_inv [OF inv _ assms, of fa] True
    obtain r2 u2 where host: "sn_http_parse_host buf u1 fa = Some (r2, u2)" "r2 \<in> {0, 1}"
      and good: "r2 = 0 \<longrightarrow> url_split buf u2 \<and> port u2 = 0 \<and>
        (is_set u2 UF_PORT \<longrightarrow> digits (field_text buf u2 UF_PORT))" by auto
    show ?thesis
      using False loop True host url_tail_good [of buf u2 c] good by (auto simp: sn_http_parser_parse_url_def)
  next
    case False': False
    show ?thesis
      using False loop r False' noport url_tail_good [OF split_inv_split [OF inv], of c]
      by (auto simp: sn_http_parser_parse_url_def)
  qed
qed

lemma parse_url_fields_witness:
  "\<exists>r u'. sn_http_parser_parse_url ''http://[::1]:80/'' False sn_http_parser_url_init = Some (r, u') \<and>
    r \<in> {0, 1} \<and> (r = 0 \<longrightarrow> url_split ''http://[::1]:80/'' u' \<and> port_read ''http://[::1]:80/'' u')"
  using parse_url_fields [of "''http://[::1]:80/''" False sn_http_parser_url_init] by auto

end
