(* ===== verification/HttpUrlText.thy ===== *)
theory HttpUrlText
  imports HttpUrl
begin

text \<open>
  The round trip of \<open>sn_http_parser_parse_url\<close> (\<open>src/src/httpparser.cpp\<close>): a URL is printed from
  its parts, and both loops of the function are run on the printed text, piece by piece.
\<close>

section \<open>A URL made of pieces\<close>

text \<open>
  Both loops cut a text into pieces, some of them fields and some delimiters.  \<open>place\<close> is the
  structure after the pieces \<open>ps\<close> from offset \<open>i\<close>.
\<close>

type_synonym piece = "http_parser_url_fields option \<times> byte list"

definition put :: "http_parser_url_fields \<Rightarrow> nat \<Rightarrow> nat \<Rightarrow> http_parser_url \<Rightarrow> http_parser_url" where
  "put f i n u = mark_set f (set_len f (of_nat n) (set_off f (of_nat i) u))"

fun place :: "nat \<Rightarrow> piece list \<Rightarrow> http_parser_url \<Rightarrow> http_parser_url" where
  "place i [] u = u"
| "place i ((None, w) # ps) u = place (i + length w) ps u"
| "place i ((Some f, w) # ps) u = place (i + length w) ps (put f i (length w) u)"

definition text_of :: "piece list \<Rightarrow> byte list" where
  "text_of ps = concat (map snd ps)"

lemma text_of_simps [simp]: "text_of [] = []" "text_of ((f, w) # ps) = w @ text_of ps"
  "text_of (ps @ qs) = text_of ps @ text_of qs"
  by (simp_all add: text_of_def)

lemma place_append: "place i (ps @ qs) u = place (i + length (text_of ps)) qs (place i ps u)"
  by (induction i ps u rule: place.induct) (simp_all add: add.assoc)

lemma put_simps [simp]:
  "is_set (put f i n u) g \<longleftrightarrow> g = f \<or> is_set u g"
  "i < 65536 \<Longrightarrow> start_of (put f i n u) g = (if g = f then i else start_of u g)"
  "n < 65536 \<Longrightarrow> len_of (put f i n u) g = (if g = f then n else len_of u g)"
  "port (put f i n u) = port u"
  by (simp_all add: put_def unsigned_of_nat take_bit_nat_eq_self)

lemma place_other:
  "Some f \<notin> fst ` set ps \<Longrightarrow> i + length (text_of ps) < 65536 \<Longrightarrow>
    is_set (place i ps u) f = is_set u f \<and> start_of (place i ps u) f = start_of u f \<and>
    len_of (place i ps u) f = len_of u f"
  by (induction i ps u rule: place.induct) auto

lemma place_port [simp]: "port (place i ps u) = port u"
  by (induction i ps u rule: place.induct) auto

text \<open>Each placed field reads back as its piece.\<close>

lemma place_field:
  assumes "ps = xs @ (Some f, w) # ys" and "Some f \<notin> fst ` set ys"
    and "i + length (text_of ps) < 65536" and "length pre = i"
  shows "is_set (place i ps u) f \<and> field_text (pre @ text_of ps @ post) (place i ps u) f = w"
proof -
  let ?j = "i + length (text_of xs)" and ?u = "place i xs u"
  have ps: "place i ps u = place (?j + length w) ys (put f ?j (length w) ?u)"
    by (simp add: assms(1) place_append)
  have "is_set (place i ps u) f \<and> start_of (place i ps u) f = ?j \<and> len_of (place i ps u) f = length w"
    using place_other [OF assms(2), of "?j + length w" "put f ?j (length w) ?u"] assms(1,3)
    unfolding ps by simp
  moreover have "seg ((pre @ text_of xs) @ w @ text_of ys @ post) ?j (?j + length w) = w"
    using assms(4) by (intro seg_middle) simp_all
  ultimately show ?thesis by (simp add: field_text_def assms(1))
qed

section \<open>The first loop on pieces\<close>

text \<open>The states while a piece of field \<open>f\<close> is read.\<close>

fun stays :: "http_parser_url_fields \<Rightarrow> state \<Rightarrow> byte list \<Rightarrow> bool" where
  "stays f s [] \<longleftrightarrow> True"
| "stays f s (c # w) \<longleftrightarrow> url_class_of (parse_url_char s c) = U_field f \<and> stays f (parse_url_char s c) w"

fun url_run :: "state \<Rightarrow> byte list \<Rightarrow> state" where
  "url_run s [] = s"
| "url_run s (c # w) = url_run (parse_url_char s c) w"

fun at_seen :: "state \<Rightarrow> byte list \<Rightarrow> bool" where
  "at_seen s [] \<longleftrightarrow> False"
| "at_seen s (c # w) \<longleftrightarrow> parse_url_char s c = s_req_server_with_at \<or> at_seen (parse_url_char s c) w"

lemma stays_append [simp]: "stays f s (v @ w) \<longleftrightarrow> stays f s v \<and> stays f (url_run s v) w"
  by (induction v arbitrary: s) auto

lemma url_run_append [simp]: "url_run s (v @ w) = url_run (url_run s v) w"
  by (induction v arbitrary: s) auto

lemma at_seen_append [simp]: "at_seen s (v @ w) \<longleftrightarrow> at_seen s v \<or> at_seen (url_run s v) w"
  by (induction v arbitrary: s) auto

lemma inc_len_put: "inc_len f (put f i n u) = put f i (n + 1) u"
  by (simp add: inc_len_def put_def set_len_def set_off_def mark_set_def algebra_simps)

lemma url_loop_in_field:
  "stays f s w \<Longrightarrow> url_loop (w @ d) j s f fa (put f i n u) =
    url_loop d (j + length w) (url_run s w) f (fa \<or> at_seen s w) (put f i (n + length w) u)"
proof (induction w arbitrary: s j fa n)
  case (Cons c w)
  from Cons.prems Cons.IH [of "parse_url_char s c" "j + 1" _ "n + 1"] show ?case
    by (simp add: Let_def field_char_def inc_len_put)
qed simp

lemma url_loop_field:
  assumes "stays f s w" and "w \<noteq> []" and "f \<noteq> old"
  shows "url_loop (w @ d) i s old fa u =
    url_loop d (i + length w) (url_run s w) f (fa \<or> at_seen s w) (put f i (length w) u)"
proof (cases w)
  case (Cons c v)
  have "field_char i f old u = put f i 1 u"
    using assms(3) by (simp add: field_char_def put_def)
  with url_loop_in_field [of f "parse_url_char s c" v d "i + 1" _ i 1 u] assms(1) Cons show ?thesis
    by (simp add: Let_def)
qed (use assms(2) in simp)

lemma url_loop_delimiter:
  "url_class_of (parse_url_char s c) = U_delimiter \<Longrightarrow>
    url_loop (c # d) i s old fa u = url_loop d (i + 1) (parse_url_char s c) old fa u"
  by (simp add: Let_def)

section \<open>The second loop on pieces\<close>

definition host_states :: "http_host_state \<Rightarrow> http_parser_url_fields option" where
  "host_states s =
    (case s of
       s_http_host \<Rightarrow> Some UF_HOST
     | s_http_host_v6 \<Rightarrow> Some UF_HOST
     | s_http_host_port \<Rightarrow> Some UF_PORT
     | s_http_userinfo \<Rightarrow> Some UF_USERINFO
     | _ \<Rightarrow> None)"

lemma uf_bit_absorb:
  assumes "has_flag w (uf_bit f)"
  shows "w OR uf_bit f = w"
proof (rule bit_word_eqI)
  fix n
  assume "n < LENGTH(16)"
  have "bit w (uf_num f)"
    using assms unfolding has_flag_def uf_bit_def
    by (metis and_exp_eq_0_iff_not_bit push_bit_of_1)
  then show "bit (w OR uf_bit f) n = bit w n"
    by (auto simp: bit_or_iff uf_bit_def push_bit_of_1 bit_exp_iff)
qed

lemma put_marked:
  assumes "is_set u f"
  shows "set_len f (of_nat n) (set_off f (of_nat i) u) = put f i n u"
  using uf_bit_absorb [OF assms [unfolded is_set_def]]
  by (simp add: put_def mark_set_def set_len_def set_off_def)

lemma host_loop_in_field:
  assumes "\<And>c. c \<in> set w \<Longrightarrow> sn_http_parse_host_char s c = s"
    and "host_states s = Some f \<or> s = s_http_host_v6_zone \<and> f = UF_HOST"
  shows "host_loop (w @ d) j s (put f i n u) = host_loop d (j + length w) s (put f i (n + length w) u)"
  using assms(1)
proof (induction w arbitrary: j n)
  case (Cons c w)
  have "host_char j s s (put f i n u) = put f i (n + 1) u"
    using assms(2) by (auto simp: host_char_def host_states_def inc_len_put split: http_host_state.splits)
  moreover have "s \<noteq> s_http_host_dead" using assms(2) by (auto simp: host_states_def)
  ultimately show ?case
    using Cons.IH [of "j + 1" "n + 1"] Cons.prems by (simp add: Let_def)
qed simp

lemma host_loop_field:
  assumes "sn_http_parse_host_char s0 c = s" and "s0 \<noteq> s" and "host_states s = Some f"
    and "\<And>c. c \<in> set w \<Longrightarrow> sn_http_parse_host_char s c = s"
    and "f = UF_HOST \<Longrightarrow> is_set u UF_HOST \<and> len (field_data u UF_HOST) = 0"
  shows "host_loop ((c # w) @ d) i s0 u = host_loop d (i + length (c # w)) s (put f i (length (c # w)) u)"
proof -
  have "host_char i s0 s u = put f i 1 u"
  proof (cases "f = UF_HOST")
    case True
    with assms(5) put_marked [of u UF_HOST 1 i] assms(2,3) show ?thesis
      by (auto simp: host_char_def host_states_def inc_len_def set_len_def set_off_def
          split: http_host_state.splits)
  next
    case False
    with assms(2,3) show ?thesis
      by (auto simp: host_char_def host_states_def inc_len_def put_def set_len_def set_off_def mark_set_def
          split: http_host_state.splits)
  qed
  moreover have "s \<noteq> s_http_host_dead" using assms(3) by (auto simp: host_states_def)
  ultimately show ?thesis
    using host_loop_in_field [OF assms(4) disjI1 [OF assms(3)], where d = d and j = "i + 1" and i = i and n = 1 and u = u] assms(1)
    by (simp add: Let_def)
qed

lemma host_loop_delimiter:
  assumes "sn_http_parse_host_char s c = s'"
    and "s' \<in> {s_http_host_start, s_http_host_v6_start, s_http_host_v6_end, s_http_host_port_start}"
  shows "host_loop (c # d) i s u = host_loop d (i + 1) s' u"
  using assms by (auto simp: Let_def host_char_def)

section \<open>Printed URLs\<close>

datatype url_host = Name string | Address string "string option"

record authority =
  userinfo :: "string option"
  host :: url_host
  port_text :: "string option"

record url =
  origin :: "(string \<times> authority) option"
  path :: string
  query :: "string option"
  fragment :: "string option"

definition opt_piece :: "http_parser_url_fields \<Rightarrow> char \<Rightarrow> string option \<Rightarrow> piece list" where
  "opt_piece f c x = (case x of None \<Rightarrow> [] | Some w \<Rightarrow> [(None, [c]), (Some f, w)])"

text \<open>The host as it stands in the \<open>UF_HOST\<close> field: an IPv6 address without its brackets.\<close>

definition host_text :: "url_host \<Rightarrow> string" where
  "host_text h =
    (case h of Name w \<Rightarrow> w | Address w None \<Rightarrow> w | Address w (Some z) \<Rightarrow> w @ ''%'' @ z)"

definition authority_pieces :: "authority \<Rightarrow> piece list" where
  "authority_pieces a =
    (case userinfo a of None \<Rightarrow> [] | Some w \<Rightarrow> [(Some UF_USERINFO, w), (None, ''@'')]) @
    (case host a of Name w \<Rightarrow> [(Some UF_HOST, w)]
     | Address w z \<Rightarrow> [(None, ''[''), (Some UF_HOST, host_text (host a)), (None, '']'')]) @
    opt_piece UF_PORT (CHR '':'') (port_text a)"

definition url_pieces :: "url \<Rightarrow> piece list" where
  "url_pieces r =
    (case origin r of None \<Rightarrow> []
     | Some (s, a) \<Rightarrow> [(Some UF_SCHEMA, s), (None, ''://''), (Some UF_HOST, text_of (authority_pieces a))]) @
    (if path r = [] then [] else [(Some UF_PATH, path r)]) @
    opt_piece UF_QUERY (CHR ''?'') (query r) @ opt_piece UF_FRAGMENT (CHR ''#'') (fragment r)"

definition print_url :: "url \<Rightarrow> string" where
  "print_url r = text_of (url_pieces r)"

definition zone_char :: "char \<Rightarrow> bool" where
  "zone_char c \<longleftrightarrow> IS_ALPHANUM c \<or> c \<in> set ''%.-_~''"

definition wf_host :: "url_host \<Rightarrow> bool" where
  "wf_host h =
    (case h of Name w \<Rightarrow> w \<noteq> [] \<and> (\<forall>c \<in> set w. IS_HOST_CHAR c)
     | Address w z \<Rightarrow> w \<noteq> [] \<and> (\<forall>c \<in> set w. IS_HEX c \<or> c = CHR '':'' \<or> c = CHR ''.'') \<and>
         (case z of None \<Rightarrow> True | Some y \<Rightarrow> y \<noteq> [] \<and> (\<forall>c \<in> set y. zone_char c)))"

definition wf_authority :: "authority \<Rightarrow> bool" where
  "wf_authority a \<longleftrightarrow>
    (case userinfo a of None \<Rightarrow> True | Some w \<Rightarrow> w \<noteq> [] \<and> (\<forall>c \<in> set w. IS_USERINFO_CHAR c)) \<and>
    wf_host (host a) \<and>
    (case port_text a of None \<Rightarrow> True | Some p \<Rightarrow> p \<noteq> [] \<and> digits p \<and> dec_from 0 p \<le> 65535)"

text \<open>A fragment needs a path or a query before it: the host automaton has no edge for \<open>#\<close>.\<close>

definition wf_url :: "url \<Rightarrow> bool" where
  "wf_url r \<longleftrightarrow>
    (case origin r of None \<Rightarrow> path r \<noteq> []
     | Some (s, a) \<Rightarrow> s \<noteq> [] \<and> (\<forall>c \<in> set s. IS_ALPHA c) \<and> wf_authority a) \<and>
    (path r \<noteq> [] \<longrightarrow> hd (path r) = CHR ''/'' \<and> (\<forall>c \<in> set (path r). IS_URL_CHAR c)) \<and>
    (case query r of None \<Rightarrow> True
     | Some q \<Rightarrow> q \<noteq> [] \<and> (\<forall>c \<in> set q. IS_URL_CHAR c \<or> c = CHR ''?'')) \<and>
    (case fragment r of None \<Rightarrow> True
     | Some f \<Rightarrow> f \<noteq> [] \<and> hd f \<noteq> CHR ''#'' \<and> (\<forall>c \<in> set f. IS_URL_CHAR c \<or> c \<in> {CHR ''?'', CHR ''#''}) \<and>
         (path r \<noteq> [] \<or> query r \<noteq> None))"

section \<open>The first loop on a printed URL\<close>

lemma steady:
  assumes "\<And>c. c \<in> set w \<Longrightarrow> parse_url_char s c = s" and "url_class_of s = U_field f"
  shows "stays f s w \<and> url_run s w = s \<and> (s \<noteq> s_req_server_with_at \<longrightarrow> \<not> at_seen s w)"
  using assms by (induction w) auto

lemma steady_from:
  assumes "parse_url_char s0 (hd w) = s" and "w \<noteq> []" and "\<And>c. c \<in> set (tl w) \<Longrightarrow> parse_url_char s c = s"
    and "url_class_of s = U_field f" and "s \<noteq> s_req_server_with_at"
  shows "stays f s0 w \<and> url_run s0 w = s \<and> \<not> at_seen s0 w"
  using assms steady [of "tl w" s f] by (cases w) auto

lemma url_char_plain:
  assumes "IS_URL_CHAR c"
  shows "c \<noteq> SP" "c \<noteq> CR" "c \<noteq> LF" "c \<noteq> HT" "c \<noteq> FF" "c \<noteq> CHR ''?''" "c \<noteq> CHR ''#''"
  using assms unfolding IS_URL_CHAR_iff by auto

lemma path_char: "IS_URL_CHAR c \<Longrightarrow> parse_url_char s_req_path c = s_req_path"
  by (simp add: parse_url_char_def url_char_plain)

lemma query_char:
  assumes "IS_URL_CHAR c \<or> c = CHR ''?''"
  shows "parse_url_char s_req_query_string_start c = s_req_query_string"
    and "parse_url_char s_req_query_string c = s_req_query_string"
  using assms by (elim disjE; simp add: parse_url_char_def url_char_plain)+

lemma fragment_char:
  assumes "IS_URL_CHAR c \<or> c = CHR ''?''"
  shows "parse_url_char s_req_fragment_start c = s_req_fragment"
    and "parse_url_char s_req_fragment c = s_req_fragment"
  using assms by (elim disjE; simp add: parse_url_char_def url_char_plain)+

lemma fragment_hash: "parse_url_char s_req_fragment (CHR ''#'') = s_req_fragment"
  by (simp add: parse_url_char_def IS_URL_CHAR_iff)

definition server_states :: "state set" where
  "server_states = {s_req_server_start, s_req_server, s_req_server_with_at}"

definition server_char :: "char \<Rightarrow> bool" where
  "server_char c \<longleftrightarrow> IS_USERINFO_CHAR c \<or> c = CHR ''['' \<or> c = CHR '']''"

lemma alphanum_plain:
  assumes "IS_ALPHANUM c"
  shows "c \<noteq> SP \<and> c \<noteq> CR \<and> c \<noteq> LF \<and> c \<noteq> HT \<and> c \<noteq> FF \<and> c \<noteq> CHR ''?'' \<and> c \<noteq> CHR ''/'' \<and> c \<noteq> CHR ''@''"
  using assms unfolding IS_ALPHANUM_def IS_ALPHA_iff IS_NUM_iff by auto

lemma server_char_plain:
  assumes "server_char c"
  shows "c \<noteq> SP \<and> c \<noteq> CR \<and> c \<noteq> LF \<and> c \<noteq> HT \<and> c \<noteq> FF \<and> c \<noteq> CHR ''?'' \<and> c \<noteq> CHR ''/'' \<and> c \<noteq> CHR ''@''"
proof (cases "IS_ALPHANUM c")
  case True
  then show ?thesis by (rule alphanum_plain)
next
  case False
  with assms show ?thesis
    by (elim server_char_def [unfolded IS_USERINFO_CHAR_def IS_MARK_def, THEN iffD1, elim_format] disjE) simp_all
qed

lemma server_char_step:
  assumes "server_char c"
  shows "parse_url_char s_req_server_start c = s_req_server"
    and "parse_url_char s_req_server c = s_req_server"
    and "parse_url_char s_req_server_with_at c = s_req_server"
  using server_char_plain [OF assms] assms
  by (simp_all add: parse_url_char_def url_server_char_def server_char_def)

lemma server_run:
  assumes "\<And>c. c \<in> set w \<Longrightarrow> server_char c" and "w \<noteq> []" and "s \<in> server_states"
  shows "stays UF_HOST s w \<and> url_run s w = s_req_server \<and> \<not> at_seen s w"
proof (rule steady_from)
  show "parse_url_char s (hd w) = s_req_server" "\<And>c. c \<in> set (tl w) \<Longrightarrow> parse_url_char s_req_server c = s_req_server"
    using assms by (auto simp: server_states_def server_char_step dest: list.set_sel(2))
qed (use assms(2) in \<open>simp_all add: url_class_of_def\<close>)

lemma server_chars:
  "IS_USERINFO_CHAR c \<Longrightarrow> server_char c" "IS_HOST_CHAR c \<Longrightarrow> server_char c" "IS_NUM c \<Longrightarrow> server_char c"
  "IS_HEX c \<Longrightarrow> server_char c" "zone_char c \<Longrightarrow> server_char c" "c \<in> set '':.%[]'' \<Longrightarrow> server_char c"
  by (auto simp: server_char_def IS_USERINFO_CHAR_def IS_HOST_CHAR_def IS_ALPHANUM_def IS_HEX_def
      IS_ALPHA_def zone_char_def IS_MARK_def)

section \<open>The authority in both loops\<close>

text \<open>The pieces after the user information.\<close>

definition address_pieces :: "authority \<Rightarrow> piece list" where
  "address_pieces a =
    (case host a of Name w \<Rightarrow> [(Some UF_HOST, w)]
     | Address w z \<Rightarrow> [(None, ''[''), (Some UF_HOST, host_text (host a)), (None, '']'')]) @
    opt_piece UF_PORT (CHR '':'') (port_text a)"

lemma address_text:
  assumes "wf_authority a"
  shows "text_of (address_pieces a) \<noteq> []" and "c \<in> set (text_of (address_pieces a)) \<Longrightarrow> server_char c"
proof -
  have host: "wf_host (host a)" using assms by (simp add: wf_authority_def)
  then show "text_of (address_pieces a) \<noteq> []"
    by (auto simp: address_pieces_def wf_host_def split: url_host.splits)
  have "server_char c" if "c \<in> set (host_text (host a))"
    using that host by (auto simp: host_text_def wf_host_def server_chars split: url_host.splits option.splits)
  moreover have "server_char c" if "port_text a = Some p" "c \<in> set p" for p
    using that assms by (auto simp: wf_authority_def digits_def server_chars)
  ultimately show "server_char c" if "c \<in> set (text_of (address_pieces a))"
    using that
    by (auto simp: address_pieces_def opt_piece_def host_text_def server_chars
        split: url_host.splits option.splits)
qed

lemma at_step:
  "parse_url_char s_req_server_start (CHR ''@'') = s_req_server_with_at"
  "parse_url_char s_req_server (CHR ''@'') = s_req_server_with_at"
  by (simp_all add: parse_url_char_def url_server_char_def)

lemma authority_run:
  assumes "wf_authority a"
  shows "stays UF_HOST s_req_server_start (text_of (authority_pieces a)) \<and>
    url_run s_req_server_start (text_of (authority_pieces a)) = s_req_server \<and>
    (at_seen s_req_server_start (text_of (authority_pieces a)) \<longleftrightarrow> userinfo a \<noteq> None) \<and>
    text_of (authority_pieces a) \<noteq> []"
proof -
  have tail: "stays UF_HOST s (text_of (address_pieces a)) \<and> url_run s (text_of (address_pieces a)) = s_req_server \<and>
      \<not> at_seen s (text_of (address_pieces a))" if "s \<in> server_states" for s
    by (rule server_run [OF address_text(2) [OF assms] address_text(1) [OF assms] that])
  have start: "s_req_server_start \<in> server_states" "s_req_server_with_at \<in> server_states"
    by (simp_all add: server_states_def)
  show ?thesis
  proof (cases "userinfo a")
    case None
    with tail [OF start(1)] address_text(1) [OF assms] show ?thesis
      by (simp add: authority_pieces_def address_pieces_def)
  next
    case (Some w)
    then have w: "\<And>c. c \<in> set w \<Longrightarrow> server_char c" "w \<noteq> []"
      using assms by (auto simp: wf_authority_def server_chars)
    have "text_of (authority_pieces a) = w @ ''@'' @ text_of (address_pieces a)"
      using Some by (simp add: authority_pieces_def address_pieces_def)
    with server_run [OF w start(1)] tail [OF start(2)] Some show ?thesis
      by (simp add: at_step url_class_of_def)
  qed
qed

lemma put_field_data [simp]:
  "field_data (put f i n u) g = (if g = f then \<lparr>off = of_nat i, len = of_nat n\<rparr> else field_data u g)"
  by (simp add: put_def mark_set_def set_len_def set_off_def)

text \<open>Steps of the host automaton.\<close>

lemma host_steps:
  "IS_USERINFO_CHAR c \<Longrightarrow> sn_http_parse_host_char s_http_userinfo c = s_http_userinfo"
  "IS_USERINFO_CHAR c \<Longrightarrow> sn_http_parse_host_char s_http_userinfo_start c = s_http_userinfo"
  "IS_HOST_CHAR c \<Longrightarrow> sn_http_parse_host_char s_http_host_start c = s_http_host"
  "IS_HOST_CHAR c \<Longrightarrow> sn_http_parse_host_char s_http_host c = s_http_host"
  "IS_NUM c \<Longrightarrow> sn_http_parse_host_char s_http_host_port_start c = s_http_host_port"
  "IS_NUM c \<Longrightarrow> sn_http_parse_host_char s_http_host_port c = s_http_host_port"
  "sn_http_parse_host_char s_http_userinfo (CHR ''@'') = s_http_host_start"
  "sn_http_parse_host_char s_http_host_start (CHR ''['') = s_http_host_v6_start"
  "sn_http_parse_host_char s_http_host (CHR '':'') = s_http_host_port_start"
  "sn_http_parse_host_char s_http_host_v6_end (CHR '':'') = s_http_host_port_start"
  "sn_http_parse_host_char s_http_host_v6 (CHR '']'') = s_http_host_v6_end"
  "sn_http_parse_host_char s_http_host_v6_zone (CHR '']'') = s_http_host_v6_end"
  "IS_HEX c \<or> c = CHR '':'' \<or> c = CHR ''.'' \<Longrightarrow> sn_http_parse_host_char s_http_host_v6_start c = s_http_host_v6"
  "IS_HEX c \<or> c = CHR '':'' \<or> c = CHR ''.'' \<Longrightarrow> sn_http_parse_host_char s_http_host_v6 c = s_http_host_v6"
  "zone_char c \<Longrightarrow> sn_http_parse_host_char s_http_host_v6_zone_start c = s_http_host_v6_zone"
  "zone_char c \<Longrightarrow> sn_http_parse_host_char s_http_host_v6_zone c = s_http_host_v6_zone"
  "sn_http_parse_host_char s_http_host_v6 (CHR ''%'') = s_http_host_v6_zone_start"
  by (auto simp: sn_http_parse_host_char_def Let_def IS_USERINFO_CHAR_def IS_MARK_def IS_HOST_CHAR_def
      IS_ALPHANUM_def IS_ALPHA_iff IS_NUM_iff IS_HEX_def zone_char_def LOWER_def)

lemma port_loop_piece:
  assumes "\<And>p. port_text a = Some p \<Longrightarrow> p \<noteq> [] \<and> digits p"
    and "s \<in> {s_http_host, s_http_host_v6_end}"
  shows "\<exists>s'. host_loop (text_of (opt_piece UF_PORT (CHR '':'') (port_text a))) i s u =
      (s', place i (opt_piece UF_PORT (CHR '':'') (port_text a)) u) \<and> host_final s' \<and> s' \<noteq> s_http_host_dead"
proof (cases "port_text a")
  case None
  with assms(2) show ?thesis by (auto simp: opt_piece_def host_final_def)
next
  case (Some p)
  then obtain c w where p: "p = c # w" "IS_NUM c" "digits w"
    using assms(1) [of p] by (cases p) auto
  have "host_loop ((c # w) @ []) (i + 1) s_http_host_port_start u =
      host_loop [] (i + 1 + length (c # w)) s_http_host_port (put UF_PORT (i + 1) (length (c # w)) u)"
    by (rule host_loop_field) (use p in \<open>auto simp: host_steps host_states_def digits_def\<close>)
  moreover have "host_loop (CHR '':'' # c # w) i s u = host_loop (c # w) (i + 1) s_http_host_port_start u"
    by (rule host_loop_delimiter) (use assms(2) in \<open>auto simp: host_steps\<close>)
  ultimately show ?thesis
    by (simp add: Some p(1) opt_piece_def host_final_def)
qed

lemma zone_loop:
  assumes "z \<noteq> []" and "\<forall>c \<in> set z. zone_char c"
  shows "host_loop (''%'' @ z @ d) j s_http_host_v6 (put UF_HOST i n u) =
    host_loop d (j + 1 + length z) s_http_host_v6_zone (put UF_HOST i (n + 1 + length z) u)"
proof (cases z)
  case (Cons c w)
  have "host_loop (w @ d) (j + 2) s_http_host_v6_zone (put UF_HOST i (n + 2) u) =
      host_loop d (j + 2 + length w) s_http_host_v6_zone (put UF_HOST i (n + 2 + length w) u)"
    by (rule host_loop_in_field) (use assms(2) Cons in \<open>auto simp: host_steps\<close>)
  with assms(2) Cons show ?thesis
    by (simp add: host_steps host_char_def inc_len_put Let_def)
qed (use assms(1) in simp)

lemma address_loop:
  assumes "wf_authority a" and "is_set u UF_HOST" and "len (field_data u UF_HOST) = 0"
  shows "\<exists>s'. host_loop (text_of (address_pieces a)) i s_http_host_start u =
      (s', place i (address_pieces a) u) \<and> host_final s' \<and> s' \<noteq> s_http_host_dead"
proof -
  have port: "port_text a = Some p \<Longrightarrow> p \<noteq> [] \<and> digits p" for p
    using assms(1) by (simp add: wf_authority_def)
  let ?d = "text_of (opt_piece UF_PORT (CHR '':'') (port_text a))"
  show ?thesis
  proof (cases "host a")
    case (Name h)
    then obtain c w where h: "h = c # w" "IS_HOST_CHAR c" "\<forall>x \<in> set w. IS_HOST_CHAR x"
      using assms(1) by (cases h) (auto simp: wf_authority_def wf_host_def)
    have "host_loop ((c # w) @ ?d) i s_http_host_start u =
        host_loop ?d (i + length (c # w)) s_http_host (put UF_HOST i (length (c # w)) u)"
      by (rule host_loop_field) (use h assms(2,3) in \<open>auto simp: host_steps host_states_def\<close>)
    with port_loop_piece [OF port, where i = "i + length (c # w)" and s = s_http_host]
    show ?thesis by (simp add: Name h(1) address_pieces_def)
  next
    case (Address h z)
    then obtain c w where h: "h = c # w" "IS_HEX c \<or> c = CHR '':'' \<or> c = CHR ''.''"
        "\<forall>x \<in> set w. IS_HEX x \<or> x = CHR '':'' \<or> x = CHR ''.''"
      using assms(1) by (cases h) (auto simp: wf_authority_def wf_host_def)
    have "host_loop (CHR ''['' # h @ e) i s_http_host_start u = host_loop (h @ e) (i + 1) s_http_host_v6_start u" for e
      by (rule host_loop_delimiter) (simp_all add: host_steps)
    moreover have "host_loop (h @ e) (i + 1) s_http_host_v6_start u =
        host_loop e (i + 1 + length h) s_http_host_v6 (put UF_HOST (i + 1) (length h) u)" for e
      unfolding h(1)
      by (rule host_loop_field) (use h assms(2,3) in \<open>auto simp: host_steps host_states_def\<close>)
    ultimately have open_h: "host_loop (CHR ''['' # h @ e) i s_http_host_start u =
        host_loop e (i + 1 + length h) s_http_host_v6 (put UF_HOST (i + 1) (length h) u)" for e
      by simp
    have close: "host_loop (CHR '']'' # e) j s u' = host_loop e (j + 1) s_http_host_v6_end u'"
      if "s = s_http_host_v6 \<or> s = s_http_host_v6_zone" for e j s u'
      by (rule host_loop_delimiter) (use that in \<open>auto simp: host_steps\<close>)
    note tail = port_loop_piece [of a s_http_host_v6_end, OF port]
    show ?thesis
    proof (cases z)
      case None
      with open_h [of "CHR '']'' # ?d"] close tail [where i = "i + 2 + length h"] show ?thesis
        by (simp add: Address address_pieces_def host_text_def)
    next
      case (Some y)
      then have y: "y \<noteq> []" "\<forall>c \<in> set y. zone_char c"
        using assms(1) Address by (auto simp: wf_authority_def wf_host_def)
      show ?thesis
        using open_h [of "''%'' @ y @ CHR '']'' # ?d"] zone_loop [OF y] close
          tail [where i = "Suc (Suc (Suc (i + (length h + length y))))"]
        by (simp add: Address Some address_pieces_def host_text_def add.assoc)
    qed
  qed
qed

lemma authority_loop:
  assumes "wf_authority a" and "is_set u UF_HOST" and "len (field_data u UF_HOST) = 0"
  shows "\<exists>s'. host_loop (text_of (authority_pieces a)) i
        (if userinfo a \<noteq> None then s_http_userinfo_start else s_http_host_start) u =
      (s', place i (authority_pieces a) u) \<and> host_final s' \<and> s' \<noteq> s_http_host_dead"
proof (cases "userinfo a")
  case None
  with address_loop [OF assms, of i] show ?thesis by (simp add: authority_pieces_def address_pieces_def)
next
  case (Some x)
  then obtain c w where x: "x = c # w" "IS_USERINFO_CHAR c" "\<forall>y \<in> set w. IS_USERINFO_CHAR y"
    using assms(1) by (cases x) (auto simp: wf_authority_def)
  let ?e = "text_of (address_pieces a)" and ?u = "put UF_USERINFO i (length x) u"
  have "host_loop ((c # w) @ CHR ''@'' # ?e) i s_http_userinfo_start u =
      host_loop (CHR ''@'' # ?e) (i + length (c # w)) s_http_userinfo (put UF_USERINFO i (length (c # w)) u)"
    by (rule host_loop_field) (use x in \<open>auto simp: host_steps host_states_def\<close>)
  also have "\<dots> = host_loop ?e (i + length (c # w) + 1) s_http_host_start (put UF_USERINFO i (length (c # w)) u)"
    by (rule host_loop_delimiter) (simp_all add: host_steps)
  finally have "host_loop (text_of (authority_pieces a)) i s_http_userinfo_start u =
      host_loop ?e (i + length x + 1) s_http_host_start ?u"
    by (simp add: Some x(1) authority_pieces_def address_pieces_def)
  with address_loop [OF assms(1), of ?u "i + length x + 1"] assms(2,3) Some show ?thesis
    by (simp add: authority_pieces_def address_pieces_def)
qed

lemma authority_host:
  assumes a: "wf_authority a" and u: "is_set u UF_HOST" "start_of u UF_HOST = length pre"
    "len_of u UF_HOST = length (text_of (authority_pieces a))"
  shows "sn_http_parse_host (pre @ text_of (authority_pieces a) @ post) u (userinfo a \<noteq> None) =
    Some (0, place (length pre) (authority_pieces a) (set_len UF_HOST 0 u))"
proof -
  have "seg (pre @ text_of (authority_pieces a) @ post) (length pre)
      (length pre + length (text_of (authority_pieces a))) = text_of (authority_pieces a)"
    by (rule seg_middle) simp_all
  moreover have "len (field_data (set_len UF_HOST 0 u) UF_HOST) = 0" by (simp add: set_len_def)
  ultimately show ?thesis
    using authority_loop [OF a, of "set_len UF_HOST 0 u" "length pre"] u
    by (auto simp: sn_http_parse_host_def start_of_def [symmetric] len_of_def [symmetric] Let_def)
qed

section \<open>The first loop on a printed URL\<close>

lemma opt_loop:
  assumes "\<And>w. x = Some w \<Longrightarrow> w \<noteq> [] \<and> stays f s1 w \<and> \<not> at_seen s1 w"
    and "parse_url_char s c = s1" and "url_class_of s1 = U_delimiter" and "old \<noteq> f"
  shows "\<exists>s' old'. (\<forall>d. url_loop (text_of (opt_piece f c x) @ d) i s old fa u =
      url_loop d (i + length (text_of (opt_piece f c x))) s' old' fa (place i (opt_piece f c x) u)) \<and>
    (x = None \<longrightarrow> s' = s \<and> old' = old) \<and> (\<forall>w. x = Some w \<longrightarrow> s' = url_run s1 w \<and> old' = f)"
proof (cases x)
  case None
  then show ?thesis by (simp add: opt_piece_def)
next
  case (Some w)
  have "url_loop (c # w @ d) i s old fa u = url_loop d (i + 1 + length w) (url_run s1 w) f fa (put f (i + 1) (length w) u)" for d
    using url_loop_delimiter [of s c "w @ d" i old fa u] url_loop_field [of f s1 w old d "i + 1" fa u]
      assms Some by simp
  then show ?thesis by (simp add: Some opt_piece_def)
qed

text \<open>The states in which a query may follow, and those in which a fragment may.\<close>

definition before_query :: "state set" where
  "before_query = {s_req_server, s_req_path}"

definition before_fragment :: "state set" where
  "before_fragment = {s_req_path, s_req_query_string}"

lemma query_start: "s \<in> before_query \<Longrightarrow> parse_url_char s (CHR ''?'') = s_req_query_string_start"
  by (auto simp: before_query_def parse_url_char_def url_server_char_def IS_URL_CHAR_iff)

lemma fragment_start: "s \<in> before_fragment \<Longrightarrow> parse_url_char s (CHR ''#'') = s_req_fragment_start"
  by (auto simp: before_fragment_def parse_url_char_def IS_URL_CHAR_iff)

lemma query_run:
  assumes "wf_url r" and "query r = Some q"
  shows "q \<noteq> [] \<and> stays UF_QUERY s_req_query_string_start q \<and>
    url_run s_req_query_string_start q = s_req_query_string \<and> \<not> at_seen s_req_query_string_start q"
proof -
  have q: "q \<noteq> []" "\<forall>c \<in> set q. IS_URL_CHAR c \<or> c = CHR ''?''"
    using assms by (auto simp: wf_url_def)
  moreover have "hd q \<in> set q" using q(1) by simp
  ultimately have hd: "IS_URL_CHAR (hd q) \<or> hd q = CHR ''?''" by blast
  have tl: "parse_url_char s_req_query_string c = s_req_query_string" if "c \<in> set (tl q)" for c
    using q that by (intro query_char) (auto dest: list.set_sel(2))
  show ?thesis
    using q(1) steady_from [OF query_char(1) [OF hd] q(1) tl, of UF_QUERY] by (simp add: url_class_of_def)
qed

lemma fragment_run:
  assumes "wf_url r" and "fragment r = Some f"
  shows "f \<noteq> [] \<and> stays UF_FRAGMENT s_req_fragment_start f \<and>
    url_run s_req_fragment_start f = s_req_fragment \<and> \<not> at_seen s_req_fragment_start f"
proof -
  have f: "f \<noteq> []" "hd f \<noteq> CHR ''#''" "\<forall>c \<in> set f. IS_URL_CHAR c \<or> c = CHR ''?'' \<or> c = CHR ''#''"
    using assms by (auto simp: wf_url_def)
  moreover have "hd f \<in> set f" using f(1) by simp
  ultimately have hd: "IS_URL_CHAR (hd f) \<or> hd f = CHR ''?''" by blast
  have tl: "parse_url_char s_req_fragment c = s_req_fragment" if "c \<in> set (tl f)" for c
  proof (cases "c = CHR ''#''")
    case False
    with f that show ?thesis by (intro fragment_char) (auto dest: list.set_sel(2))
  qed (simp add: fragment_hash)
  show ?thesis
    using f(1) steady_from [OF fragment_char(1) [OF hd] f(1) tl, of UF_FRAGMENT] by (simp add: url_class_of_def)
qed

lemma path_run:
  assumes "wf_url r" and "path r \<noteq> []" and "s \<in> {s_req_spaces_before_url, s_req_server}"
  shows "stays UF_PATH s (path r) \<and> url_run s (path r) = s_req_path \<and> \<not> at_seen s (path r)"
proof (rule steady_from)
  show "parse_url_char s (hd (path r)) = s_req_path"
    using assms by (auto simp: wf_url_def parse_url_char_def url_server_char_def)
  show "\<And>c. c \<in> set (tl (path r)) \<Longrightarrow> parse_url_char s_req_path c = s_req_path"
    using assms by (auto simp: wf_url_def dest: list.set_sel(2) intro!: path_char)
qed (use assms(2) in \<open>simp_all add: url_class_of_def\<close>)

definition path_pieces :: "url \<Rightarrow> piece list" where
  "path_pieces r = (if path r = [] then [] else [(Some UF_PATH, path r)])"

definition origin_pieces :: "url \<Rightarrow> piece list" where
  "origin_pieces r =
    (case origin r of None \<Rightarrow> []
     | Some (s, a) \<Rightarrow> [(Some UF_SCHEMA, s), (None, ''://''), (Some UF_HOST, text_of (authority_pieces a))])"

abbreviation query_pieces :: "url \<Rightarrow> piece list" where
  "query_pieces r \<equiv> opt_piece UF_QUERY (CHR ''?'') (query r)"

abbreviation fragment_pieces :: "url \<Rightarrow> piece list" where
  "fragment_pieces r \<equiv> opt_piece UF_FRAGMENT (CHR ''#'') (fragment r)"

lemma url_pieces_eq: "url_pieces r = origin_pieces r @ path_pieces r @ query_pieces r @ fragment_pieces r"
  by (simp add: url_pieces_def origin_pieces_def path_pieces_def)

definition has_userinfo :: "url \<Rightarrow> bool" where
  "has_userinfo r = (case origin r of None \<Rightarrow> False | Some (s, a) \<Rightarrow> userinfo a \<noteq> None)"

lemma schema_char:
  assumes "IS_ALPHA c"
  shows "parse_url_char s_req_spaces_before_url c = s_req_schema"
    and "parse_url_char s_req_schema c = s_req_schema"
proof -
  have "c \<noteq> SP" "c \<noteq> CR" "c \<noteq> LF" "c \<noteq> HT" "c \<noteq> FF" "c \<noteq> CHR ''/''" "c \<noteq> CHR ''*''"
    using assms unfolding IS_ALPHA_iff by auto
  with assms show "parse_url_char s_req_spaces_before_url c = s_req_schema"
    "parse_url_char s_req_schema c = s_req_schema"
    by (simp_all add: parse_url_char_def)
qed

lemma schema_run:
  assumes "\<forall>c \<in> set s. IS_ALPHA c" and "s \<noteq> []"
  shows "stays UF_SCHEMA s_req_spaces_before_url s \<and> url_run s_req_spaces_before_url s = s_req_schema \<and>
    \<not> at_seen s_req_spaces_before_url s"
proof (rule steady_from)
  show "parse_url_char s_req_spaces_before_url (hd s) = s_req_schema"
    "\<And>c. c \<in> set (tl s) \<Longrightarrow> parse_url_char s_req_schema c = s_req_schema"
    using assms by (auto intro: schema_char dest: list.set_sel(2))
qed (use assms(2) in \<open>simp_all add: url_class_of_def\<close>)

lemma schema_delimiter:
  "url_loop (''://'' @ e) i s_req_schema old fa u = url_loop e (i + 3) s_req_server_start old fa u"
proof -
  have "parse_url_char s_req_schema (CHR '':'') = s_req_schema_slash"
    "parse_url_char s_req_schema_slash (CHR ''/'') = s_req_schema_slash_slash"
    "parse_url_char s_req_schema_slash_slash (CHR ''/'') = s_req_server_start"
    by (simp_all add: parse_url_char_def IS_ALPHA_iff)
  then show ?thesis
    by (simp add: url_loop_delimiter url_class_of_def eval_nat_numeral del: url_loop.simps)
qed

lemma origin_loop:
  assumes "wf_url r"
  shows "\<exists>s old. (\<forall>d. url_loop (text_of (origin_pieces r) @ d) 0 s_req_spaces_before_url UF_MAX False u =
      url_loop d (length (text_of (origin_pieces r))) s old (has_userinfo r) (place 0 (origin_pieces r) u)) \<and>
    (s = (if origin r = None then s_req_spaces_before_url else s_req_server)) \<and> old \<in> {UF_MAX, UF_HOST}"
proof (cases "origin r")
  case None
  then show ?thesis
    by (intro exI [of _ s_req_spaces_before_url] exI [of _ UF_MAX]) (simp add: origin_pieces_def has_userinfo_def)
next
  case (Some sa)
  obtain s a where sa: "sa = (s, a)" by (cases sa)
  have s: "s \<noteq> []" "\<forall>c \<in> set s. IS_ALPHA c" and a: "wf_authority a"
    using assms Some sa by (auto simp: wf_url_def)
  note scheme = schema_run [OF s(2,1)]
  note run = authority_run [OF a]
  let ?t = "text_of (authority_pieces a)" and ?u = "put UF_SCHEMA 0 (length s) u"
  have "url_loop (s @ ''://'' @ ?t @ d) 0 s_req_spaces_before_url UF_MAX False u =
      url_loop (''://'' @ ?t @ d) (length s) s_req_schema UF_SCHEMA False ?u" for d
    using url_loop_field [OF conjunct1 [OF scheme] s(1), of UF_MAX "''://'' @ ?t @ d" 0 False u] scheme
    by (simp del: url_loop.simps)
  moreover have "url_loop (?t @ d) i s_req_server_start UF_SCHEMA False u' =
      url_loop d (i + length ?t) s_req_server UF_HOST (userinfo a \<noteq> None) (put UF_HOST i (length ?t) u')" for d i u'
    using url_loop_field [of UF_HOST s_req_server_start ?t UF_SCHEMA d i False u'] run
    by (simp del: url_loop.simps)
  ultimately have "url_loop (s @ ''://'' @ ?t @ d) 0 s_req_spaces_before_url UF_MAX False u =
      url_loop d (length s + 3 + length ?t) s_req_server UF_HOST (userinfo a \<noteq> None)
        (put UF_HOST (length s + 3) (length ?t) ?u)" for d
    by (simp only: schema_delimiter)
  then show ?thesis
    by (intro exI [of _ s_req_server] exI [of _ UF_HOST])
      (simp add: Some sa origin_pieces_def has_userinfo_def eval_nat_numeral del: url_loop.simps)
qed

lemma url_loop_print:
  assumes r: "wf_url r"
  shows "url_loop (print_url r) 0 s_req_spaces_before_url UF_MAX False u =
    Some (0, has_userinfo r, place 0 (url_pieces r) u)"
proof -
  obtain s1 old1 where one: "\<And>d. url_loop (text_of (origin_pieces r) @ d) 0 s_req_spaces_before_url UF_MAX False u =
      url_loop d (length (text_of (origin_pieces r))) s1 old1 (has_userinfo r) (place 0 (origin_pieces r) u)"
    and s1: "s1 = (if origin r = None then s_req_spaces_before_url else s_req_server)" "old1 \<in> {UF_MAX, UF_HOST}"
    using origin_loop [OF r, of u] by blast
  let ?i1 = "length (text_of (origin_pieces r))" and ?u1 = "place 0 (origin_pieces r) u"
  define s2 where "s2 = (if path r = [] then s1 else s_req_path)"
  define old2 where "old2 = (if path r = [] then old1 else UF_PATH)"
  have two: "url_loop (text_of (path_pieces r) @ d) ?i1 s1 old1 (has_userinfo r) ?u1 =
      url_loop d (?i1 + length (text_of (path_pieces r))) s2 old2 (has_userinfo r) (place ?i1 (path_pieces r) ?u1)" for d
  proof (cases "path r = []")
    case False
    have "s1 \<in> {s_req_spaces_before_url, s_req_server}" using s1 by simp
    from path_run [OF r False this] url_loop_field [of UF_PATH s1 "path r" old1 d ?i1] False s1 show ?thesis
      by (auto simp: path_pieces_def s2_def old2_def)
  qed (simp add: path_pieces_def s2_def old2_def)
  have s2: "s2 \<in> before_query" "old2 \<noteq> UF_QUERY" "old2 \<noteq> UF_FRAGMENT"
    using s1 r by (auto simp: s2_def old2_def before_query_def wf_url_def)
  let ?i2 = "?i1 + length (text_of (path_pieces r))" and ?u2 = "place ?i1 (path_pieces r) ?u1"
  obtain s3 old3 where three: "\<And>d. url_loop (text_of (query_pieces r) @ d) ?i2 s2 old2 (has_userinfo r) ?u2 =
      url_loop d (?i2 + length (text_of (query_pieces r))) s3 old3 (has_userinfo r) (place ?i2 (query_pieces r) ?u2)"
    and s3: "query r = None \<longrightarrow> s3 = s2 \<and> old3 = old2"
      "\<forall>w. query r = Some w \<longrightarrow> s3 = url_run s_req_query_string_start w \<and> old3 = UF_QUERY"
    using opt_loop [of "query r" UF_QUERY s_req_query_string_start s2 "CHR ''?''" old2 ?i2 "has_userinfo r" ?u2]
      query_run [OF r] query_start [OF s2(1)] s2(2) by (auto simp: url_class_of_def)
  let ?i3 = "?i2 + length (text_of (query_pieces r))" and ?u3 = "place ?i2 (query_pieces r) ?u2"
  have four: "url_loop (text_of (fragment_pieces r) @ []) ?i3 s3 old3 (has_userinfo r) ?u3 =
      Some (0, has_userinfo r, place ?i3 (fragment_pieces r) ?u3)"
  proof (cases "fragment r")
    case None
    then show ?thesis by (simp add: opt_piece_def)
  next
    case (Some f)
    have "s3 \<in> before_fragment" "old3 \<noteq> UF_FRAGMENT"
      using s3 s2 query_run [OF r] r Some
      by (cases "query r"; auto simp: before_fragment_def before_query_def s2_def wf_url_def)+
    then obtain s4 old4 where "\<And>d. url_loop (text_of (fragment_pieces r) @ d) ?i3 s3 old3 (has_userinfo r) ?u3 =
        url_loop d (?i3 + length (text_of (fragment_pieces r))) s4 old4 (has_userinfo r)
          (place ?i3 (fragment_pieces r) ?u3)"
      using opt_loop [of "fragment r" UF_FRAGMENT s_req_fragment_start s3 "CHR ''#''" old3 ?i3 "has_userinfo r" ?u3]
        fragment_run [OF r] fragment_start by (auto simp: url_class_of_def)
    from this [of "[]"] show ?thesis by simp
  qed
  show ?thesis
    using one two three four by (simp add: print_url_def url_pieces_eq place_append add.assoc)
qed

section \<open>The round trip\<close>

text \<open>What a URL says about each field.\<close>

definition url_part :: "url \<Rightarrow> http_parser_url_fields \<Rightarrow> string option" where
  "url_part r f =
    (case f of
       UF_SCHEMA \<Rightarrow> map_option fst (origin r)
     | UF_HOST \<Rightarrow> map_option (\<lambda>(s, a). host_text (host a)) (origin r)
     | UF_PORT \<Rightarrow> Option.bind (origin r) (\<lambda>(s, a). port_text a)
     | UF_USERINFO \<Rightarrow> Option.bind (origin r) (\<lambda>(s, a). userinfo a)
     | UF_PATH \<Rightarrow> (if path r = [] then None else Some (path r))
     | UF_QUERY \<Rightarrow> query r
     | UF_FRAGMENT \<Rightarrow> fragment r
     | UF_MAX \<Rightarrow> None)"

definition read_part :: "byte list \<Rightarrow> http_parser_url \<Rightarrow> http_parser_url_fields \<Rightarrow> string option" where
  "read_part buf u f = (if is_set u f then Some (field_text buf u f) else None)"

lemma read_part_place:
  assumes "distinct (filter (\<lambda>x. x \<noteq> None) (map fst ps))" and "i + length (text_of ps) < 65536"
    and "length pre = i"
  shows "read_part (pre @ text_of ps @ post) (place i ps u) f =
    (case map_of ps (Some f) of None \<Rightarrow> read_part (pre @ text_of ps @ post) u f | Some w \<Rightarrow> Some w)"
proof (cases "map_of ps (Some f)")
  case None
  then have "Some f \<notin> fst ` set ps" by (simp add: map_of_eq_None_iff)
  from place_other [OF this assms(2)] None show ?thesis by (simp add: read_part_def field_text_def)
next
  case (Some w)
  from map_of_SomeD [OF this] obtain xs ys where ps: "ps = xs @ (Some f, w) # ys"
    by (metis split_list)
  have "Some f \<notin> fst ` set ys"
    using assms(1) by (auto simp: ps)
  from place_field [OF ps this assms(2,3)] Some show ?thesis by (simp add: read_part_def)
qed


lemma distinct_authority:
  "distinct (filter (\<lambda>x. x \<noteq> None) (map fst (authority_pieces a)))"
  by (auto simp: authority_pieces_def opt_piece_def split: option.split url_host.split)

lemma distinct_url: "distinct (filter (\<lambda>x. x \<noteq> None) (map fst (url_pieces r)))"
  by (auto simp: url_pieces_def opt_piece_def split: option.split)

lemma authority_part:
  "map_of (authority_pieces a) (Some f) =
    (case f of UF_HOST \<Rightarrow> Some (host_text (host a)) | UF_PORT \<Rightarrow> port_text a
     | UF_USERINFO \<Rightarrow> userinfo a | _ \<Rightarrow> None)"
  by (auto simp: authority_pieces_def opt_piece_def host_text_def
      split: option.split url_host.split http_parser_url_fields.split)

lemma url_pieces_part:
  "map_of (url_pieces r) (Some f) =
    (case f of UF_HOST \<Rightarrow> map_option (\<lambda>(s, a). text_of (authority_pieces a)) (origin r)
     | UF_PORT \<Rightarrow> None | UF_USERINFO \<Rightarrow> None | _ \<Rightarrow> url_part r f)"
  by (auto simp: url_pieces_def opt_piece_def url_part_def
      split: option.split http_parser_url_fields.split)

lemma read_part_fresh: "field_set u = 0 \<Longrightarrow> read_part buf u f = None"
  by (simp add: read_part_def is_set_def)

text \<open>The structure after both loops.\<close>

lemma host_done:
  assumes r: "wf_url r" and n: "length (print_url r) \<le> 65535" and u: "field_set u = 0" "port u = 0"
    and "origin r = Some (s, a)"
  shows "\<exists>u'. sn_http_parse_host (print_url r) (place 0 (url_pieces r) u) (has_userinfo r) = Some (0, u') \<and>
    (\<forall>f. read_part (print_url r) u' f = url_part r f) \<and> port u' = 0 \<and> is_set (place 0 (url_pieces r) u) UF_HOST"
proof -
  let ?a = "authority_pieces a" and ?u = "place 0 (url_pieces r) u" and ?pre = "s @ ''://''"
  let ?post = "text_of (path_pieces r) @ text_of (query_pieces r) @ text_of (fragment_pieces r)"
  have a: "wf_authority a" using r assms(5) by (simp add: wf_url_def)
  have buf: "print_url r = ?pre @ text_of ?a @ ?post"
    by (simp add: print_url_def url_pieces_eq origin_pieces_def assms(5))
  have ps: "url_pieces r = [(Some UF_SCHEMA, s), (None, ''://'')] @
      (Some UF_HOST, text_of ?a) # path_pieces r @ query_pieces r @ fragment_pieces r"
    by (simp add: url_pieces_eq origin_pieces_def assms(5))
  have later: "Some UF_HOST \<notin> fst ` set (path_pieces r @ query_pieces r @ fragment_pieces r)"
    by (auto simp: path_pieces_def opt_piece_def split: option.splits)
  have small: "length ?pre + length (text_of ?a) < 65536"
    using n unfolding buf by simp
  have first: "place 0 (url_pieces r) u = place (length ?pre + length (text_of ?a))
      (path_pieces r @ query_pieces r @ fragment_pieces r)
      (put UF_HOST (length ?pre) (length (text_of ?a)) (put UF_SCHEMA 0 (length s) u))"
    by (simp add: ps)
  have u1: "is_set ?u UF_HOST \<and> start_of ?u UF_HOST = length ?pre \<and> len_of ?u UF_HOST = length (text_of ?a)"
    unfolding first using place_other [OF later, of "length ?pre + length (text_of ?a)"] n small
    unfolding buf by simp
  let ?v = "place (length ?pre) ?a (set_len UF_HOST 0 ?u)"
  have "sn_http_parse_host (print_url r) ?u (has_userinfo r) = Some (0, ?v)"
    unfolding buf using authority_host [OF a, of ?u ?pre ?post] u1 assms(5)
    by (simp add: has_userinfo_def)
  moreover have "read_part (print_url r) ?v f = url_part r f" for f
  proof -
    have "read_part (print_url r) ?v f = (case map_of ?a (Some f) of
        None \<Rightarrow> read_part (print_url r) (set_len UF_HOST 0 ?u) f | Some w \<Rightarrow> Some w)"
      unfolding buf by (rule read_part_place [OF distinct_authority]) (use small in simp_all)
    moreover have "read_part (print_url r) (set_len UF_HOST 0 ?u) f = read_part (print_url r) ?u f" if "f \<noteq> UF_HOST"
      using that by (simp add: read_part_def field_text_def)
    moreover have "read_part (print_url r) ?u f = map_of (url_pieces r) (Some f)"
      using read_part_place [OF distinct_url, of 0 r "[]" "[]" u f] n u(1)
      by (simp add: print_url_def read_part_fresh option.case_eq_if)
    ultimately show ?thesis
      by (auto simp: authority_part url_pieces_part url_part_def assms(5)
          split: http_parser_url_fields.splits option.splits)
  qed
  ultimately show ?thesis using u(2) u1 by simp
qed

lemma read_part_port [simp]: "read_part buf (u\<lparr>port := v\<rparr>) f = read_part buf u f"
  by (simp add: read_part_def)

lemma parts_read:
  assumes "\<forall>f. read_part buf u f = url_part r f"
  shows "is_set u f \<longleftrightarrow> url_part r f \<noteq> None"
    and "url_part r f = Some p \<Longrightarrow> field_text buf u f = p"
proof -
  have f: "read_part buf u f = url_part r f" using assms by simp
  then show "is_set u f \<longleftrightarrow> url_part r f \<noteq> None" by (auto simp: read_part_def dest: sym split: if_splits)
  show "field_text buf u f = p" if "url_part r f = Some p"
    using f that by (auto simp: read_part_def split: if_splits)
qed

text \<open>A URL without an authority needs no second loop.\<close>

lemma no_authority:
  assumes "wf_url r" and "length (print_url r) \<le> 65535" and "origin r = None" and "field_set u = 0"
  shows "\<forall>f. read_part (print_url r) (place 0 (url_pieces r) u) f = url_part r f"
proof
  fix f
  show "read_part (print_url r) (place 0 (url_pieces r) u) f = url_part r f"
    using read_part_place [OF distinct_url, of 0 r "[]" "[]" u f] assms(2-4)
    by (cases f) (simp_all add: print_url_def read_part_fresh url_pieces_part url_part_def option.case_eq_if)
qed

text \<open>The port of a URL with an authority.\<close>

lemma authority_tail:
  assumes "wf_url r" and split: "url_split buf v" and parts: "\<forall>f. read_part buf v f = url_part r f"
    and "port v = 0"
  shows "\<exists>u'. url_tail buf False v = Some (0, u') \<and> (\<forall>f. read_part buf u' f = url_part r f) \<and>
    unat (port u') = (case url_part r UF_PORT of None \<Rightarrow> 0 | Some p \<Rightarrow> dec_from 0 p)"
proof (cases "url_part r UF_PORT")
  case None
  with parts_read(1) [OF parts, of UF_PORT] parts assms(4) show ?thesis by (simp add: url_tail_def)
next
  case (Some p)
  have wf: "digits p" "dec_from 0 p \<le> 65535"
    using assms(1) Some by (auto simp: wf_url_def wf_authority_def url_part_def split: option.splits)
  have small: "unat (of_nat (dec_from 0 p) :: u16) = dec_from 0 p"
    using wf(2) by (intro unat_of_nat_small) simp
  have "is_set v UF_PORT" "field_text buf v UF_PORT = p"
    using parts_read [OF parts, of UF_PORT] Some by simp_all
  with parse_port_read [OF split] wf small parts Some show ?thesis
    by (simp add: url_tail_def)
qed

text \<open>
  C13.  A URL printed from its parts (a scheme and an authority with optional user information, a
  host name or a bracketed IPv6 address with an optional zone, and an optional port; then a path,
  a query and a fragment, as far as present) is split back into exactly these parts, and the
  port's value is read.
\<close>

theorem url_roundtrip:
  assumes "wf_url r" and "length (print_url r) \<le> 65535"
  shows "\<exists>u'. sn_http_parser_parse_url (print_url r) False u = Some (0, u') \<and>
    (\<forall>f. read_part (print_url r) u' f = url_part r f) \<and>
    unat (port u') = (case url_part r UF_PORT of None \<Rightarrow> 0 | Some p \<Rightarrow> dec_from 0 p)"
proof -
  let ?u = "u\<lparr>port := 0, field_set := 0\<rparr>" and ?buf = "print_url r"
  let ?v = "place 0 (url_pieces r) ?u"
  have ne: "?buf \<noteq> []"
    using assms(1) by (auto simp: wf_url_def print_url_def url_pieces_def split: option.splits)
  note loop = url_loop_print [OF assms(1), of ?u]
  have start: "sn_http_parser_parse_url ?buf False u =
      (if is_set ?v UF_SCHEMA \<and> \<not> is_set ?v UF_HOST then Some (1, ?v)
       else if is_set ?v UF_HOST then
         (case sn_http_parse_host ?buf ?v (has_userinfo r) of
            None \<Rightarrow> None
          | Some (r, u) \<Rightarrow> if r \<noteq> 0 then Some (1, u) else url_tail ?buf False u)
       else url_tail ?buf False ?v)"
    using ne loop by (simp add: sn_http_parser_parse_url_def)
  show ?thesis
  proof (cases "origin r")
    case None
    have parts: "\<forall>f. read_part ?buf ?v f = url_part r f"
      by (rule no_authority [OF assms None]) simp
    have "\<not> is_set ?v UF_SCHEMA" "\<not> is_set ?v UF_HOST" "\<not> is_set ?v UF_PORT"
      and none: "url_part r UF_PORT = None"
      using parts_read(1) [OF parts] None by (simp_all add: url_part_def)
    then have "sn_http_parser_parse_url ?buf False u = Some (0, ?v)"
      unfolding start by (simp add: url_tail_def)
    with parts none show ?thesis by simp
  next
    case (Some sa)
    obtain s a where sa: "origin r = Some (s, a)" using Some by (cases sa) simp
    obtain v where v: "sn_http_parse_host ?buf ?v (has_userinfo r) = Some (0, v)"
        "\<forall>f. read_part ?buf v f = url_part r f" "port v = 0" and set: "is_set ?v UF_HOST"
      using host_done [OF assms, of ?u s a] sa by auto
    have "split_inv (length ?buf) UF_MAX ?v"
      using url_loop_inv [OF loop] assms(2) by (simp add: split_inv_def is_set_def)
    from parse_host_inv [OF this set assms(2), of "has_userinfo r"] v(1)
    have split: "url_split ?buf v" by simp
    have "sn_http_parser_parse_url ?buf False u = url_tail ?buf False v"
      unfolding start using set v(1) by simp
    with authority_tail [OF assms(1) split v(2,3)] show ?thesis by simp
  qed
qed

definition example_url :: url where
  "example_url =
    \<lparr>origin = Some (''http'', \<lparr>userinfo = Some ''u:p'', host = Address ''::1'' (Some ''eth0''),
       port_text = Some ''8080''\<rparr>),
     path = ''/a/b'', query = Some ''q=1'', fragment = Some ''f''\<rparr>"

lemma url_roundtrip_witness:
  "\<exists>u'. sn_http_parser_parse_url ''http://u:p@[::1%eth0]:8080/a/b?q=1#f'' False sn_http_parser_url_init =
      Some (0, u') \<and> unat (port u') = 8080 \<and>
    read_part ''http://u:p@[::1%eth0]:8080/a/b?q=1#f'' u' UF_HOST = Some ''::1%eth0''"
proof -
  have wf: "wf_url example_url"
    by (simp add: wf_url_def wf_authority_def wf_host_def example_url_def IS_USERINFO_CHAR_def IS_MARK_def
        IS_ALPHANUM_def IS_ALPHA_iff IS_NUM_iff IS_HEX_def zone_char_def IS_URL_CHAR_iff)
  have print: "print_url example_url = ''http://u:p@[::1%eth0]:8080/a/b?q=1#f''"
    by (simp add: print_url_def url_pieces_def authority_pieces_def opt_piece_def host_text_def example_url_def)
  show ?thesis
    using url_roundtrip [OF wf, of sn_http_parser_url_init] unfolding print
    by (auto simp: url_part_def example_url_def host_text_def)
qed

end
