(* ===== verification/HttpNames.thy ===== *)
theory HttpNames
  imports HttpMachine
begin

text \<open>
  The naming functions of \<open>src/src/httpparser.cpp\<close> and the tables they read, which
  \<open>src/src/httpparser.h\<close> generates from its \<open>HTTP_STATUS_MAP\<close>, \<open>HTTP_METHOD_MAP\<close> and
  \<open>HTTP_ERRNO_MAP\<close>.  An enumeration is passed as its number, so that a number outside the
  enumeration is an input too; \<open>None\<close> is a failing assertion.
\<close>

section \<open>The tables\<close>

definition http_status_map :: "(u32 \<times> string) list" where
  "http_status_map =
   [ (100, ''Continue'')
   , (101, ''Switching Protocols'')
   , (102, ''Processing'')
   , (200, ''OK'')
   , (201, ''Created'')
   , (202, ''Accepted'')
   , (203, ''Non-Authoritative Information'')
   , (204, ''No Content'')
   , (205, ''Reset Content'')
   , (206, ''Partial Content'')
   , (207, ''Multi-Status'')
   , (208, ''Already Reported'')
   , (226, ''IM Used'')
   , (300, ''Multiple Choices'')
   , (301, ''Moved Permanently'')
   , (302, ''Found'')
   , (303, ''See Other'')
   , (304, ''Not Modified'')
   , (305, ''Use Proxy'')
   , (307, ''Temporary Redirect'')
   , (308, ''Permanent Redirect'')
   , (400, ''Bad Request'')
   , (401, ''Unauthorized'')
   , (402, ''Payment Required'')
   , (403, ''Forbidden'')
   , (404, ''Not Found'')
   , (405, ''Method Not Allowed'')
   , (406, ''Not Acceptable'')
   , (407, ''Proxy Authentication Required'')
   , (408, ''Request Timeout'')
   , (409, ''Conflict'')
   , (410, ''Gone'')
   , (411, ''Length Required'')
   , (412, ''Precondition Failed'')
   , (413, ''Payload Too Large'')
   , (414, ''URI Too Long'')
   , (415, ''Unsupported Media Type'')
   , (416, ''Range Not Satisfiable'')
   , (417, ''Expectation Failed'')
   , (421, ''Misdirected Request'')
   , (422, ''Unprocessable Entity'')
   , (423, ''Locked'')
   , (424, ''Failed Dependency'')
   , (426, ''Upgrade Required'')
   , (428, ''Precondition Required'')
   , (429, ''Too Many Requests'')
   , (431, ''Request Header Fields Too Large'')
   , (451, ''Unavailable For Legal Reasons'')
   , (500, ''Internal Server Error'')
   , (501, ''Not Implemented'')
   , (502, ''Bad Gateway'')
   , (503, ''Service Unavailable'')
   , (504, ''Gateway Timeout'')
   , (505, ''HTTP Version Not Supported'')
   , (506, ''Variant Also Negotiates'')
   , (507, ''Insufficient Storage'')
   , (508, ''Loop Detected'')
   , (510, ''Not Extended'')
   , (511, ''Network Authentication Required'')]"

definition http_strerror_tab :: "(string \<times> string) list" where
  "http_strerror_tab =
   [ (''HPE_OK'',
      ''success'')
   , (''HPE_CB_message_begin'',
      ''the on_message_begin callback failed'')
   , (''HPE_CB_url'',
      ''the on_url callback failed'')
   , (''HPE_CB_header_field'',
      ''the on_header_field callback failed'')
   , (''HPE_CB_header_value'',
      ''the on_header_value callback failed'')
   , (''HPE_CB_headers_complete'',
      ''the on_headers_complete callback failed'')
   , (''HPE_CB_body'',
      ''the on_body callback failed'')
   , (''HPE_CB_message_complete'',
      ''the on_message_complete callback failed'')
   , (''HPE_CB_status'',
      ''the on_status callback failed'')
   , (''HPE_CB_chunk_header'',
      ''the on_chunk_header callback failed'')
   , (''HPE_CB_chunk_complete'',
      ''the on_chunk_complete callback failed'')
   , (''HPE_INVALID_EOF_STATE'',
      ''stream ended at an unexpected time'')
   , (''HPE_HEADER_OVERFLOW'',
      ''too many header bytes seen; overflow detected'')
   , (''HPE_CLOSED_CONNECTION'',
      ''data received after completed connection: close message'')
   , (''HPE_INVALID_VERSION'',
      ''invalid HTTP version'')
   , (''HPE_INVALID_STATUS'',
      ''invalid HTTP status code'')
   , (''HPE_INVALID_METHOD'',
      ''invalid HTTP method'')
   , (''HPE_INVALID_URL'',
      ''invalid URL'')
   , (''HPE_INVALID_HOST'',
      ''invalid host'')
   , (''HPE_INVALID_PORT'',
      ''invalid port'')
   , (''HPE_INVALID_PATH'',
      ''invalid path'')
   , (''HPE_INVALID_QUERY_STRING'',
      ''invalid query string'')
   , (''HPE_INVALID_FRAGMENT'',
      ''invalid fragment'')
   , (''HPE_LF_EXPECTED'',
      ''LF character expected'')
   , (''HPE_INVALID_HEADER_TOKEN'',
      ''invalid character in header'')
   , (''HPE_INVALID_CONTENT_LENGTH'',
      ''invalid character in content-length header'')
   , (''HPE_UNEXPECTED_CONTENT_LENGTH'',
      ''unexpected content-length header'')
   , (''HPE_INVALID_CHUNK_SIZE'',
      ''invalid character in chunk size header'')
   , (''HPE_INVALID_CONSTANT'',
      ''invalid constant string'')
   , (''HPE_INVALID_INTERNAL_STATE'',
      ''encountered unexpected internal state'')
   , (''HPE_STRICT'',
      ''strict mode assertion failed'')
   , (''HPE_PAUSED'',
      ''parser is paused'')
   , (''HPE_UNKNOWN'',
      ''an unknown error occurred'')
   , (''HPE_INVALID_TRANSFER_ENCODING'',
      ''request has invalid transfer-encoding'')]"

definition method_table :: "string list" where
  "method_table =
   [ ''DELETE''
   , ''GET''
   , ''HEAD''
   , ''POST''
   , ''PUT''
   , ''CONNECT''
   , ''OPTIONS''
   , ''TRACE''
   , ''COPY''
   , ''LOCK''
   , ''MKCOL''
   , ''MOVE''
   , ''PROPFIND''
   , ''PROPPATCH''
   , ''SEARCH''
   , ''UNLOCK''
   , ''BIND''
   , ''REBIND''
   , ''UNBIND''
   , ''ACL''
   , ''REPORT''
   , ''MKACTIVITY''
   , ''CHECKOUT''
   , ''MERGE''
   , ''M-SEARCH''
   , ''NOTIFY''
   , ''SUBSCRIBE''
   , ''UNSUBSCRIBE''
   , ''PATCH''
   , ''PURGE''
   , ''MKCALENDAR''
   , ''LINK''
   , ''UNLINK''
   , ''SOURCE'']"

text \<open>The enumerators' numbers.\<close>

primrec errno_num :: "http_errno \<Rightarrow> nat" where
  "errno_num HPE_OK = 0"
| "errno_num HPE_CB_message_begin = 1"
| "errno_num HPE_CB_url = 2"
| "errno_num HPE_CB_header_field = 3"
| "errno_num HPE_CB_header_value = 4"
| "errno_num HPE_CB_headers_complete = 5"
| "errno_num HPE_CB_body = 6"
| "errno_num HPE_CB_message_complete = 7"
| "errno_num HPE_CB_status = 8"
| "errno_num HPE_CB_chunk_header = 9"
| "errno_num HPE_CB_chunk_complete = 10"
| "errno_num HPE_INVALID_EOF_STATE = 11"
| "errno_num HPE_HEADER_OVERFLOW = 12"
| "errno_num HPE_CLOSED_CONNECTION = 13"
| "errno_num HPE_INVALID_VERSION = 14"
| "errno_num HPE_INVALID_STATUS = 15"
| "errno_num HPE_INVALID_METHOD = 16"
| "errno_num HPE_INVALID_URL = 17"
| "errno_num HPE_INVALID_HOST = 18"
| "errno_num HPE_INVALID_PORT = 19"
| "errno_num HPE_INVALID_PATH = 20"
| "errno_num HPE_INVALID_QUERY_STRING = 21"
| "errno_num HPE_INVALID_FRAGMENT = 22"
| "errno_num HPE_LF_EXPECTED = 23"
| "errno_num HPE_INVALID_HEADER_TOKEN = 24"
| "errno_num HPE_INVALID_CONTENT_LENGTH = 25"
| "errno_num HPE_UNEXPECTED_CONTENT_LENGTH = 26"
| "errno_num HPE_INVALID_CHUNK_SIZE = 27"
| "errno_num HPE_INVALID_CONSTANT = 28"
| "errno_num HPE_INVALID_INTERNAL_STATE = 29"
| "errno_num HPE_STRICT = 30"
| "errno_num HPE_PAUSED = 31"
| "errno_num HPE_UNKNOWN = 32"
| "errno_num HPE_INVALID_TRANSFER_ENCODING = 33"

primrec method_num :: "http_method \<Rightarrow> nat" where
  "method_num HTTP_DELETE = 0"
| "method_num HTTP_GET = 1"
| "method_num HTTP_HEAD = 2"
| "method_num HTTP_POST = 3"
| "method_num HTTP_PUT = 4"
| "method_num HTTP_CONNECT = 5"
| "method_num HTTP_OPTIONS = 6"
| "method_num HTTP_TRACE = 7"
| "method_num HTTP_COPY = 8"
| "method_num HTTP_LOCK = 9"
| "method_num HTTP_MKCOL = 10"
| "method_num HTTP_MOVE = 11"
| "method_num HTTP_PROPFIND = 12"
| "method_num HTTP_PROPPATCH = 13"
| "method_num HTTP_SEARCH = 14"
| "method_num HTTP_UNLOCK = 15"
| "method_num HTTP_BIND = 16"
| "method_num HTTP_REBIND = 17"
| "method_num HTTP_UNBIND = 18"
| "method_num HTTP_ACL = 19"
| "method_num HTTP_REPORT = 20"
| "method_num HTTP_MKACTIVITY = 21"
| "method_num HTTP_CHECKOUT = 22"
| "method_num HTTP_MERGE = 23"
| "method_num HTTP_MSEARCH = 24"
| "method_num HTTP_NOTIFY = 25"
| "method_num HTTP_SUBSCRIBE = 26"
| "method_num HTTP_UNSUBSCRIBE = 27"
| "method_num HTTP_PATCH = 28"
| "method_num HTTP_PURGE = 29"
| "method_num HTTP_MKCALENDAR = 30"
| "method_num HTTP_LINK = 31"
| "method_num HTTP_UNLINK = 32"
| "method_num HTTP_SOURCE = 33"

section \<open>The functions\<close>

definition ELEM_AT :: "'a list \<Rightarrow> u32 \<Rightarrow> 'a \<Rightarrow> 'a" where
  "ELEM_AT a i v = (if unat i < length a then a ! unat i else v)"

definition http_method_str :: "u32 \<Rightarrow> string" where
  "http_method_str m = ELEM_AT method_table m ''<unknown>''"

definition http_status_str :: "u32 \<Rightarrow> string" where
  "http_status_str s = (case map_of http_status_map s of Some t \<Rightarrow> t | None \<Rightarrow> ''<unknown>'')"

definition sn_http_errno_name :: "u32 \<Rightarrow> string option" where
  "sn_http_errno_name err =
    (if unat err < length http_strerror_tab then Some (fst (http_strerror_tab ! unat err)) else None)"

definition sn_http_errno_description :: "u32 \<Rightarrow> string option" where
  "sn_http_errno_description err =
    (if unat err < length http_strerror_tab then Some (snd (http_strerror_tab ! unat err)) else None)"

definition http_parser_version :: u64 where
  "http_parser_version = 2 * 0x10000 OR 9 * 0x00100 OR 4 * 0x00001"

text \<open>The static variable that \<open>sn_http_parser_execute\<close> reads (the argument \<open>mhs\<close> of its model).\<close>

definition http_parser_set_max_header_size :: "u32 \<Rightarrow> u32 \<Rightarrow> u32" where
  "http_parser_set_max_header_size sz old = sz"

section \<open>What the names say\<close>

lemma table_lengths [simp]: "length http_strerror_tab = 34" "length method_table = 34"
  by (simp_all add: http_strerror_tab_def method_table_def)

lemma method_num_less: "method_num m < 34"
  by (cases m) simp_all

lemma errno_num_less: "errno_num e < 34"
  by (cases e) simp_all

lemma method_table_nth: "method_table ! method_num m = method_strings m"
  by (cases m) (simp_all add: method_table_def)

text \<open>The name of an error is the enumerator's own name.\<close>

primrec errno_name :: "http_errno \<Rightarrow> string" where
  "errno_name HPE_OK = ''HPE_OK''"
| "errno_name HPE_CB_message_begin = ''HPE_CB_message_begin''"
| "errno_name HPE_CB_url = ''HPE_CB_url''"
| "errno_name HPE_CB_header_field = ''HPE_CB_header_field''"
| "errno_name HPE_CB_header_value = ''HPE_CB_header_value''"
| "errno_name HPE_CB_headers_complete = ''HPE_CB_headers_complete''"
| "errno_name HPE_CB_body = ''HPE_CB_body''"
| "errno_name HPE_CB_message_complete = ''HPE_CB_message_complete''"
| "errno_name HPE_CB_status = ''HPE_CB_status''"
| "errno_name HPE_CB_chunk_header = ''HPE_CB_chunk_header''"
| "errno_name HPE_CB_chunk_complete = ''HPE_CB_chunk_complete''"
| "errno_name HPE_INVALID_EOF_STATE = ''HPE_INVALID_EOF_STATE''"
| "errno_name HPE_HEADER_OVERFLOW = ''HPE_HEADER_OVERFLOW''"
| "errno_name HPE_CLOSED_CONNECTION = ''HPE_CLOSED_CONNECTION''"
| "errno_name HPE_INVALID_VERSION = ''HPE_INVALID_VERSION''"
| "errno_name HPE_INVALID_STATUS = ''HPE_INVALID_STATUS''"
| "errno_name HPE_INVALID_METHOD = ''HPE_INVALID_METHOD''"
| "errno_name HPE_INVALID_URL = ''HPE_INVALID_URL''"
| "errno_name HPE_INVALID_HOST = ''HPE_INVALID_HOST''"
| "errno_name HPE_INVALID_PORT = ''HPE_INVALID_PORT''"
| "errno_name HPE_INVALID_PATH = ''HPE_INVALID_PATH''"
| "errno_name HPE_INVALID_QUERY_STRING = ''HPE_INVALID_QUERY_STRING''"
| "errno_name HPE_INVALID_FRAGMENT = ''HPE_INVALID_FRAGMENT''"
| "errno_name HPE_LF_EXPECTED = ''HPE_LF_EXPECTED''"
| "errno_name HPE_INVALID_HEADER_TOKEN = ''HPE_INVALID_HEADER_TOKEN''"
| "errno_name HPE_INVALID_CONTENT_LENGTH = ''HPE_INVALID_CONTENT_LENGTH''"
| "errno_name HPE_UNEXPECTED_CONTENT_LENGTH = ''HPE_UNEXPECTED_CONTENT_LENGTH''"
| "errno_name HPE_INVALID_CHUNK_SIZE = ''HPE_INVALID_CHUNK_SIZE''"
| "errno_name HPE_INVALID_CONSTANT = ''HPE_INVALID_CONSTANT''"
| "errno_name HPE_INVALID_INTERNAL_STATE = ''HPE_INVALID_INTERNAL_STATE''"
| "errno_name HPE_STRICT = ''HPE_STRICT''"
| "errno_name HPE_PAUSED = ''HPE_PAUSED''"
| "errno_name HPE_UNKNOWN = ''HPE_UNKNOWN''"
| "errno_name HPE_INVALID_TRANSFER_ENCODING = ''HPE_INVALID_TRANSFER_ENCODING''"

lemma strerror_nth: "fst (http_strerror_tab ! errno_num e) = errno_name e"
  by (cases e) (simp_all add: http_strerror_tab_def)

lemma errno_names_distinct: "distinct (map fst http_strerror_tab)"
  by (simp add: http_strerror_tab_def)

lemma errno_descriptions_distinct: "distinct (map snd http_strerror_tab)"
  by (simp add: http_strerror_tab_def)

lemma status_distinct: "distinct (map fst http_status_map)" "distinct (map snd http_status_map)"
  by (simp_all add: http_status_map_def)

lemma errno_name_iff:
  "sn_http_errno_name i = sn_http_errno_name j \<longleftrightarrow> i = j \<or> 34 \<le> unat i \<and> 34 \<le> unat j"
proof -
  have "map fst http_strerror_tab ! unat i = map fst http_strerror_tab ! unat j \<longleftrightarrow> unat i = unat j"
    if "unat i < 34" "unat j < 34"
    by (rule nth_eq_iff_index_eq [OF errno_names_distinct]) (use that in simp_all)
  then show ?thesis by (auto simp: sn_http_errno_name_def word_unat_eq_iff)
qed

lemma errno_description_iff:
  "sn_http_errno_description i = sn_http_errno_description j \<longleftrightarrow> i = j \<or> 34 \<le> unat i \<and> 34 \<le> unat j"
proof -
  have "map snd http_strerror_tab ! unat i = map snd http_strerror_tab ! unat j \<longleftrightarrow> unat i = unat j"
    if "unat i < 34" "unat j < 34"
    by (rule nth_eq_iff_index_eq [OF errno_descriptions_distinct]) (use that in simp_all)
  then show ?thesis by (auto simp: sn_http_errno_description_def word_unat_eq_iff)
qed

lemma errno_name_of: "sn_http_errno_name (of_nat (errno_num e)) = Some (errno_name e)"
proof -
  have "unat (of_nat (errno_num e) :: u32) = errno_num e"
    using errno_num_less [of e] by (intro unat_of_nat_small) simp
  then show ?thesis
    using errno_num_less [of e] by (simp add: sn_http_errno_name_def strerror_nth)
qed

text \<open>
  The names of the error codes: every error the parser can latch has a name, its enumerator's,
  and a description; two errors have the same name or the same description only if they are the
  same error, and a number outside the enumeration fails the assertion.
\<close>

theorem errno_names:
  "(\<forall>e. sn_http_errno_name (of_nat (errno_num e)) = Some (errno_name e)) \<and>
    (\<forall>i. sn_http_errno_name i \<noteq> None \<longleftrightarrow> unat i < 34) \<and>
    (\<forall>i j. sn_http_errno_name i = sn_http_errno_name j \<longleftrightarrow> i = j \<or> 34 \<le> unat i \<and> 34 \<le> unat j) \<and>
    (\<forall>i j. sn_http_errno_description i = sn_http_errno_description j \<longleftrightarrow>
       i = j \<or> 34 \<le> unat i \<and> 34 \<le> unat j)"
  using errno_name_of errno_name_iff errno_description_iff by (simp add: sn_http_errno_name_def)

text \<open>The method names are those the parser recognises, and the version is read back by its fields.\<close>

lemma method_str: "http_method_str (of_nat (method_num m)) = method_strings m"
proof -
  have "unat (of_nat (method_num m) :: u32) = method_num m"
    using method_num_less [of m] by (intro unat_of_nat_small) simp
  then show ?thesis
    using method_num_less [of m] by (simp add: http_method_str_def ELEM_AT_def method_table_nth)
qed

lemma status_str_inj:
  assumes "http_status_str i = http_status_str j" and "http_status_str i \<noteq> ''<unknown>''"
  shows "i = j"
proof -
  obtain s where "map_of http_status_map i = Some s" "map_of http_status_map j = Some s"
    using assms by (auto simp: http_status_str_def split: option.splits)
  then have "(i, s) \<in> set http_status_map" "(j, s) \<in> set http_status_map"
    by (auto dest: map_of_SomeD)
  with status_distinct(2) show ?thesis
    by (metis (no_types, lifting) distinct_map inj_on_def prod.inject snd_conv)
qed

lemma version_fields:
  "drop_bit 16 http_parser_version AND 255 = 2" "drop_bit 8 http_parser_version AND 255 = 9"
  "http_parser_version AND 255 = 4"
  by (simp_all add: http_parser_version_def)

end
