(* ===== verification/MemPool.thy ===== *)
theory MemPool
  imports Prelude
begin

text \<open>
  The pool of send buffers: \<open>MemItem\<close> (\<open>src/src/memitem.cpp\<close>) and \<open>MemPool\<close>
  (\<open>src/src/mempool.cpp\<close>).

  A block of memory is a list of cells; a cell that was never written is \<open>None\<close>.  A
  \<open>MemItem*\<close> is an address in the map \<open>items\<close> of the live objects, so that a stale pointer and
  a pointer stored twice are states of the model.  The result \<open>None\<close> of an operation is an
  access outside a block, through a null pointer or through a stale one.  \<open>malloc\<close> and
  \<open>new\<close> succeed.  The two counters are \<open>int\<close>s that only select log messages; they are kept as
  words (their overflow, after 2 ^ 31 calls, is undefined in C++).  The log messages are left out.
\<close>

section \<open>Memory\<close>

type_synonym cell = "byte option"

definition malloc :: "int \<Rightarrow> cell list" where
  "malloc n = replicate (nat n) None"

text \<open>\<open>memcpy(dst + off, src, n)\<close> between different blocks.\<close>

definition memcpy :: "cell list \<Rightarrow> int \<Rightarrow> cell list \<Rightarrow> int \<Rightarrow> cell list option" where
  "memcpy dst off src n =
    (if 0 \<le> off \<and> 0 \<le> n \<and> off + n \<le> int (length dst) \<and> n \<le> int (length src)
     then Some (take (nat off) dst @ take (nat n) src @ drop (nat (off + n)) dst)
     else None)"

lemma memcpy_ok:
  assumes "0 \<le> off" and "0 \<le> n" and "off + n \<le> int (length dst)" and "n \<le> int (length src)"
  shows "memcpy dst off src n = Some (take (nat off) dst @ take (nat n) src @ drop (nat (off + n)) dst)"
  using assms by (simp add: memcpy_def)

section \<open>MemItem\<close>

record mem_item =
  m_pData :: "cell list option"
  m_nLen :: int
  m_nCapacity :: int

definition MemItem :: "int \<Rightarrow> mem_item" where
  "MemItem capacity =
    \<lparr>m_pData = (if capacity = 0 then None else Some (malloc capacity)),
     m_nLen = 0, m_nCapacity = capacity\<rparr>"

definition MemItem_assign :: "byte list option \<Rightarrow> int \<Rightarrow> mem_item \<Rightarrow> mem_item option" where
  "MemItem_assign data len it =
    (case data of
       None \<Rightarrow> Some it
     | Some bs \<Rightarrow>
         if len \<le> 0 then Some it
         else if len > 1024 * 1024 then Some it
         else
           let it = (if len > m_nCapacity it
                     then it\<lparr>m_pData := Some (malloc len), m_nCapacity := len\<rparr> else it)
           in case m_pData it of
                None \<Rightarrow> None
              | Some block \<Rightarrow>
                  map_option (\<lambda>b. it\<lparr>m_nLen := len, m_pData := Some b\<rparr>)
                    (memcpy block 0 (map Some bs) len))"

definition MemItem_clear :: "mem_item \<Rightarrow> mem_item" where
  "MemItem_clear it = it\<lparr>m_nLen := 0\<rparr>"

definition MemItem_capacity :: "mem_item \<Rightarrow> u32" where
  "MemItem_capacity it = of_int (m_nCapacity it)"

section \<open>MemPool\<close>

definition MEM_ITEM_SIZE_4K :: int where "MEM_ITEM_SIZE_4K = 1024 * 4"
definition MEM_ITEM_SIZE_16K :: int where "MEM_ITEM_SIZE_16K = 1024 * 16"
definition MEM_ITEM_SIZE_64K :: int where "MEM_ITEM_SIZE_64K = 1024 * 64"
definition MEM_ITEM_SIZE_128K :: int where "MEM_ITEM_SIZE_128K = 1024 * 128"
definition MEM_ITEM_SIZE_MAX :: int where "MEM_ITEM_SIZE_MAX = 1024 * 512"
definition MEM_ITEM_COUNT_MAX :: nat where "MEM_ITEM_COUNT_MAX = 1000"

lemmas mem_sizes = MEM_ITEM_SIZE_4K_def MEM_ITEM_SIZE_16K_def MEM_ITEM_SIZE_64K_def
  MEM_ITEM_SIZE_128K_def MEM_ITEM_SIZE_MAX_def

record mem_pool =
  m_arr4kPool :: "nat list"
  m_arr16kPool :: "nat list"
  m_arr64kPool :: "nat list"
  m_arr128kPool :: "nat list"
  m_nGetCount :: u32
  m_nFreeCount :: u32
  items :: "nat \<rightharpoonup> mem_item"
  next_item :: nat

definition MemPool_new :: mem_pool where
  "MemPool_new =
    \<lparr>m_arr4kPool = [], m_arr16kPool = [], m_arr64kPool = [], m_arr128kPool = [],
     m_nGetCount = 0, m_nFreeCount = 0, items = Map.empty, next_item = 0\<rparr>"

text \<open>\<open>new MemItem(n)\<close>\<close>

definition new_item :: "int \<Rightarrow> mem_pool \<Rightarrow> nat \<times> mem_pool" where
  "new_item n p =
    (next_item p, p\<lparr>items := (items p)(next_item p \<mapsto> MemItem n), next_item := next_item p + 1\<rparr>)"

definition MemPool_get :: "int \<Rightarrow> mem_pool \<Rightarrow> nat option \<times> mem_pool" where
  "MemPool_get n p0 =
    (let p = p0\<lparr>m_nGetCount := m_nGetCount p0 + 1\<rparr>;
         fresh = (\<lambda>k. case new_item k p of (a, p) \<Rightarrow> (Some a, p))
     in if n \<le> MEM_ITEM_SIZE_4K then
          (if m_arr4kPool p \<noteq> []
           then (Some (last (m_arr4kPool p)), p\<lparr>m_arr4kPool := butlast (m_arr4kPool p)\<rparr>)
           else fresh MEM_ITEM_SIZE_4K)
        else if n \<le> MEM_ITEM_SIZE_16K then
          (if m_arr16kPool p \<noteq> []
           then (Some (last (m_arr16kPool p)), p\<lparr>m_arr16kPool := butlast (m_arr16kPool p)\<rparr>)
           else fresh MEM_ITEM_SIZE_16K)
        else if n \<le> MEM_ITEM_SIZE_64K then
          (if m_arr64kPool p \<noteq> []
           then (Some (last (m_arr64kPool p)), p\<lparr>m_arr64kPool := butlast (m_arr64kPool p)\<rparr>)
           else fresh MEM_ITEM_SIZE_64K)
        else if n \<le> MEM_ITEM_SIZE_128K then
          (if m_arr128kPool p \<noteq> []
           then (Some (last (m_arr128kPool p)), p\<lparr>m_arr128kPool := butlast (m_arr128kPool p)\<rparr>)
           else fresh MEM_ITEM_SIZE_128K)
        else if n \<le> MEM_ITEM_SIZE_MAX then fresh n
        else (None, p))"

definition delete_item :: "nat \<Rightarrow> mem_pool \<Rightarrow> mem_pool" where
  "delete_item a p = p\<lparr>items := (items p)(a := None)\<rparr>"

definition MemPool_free :: "nat option \<Rightarrow> mem_pool \<Rightarrow> mem_pool option" where
  "MemPool_free pFrame p0 =
    (case pFrame of
       None \<Rightarrow> Some p0
     | Some a \<Rightarrow>
         (case items p0 a of
            None \<Rightarrow> None
          | Some it \<Rightarrow>
              let p = p0\<lparr>m_nFreeCount := m_nFreeCount p0 + 1, items := (items p0)(a \<mapsto> MemItem_clear it)\<rparr>;
                  cap = MemItem_capacity it
              in Some (
                if cap \<le> of_int MEM_ITEM_SIZE_4K then
                  (if length (m_arr4kPool p) > MEM_ITEM_COUNT_MAX then delete_item a p
                   else p\<lparr>m_arr4kPool := m_arr4kPool p @ [a]\<rparr>)
                else if cap \<le> of_int MEM_ITEM_SIZE_16K then
                  (if length (m_arr16kPool p) > MEM_ITEM_COUNT_MAX then delete_item a p
                   else p\<lparr>m_arr16kPool := m_arr16kPool p @ [a]\<rparr>)
                else if cap \<le> of_int MEM_ITEM_SIZE_64K then
                  (if length (m_arr64kPool p) > MEM_ITEM_COUNT_MAX then delete_item a p
                   else p\<lparr>m_arr64kPool := m_arr64kPool p @ [a]\<rparr>)
                else if cap \<le> of_int MEM_ITEM_SIZE_128K then
                  (if length (m_arr128kPool p) > MEM_ITEM_COUNT_MAX then delete_item a p
                   else p\<lparr>m_arr64kPool := m_arr64kPool p @ [a]\<rparr>)
                else delete_item a p)))"

text \<open>The loop of \<open>delete\<close>s; deleting a stale pointer has no value.\<close>

fun delete_all :: "nat list \<Rightarrow> mem_pool \<Rightarrow> mem_pool option" where
  "delete_all [] p = Some p"
| "delete_all (a # as) p = (if items p a = None then None else delete_all as (delete_item a p))"

definition MemPool_reset :: "mem_pool \<Rightarrow> mem_pool option" where
  "MemPool_reset p =
    Option.bind (delete_all (m_arr4kPool p) p) (\<lambda>p.
    Option.bind (delete_all (m_arr16kPool p) (p\<lparr>m_arr4kPool := []\<rparr>)) (\<lambda>p.
    Option.bind (delete_all (m_arr64kPool p) (p\<lparr>m_arr16kPool := []\<rparr>)) (\<lambda>p.
    map_option (\<lambda>p. p\<lparr>m_arr128kPool := []\<rparr>)
      (delete_all (m_arr128kPool p) (p\<lparr>m_arr64kPool := []\<rparr>)))))"

text \<open>\<open>mem->assign(data, len)\<close> on the item at an address.\<close>

definition assign_at :: "nat \<Rightarrow> byte list option \<Rightarrow> int \<Rightarrow> mem_pool \<Rightarrow> mem_pool option" where
  "assign_at a data len p =
    (case items p a of
       None \<Rightarrow> None
     | Some it \<Rightarrow> map_option (\<lambda>it. p\<lparr>items := (items p)(a \<mapsto> it)\<rparr>) (MemItem_assign data len it))"

text \<open>The block behind \<open>mem->data()\<close>.\<close>

definition block_of :: "mem_pool \<Rightarrow> nat \<Rightarrow> cell list" where
  "block_of p a =
    (case items p a of None \<Rightarrow> [] | Some it \<Rightarrow> (case m_pData it of None \<Rightarrow> [] | Some b \<Rightarrow> b))"

section \<open>The contract of a pool of buffers\<close>

text \<open>
  What a sender relies on.  \<open>owns p A\<close>: the pool is in order and \<open>A\<close> are the addresses it has
  handed out and not got back.
\<close>

locale buffer_pool =
  fixes take_buffer :: "int \<Rightarrow> 'p \<Rightarrow> nat option \<times> 'p"
    and give_back :: "nat option \<Rightarrow> 'p \<Rightarrow> 'p option"
    and fill :: "nat \<Rightarrow> byte list option \<Rightarrow> int \<Rightarrow> 'p \<Rightarrow> 'p option"
    and block :: "'p \<Rightarrow> nat \<Rightarrow> cell list"
    and owns :: "'p \<Rightarrow> nat set \<Rightarrow> bool"
    and biggest :: int
  assumes take_small:
      "\<lbrakk>owns p A; n \<le> biggest\<rbrakk> \<Longrightarrow> \<exists>a p'. take_buffer n p = (Some a, p') \<and> a \<notin> A \<and> owns p' (insert a A) \<and>
         (\<forall>b \<in> A. block p' b = block p b) \<and> n \<le> int (length (block p' a))"
    and take_big:
      "\<lbrakk>owns p A; biggest < n\<rbrakk> \<Longrightarrow> \<exists>p'. take_buffer n p = (None, p') \<and> owns p' A \<and>
         (\<forall>b \<in> A. block p' b = block p b)"
    and give_back_own:
      "\<lbrakk>owns p A; a \<in> A\<rbrakk> \<Longrightarrow> \<exists>p'. give_back (Some a) p = Some p' \<and> owns p' (A - {a}) \<and>
         (\<forall>b \<in> A - {a}. block p' b = block p b)"
    and fill_own:
      "\<lbrakk>owns p A; a \<in> A; 0 < n; n \<le> int (length (block p a)); n \<le> int (length bs); n \<le> 1024 * 1024\<rbrakk> \<Longrightarrow>
         \<exists>p'. fill a (Some bs) n p = Some p' \<and> owns p' A \<and>
           take (nat n) (block p' a) = map Some (take (nat n) bs) \<and> length (block p' a) = length (block p a) \<and>
           (\<forall>b \<in> A - {a}. block p' b = block p b)"
    and fill_nothing: "\<lbrakk>owns p A; a \<in> A; n \<le> 0\<rbrakk> \<Longrightarrow> fill a (Some bs) n p = Some p"

section \<open>The pool keeps the contract\<close>

definition good_item :: "mem_item \<Rightarrow> bool" where
  "good_item it \<longleftrightarrow>
    (\<exists>b. m_pData it = Some b \<and> int (length b) = m_nCapacity it) \<and>
    (m_nCapacity it \<in> {4096, 16384, 65536, 131072} \<or> 131072 < m_nCapacity it \<and> m_nCapacity it \<le> 524288)"

definition pooled :: "mem_pool \<Rightarrow> nat list" where
  "pooled p = m_arr4kPool p @ m_arr16kPool p @ m_arr64kPool p @ m_arr128kPool p"

definition cap_at :: "mem_pool \<Rightarrow> nat \<Rightarrow> int set \<Rightarrow> bool" where
  "cap_at p a C \<longleftrightarrow> (\<exists>it. items p a = Some it \<and> m_nCapacity it \<in> C \<and> m_nLen it = 0)"

definition pool_inv :: "mem_pool \<Rightarrow> nat set \<Rightarrow> bool" where
  "pool_inv p A \<longleftrightarrow>
    distinct (pooled p) \<and> set (pooled p) \<inter> A = {} \<and> dom (items p) = set (pooled p) \<union> A \<and>
    (\<forall>a it. items p a = Some it \<longrightarrow> good_item it \<and> a < next_item p) \<and>
    (\<forall>a \<in> set (m_arr4kPool p). cap_at p a {4096}) \<and>
    (\<forall>a \<in> set (m_arr16kPool p). cap_at p a {16384}) \<and>
    (\<forall>a \<in> set (m_arr64kPool p). cap_at p a {65536, 131072}) \<and>
    m_arr128kPool p = [] \<and>
    length (m_arr4kPool p) \<le> MEM_ITEM_COUNT_MAX + 1 \<and> length (m_arr16kPool p) \<le> MEM_ITEM_COUNT_MAX + 1"

lemma pool_inv_new: "pool_inv MemPool_new {}"
  by (simp add: pool_inv_def MemPool_new_def pooled_def)

lemma good_new: "n \<in> {4096, 16384, 65536, 131072} \<or> 131072 < n \<and> n \<le> 524288 \<Longrightarrow> good_item (MemItem n)"
  by (auto simp: good_item_def MemItem_def malloc_def)

lemma block_of_good:
  "items p a = Some it \<Longrightarrow> good_item it \<Longrightarrow> int (length (block_of p a)) = m_nCapacity it"
  by (auto simp: block_of_def good_item_def)

text \<open>Counters do not matter.\<close>

lemma pool_inv_counts [simp]:
  "pool_inv (p\<lparr>m_nGetCount := g\<rparr>) A = pool_inv p A" "block_of (p\<lparr>m_nGetCount := g\<rparr>) a = block_of p a"
  by (simp_all add: pool_inv_def pooled_def cap_at_def block_of_def)

definition given :: "mem_pool \<Rightarrow> nat set \<Rightarrow> int \<Rightarrow> nat option \<times> mem_pool \<Rightarrow> bool" where
  "given p A n r \<longleftrightarrow> (\<exists>a p'. r = (Some a, p') \<and> a \<notin> A \<and> pool_inv p' (insert a A) \<and>
    (\<forall>b \<in> A. block_of p' b = block_of p b) \<and> n \<le> int (length (block_of p' a)))"

lemma given_fresh:
  assumes inv: "pool_inv p A" and n: "n \<in> {4096, 16384, 65536, 131072} \<or> 131072 < n \<and> n \<le> 524288"
  shows "given p A n (case new_item n p of (a, p) \<Rightarrow> (Some a, p))"
proof -
  let ?a = "next_item p" and ?p = "snd (new_item n p)"
  have fresh: "items p ?a = None"
    using inv by (cases "items p ?a") (auto simp: pool_inv_def)
  then have out: "?a \<notin> set (pooled p) \<union> A"
    using inv by (auto simp: pool_inv_def)
  have len: "int (length (block_of ?p ?a)) = n"
    by (rule trans [OF block_of_good [where it = "MemItem n"]])
      (use good_new [OF n] in \<open>simp_all add: new_item_def MemItem_def\<close>)
  have blocks: "block_of ?p b = block_of p b" if "b \<in> A" for b
    using out that by (auto simp: block_of_def new_item_def)
  have "pool_inv ?p (insert ?a A)"
    using inv out good_new [OF n]
    by (auto simp: pool_inv_def pooled_def new_item_def cap_at_def less_Suc_eq split: if_splits)
  with out len blocks show ?thesis
    by (simp add: given_def new_item_def)
qed

lemma given_pop:
  assumes inv: "pool_inv p A" and a: "a \<in> set (pooled p)"
    and p': "items p' = items p" "next_item p' = next_item p"
      "distinct (pooled p')" "set (pooled p') = set (pooled p) - {a}"
      "set (m_arr4kPool p') \<subseteq> set (m_arr4kPool p)" "set (m_arr16kPool p') \<subseteq> set (m_arr16kPool p)"
      "set (m_arr64kPool p') \<subseteq> set (m_arr64kPool p)" "m_arr128kPool p' = m_arr128kPool p"
      "length (m_arr4kPool p') \<le> length (m_arr4kPool p)" "length (m_arr16kPool p') \<le> length (m_arr16kPool p)"
    and n: "\<exists>C. cap_at p a C \<and> (\<forall>c \<in> C. n \<le> c)"
  shows "given p A n (Some a, p')"
proof -
  obtain it where it: "items p a = Some it" "n \<le> m_nCapacity it"
    using n by (auto simp: cap_at_def)
  then have "n \<le> int (length (block_of p' a))"
    using block_of_good [of p' a it] inv p'(1) by (auto simp: pool_inv_def)
  moreover have "block_of p' b = block_of p b" for b by (simp add: block_of_def p'(1))
  moreover have "a \<notin> A" using inv a by (auto simp: pool_inv_def)
  moreover have "pool_inv p' (insert a A)"
    using inv a p' by (auto simp: pool_inv_def cap_at_def)
  ultimately show ?thesis by (simp add: given_def)
qed

lemma given_smaller: "given p A m r \<Longrightarrow> n \<le> m \<Longrightarrow> given p A n r"
  by (auto simp: given_def intro: order_trans)

lemma get_given:
  assumes inv0: "pool_inv p0 A" and n: "n \<le> MEM_ITEM_SIZE_MAX"
  shows "given p0 A n (MemPool_get n p0)"
proof -
  let ?p = "p0\<lparr>m_nGetCount := m_nGetCount p0 + 1\<rparr>"
  have inv: "pool_inv ?p A" using inv0 by simp
  then have d: "distinct (m_arr4kPool ?p @ m_arr16kPool ?p @ m_arr64kPool ?p @ m_arr128kPool ?p)"
    and empty: "m_arr128kPool ?p = []"
    unfolding pool_inv_def pooled_def by blast+
  have four: "given ?p A 4096 (Some a, ?p\<lparr>m_arr4kPool := xs\<rparr>)" if "m_arr4kPool ?p = xs @ [a]" for xs a
    by (rule given_pop [OF inv])
      (use that d inv in \<open>auto simp: pooled_def pool_inv_def intro!: exI [of _ "{4096}"]\<close>)
  have sixteen: "given ?p A 16384 (Some a, ?p\<lparr>m_arr16kPool := xs\<rparr>)" if "m_arr16kPool ?p = xs @ [a]" for xs a
    by (rule given_pop [OF inv])
      (use that d inv in \<open>auto simp: pooled_def pool_inv_def intro!: exI [of _ "{16384}"]\<close>)
  have sixtyfour: "given ?p A 65536 (Some a, ?p\<lparr>m_arr64kPool := xs\<rparr>)" if "m_arr64kPool ?p = xs @ [a]" for xs a
    by (rule given_pop [OF inv])
      (use that d inv in \<open>auto simp: pooled_def pool_inv_def intro!: exI [of _ "{65536, 131072}"]\<close>)
  note fresh = given_fresh [OF inv]
  have "given ?p A n (MemPool_get n p0)"
  proof (cases "n \<le> MEM_ITEM_SIZE_4K")
    case True
    with four fresh [of 4096] show ?thesis
      by (cases "m_arr4kPool ?p" rule: rev_cases)
        (auto simp: MemPool_get_def Let_def mem_sizes intro: given_smaller)
  next
    case a: False
    show ?thesis
    proof (cases "n \<le> MEM_ITEM_SIZE_16K")
      case True
      with a sixteen fresh [of 16384] show ?thesis
        by (cases "m_arr16kPool ?p" rule: rev_cases)
          (auto simp: MemPool_get_def Let_def mem_sizes intro: given_smaller)
    next
      case b: False
      show ?thesis
      proof (cases "n \<le> MEM_ITEM_SIZE_64K")
        case True
        with a b sixtyfour fresh [of 65536] show ?thesis
          by (cases "m_arr64kPool ?p" rule: rev_cases)
            (auto simp: MemPool_get_def Let_def mem_sizes intro: given_smaller)
      next
        case False
        with a b n empty fresh [of 131072] fresh [of n] show ?thesis
          by (auto simp: MemPool_get_def Let_def mem_sizes intro: given_smaller)
      qed
    qed
  qed
  then show ?thesis by (simp add: given_def)
qed

lemma get_none:
  assumes "pool_inv p A" and "MEM_ITEM_SIZE_MAX < n"
  shows "\<exists>p'. MemPool_get n p = (None, p') \<and> pool_inv p' A \<and> (\<forall>b \<in> A. block_of p' b = block_of p b)"
  using assms by (simp add: MemPool_get_def Let_def mem_sizes)

lemma capacity_of_good:
  assumes "good_item it"
  shows "MemItem_capacity it \<le> of_int MEM_ITEM_SIZE_4K \<longleftrightarrow> m_nCapacity it = 4096"
    and "MemItem_capacity it \<le> of_int MEM_ITEM_SIZE_16K \<longleftrightarrow> m_nCapacity it \<le> 16384"
    and "MemItem_capacity it \<le> of_int MEM_ITEM_SIZE_64K \<longleftrightarrow> m_nCapacity it \<le> 65536"
    and "MemItem_capacity it \<le> of_int MEM_ITEM_SIZE_128K \<longleftrightarrow> m_nCapacity it \<le> 131072"
proof -
  have cap: "m_nCapacity it \<in> {4096, 16384, 65536, 131072} \<or> 131072 < m_nCapacity it \<and> m_nCapacity it \<le> 524288"
    using assms by (simp add: good_item_def)
  then have range: "0 \<le> m_nCapacity it" "m_nCapacity it < 2 ^ 32" by auto
  have le: "MemItem_capacity it \<le> of_int k \<longleftrightarrow> m_nCapacity it \<le> k" if "0 \<le> k" "k < 2 ^ 32" for k
    using range that
    by (simp add: MemItem_capacity_def word_le_def uint_word_of_int_eq take_bit_int_eq_self)
  have "MemItem_capacity it \<le> of_int MEM_ITEM_SIZE_4K \<longleftrightarrow> m_nCapacity it \<le> MEM_ITEM_SIZE_4K"
    "MemItem_capacity it \<le> of_int MEM_ITEM_SIZE_16K \<longleftrightarrow> m_nCapacity it \<le> MEM_ITEM_SIZE_16K"
    "MemItem_capacity it \<le> of_int MEM_ITEM_SIZE_64K \<longleftrightarrow> m_nCapacity it \<le> MEM_ITEM_SIZE_64K"
    "MemItem_capacity it \<le> of_int MEM_ITEM_SIZE_128K \<longleftrightarrow> m_nCapacity it \<le> MEM_ITEM_SIZE_128K"
    by (rule le; simp add: mem_sizes)+
  then show "MemItem_capacity it \<le> of_int MEM_ITEM_SIZE_4K \<longleftrightarrow> m_nCapacity it = 4096"
    "MemItem_capacity it \<le> of_int MEM_ITEM_SIZE_16K \<longleftrightarrow> m_nCapacity it \<le> 16384"
    "MemItem_capacity it \<le> of_int MEM_ITEM_SIZE_64K \<longleftrightarrow> m_nCapacity it \<le> 65536"
    "MemItem_capacity it \<le> of_int MEM_ITEM_SIZE_128K \<longleftrightarrow> m_nCapacity it \<le> 131072"
    using cap by (auto simp: mem_sizes)
qed

definition taken_back :: "mem_pool \<Rightarrow> nat set \<Rightarrow> nat \<Rightarrow> mem_pool option \<Rightarrow> bool" where
  "taken_back p A a r \<longleftrightarrow> (\<exists>p'. r = Some p' \<and> pool_inv p' (A - {a}) \<and>
    (\<forall>b \<in> A - {a}. block_of p' b = block_of p b))"

text \<open>Giving an item back, to a pool or to the heap.\<close>

lemma taken_back_delete:
  assumes "pool_inv p A" and "a \<in> A" and "items p' = (items p)(a := None)" and "next_item p' = next_item p"
    and "m_arr4kPool p' = m_arr4kPool p" "m_arr16kPool p' = m_arr16kPool p"
      "m_arr64kPool p' = m_arr64kPool p" "m_arr128kPool p' = m_arr128kPool p"
  shows "taken_back p A a (Some p')"
  using assms by (auto simp: taken_back_def pool_inv_def pooled_def cap_at_def block_of_def)

lemma taken_back_push:
  assumes inv: "pool_inv p A" and a: "a \<in> A" "items p a = Some it"
    and p': "items p' = (items p)(a \<mapsto> MemItem_clear it)" "next_item p' = next_item p"
      "m_arr128kPool p' = m_arr128kPool p" "distinct (pooled p')" "set (pooled p') = insert a (set (pooled p))"
    and four: "\<And>b. b \<in> set (m_arr4kPool p') \<Longrightarrow> b \<in> set (m_arr4kPool p) \<or> b = a \<and> m_nCapacity it = 4096"
    and sixteen: "\<And>b. b \<in> set (m_arr16kPool p') \<Longrightarrow> b \<in> set (m_arr16kPool p) \<or> b = a \<and> m_nCapacity it = 16384"
    and sixtyfour: "\<And>b. b \<in> set (m_arr64kPool p') \<Longrightarrow>
      b \<in> set (m_arr64kPool p) \<or> b = a \<and> m_nCapacity it \<in> {65536, 131072}"
    and len: "length (m_arr4kPool p') \<le> MEM_ITEM_COUNT_MAX + 1" "length (m_arr16kPool p') \<le> MEM_ITEM_COUNT_MAX + 1"
  shows "taken_back p A a (Some p')"
proof -
  have good: "good_item (MemItem_clear it)"
    using inv a by (auto simp: pool_inv_def good_item_def MemItem_clear_def)
  have out: "a \<notin> set (pooled p)" using inv a by (auto simp: pool_inv_def)
  have keep: "cap_at p' b C \<longleftrightarrow> cap_at p b C" if "b \<noteq> a" for b C
    using that by (simp add: cap_at_def p')
  have new: "cap_at p' a C \<longleftrightarrow> m_nCapacity it \<in> C" for C
    by (simp add: cap_at_def p' MemItem_clear_def)
  have outs: "a \<notin> set (m_arr4kPool p)" "a \<notin> set (m_arr16kPool p)" "a \<notin> set (m_arr64kPool p)"
    using out by (simp_all add: pooled_def)
  note i = inv [unfolded pool_inv_def]
  have "cap_at p' b {4096}" if "b \<in> set (m_arr4kPool p')" for b
    using four [OF that] i outs new keep by (cases "b = a") auto
  moreover have "cap_at p' b {16384}" if "b \<in> set (m_arr16kPool p')" for b
    using sixteen [OF that] i outs new keep by (cases "b = a") auto
  moreover have "cap_at p' b {65536, 131072}" if "b \<in> set (m_arr64kPool p')" for b
    using sixtyfour [OF that] i outs new keep by (cases "b = a") auto
  moreover have "good_item it' \<and> b < next_item p'" if "items p' b = Some it'" for b it'
    using i good a that by (auto simp: p' split: if_splits)
  moreover have "dom (items p') = set (pooled p') \<union> (A - {a})" "set (pooled p') \<inter> (A - {a}) = {}"
    using i out a(1) by (auto simp: p')
  moreover have "m_arr128kPool p' = []" using i p'(3) by simp
  ultimately have "pool_inv p' (A - {a})"
    using p'(4) len by (simp add: pool_inv_def)
  moreover have "block_of p' b = block_of p b" if "b \<noteq> a" for b
    using that by (simp add: block_of_def p')
  ultimately show ?thesis by (simp add: taken_back_def)
qed

lemma free_taken_back:
  assumes inv: "pool_inv p A" and a: "a \<in> A"
  shows "taken_back p A a (MemPool_free (Some a) p)"
proof -
  obtain it where it: "items p a = Some it" "good_item it"
    using inv a by (fastforce simp: pool_inv_def)
  have out: "a \<notin> set (pooled p)" using inv a by (auto simp: pool_inv_def)
  note i = inv [unfolded pool_inv_def pooled_def] and o = out [unfolded pooled_def]
  let ?p = "p\<lparr>m_nFreeCount := m_nFreeCount p + 1, items := (items p)(a \<mapsto> MemItem_clear it)\<rparr>"
  have del: "taken_back p A a (Some (delete_item a ?p))"
    by (rule taken_back_delete [OF inv a]) (simp_all add: delete_item_def)
  have four: "taken_back p A a (Some (?p\<lparr>m_arr4kPool := m_arr4kPool ?p @ [a]\<rparr>))"
    if "m_nCapacity it = 4096" "\<not> MEM_ITEM_COUNT_MAX < length (m_arr4kPool ?p)"
    by (rule taken_back_push [OF inv a it(1)]) (use that i o in \<open>auto simp: pooled_def\<close>)
  have sixteen: "taken_back p A a (Some (?p\<lparr>m_arr16kPool := m_arr16kPool ?p @ [a]\<rparr>))"
    if "m_nCapacity it = 16384" "\<not> MEM_ITEM_COUNT_MAX < length (m_arr16kPool ?p)"
    by (rule taken_back_push [OF inv a it(1)]) (use that i o in \<open>auto simp: pooled_def\<close>)
  have sixtyfour: "taken_back p A a (Some (?p\<lparr>m_arr64kPool := m_arr64kPool ?p @ [a]\<rparr>))"
    if "m_nCapacity it \<in> {65536, 131072}"
    by (rule taken_back_push [OF inv a it(1)]) (use that i o in \<open>auto simp: pooled_def\<close>)
  have cap: "m_nCapacity it \<in> {4096, 16384, 65536, 131072} \<or> 131072 < m_nCapacity it"
    using it(2) by (auto simp: good_item_def)
  have free: "MemPool_free (Some a) p = Some (
      if m_nCapacity it = 4096 then
        (if length (m_arr4kPool ?p) > MEM_ITEM_COUNT_MAX then delete_item a ?p
         else ?p\<lparr>m_arr4kPool := m_arr4kPool ?p @ [a]\<rparr>)
      else if m_nCapacity it \<le> 16384 then
        (if length (m_arr16kPool ?p) > MEM_ITEM_COUNT_MAX then delete_item a ?p
         else ?p\<lparr>m_arr16kPool := m_arr16kPool ?p @ [a]\<rparr>)
      else if m_nCapacity it \<le> 65536 then
        (if length (m_arr64kPool ?p) > MEM_ITEM_COUNT_MAX then delete_item a ?p
         else ?p\<lparr>m_arr64kPool := m_arr64kPool ?p @ [a]\<rparr>)
      else if m_nCapacity it \<le> 131072 then
        (if length (m_arr128kPool ?p) > MEM_ITEM_COUNT_MAX then delete_item a ?p
         else ?p\<lparr>m_arr64kPool := m_arr64kPool ?p @ [a]\<rparr>)
      else delete_item a ?p)"
    by (simp only: MemPool_free_def option.case it(1) Let_def capacity_of_good [OF it(2)])
  have "m_arr128kPool ?p = []" using i by simp
  then show ?thesis
    unfolding free using cap del four sixteen sixtyfour
    by (cases "m_nCapacity it = 4096"; cases "m_nCapacity it = 16384"; cases "m_nCapacity it = 65536";
        cases "m_nCapacity it = 131072"; simp)
qed

lemma fill_keeps:
  assumes inv: "pool_inv p A" and a: "a \<in> A" and n: "0 < n" "n \<le> int (length (block_of p a))" "n \<le> int (length bs)"
  shows "\<exists>p'. assign_at a (Some bs) n p = Some p' \<and> pool_inv p' A \<and>
    take (nat n) (block_of p' a) = map Some (take (nat n) bs) \<and> length (block_of p' a) = length (block_of p a) \<and>
    (\<forall>b \<in> A - {a}. block_of p' b = block_of p b)"
proof -
  obtain it where it: "items p a = Some it" "good_item it"
    using inv a by (fastforce simp: pool_inv_def)
  then obtain b where b: "m_pData it = Some b" "int (length b) = m_nCapacity it" and max: "m_nCapacity it \<le> 524288"
    by (auto simp: good_item_def)
  have blk: "block_of p a = b" by (simp add: block_of_def it b)
  let ?b = "map Some (take (nat n) bs) @ drop (nat n) b"
  let ?it = "it\<lparr>m_nLen := n, m_pData := Some ?b\<rparr>"
  have "memcpy b 0 (map Some bs) n = Some ?b"
    using n blk by (simp add: memcpy_def take_map)
  then have "MemItem_assign (Some bs) n it = Some ?it"
    using n(1) n(2) b(1) b(2) max blk by (auto simp: MemItem_assign_def Let_def)
  then have res: "assign_at a (Some bs) n p = Some (p\<lparr>items := (items p)(a \<mapsto> ?it)\<rparr>)"
    by (simp add: assign_at_def it)
  have len: "length ?b = length b" using n blk by simp
  have "good_item ?it" using it(2) b len by (auto simp: good_item_def)
  moreover have "a \<notin> set (pooled p)" using inv a by (auto simp: pool_inv_def)
  ultimately have "pool_inv (p\<lparr>items := (items p)(a \<mapsto> ?it)\<rparr>) A"
    using inv a by (auto simp: pool_inv_def pooled_def cap_at_def)
  with res len n(3) show ?thesis by (simp add: block_of_def blk [unfolded block_of_def] b)
qed

lemma fill_zero:
  assumes "pool_inv p A" and "a \<in> A" and "n \<le> 0"
  shows "assign_at a (Some bs) n p = Some p"
proof -
  obtain it where it: "items p a = Some it"
    using assms by (fastforce simp: pool_inv_def)
  then show ?thesis using assms(3) by (simp add: assign_at_def MemItem_assign_def map_upd_triv)
qed

interpretation mem: buffer_pool MemPool_get MemPool_free assign_at block_of pool_inv MEM_ITEM_SIZE_MAX
proof (unfold_locales, goal_cases)
  case (1 p A n)
  from get_given [OF this] show ?case by (auto simp: given_def)
next
  case (2 p A n)
  then show ?case by (rule get_none)
next
  case (3 p A a)
  from free_taken_back [OF this] show ?case by (auto simp: taken_back_def)
next
  case (4 p A a n bs)
  then show ?case by (intro fill_keeps)
next
  case (5 p A a n bs)
  then show ?case by (rule fill_zero)
qed

section \<open>Histories of the pool\<close>

text \<open>
  The pools and the addresses in use that a program can reach from the start by asking for
  buffers of any size, filling the ones it has with data that fits, and giving them back once.
\<close>

inductive pool_run :: "mem_pool \<Rightarrow> nat set \<Rightarrow> bool" where
  start: "pool_run MemPool_new {}"
| get: "pool_run p A \<Longrightarrow> MemPool_get n p = (Some a, p') \<Longrightarrow> pool_run p' (insert a A)"
| refused: "pool_run p A \<Longrightarrow> MemPool_get n p = (None, p') \<Longrightarrow> pool_run p' A"
| assign: "pool_run p A \<Longrightarrow> a \<in> A \<Longrightarrow> n \<le> int (length (block_of p a)) \<Longrightarrow> n \<le> int (length bs) \<Longrightarrow>
    assign_at a (Some bs) n p = Some p' \<Longrightarrow> pool_run p' A"
| free: "pool_run p A \<Longrightarrow> a \<in> A \<Longrightarrow> MemPool_free (Some a) p = Some p' \<Longrightarrow> pool_run p' (A - {a})"

lemma pool_run_inv: "pool_run p A \<Longrightarrow> pool_inv p A"
proof (induction rule: pool_run.induct)
  case start
  show ?case by (rule pool_inv_new)
next
  case (get p A n a p')
  show ?case
  proof (cases "n \<le> MEM_ITEM_SIZE_MAX")
    case True
    from mem.take_small [OF get.IH this] get.hyps(2) show ?thesis by auto
  next
    case False
    with mem.take_big [OF get.IH, of n] get.hyps(2) show ?thesis by auto
  qed
next
  case (refused p A n p')
  show ?case
  proof (cases "n \<le> MEM_ITEM_SIZE_MAX")
    case True
    from mem.take_small [OF refused.IH this] refused.hyps(2) show ?thesis by auto
  next
    case False
    with mem.take_big [OF refused.IH, of n] refused.hyps(2) show ?thesis by auto
  qed
next
  case (assign p A a n bs p')
  show ?case
  proof (cases "0 < n")
    case True
    have "\<exists>p'. assign_at a (Some bs) n p = Some p' \<and> pool_inv p' A"
      using fill_keeps [OF assign.IH assign.hyps(2) True assign.hyps(3,4)] by blast
    with assign.hyps(5) show ?thesis by simp
  next
    case False
    with mem.fill_nothing [OF assign.IH assign.hyps(2), of n bs] assign.hyps(5) assign.IH show ?thesis by simp
  qed
next
  case (free p A a p')
  from mem.give_back_own [OF free.IH free.hyps(2)] free.hyps(3) show ?case by auto
qed

text \<open>
  C11.  Whatever its history, the pool hands out, for a size of up to 512 KiB, a live buffer of at
  least that size which nobody holds and which is then in no pool; it refuses larger sizes; a
  buffer in use can be given back without touching freed memory, and neither call changes the
  contents of the other buffers in use.
\<close>

theorem pool_no_aliasing:
  assumes "pool_run p A"
  shows "(\<forall>n. if n \<le> 524288
         then \<exists>a p'. MemPool_get n p = (Some a, p') \<and> a \<notin> A \<and> a \<notin> set (pooled p') \<and>
           n \<le> int (length (block_of p' a)) \<and> (\<forall>b \<in> A. block_of p' b = block_of p b)
         else \<exists>p'. MemPool_get n p = (None, p')) \<and>
    (\<forall>a \<in> A. \<exists>p'. MemPool_free (Some a) p = Some p' \<and> (\<forall>b \<in> A - {a}. block_of p' b = block_of p b))"
proof (intro conjI allI ballI)
  fix n
  show "if n \<le> 524288
    then \<exists>a p'. MemPool_get n p = (Some a, p') \<and> a \<notin> A \<and> a \<notin> set (pooled p') \<and>
      n \<le> int (length (block_of p' a)) \<and> (\<forall>b \<in> A. block_of p' b = block_of p b)
    else \<exists>p'. MemPool_get n p = (None, p')"
  proof (cases "n \<le> 524288")
    case True
    then have "n \<le> MEM_ITEM_SIZE_MAX" by (simp add: mem_sizes)
    from mem.take_small [OF pool_run_inv [OF assms] this] obtain a p' where
      r: "MemPool_get n p = (Some a, p')" "a \<notin> A" "pool_inv p' (insert a A)"
        "\<forall>b \<in> A. block_of p' b = block_of p b" "n \<le> int (length (block_of p' a))" by blast
    have "a \<notin> set (pooled p')" using r(3) by (auto simp: pool_inv_def)
    with True r show ?thesis by simp
  next
    case False
    with mem.take_big [OF pool_run_inv [OF assms], of n] show ?thesis by (auto simp: mem_sizes)
  qed
next
  fix a assume "a \<in> A"
  from mem.give_back_own [OF pool_run_inv [OF assms] this]
  show "\<exists>p'. MemPool_free (Some a) p = Some p' \<and> (\<forall>b \<in> A - {a}. block_of p' b = block_of p b)" by blast
qed

definition example_pool :: mem_pool where
  "example_pool = the (MemPool_free (Some 0) (snd (MemPool_get 100 (snd (MemPool_get 70000 MemPool_new)))))"

lemma example_pool_run: "pool_run example_pool {1}"
proof -
  have "pool_run (snd (MemPool_get 70000 MemPool_new)) {0}"
    using pool_run.get [OF pool_run.start, of 70000 0 "snd (MemPool_get 70000 MemPool_new)"]
    by (simp add: MemPool_get_def MemPool_new_def new_item_def Let_def mem_sizes)
  then have two: "pool_run (snd (MemPool_get 100 (snd (MemPool_get 70000 MemPool_new)))) (insert 1 {0})"
    by (rule pool_run.get [where n = 100])
      (simp add: MemPool_get_def MemPool_new_def new_item_def Let_def mem_sizes)
  have "\<exists>p'. MemPool_free (Some 0) (snd (MemPool_get 100 (snd (MemPool_get 70000 MemPool_new)))) = Some p'"
    using mem.give_back_own [OF pool_run_inv [OF two], of 0] by auto
  then have "MemPool_free (Some 0) (snd (MemPool_get 100 (snd (MemPool_get 70000 MemPool_new)))) = Some example_pool"
    by (auto simp: example_pool_def)
  from pool_run.free [OF two _ this] show ?thesis by (simp add: insert_Diff_if)
qed

lemma pool_no_aliasing_witness:
  "\<exists>a p'. MemPool_get 100 example_pool = (Some a, p') \<and> a \<noteq> 1"
  using pool_no_aliasing [OF example_pool_run] by (elim conjE allE [of _ 100]) auto

text \<open>
  C30.  The pool for buffers of 128 KiB is never used: it is empty in every history, so each
  request between 64 KiB and 128 KiB allocates; the buffers given back go to the 64 KiB pool,
  however long that is, while the limit of 1001 entries holds for the two smaller pools.
\<close>

theorem pool_128k_unused:
  assumes "pool_run p A"
  shows "m_arr128kPool p = [] \<and>
    length (m_arr4kPool p) \<le> 1001 \<and> length (m_arr16kPool p) \<le> 1001 \<and>
    (\<forall>n. 65536 < n \<and> n \<le> 131072 \<longrightarrow>
       MemPool_get n p = (Some (next_item p), snd (new_item 131072 (p\<lparr>m_nGetCount := m_nGetCount p + 1\<rparr>)))) \<and>
    (\<forall>a it. items p a = Some it \<and> m_nCapacity it = 131072 \<longrightarrow>
       map_option m_arr64kPool (MemPool_free (Some a) p) = Some (m_arr64kPool p @ [a]))"
proof -
  note i = pool_run_inv [OF assms, unfolded pool_inv_def]
  have "map_option m_arr64kPool (MemPool_free (Some a) p) = Some (m_arr64kPool p @ [a])"
    if "items p a = Some it" "m_nCapacity it = 131072" for a it
  proof -
    have "good_item it" using i that by auto
    with i that show ?thesis
      by (simp add: MemPool_free_def Let_def capacity_of_good)
  qed
  with i show ?thesis
    by (simp add: MemPool_get_def Let_def mem_sizes MEM_ITEM_COUNT_MAX_def new_item_def)
qed

lemma pool_128k_unused_witness:
  "map_option m_arr64kPool (MemPool_free (Some 0) (snd (MemPool_get 70000 MemPool_new))) = Some [0]"
proof -
  have "pool_run (snd (MemPool_get 70000 MemPool_new)) {0}"
    using pool_run.get [OF pool_run.start, of 70000 0 "snd (MemPool_get 70000 MemPool_new)"]
    by (simp add: MemPool_get_def MemPool_new_def new_item_def Let_def mem_sizes)
  from pool_128k_unused [OF this]
  have "\<forall>a it. items (snd (MemPool_get 70000 MemPool_new)) a = Some it \<and> m_nCapacity it = 131072 \<longrightarrow>
      map_option m_arr64kPool (MemPool_free (Some a) (snd (MemPool_get 70000 MemPool_new))) =
      Some (m_arr64kPool (snd (MemPool_get 70000 MemPool_new)) @ [a])" by blast
  from this [rule_format, of 0 "MemItem 131072"] show ?thesis
    by (simp add: MemPool_get_def MemPool_new_def new_item_def Let_def mem_sizes MemItem_def)
qed

lemma delete_all_distinct:
  "distinct as \<Longrightarrow> set as \<subseteq> dom (items p) \<Longrightarrow>
    delete_all as p = Some (p\<lparr>items := (items p) |` (- set as)\<rparr>)"
proof (induction as arbitrary: p)
  case (Cons a as)
  have "set as \<subseteq> dom (items (delete_item a p))" "items p a \<noteq> None"
    using Cons.prems by (auto simp: delete_item_def)
  moreover have "(delete_item a p)\<lparr>items := items (delete_item a p) |` (- set as)\<rparr> =
      p\<lparr>items := (items p) |` (- set (a # as))\<rparr>"
    by (simp add: delete_item_def restrict_map_def fun_eq_iff)
  ultimately show ?case
    using Cons.IH [of "delete_item a p"] Cons.prems(1) by simp
qed (simp add: restrict_map_def)

text \<open>
  \<open>reset\<close>, which the destructor runs, deletes every pooled buffer exactly once and leaves
  exactly the buffers in use alive.
\<close>

theorem reset_deletes_once:
  assumes "pool_run p A"
  shows "\<exists>p'. MemPool_reset p = Some p' \<and> pooled p' = [] \<and> dom (items p') = A \<and>
    (\<forall>a \<in> A. items p' a = items p a)"
proof -
  note i = pool_run_inv [OF assms, unfolded pool_inv_def]
  have d: "distinct (m_arr4kPool p @ m_arr16kPool p @ m_arr64kPool p)" and e: "m_arr128kPool p = []"
    and dom: "dom (items p) = set (m_arr4kPool p) \<union> set (m_arr16kPool p) \<union> set (m_arr64kPool p) \<union> A"
    and out: "(set (m_arr4kPool p) \<union> set (m_arr16kPool p) \<union> set (m_arr64kPool p)) \<inter> A = {}"
    using i by (auto simp: pooled_def)
  let ?m4 = "(items p) |` (- set (m_arr4kPool p))"
  let ?m16 = "?m4 |` (- set (m_arr16kPool p))"
  let ?m64 = "?m16 |` (- set (m_arr64kPool p))"
  have "delete_all (m_arr4kPool p) p = Some (p\<lparr>items := ?m4\<rparr>)"
    by (rule delete_all_distinct) (use d dom in auto)
  moreover have "delete_all (m_arr16kPool p) (p\<lparr>items := ?m4, m_arr4kPool := []\<rparr>) =
      Some (p\<lparr>items := ?m16, m_arr4kPool := []\<rparr>)"
    by (subst delete_all_distinct) (use d dom in auto)
  moreover have "delete_all (m_arr64kPool p) (p\<lparr>items := ?m16, m_arr4kPool := [], m_arr16kPool := []\<rparr>) =
      Some (p\<lparr>items := ?m64, m_arr4kPool := [], m_arr16kPool := []\<rparr>)"
    by (subst delete_all_distinct) (use d dom in auto)
  ultimately have res: "MemPool_reset p = Some (p\<lparr>items := ?m64, m_arr4kPool := [], m_arr16kPool := [],
      m_arr64kPool := [], m_arr128kPool := []\<rparr>)"
    by (simp add: MemPool_reset_def e)
  have "dom ?m64 = A" using dom out by auto
  moreover have "?m64 a = items p a" if "a \<in> A" for a
    using that out by (auto simp: restrict_map_def)
  ultimately show ?thesis unfolding res by (simp add: pooled_def)
qed

lemma reset_deletes_once_witness: "\<exists>p'. MemPool_reset example_pool = Some p' \<and> dom (items p') = {1}"
  using reset_deletes_once [OF example_pool_run] by auto

end
