(* ===== verification/Net.thy ===== *)
theory Net
  imports MemPool
begin

text \<open>
  What the link classes share: the calls they make on libuv, the allocator of link ids
  (\<open>src/src/linkidallocator.cpp\<close>), the singleton pool of send buffers and the requests that
  libuv holds.

  libuv is a library: a call is an entry in the sequence \<open>calls\<close>, and the answer to a call is a
  parameter, any function of the calls made so far.  A \<open>malloc\<close>ed handle or request is the next
  address.  A request that carries a buffer is in \<open>pending\<close>, which gives the \<open>MemItem\<close> its
  \<open>data\<close> pointer leads to, until its callback has run.
\<close>

datatype uv_call =
    Uv_tcp_init nat
  | Uv_tcp_connect nat string u16
  | Uv_tcp_bind nat string u16
  | Uv_listen nat nat
  | Uv_accept nat nat
  | Uv_read_start nat
  | Uv_write nat nat "byte list"
  | Uv_tcp_close_reset nat
  | Uv_close nat
  | Uv_timer_init nat
  | Uv_timer_start nat nat nat
  | Uv_timer_stop nat
  | Uv_udp_init nat
  | Uv_udp_connect nat string u16
  | Uv_udp_bind nat string u16
  | Uv_udp_recv_start nat
  | Uv_udp_try_send nat "byte list" "(u32 \<times> u16) option"
  | Uv_udp_send nat nat "byte list" "(u32 \<times> u16) option"

type_synonym uv_answers = "uv_call list \<Rightarrow> uv_call \<Rightarrow> int"

record net =
  calls :: "uv_call list"
  next_addr :: nat
  s_nLastId :: u32
  mpool :: mem_pool
  pending :: "nat \<rightharpoonup> nat"

definition net_start :: net where
  "net_start = \<lparr>calls = [], next_addr = 0, s_nLastId = 1, mpool = MemPool_new, pending = Map.empty\<rparr>"

definition uv_do :: "uv_call \<Rightarrow> net \<Rightarrow> net" where
  "uv_do c n = n\<lparr>calls := calls n @ [c]\<rparr>"

definition uv_ask :: "uv_answers \<Rightarrow> uv_call \<Rightarrow> net \<Rightarrow> int \<times> net" where
  "uv_ask ans c n = (ans (calls n) c, uv_do c n)"

definition new_addr :: "net \<Rightarrow> nat \<times> net" where
  "new_addr n = (next_addr n, n\<lparr>next_addr := next_addr n + 1\<rparr>)"

definition LinkidAllocator_next :: "net \<Rightarrow> u32 \<times> net" where
  "LinkidAllocator_next n = (s_nLastId n, n\<lparr>s_nLastId := s_nLastId n + 1\<rparr>)"

section \<open>Buffers\<close>

text \<open>The conversion of a \<open>size_t\<close> to \<open>int\<close>, and of an \<open>int\<close> to \<open>unsigned int\<close>.\<close>

definition c_int :: "nat \<Rightarrow> int" where
  "c_int n = sint (of_nat n :: u32)"

text \<open>
  \<open>uv_buf_init(mem->data(), len)\<close>, as the bytes libuv will send: no value if the block is shorter
  or was never written there.
\<close>

definition uv_buf :: "mem_pool \<Rightarrow> nat \<Rightarrow> int \<Rightarrow> byte list option" where
  "uv_buf p a len =
    (let k = unat (of_int len :: u32)
     in if k \<le> length (block_of p a) then those (take k (block_of p a)) else None)"

text \<open>
  The beginning of each function that sends: a buffer from the pool, the copy of the data, the
  \<open>uv_buf_t\<close>.  The first result is the \<open>MemItem\<close>, null if the pool refused.
\<close>

definition send_buffer :: "byte list \<Rightarrow> int \<Rightarrow> net \<Rightarrow> (nat option \<times> byte list \<times> net) option" where
  "send_buffer bs len n =
    (case MemPool_get len (mpool n) of
       (None, p) \<Rightarrow> Some (None, [], n\<lparr>mpool := p\<rparr>)
     | (Some a, p) \<Rightarrow>
         (case assign_at a (Some bs) len p of
            None \<Rightarrow> None
          | Some p \<Rightarrow> map_option (\<lambda>buf. (Some a, buf, n\<lparr>mpool := p\<rparr>)) (uv_buf p a len)))"

definition release :: "nat option \<Rightarrow> net \<Rightarrow> net option" where
  "release mem n = map_option (\<lambda>p. n\<lparr>mpool := p\<rparr>) (MemPool_free mem (mpool n))"

section \<open>Requests and their buffers\<close>

text \<open>The request and the bytes of a call that hands libuv a buffer to send later.\<close>

definition sent :: "uv_call \<Rightarrow> (nat \<times> byte list) option" where
  "sent c = (case c of Uv_write h r bs \<Rightarrow> Some (r, bs) | Uv_udp_send h r bs d \<Rightarrow> Some (r, bs) | _ \<Rightarrow> None)"

text \<open>
  The invariant: the buffers of the pending requests are in use, one each, and still hold the
  bytes that were to be sent; \<open>H\<close> are the other buffers in use.
\<close>

definition net_inv :: "net \<Rightarrow> nat set \<Rightarrow> bool" where
  "net_inv n H \<longleftrightarrow>
    inj_on (pending n) (dom (pending n)) \<and> ran (pending n) \<inter> H = {} \<and>
    pool_inv (mpool n) (ran (pending n) \<union> H) \<and>
    (\<forall>r \<in> dom (pending n). r < next_addr n) \<and>
    (\<forall>c \<in> set (calls n). \<forall>r bs. sent c = Some (r, bs) \<longrightarrow> r < next_addr n \<and>
       (\<forall>a. pending n r = Some a \<longrightarrow> take (length bs) (block_of (mpool n) a) = map Some bs))"

lemma net_inv_start: "net_inv net_start {}"
  by (simp add: net_inv_def net_start_def pool_inv_new)

lemma net_inv_do: "net_inv n H \<Longrightarrow> sent c = None \<Longrightarrow> net_inv (uv_do c n) H"
  by (auto simp: net_inv_def uv_do_def)

lemma net_inv_ask: "net_inv n H \<Longrightarrow> sent c = None \<Longrightarrow> uv_ask ans c n = (r, n') \<Longrightarrow> net_inv n' H"
  by (auto simp: uv_ask_def intro: net_inv_do)

lemma net_inv_addr: "net_inv n H \<Longrightarrow> new_addr n = (a, n') \<Longrightarrow> net_inv n' H"
  by (fastforce simp: net_inv_def new_addr_def less_Suc_eq)

lemma net_inv_id: "net_inv n H \<Longrightarrow> LinkidAllocator_next n = (i, n') \<Longrightarrow> net_inv n' H"
  by (auto simp: net_inv_def LinkidAllocator_next_def)

lemma net_inv_pool:
  assumes "net_inv n H" and "pool_inv p (ran (pending n) \<union> H')" and "ran (pending n) \<inter> H' = {}"
    and "\<And>b. b \<in> ran (pending n) \<Longrightarrow> block_of p b = block_of (mpool n) b"
  shows "net_inv (n\<lparr>mpool := p\<rparr>) H'"
proof -
  have "take (length bs) (block_of p a) = map Some bs"
    if "c \<in> set (calls n)" "sent c = Some (r, bs)" "pending n r = Some a" for c r bs a
  proof -
    have "block_of p a = block_of (mpool n) a" using that assms(4) by (auto simp: ran_def)
    with assms(1) that show ?thesis by (auto simp: net_inv_def)
  qed
  with assms(1-3) show ?thesis by (auto simp: net_inv_def)
qed

lemma c_int_small: "n < 2 ^ 31 \<Longrightarrow> c_int n = int n"
  by (simp add: c_int_def sint_uint signed_take_bit_int_eq_self unsigned_of_nat take_bit_nat_eq_self)

text \<open>Asking the pool for a buffer and filling it.\<close>

lemma send_buffer_ok:
  assumes inv: "net_inv n H" and len: "0 \<le> len" "len \<le> 524288" "len = int (length bs)"
  shows "\<exists>a p. send_buffer bs len n = Some (Some a, bs, n\<lparr>mpool := p\<rparr>) \<and> a \<notin> H \<and> a \<notin> ran (pending n) \<and>
    net_inv (n\<lparr>mpool := p\<rparr>) (insert a H) \<and> take (length bs) (block_of p a) = map Some bs"
proof -
  let ?A = "ran (pending n) \<union> H"
  have pool: "pool_inv (mpool n) ?A" using inv by (simp add: net_inv_def)
  have "len \<le> MEM_ITEM_SIZE_MAX" using len by (simp add: mem_sizes)
  from mem.take_small [OF pool this] obtain a p1 where
    get: "MemPool_get len (mpool n) = (Some a, p1)" and a: "a \<notin> ?A" and inv1: "pool_inv p1 (insert a ?A)"
    and same1: "\<forall>b \<in> ?A. block_of p1 b = block_of (mpool n) b" and size1: "len \<le> int (length (block_of p1 a))"
    by blast
  have "\<exists>p2. assign_at a (Some bs) len p1 = Some p2 \<and> pool_inv p2 (insert a ?A) \<and>
      take (nat len) (block_of p2 a) = map Some bs \<and> length (block_of p2 a) = length (block_of p1 a) \<and>
      (\<forall>b \<in> ?A. block_of p2 b = block_of p1 b)"
  proof (cases "0 < len")
    case True
    from mem.fill_own [OF inv1 insertI1 True size1, of bs] len a show ?thesis by auto
  next
    case False
    with mem.fill_nothing [OF inv1 insertI1, of len bs] len inv1 show ?thesis by simp
  qed
  then obtain p2 where put: "assign_at a (Some bs) len p1 = Some p2" and inv2: "pool_inv p2 (insert a ?A)"
    and block: "take (nat len) (block_of p2 a) = map Some bs" "length (block_of p2 a) = length (block_of p1 a)"
    and same2: "\<forall>b \<in> ?A. block_of p2 b = block_of p1 b" by blast
  have "unat (of_int len :: u32) = length bs"
    using len by (simp add: unsigned_of_nat take_bit_nat_eq_self)
  moreover have "those (map Some xs) = Some xs" for xs :: "byte list" by (induction xs) simp_all
  ultimately have "uv_buf p2 a len = Some bs"
    using block size1 len by (simp add: uv_buf_def)
  then have "send_buffer bs len n = Some (Some a, bs, n\<lparr>mpool := p2\<rparr>)"
    by (simp add: send_buffer_def get put)
  moreover have "net_inv (n\<lparr>mpool := p2\<rparr>) (insert a H)"
    by (rule net_inv_pool [OF inv]) (use inv inv2 a same1 same2 in \<open>auto simp: net_inv_def\<close>)
  ultimately show ?thesis using a block(1) len by auto
qed

lemma send_buffer_big:
  assumes inv: "net_inv n H" and "524288 < len"
  shows "\<exists>p. send_buffer bs len n = Some (None, [], n\<lparr>mpool := p\<rparr>) \<and> net_inv (n\<lparr>mpool := p\<rparr>) H"
proof -
  have pool: "pool_inv (mpool n) (ran (pending n) \<union> H)" using inv by (simp add: net_inv_def)
  have "MEM_ITEM_SIZE_MAX < len" using assms(2) by (simp add: mem_sizes)
  from mem.take_big [OF pool this] obtain p where
    get: "MemPool_get len (mpool n) = (None, p)" and p: "pool_inv p (ran (pending n) \<union> H)"
      "\<forall>b \<in> ran (pending n) \<union> H. block_of p b = block_of (mpool n) b" by blast
  have "net_inv (n\<lparr>mpool := p\<rparr>) H"
    by (rule net_inv_pool [OF inv]) (use inv p in \<open>auto simp: net_inv_def\<close>)
  with get show ?thesis by (intro exI [of _ p]) (simp add: send_buffer_def)
qed

text \<open>Handing a buffer to libuv with a new request, and getting it back in the request's callback.\<close>

lemma net_inv_queue:
  assumes inv: "net_inv n (insert a H)" and a: "a \<notin> H" and c: "sent c = Some (next_addr n, bs)"
    and block: "take (length bs) (block_of (mpool n) a) = map Some bs"
  shows "net_inv (n\<lparr>calls := calls n @ [c], next_addr := next_addr n + 1,
    pending := (pending n)(next_addr n \<mapsto> a)\<rparr>) H"
proof -
  let ?r = "next_addr n"
  have new: "pending n ?r = None" using inv by (fastforce simp: net_inv_def)
  have out: "a \<notin> ran (pending n)" using inv by (auto simp: net_inv_def)
  have ran: "ran ((pending n)(?r \<mapsto> a)) = insert a (ran (pending n))"
    using new by (rule ran_map_upd)
  have "inj_on ((pending n)(?r \<mapsto> a)) (insert ?r (dom (pending n)))"
    using inv out new by (auto simp: net_inv_def inj_on_def ran_def)
  moreover have "take (length bs') (block_of (mpool n) a') = map Some bs'"
    if "c' \<in> insert c (set (calls n))" "sent c' = Some (r, bs')" "((pending n)(?r \<mapsto> a)) r = Some a'" for c' r bs' a'
  proof (cases "r = ?r")
    case True
    have "c' = c"
    proof (rule ccontr)
      assume "c' \<noteq> c"
      then have "r < ?r" using inv that by (auto simp: net_inv_def)
      with True show False by simp
    qed
    with True that c block show ?thesis by simp
  next
    case False
    with inv that c show ?thesis by (auto simp: net_inv_def)
  qed
  moreover have "r < Suc ?r" if "c' \<in> insert c (set (calls n))" "sent c' = Some (r, bs')" for c' r bs'
    using inv that c by (fastforce simp: net_inv_def)
  ultimately show ?thesis
    using inv a out ran by (auto simp: net_inv_def less_Suc_eq insert_commute)
qed

lemma net_inv_done:
  assumes inv: "net_inv n H" and r: "pending n r = Some a"
  shows "\<exists>p. release (Some a) n = Some (n\<lparr>mpool := p\<rparr>) \<and>
    net_inv (n\<lparr>mpool := p, pending := (pending n)(r := None)\<rparr>) H"
proof -
  let ?A = "ran (pending n) \<union> H" and ?n = "n\<lparr>pending := (pending n)(r := None)\<rparr>"
  have pool: "pool_inv (mpool n) ?A" and inj: "inj_on (pending n) (dom (pending n))"
    and out: "ran (pending n) \<inter> H = {}" using inv by (auto simp: net_inv_def)
  have "a \<in> ?A" using r by (auto simp: ran_def)
  from mem.give_back_own [OF pool this] obtain p where
    free: "MemPool_free (Some a) (mpool n) = Some p" and p: "pool_inv p (?A - {a})"
      "\<forall>b \<in> ?A - {a}. block_of p b = block_of (mpool n) b" by blast
  have ran: "ran ((pending n)(r := None)) = ran (pending n) - {a}"
  proof (intro set_eqI iffI)
    fix x assume "x \<in> ran ((pending n)(r := None))"
    then obtain k where "k \<noteq> r" "pending n k = Some x" by (auto simp: ran_def split: if_splits)
    moreover from this have "x \<noteq> a" using inj_onD [OF inj, of k r] r by auto
    ultimately show "x \<in> ran (pending n) - {a}" by (auto simp: ran_def)
  next
    fix x assume "x \<in> ran (pending n) - {a}"
    then obtain k where "pending n k = Some x" "x \<noteq> a" by (auto simp: ran_def)
    with r have "((pending n)(r := None)) k = Some x" by auto
    then show "x \<in> ran ((pending n)(r := None))" by (rule ranI)
  qed
  have "a \<notin> H" using out r by (auto simp: ran_def)
  then have set: "ran ((pending n)(r := None)) \<union> H = ?A - {a}" unfolding ran by auto
  have "net_inv (n\<lparr>mpool := p, pending := (pending n)(r := None)\<rparr>) H"
    unfolding net_inv_def
  proof (intro conjI)
    from inj show "inj_on (pending (n\<lparr>mpool := p, pending := (pending n)(r := None)\<rparr>))
        (dom (pending (n\<lparr>mpool := p, pending := (pending n)(r := None)\<rparr>)))"
      by (auto simp: inj_on_def)
    show "pool_inv (mpool (n\<lparr>mpool := p, pending := (pending n)(r := None)\<rparr>))
        (ran (pending (n\<lparr>mpool := p, pending := (pending n)(r := None)\<rparr>)) \<union> H)"
      using p(1) set by simp
    have "block_of p b = block_of (mpool n) b" if "pending n r' = Some b" "r' \<noteq> r" for r' b
    proof -
      have "b \<noteq> a" using inj_onD [OF inj, of r' r] r that by auto
      with that p(2) show ?thesis by (auto simp: ran_def)
    qed
    with inv show "\<forall>c \<in> set (calls (n\<lparr>mpool := p, pending := (pending n)(r := None)\<rparr>)). \<forall>r' bs.
        sent c = Some (r', bs) \<longrightarrow> r' < next_addr (n\<lparr>mpool := p, pending := (pending n)(r := None)\<rparr>) \<and>
        (\<forall>a. pending (n\<lparr>mpool := p, pending := (pending n)(r := None)\<rparr>) r' = Some a \<longrightarrow>
          take (length bs) (block_of (mpool (n\<lparr>mpool := p, pending := (pending n)(r := None)\<rparr>)) a) = map Some bs)"
      by (auto simp: net_inv_def)
  qed (use inv ran out in \<open>auto simp: net_inv_def\<close>)
  with free show ?thesis by (intro exI [of _ p]) (simp add: release_def)
qed

lemma net_inv_return:
  assumes inv: "net_inv n H" and a: "a \<in> H"
  shows "\<exists>p. release (Some a) n = Some (n\<lparr>mpool := p\<rparr>) \<and> net_inv (n\<lparr>mpool := p\<rparr>) (H - {a})"
proof -
  let ?A = "ran (pending n) \<union> H"
  have pool: "pool_inv (mpool n) ?A" and out: "ran (pending n) \<inter> H = {}"
    using inv by (auto simp: net_inv_def)
  have "a \<in> ?A" using a by simp
  from mem.give_back_own [OF pool this] obtain p where
    free: "MemPool_free (Some a) (mpool n) = Some p" and p: "pool_inv p (?A - {a})"
      "\<forall>b \<in> ?A - {a}. block_of p b = block_of (mpool n) b" by blast
  have set: "ran (pending n) \<union> (H - {a}) = ?A - {a}" using out a by auto
  have "net_inv (n\<lparr>mpool := p\<rparr>) (H - {a})"
    by (rule net_inv_pool [OF inv]) (use p out a in \<open>auto simp: set\<close>)
  with free show ?thesis by (intro exI [of _ p]) (simp add: release_def)
qed

text \<open>The invariant with whatever other buffers are in use.\<close>

definition net_ok :: "net \<Rightarrow> bool" where
  "net_ok n \<longleftrightarrow> (\<exists>H. net_inv n H)"

lemma net_okI: "net_inv n H \<Longrightarrow> net_ok n"
  by (auto simp: net_ok_def)

lemma net_ok_do: "net_ok n \<Longrightarrow> sent c = None \<Longrightarrow> net_ok (uv_do c n)"
  by (auto simp: net_ok_def intro: net_inv_do)

lemma net_ok_addr: "net_ok n \<Longrightarrow> net_ok (n\<lparr>next_addr := next_addr n + 1\<rparr>)"
  unfolding net_ok_def using net_inv_addr [of n] by (fastforce simp: new_addr_def)

lemma net_ok_ask: "net_ok n \<Longrightarrow> sent c = None \<Longrightarrow> net_ok (snd (uv_ask ans c n))"
  by (simp add: uv_ask_def net_ok_do)

lemma net_ok_new_addr: "net_ok n \<Longrightarrow> net_ok (snd (new_addr n))"
  using net_ok_addr [of n] by (simp add: new_addr_def)

lemma net_ok_id: "net_ok n \<Longrightarrow> net_ok (snd (LinkidAllocator_next n))"
  using net_inv_id [of n] by (fastforce simp: net_ok_def LinkidAllocator_next_def)

text \<open>A failing request is not pending; its buffer stays in use for ever.\<close>

lemma net_inv_failed:
  assumes inv: "net_inv n H" and c: "sent c = Some (next_addr n, bs)"
  shows "net_inv (n\<lparr>calls := calls n @ [c], next_addr := next_addr n + 1\<rparr>) H"
proof -
  have "pending n (next_addr n) = None" using inv by (fastforce simp: net_inv_def)
  with inv c show ?thesis by (fastforce simp: net_inv_def less_Suc_eq)
qed

lemmas net_steps = net_inv_do net_inv_ask net_inv_addr net_inv_id

lemma sent_simps [simp]:
  "sent (Uv_tcp_init h) = None" "sent (Uv_tcp_connect h ip p) = None" "sent (Uv_read_start h) = None"
  "sent (Uv_close h) = None" "sent (Uv_timer_init h) = None" "sent (Uv_timer_start h i j) = None"
  "sent (Uv_timer_stop h) = None" "sent (Uv_write h r bs) = Some (r, bs)"
  "sent (Uv_tcp_bind h ip p) = None" "sent (Uv_listen h k) = None" "sent (Uv_accept h k) = None"
  "sent (Uv_tcp_close_reset h) = None" "sent (Uv_udp_init h) = None" "sent (Uv_udp_connect h ip p) = None"
  "sent (Uv_udp_bind h ip p) = None" "sent (Uv_udp_recv_start h) = None" "sent (Uv_udp_try_send h bs d) = None"
  "sent (Uv_udp_send h r bs d) = Some (r, bs)"
  by (simp_all add: sent_def)

section \<open>Link ids\<close>

fun linkids :: "nat \<Rightarrow> net \<Rightarrow> u32 list \<times> net" where
  "linkids 0 n = ([], n)"
| "linkids (Suc k) n =
    (case LinkidAllocator_next n of (i, n) \<Rightarrow> (case linkids k n of (is, n) \<Rightarrow> (i # is, n)))"

lemma linkids_eq: "fst (linkids k n) = map (\<lambda>j. s_nLastId n + of_nat j) [0..<k]"
proof (induction k arbitrary: n)
  case (Suc k)
  have "map (\<lambda>j. s_nLastId n + of_nat j) [0..<Suc k] = s_nLastId n # map (\<lambda>j. s_nLastId n + 1 + of_nat j) [0..<k]"
    by (simp add: upt_conv_Cons map_Suc_upt [symmetric] algebra_simps del: upt_Suc)
  then show ?case
    using Suc.IH [of "n\<lparr>s_nLastId := s_nLastId n + 1\<rparr>"]
    by (simp add: LinkidAllocator_next_def split_def)
qed simp

text \<open>
  The link ids handed out are distinct for up to 2^32 links in a row, and no more: the next
  one repeats the first.
\<close>

theorem linkids_distinct:
  "distinct (fst (linkids k n)) \<longleftrightarrow> k \<le> 2 ^ 32"
proof -
  let ?f = "\<lambda>j. s_nLastId n + of_nat j :: u32"
  have inj: "inj_on ?f {0..<2 ^ 32}"
  proof (rule inj_onI)
    fix i j :: nat assume "i \<in> {0..<2 ^ 32}" "j \<in> {0..<2 ^ 32}" "?f i = ?f j"
    then have "i < 2 ^ 32" "j < 2 ^ 32" "(of_nat i :: u32) = of_nat j" by auto
    moreover have "unat (of_nat i :: u32) = i" "unat (of_nat j :: u32) = j"
      by (rule unat_of_nat_small; use \<open>i < 2 ^ 32\<close> \<open>j < 2 ^ 32\<close> in simp)+
    ultimately show "i = j" by metis
  qed
  show ?thesis
  proof
    assume "distinct (fst (linkids k n))"
    then have "inj_on ?f {0..<k}" by (simp add: linkids_eq distinct_map)
    show "k \<le> 2 ^ 32"
    proof (rule ccontr)
      assume "\<not> k \<le> 2 ^ 32"
      then have "0 \<in> {0..<k}" "2 ^ 32 \<in> {0..<k}" by auto
      moreover have "?f 0 = ?f (2 ^ 32)" by simp
      ultimately have "(0::nat) = 2 ^ 32" using \<open>inj_on ?f {0..<k}\<close> unfolding inj_on_def by blast
      then show False by simp
    qed
  next
    assume "k \<le> 2 ^ 32"
    then have "{0..<k} \<subseteq> {0..<2 ^ 32}" by auto
    from inj_on_subset [OF inj this] show "distinct (fst (linkids k n))"
      by (simp add: linkids_eq distinct_map)
  qed
qed

end
