(* ===== verification/TcpBuffer.thy ===== *)
theory TcpBuffer
  imports Net
begin

text \<open>
  The state of a TCP link and its read buffer: the fields of \<open>class TcpLink\<close>
  (\<open>src/src/tcplink.h\<close>), \<open>addData\<close> and \<open>removeData\<close> (\<open>src/src/tcplink.cpp\<close>).

  The buffer is a block of cells; \<open>None\<close> as a result is an access outside it or a \<open>memcpy\<close>
  between overlapping regions.  \<open>m_nPos\<close>, \<open>m_nLen\<close> and \<open>m_nCapacity\<close> are \<open>int\<close>s; the invariant
  bounds them far below 2 ^ 31.  \<open>m_pHandler\<close> is the handler object's address.
\<close>

record tcp_link =
  m_nId :: u32
  m_pTcp :: "nat option"
  m_pTimer :: "nat option"
  m_strIP :: string
  m_nIP :: u32
  m_bPort :: u16
  m_bPeerLink :: bool
  m_pHandler :: "nat option"
  m_bConnected :: bool
  m_bConnecting :: bool
  m_pBuffer :: "cell list"
  m_nPos :: int
  m_nLen :: int
  m_nCapacity :: int
  m_nReconnects :: u32
  m_nReconnectErrors :: u32
  m_nSendErrors :: u32
  m_nReads :: u32
  m_nSends :: u32

text \<open>A link of no particular state, for the examples.\<close>

definition blank_link :: tcp_link where
  "blank_link =
    \<lparr>m_nId = 0, m_pTcp = None, m_pTimer = None, m_strIP = [], m_nIP = 0, m_bPort = 0, m_bPeerLink = False,
     m_pHandler = None, m_bConnected = False, m_bConnecting = False, m_pBuffer = [], m_nPos = 0, m_nLen = 0,
     m_nCapacity = 0, m_nReconnects = 0, m_nReconnectErrors = 0, m_nSendErrors = 0, m_nReads = 0, m_nSends = 0\<rparr>"

definition TCP_LINK_BUFFER_DEFAULT :: int where "TCP_LINK_BUFFER_DEFAULT = 1024 * 256"
definition TCP_LINK_BUFFER_MAX :: int where "TCP_LINK_BUFFER_MAX = 1024 * 1024"

lemmas tcp_sizes = TCP_LINK_BUFFER_DEFAULT_def TCP_LINK_BUFFER_MAX_def

text \<open>\<open>memcpy(b + dst, b + src, n)\<close> within one block.\<close>

definition memcpy_within :: "cell list \<Rightarrow> int \<Rightarrow> int \<Rightarrow> int \<Rightarrow> cell list option" where
  "memcpy_within b dst src n =
    (if 0 \<le> src \<and> (dst + n \<le> src \<or> src + n \<le> dst) then memcpy b dst (drop (nat src) b) n else None)"

definition append_bytes :: "byte list \<Rightarrow> int \<Rightarrow> tcp_link \<Rightarrow> tcp_link option" where
  "append_bytes data len l =
    map_option (\<lambda>b. l\<lparr>m_pBuffer := b, m_nLen := m_nLen l + len\<rparr>)
      (memcpy (m_pBuffer l) (m_nPos l + m_nLen l) (map Some data) len)"

definition addData :: "byte list \<Rightarrow> int \<Rightarrow> tcp_link \<Rightarrow> tcp_link option" where
  "addData data len l =
    (if m_nPos l + m_nLen l + len \<ge> m_nCapacity l then
       if m_nCapacity l \<ge> TCP_LINK_BUFFER_MAX then Some (l\<lparr>m_nLen := 0, m_nPos := 0\<rparr>)
       else
         let capacity = m_nPos l + m_nLen l + len
         in case memcpy (malloc capacity) 0 (drop (nat (m_nPos l)) (m_pBuffer l)) (m_nLen l) of
              None \<Rightarrow> None
            | Some new_buf \<Rightarrow>
                append_bytes data len (l\<lparr>m_nCapacity := capacity, m_nPos := 0, m_pBuffer := new_buf\<rparr>)
     else append_bytes data len l)"

definition removeData :: "int \<Rightarrow> tcp_link \<Rightarrow> tcp_link option" where
  "removeData len l0 =
    (let l = l0\<lparr>m_nPos := m_nPos l0 + len, m_nLen := m_nLen l0 - len\<rparr>
     in if m_nLen l < 0 then Some (l\<lparr>m_nLen := 0, m_nPos := 0\<rparr>)
        else if m_nLen l = 0 then Some (l\<lparr>m_nPos := 0\<rparr>)
        else if m_nPos l \<ge> m_nLen l then
          map_option (\<lambda>b. l\<lparr>m_pBuffer := b, m_nPos := 0\<rparr>)
            (memcpy_within (m_pBuffer l) 0 (m_nPos l) (m_nLen l))
        else Some l)"

text \<open>
  The bytes that \<open>on_read\<close> passes to the handler: \<open>m_nLen\<close> bytes from the start of the buffer.
\<close>

definition handed_over :: "tcp_link \<Rightarrow> byte list option" where
  "handed_over l =
    (if 0 \<le> m_nLen l \<and> m_nLen l \<le> int (length (m_pBuffer l))
     then those (take (nat (m_nLen l)) (m_pBuffer l)) else None)"

section \<open>The buffer as a queue of bytes\<close>

definition queue :: "tcp_link \<Rightarrow> byte list" where
  "queue l = map the (seg (m_pBuffer l) (nat (m_nPos l)) (nat (m_nPos l + m_nLen l)))"

definition buf_inv :: "tcp_link \<Rightarrow> bool" where
  "buf_inv l \<longleftrightarrow>
    0 \<le> m_nPos l \<and> 0 \<le> m_nLen l \<and> m_nPos l + m_nLen l \<le> m_nCapacity l \<and>
    int (length (m_pBuffer l)) = m_nCapacity l \<and> m_nCapacity l < TCP_LINK_BUFFER_MAX + 65536 \<and>
    (\<exists>bs. take (nat (m_nPos l + m_nLen l)) (m_pBuffer l) = map Some bs)"

text \<open>No more data fits: the buffer is at its largest size and the new data reaches its end.\<close>

definition overfull :: "tcp_link \<Rightarrow> nat \<Rightarrow> bool" where
  "overfull l n \<longleftrightarrow> m_nPos l + m_nLen l + int n \<ge> m_nCapacity l \<and> m_nCapacity l \<ge> TCP_LINK_BUFFER_MAX"

text \<open>
  The concrete values behind the invariant: a consumed part \<open>ps\<close>, the queue, the rest.
\<close>

lemma buf_invE:
  assumes "buf_inv l"
  obtains ps rest where "m_pBuffer l = map Some ps @ map Some (queue l) @ rest"
    and "m_nPos l = int (length ps)" and "m_nLen l = int (length (queue l))"
    and "m_nCapacity l = int (length ps + length (queue l) + length rest)"
    and "m_nCapacity l < TCP_LINK_BUFFER_MAX + 65536"
proof -
  let ?p = "nat (m_nPos l)" and ?n = "nat (m_nLen l)"
  have pos: "m_nPos l = int ?p" "m_nLen l = int ?n" and cap: "?p + ?n \<le> length (m_pBuffer l)"
    using assms by (auto simp: buf_inv_def)
  obtain bs where "take (nat (m_nPos l + m_nLen l)) (m_pBuffer l) = map Some bs"
    using assms by (auto simp: buf_inv_def)
  moreover have e: "nat (m_nPos l + m_nLen l) = ?p + ?n" using pos by linarith
  ultimately have bs: "take (?p + ?n) (m_pBuffer l) = map Some bs" by simp
  then have len: "length bs = ?p + ?n" using cap by (metis length_map length_take min.absorb2)
  have "seg (m_pBuffer l) ?p (?p + ?n) = drop ?p (take (?p + ?n) (m_pBuffer l))"
    by (simp add: seg_def drop_take)
  also have "\<dots> = map Some (drop ?p bs)" by (simp add: bs drop_map)
  finally have q: "queue l = drop ?p bs"
    unfolding queue_def e by (simp add: comp_def)
  have "m_pBuffer l = map Some bs @ drop (?p + ?n) (m_pBuffer l)"
    by (metis append_take_drop_id bs)
  also have "map Some bs = map Some (take ?p bs) @ map Some (queue l)"
    unfolding q by (simp flip: map_append)
  finally have "m_pBuffer l = map Some (take ?p bs) @ map Some (queue l) @ drop (?p + ?n) (m_pBuffer l)"
    by simp
  then show thesis
    by (rule that) (use assms len pos cap in \<open>auto simp: buf_inv_def q\<close>)
qed

lemma buf_invI:
  assumes "m_pBuffer l = map Some ps @ map Some qs @ rest" and "m_nPos l = int (length ps)"
    and "m_nLen l = int (length qs)" and "m_nCapacity l = int (length ps + length qs + length rest)"
    and "m_nCapacity l < TCP_LINK_BUFFER_MAX + 65536"
  shows "buf_inv l \<and> queue l = qs"
proof -
  have e: "nat (m_nPos l + m_nLen l) = length ps + length qs" "nat (m_nPos l) = length ps"
    using assms by simp_all
  have "take (length ps + length qs) (m_pBuffer l) = map Some (ps @ qs)"
    using assms(1) by simp
  then have "take (nat (m_nPos l + m_nLen l)) (m_pBuffer l) = map Some (ps @ qs)"
    unfolding e .
  then have init: "\<exists>bs. take (nat (m_nPos l + m_nLen l)) (m_pBuffer l) = map Some bs" ..
  have "seg (map Some ps @ map Some qs @ rest) (length ps) (length ps + length qs) = map Some qs"
    by (rule seg_middle) simp_all
  then have "queue l = qs" unfolding queue_def e assms(1) by (simp add: comp_def)
  moreover have "0 \<le> m_nPos l" "0 \<le> m_nLen l" "m_nPos l + m_nLen l \<le> m_nCapacity l"
    "int (length (m_pBuffer l)) = m_nCapacity l" using assms by simp_all
  ultimately show ?thesis using assms(5) init unfolding buf_inv_def by blast
qed

lemma memcpy_here:
  assumes "int (length u) = off" and "int (length d) = n" and "length v = length d"
  shows "memcpy (u @ v @ w) off d n = Some (u @ d @ w)"
  using assms by (auto simp: memcpy_def nat_int_add)

lemma append_bytes_ok:
  assumes buf: "m_pBuffer l = map Some ps @ map Some qs @ rest" and pos: "m_nPos l = int (length ps)"
    and len: "m_nLen l = int (length qs)"
    and cap: "m_nCapacity l = int (length ps + length qs + length rest)" "m_nCapacity l < TCP_LINK_BUFFER_MAX + 65536"
    and fits: "length data \<le> length rest"
  shows "\<exists>b. append_bytes data (int (length data)) l =
      Some (l\<lparr>m_pBuffer := b, m_nLen := m_nLen l + int (length data)\<rparr>) \<and>
    buf_inv (l\<lparr>m_pBuffer := b, m_nLen := m_nLen l + int (length data)\<rparr>) \<and>
    queue (l\<lparr>m_pBuffer := b, m_nLen := m_nLen l + int (length data)\<rparr>) = qs @ data"
proof -
  let ?v = "take (length data) rest" and ?w = "drop (length data) rest"
  let ?b = "(map Some ps @ map Some qs) @ map Some data @ ?w"
  let ?l = "l\<lparr>m_pBuffer := ?b, m_nLen := m_nLen l + int (length data)\<rparr>"
  have "m_pBuffer l = (map Some ps @ map Some qs) @ ?v @ ?w" using buf by simp
  moreover have "memcpy \<dots> (m_nPos l + m_nLen l) (map Some data) (int (length data)) = Some ?b"
    by (rule memcpy_here) (use pos len fits in simp_all)
  ultimately have "append_bytes data (int (length data)) l = Some ?l"
    by (simp add: append_bytes_def)
  moreover have "buf_inv ?l \<and> queue ?l = qs @ data"
    by (rule buf_invI [where ps = ps and rest = ?w]) (use assms in simp_all)
  ultimately show ?thesis by blast
qed

text \<open>Only the buffer's fields change.\<close>

definition same_link :: "tcp_link \<Rightarrow> tcp_link \<Rightarrow> bool" where
  "same_link l l' \<longleftrightarrow>
    l' = l\<lparr>m_pBuffer := m_pBuffer l', m_nPos := m_nPos l', m_nLen := m_nLen l', m_nCapacity := m_nCapacity l'\<rparr>"

lemma addData_queue:
  assumes inv: "buf_inv l" and len: "length data \<le> 65536"
  shows "\<exists>l'. addData data (int (length data)) l = Some l' \<and> buf_inv l' \<and> same_link l l' \<and>
    queue l' = (if overfull l (length data) then [] else queue l @ data)"
proof -
  from inv obtain ps rest where buf: "m_pBuffer l = map Some ps @ map Some (queue l) @ rest"
    and pos: "m_nPos l = int (length ps)" and n: "m_nLen l = int (length (queue l))"
    and cap: "m_nCapacity l = int (length ps + length (queue l) + length rest)"
      "m_nCapacity l < TCP_LINK_BUFFER_MAX + 65536" by (rule buf_invE)
  show ?thesis
  proof (cases "m_nPos l + m_nLen l + int (length data) \<ge> m_nCapacity l")
    case False
    then have "length data \<le> length rest" using pos n cap(1) by simp
    from append_bytes_ok [OF buf pos n cap this] False show ?thesis
      by (auto simp: addData_def overfull_def same_link_def)
  next
    case full: True
    show ?thesis
    proof (cases "m_nCapacity l \<ge> TCP_LINK_BUFFER_MAX")
      case True
      have "buf_inv (l\<lparr>m_nLen := 0, m_nPos := 0\<rparr>) \<and> queue (l\<lparr>m_nLen := 0, m_nPos := 0\<rparr>) = []"
        by (rule buf_invI [where ps = "[]" and rest = "m_pBuffer l"]) (use buf cap in simp_all)
      with full True show ?thesis by (simp add: addData_def overfull_def same_link_def)
    next
      case False
      let ?c = "m_nPos l + m_nLen l + int (length data)"
      let ?rest = "replicate (length ps + length data) None :: cell list"
      let ?b = "map Some (queue l) @ ?rest"
      let ?l = "l\<lparr>m_nCapacity := ?c, m_nPos := 0, m_pBuffer := ?b\<rparr>"
      have "nat ?c = length (queue l) + (length ps + length data)" using pos n by simp
      then have "malloc ?c = [] @ replicate (length (queue l)) None @ ?rest"
        by (simp only: malloc_def replicate_add append_Nil)
      moreover have "drop (nat (m_nPos l)) (m_pBuffer l) = map Some (queue l) @ rest"
        using buf pos by simp
      moreover have "memcpy ([] @ replicate (length (queue l)) None @ ?rest) 0 (map Some (queue l) @ rest) (m_nLen l) = Some ?b"
        using n by (simp add: memcpy_def)
      ultimately have grow: "memcpy (malloc ?c) 0 (drop (nat (m_nPos l)) (m_pBuffer l)) (m_nLen l) = Some ?b" by simp
      have "\<exists>b. append_bytes data (int (length data)) ?l =
          Some (?l\<lparr>m_pBuffer := b, m_nLen := m_nLen ?l + int (length data)\<rparr>) \<and>
        buf_inv (?l\<lparr>m_pBuffer := b, m_nLen := m_nLen ?l + int (length data)\<rparr>) \<and>
        queue (?l\<lparr>m_pBuffer := b, m_nLen := m_nLen ?l + int (length data)\<rparr>) = queue l @ data"
        by (rule append_bytes_ok [where ps = "[]" and rest = ?rest])
          (use pos n cap len False in \<open>auto simp: tcp_sizes\<close>)
      with full False grow show ?thesis
        by (auto simp: addData_def Let_def overfull_def same_link_def)
    qed
  qed
qed

lemma removeData_queue:
  assumes inv: "buf_inv l" and k: "0 < k"
  shows "\<exists>l'. removeData k l = Some l' \<and> buf_inv l' \<and> same_link l l' \<and> queue l' = drop (nat k) (queue l)"
proof -
  from inv obtain ps rest where buf: "m_pBuffer l = map Some ps @ map Some (queue l) @ rest"
    and pos: "m_nPos l = int (length ps)" and n: "m_nLen l = int (length (queue l))"
    and cap: "m_nCapacity l = int (length ps + length (queue l) + length rest)"
      "m_nCapacity l < TCP_LINK_BUFFER_MAX + 65536" by (rule buf_invE)
  let ?l = "l\<lparr>m_nPos := m_nPos l + k, m_nLen := m_nLen l - k\<rparr>"
  have empty: "buf_inv l' \<and> queue l' = []" if "l' = ?l\<lparr>m_nLen := 0, m_nPos := 0\<rparr>" for l'
    unfolding that by (rule buf_invI [where ps = "[]" and rest = "m_pBuffer l"]) (use buf cap in simp_all)
  consider "k > m_nLen l" | "k = m_nLen l" | "k < m_nLen l" by linarith
  then show ?thesis
  proof cases
    case 1
    with empty [OF refl] n show ?thesis by (auto simp: removeData_def same_link_def)
  next
    case 2
    have "l\<lparr>m_nLen := 0, m_nPos := 0\<rparr> = ?l\<lparr>m_nLen := 0, m_nPos := 0\<rparr>" by simp
    from empty [OF this] 2 n show ?thesis by (auto simp: removeData_def same_link_def)
  next
    case 3
    let ?j = "nat k" and ?q = "drop (nat k) (queue l)"
    have j: "k = int ?j" "?j < length (queue l)" using k 3 n by auto
    have split: "map Some (queue l) = map Some (take ?j (queue l)) @ map Some ?q"
      by (simp flip: map_append)
    show ?thesis
    proof (cases "m_nPos ?l \<ge> m_nLen ?l")
      case False
      have "buf_inv ?l \<and> queue ?l = ?q"
        by (rule buf_invI [where ps = "ps @ take ?j (queue l)" and rest = rest])
          (use buf split pos n cap j in \<open>auto simp: of_nat_diff\<close>)
      with 3 False show ?thesis by (auto simp: removeData_def Let_def same_link_def)
    next
      case True
      let ?tail = "drop (length ?q) (m_pBuffer l)"
      have src: "drop (nat (m_nPos ?l)) (m_pBuffer l) = map Some ?q @ rest"
      proof -
        have "nat (m_nPos ?l) = length ps + ?j" using pos k by (simp add: nat_add_distrib)
        then show ?thesis using j(2) by (simp add: buf drop_map)
      qed
      have q: "m_nLen ?l = int (length ?q)" using n j by simp
      have "memcpy (m_pBuffer l) 0 (map Some ?q @ rest) (int (length ?q)) = Some (map Some ?q @ ?tail)"
        by (simp add: memcpy_def buf)
      moreover have "0 \<le> m_nPos ?l" using pos k by simp
      ultimately have "memcpy_within (m_pBuffer l) 0 (m_nPos ?l) (m_nLen ?l) = Some (map Some ?q @ ?tail)"
        using True by (simp only: memcpy_within_def src q simp_thms if_True add_0)
      moreover have "int (length (m_pBuffer l)) = m_nCapacity l" "length ?q \<le> length (m_pBuffer l)"
        using buf cap by simp_all
      then have "buf_inv (?l\<lparr>m_pBuffer := map Some ?q @ ?tail, m_nPos := 0\<rparr>) \<and>
          queue (?l\<lparr>m_pBuffer := map Some ?q @ ?tail, m_nPos := 0\<rparr>) = ?q"
        by (intro buf_invI [where ps = "[]" and rest = ?tail]) (use q cap(2) in \<open>simp_all add: of_nat_diff\<close>)
      ultimately show ?thesis using 3 True by (auto simp: removeData_def Let_def same_link_def)
    qed
  qed
qed

section \<open>What the handler is given\<close>

lemma those_map_Some [simp]: "those (map Some xs) = Some xs"
  by (induction xs) simp_all

lemma handed_over_prefix:
  assumes "m_pBuffer l = map Some bs @ rest" and "m_nLen l = int n" and "n \<le> length bs"
  shows "handed_over l = Some (take n bs)"
  using assms by (simp add: handed_over_def take_map)

lemma handed_over_defined:
  assumes "buf_inv l"
  shows "\<exists>bs. handed_over l = Some bs \<and> int (length bs) = m_nLen l \<and> (m_nPos l = 0 \<longrightarrow> bs = queue l)"
proof -
  obtain ps rest where l: "m_pBuffer l = map Some ps @ map Some (queue l) @ rest"
    "m_nPos l = int (length ps)" "m_nLen l = int (length (queue l))"
    using assms by (rule buf_invE)
  have "handed_over l = Some (take (length (queue l)) (ps @ queue l))"
    by (rule handed_over_prefix) (use l in simp_all)
  with l show ?thesis by (cases "ps = []") auto
qed

lemma handed_over_small:
  assumes "buf_inv l" and "handed_over l = Some bs"
  shows "length bs < 2 ^ 31"
proof -
  have "int (length bs) = m_nLen l" using handed_over_defined [OF assms(1)] assms(2) by simp
  then show ?thesis using assms(1) by (simp add: buf_inv_def tcp_sizes)
qed

text \<open>
  C12.  The read buffer is a queue: \<open>addData\<close> appends the new bytes, except that a buffer that is
  at its largest size and would be filled drops everything, old and new; \<open>removeData\<close> takes the
  bytes the handler consumed off the front.  No call accesses memory outside the buffer or copies
  between overlapping regions, and the capacity stays below 1 MiB + 64 KiB.
\<close>

theorem buffer_is_queue:
  assumes "buf_inv l"
  shows "(\<forall>data. length data \<le> 65536 \<longrightarrow>
      (\<exists>l'. addData data (int (length data)) l = Some l' \<and> buf_inv l' \<and>
        queue l' = (if overfull l (length data) then [] else queue l @ data))) \<and>
    (\<forall>k > 0. \<exists>l'. removeData k l = Some l' \<and> buf_inv l' \<and> queue l' = drop (nat k) (queue l))"
  using addData_queue [OF assms] removeData_queue [OF assms] by blast

text \<open>A new link's buffer.\<close>

definition empty_link :: "tcp_link \<Rightarrow> tcp_link" where
  "empty_link g = g\<lparr>m_pBuffer := malloc TCP_LINK_BUFFER_DEFAULT, m_nPos := 0, m_nLen := 0,
    m_nCapacity := TCP_LINK_BUFFER_DEFAULT\<rparr>"

lemma empty_link_inv: "buf_inv (empty_link g)" "queue (empty_link g) = []"
proof -
  have "buf_inv (empty_link g) \<and> queue (empty_link g) = []"
    by (rule buf_invI [where ps = "[]" and rest = "malloc TCP_LINK_BUFFER_DEFAULT"])
      (simp_all add: empty_link_def malloc_def tcp_sizes)
  then show "buf_inv (empty_link g)" "queue (empty_link g) = []" by simp_all
qed

lemma buffer_is_queue_witness:
  "\<exists>l'. addData ''abc'' 3 (empty_link blank_link) = Some l' \<and> queue l' = ''abc''"
proof -
  have "\<not> overfull (empty_link blank_link) (length ''abc'')" by (simp add: overfull_def empty_link_def tcp_sizes)
  with buffer_is_queue [OF empty_link_inv(1), of blank_link] empty_link_inv(2) [of blank_link] show ?thesis
    by (elim conjE allE [of _ "''abc''"]) auto
qed

section \<open>A part taken\<close>

text \<open>
  When a handler takes less than half of the queue, the read position moves; the next bytes are put
  behind the rest, but what is handed over then starts at the start of the buffer.
\<close>

lemma part_taken:
  assumes inv: "buf_inv l" and pos: "m_nPos l = 0" and k: "0 < k" "2 * k < length (queue l)"
  shows "removeData (int k) l = Some (l\<lparr>m_nPos := int k, m_nLen := m_nLen l - int k\<rparr>)"
proof -
  have "m_nLen l = int (length (queue l))" using inv by (rule buf_invE)
  with k pos show ?thesis by (auto simp: removeData_def Let_def)
qed

lemma part_taken_more:
  assumes inv: "buf_inv l" and pos: "m_nPos l = 0" and k: "0 < k" "2 * k < length (queue l)"
    and fits: "m_nLen l + int (length data) < m_nCapacity l"
  shows "\<exists>l2. addData data (int (length data)) (l\<lparr>m_nPos := int k, m_nLen := m_nLen l - int k\<rparr>) = Some l2 \<and>
    buf_inv l2 \<and> queue l2 = drop k (queue l) @ data \<and>
    handed_over l2 = Some (take (length (queue l) - k + length data) (queue l @ data))"
proof -
  obtain ps rest where buf: "m_pBuffer l = map Some ps @ map Some (queue l) @ rest" "m_nPos l = int (length ps)"
    "m_nLen l = int (length (queue l))" "m_nCapacity l = int (length ps + length (queue l) + length rest)"
    "m_nCapacity l < TCP_LINK_BUFFER_MAX + 65536"
    using inv by (rule buf_invE)
  have ps: "ps = []" using pos buf(2) by simp
  let ?l1 = "l\<lparr>m_nPos := int k, m_nLen := m_nLen l - int k\<rparr>"
  let ?w = "drop (length data) rest"
  let ?b = "map Some (queue l) @ map Some data @ ?w"
  let ?l2 = "?l1\<lparr>m_pBuffer := ?b, m_nLen := m_nLen l - int k + int (length data)\<rparr>"
  have room: "length data \<le> length rest" using fits buf(3,4) ps by simp
  have "m_pBuffer l = map Some (queue l) @ take (length data) rest @ ?w" using buf(1) ps by simp
  moreover have "memcpy \<dots> (int (length (queue l))) (map Some data) (int (length data)) = Some ?b"
    by (rule memcpy_here) (use room in simp_all)
  ultimately have two: "addData data (int (length data)) ?l1 = Some ?l2"
    using fits buf(3) k by (simp add: addData_def append_bytes_def)
  have "buf_inv ?l2 \<and> queue ?l2 = drop k (queue l) @ data"
    by (rule buf_invI [where ps = "take k (queue l)" and rest = ?w])
      (use buf ps k room in \<open>auto simp: of_nat_diff simp flip: append_assoc map_append\<close>)
  moreover have "handed_over ?l2 = Some (take (length (queue l) - k + length data) (queue l @ data))"
    by (rule handed_over_prefix [where rest = ?w]) (use buf k in \<open>auto simp: of_nat_diff\<close>)
  ultimately show ?thesis using two by blast
qed

end
