(* ===== verification/TcpLink.thy ===== *)
theory TcpLink
  imports TcpBuffer "HOL-Library.Monad_Syntax"
begin

text \<open>
  \<open>class TcpLink\<close> (\<open>src/src/tcplink.cpp\<close>): a client link or the server's end of an accepted
  connection, as operations and libuv callbacks on the link, the network state and the
  application's state.

  \<open>None\<close> is a call through a null pointer or a memory error.  A handler (\<open>ISNLinkHandler\<close>,
  \<open>src/include/isnet.h\<close>) is found through the address in \<open>m_pHandler\<close>; its callbacks may call
  the link's operations.  \<open>inet_addr\<close> is the parameter \<open>aton\<close>.  The constructors start from an
  object of indeterminate fields \<open>g\<close>.  The tests for a null \<open>data\<close> pointer of a handle or request
  are left out: the constructors and \<open>connect\<close> set it before libuv knows the handle.  So are the
  log messages, and \<open>uv_ip4_addr\<close>, whose result only goes to the call that follows it.
\<close>

record 'a tcp =
  net :: net
  link :: tcp_link
  app :: 'a

record 'a link_handler =
  on_connected :: "'a tcp \<Rightarrow> 'a tcp option"
  on_close :: "'a tcp \<Rightarrow> 'a tcp option"
  on_data :: "byte list \<Rightarrow> 'a tcp \<Rightarrow> (int \<times> 'a tcp) option"

record 'a tcp_env =
  answers :: uv_answers
  handler_at :: "nat \<Rightarrow> 'a link_handler"
  aton :: "string \<Rightarrow> u32"

definition on_net :: "(net \<Rightarrow> net) \<Rightarrow> 'a tcp \<Rightarrow> 'a tcp" where
  "on_net f c = c\<lparr>net := f (net c)\<rparr>"

definition on_link :: "(tcp_link \<Rightarrow> tcp_link) \<Rightarrow> 'a tcp \<Rightarrow> 'a tcp" where
  "on_link f c = c\<lparr>link := f (link c)\<rparr>"

section \<open>Construction\<close>

definition TcpLink_client :: "tcp_link \<Rightarrow> net \<Rightarrow> tcp_link \<times> net" where
  "TcpLink_client g n =
    (case LinkidAllocator_next n of (i, n) \<Rightarrow>
     case new_addr n of (t, n) \<Rightarrow>
       (g\<lparr>m_pTcp := None, m_bPeerLink := False, m_bConnected := False, m_bConnecting := False,
          m_pHandler := None, m_nReconnects := 0, m_nReads := 0, m_nSends := 0, m_nSendErrors := 0,
          m_strIP := '''', m_nCapacity := TCP_LINK_BUFFER_DEFAULT,
          m_pBuffer := malloc TCP_LINK_BUFFER_DEFAULT, m_nPos := 0, m_nLen := 0,
          m_nId := i, m_pTimer := Some t\<rparr>,
        uv_do (Uv_timer_init t) n))"

definition TcpLink_peer :: "nat \<Rightarrow> tcp_link \<Rightarrow> net \<Rightarrow> tcp_link \<times> net" where
  "TcpLink_peer tcp g n =
    (case LinkidAllocator_next n of (i, n) \<Rightarrow>
     case new_addr n of (t, n) \<Rightarrow>
       (g\<lparr>m_pTcp := Some tcp, m_bPeerLink := True, m_bConnected := True, m_bConnecting := False,
          m_pHandler := None, m_nReconnects := 0, m_strIP := '''',
          m_nCapacity := TCP_LINK_BUFFER_DEFAULT,
          m_pBuffer := malloc TCP_LINK_BUFFER_DEFAULT, m_nPos := 0, m_nLen := 0,
          m_nId := i, m_pTimer := Some t\<rparr>,
        uv_do (Uv_read_start tcp) (uv_do (Uv_timer_init t) n)))"

text \<open>The destructor; \<open>uv_is_closing\<close> holds of a handle that has been closed.\<close>

definition TcpLink_delete :: "tcp_link \<Rightarrow> net \<Rightarrow> net" where
  "TcpLink_delete l n =
    (let n = (case m_pTimer l of None \<Rightarrow> n | Some t \<Rightarrow> uv_do (Uv_close t) n)
     in case m_pTcp l of
          None \<Rightarrow> n
        | Some h \<Rightarrow> if Uv_close h \<in> set (calls n) then n else uv_do (Uv_close h) n)"

definition set_handler :: "nat option \<Rightarrow> 'a tcp \<Rightarrow> 'a tcp" where
  "set_handler h = on_link (\<lambda>l. l\<lparr>m_pHandler := h\<rparr>)"

section \<open>Operations\<close>

definition start_timer :: "'a tcp \<Rightarrow> 'a tcp option" where
  "start_timer c =
    map_option (\<lambda>t. on_net (uv_do (Uv_timer_start t 1000 1000)) c) (m_pTimer (link c))"

definition stop_timer :: "'a tcp \<Rightarrow> 'a tcp" where
  "stop_timer c =
    (case m_pTimer (link c) of None \<Rightarrow> c | Some t \<Rightarrow> on_net (uv_do (Uv_timer_stop t)) c)"

definition connect :: "'a tcp_env \<Rightarrow> string \<Rightarrow> u16 \<Rightarrow> 'a tcp \<Rightarrow> (int \<times> 'a tcp) option" where
  "connect env ip port c =
    (case new_addr (net c) of (h, n) \<Rightarrow>
     let n = uv_do (Uv_tcp_init h) n
     in case new_addr n of (req, n) \<Rightarrow>
        case uv_ask (answers env) (Uv_tcp_connect h ip port) n of (r, n) \<Rightarrow>
          let c = c\<lparr>net := n, link := (link c)\<lparr>m_strIP := ip, m_nIP := aton env ip, m_bPort := port,
                m_pTcp := Some h, m_bConnecting := True, m_bConnected := False\<rparr>\<rparr>
          in if r \<noteq> 0 then Some (- 1, c) else map_option (\<lambda>c. (0, c)) (start_timer c))"

definition send :: "'a tcp_env \<Rightarrow> byte list \<Rightarrow> 'a tcp \<Rightarrow> (int \<times> 'a tcp) option" where
  "send env data c =
    (case m_pTcp (link c) of
       None \<Rightarrow> Some (- 1, c)
     | Some h \<Rightarrow>
         if m_bConnecting (link c) \<or> \<not> m_bConnected (link c)
         then Some (- 1, on_link (\<lambda>l. l\<lparr>m_nSendErrors := m_nSendErrors l + 1\<rparr>) c)
         else do {
           (mem, buf, n) \<leftarrow> send_buffer data (c_int (length data)) (net c);
           case mem of
             None \<Rightarrow> Some (0, c\<lparr>net := n\<rparr>)
           | Some a \<Rightarrow>
               (case new_addr n of (req, n) \<Rightarrow>
                case uv_ask (answers env) (Uv_write h req buf) n of (r, n) \<Rightarrow>
                  if r \<noteq> 0 then Some (- 1, c\<lparr>net := n\<rparr>)
                  else Some (0, on_link (\<lambda>l. l\<lparr>m_nSends := m_nSends l + 1\<rparr>)
                                  (c\<lparr>net := n\<lparr>pending := (pending n)(req \<mapsto> a)\<rparr>\<rparr>)))
         })"

text \<open>The closing of the handle and the timer, common to \<open>close\<close> and \<open>closeError\<close>.\<close>

definition shut :: "'a tcp \<Rightarrow> 'a tcp" where
  "shut c =
    (let c = on_link (\<lambda>l. l\<lparr>m_bConnected := False\<rparr>) c
     in stop_timer (case m_pTcp (link c) of
          None \<Rightarrow> c
        | Some h \<Rightarrow> on_link (\<lambda>l. l\<lparr>m_pTcp := None\<rparr>) (on_net (uv_do (Uv_close h)) c)))"

definition close :: "'a tcp \<Rightarrow> int \<times> 'a tcp" where
  "close c = (0, shut c)"

text \<open>A callback of the handler, if there is one.\<close>

definition to_handler ::
  "'a tcp_env \<Rightarrow> ('a link_handler \<Rightarrow> 'a tcp \<Rightarrow> 'a tcp option) \<Rightarrow> 'a tcp \<Rightarrow> 'a tcp option"
where
  "to_handler env f c =
    (case m_pHandler (link c) of None \<Rightarrow> Some c | Some h \<Rightarrow> f (handler_at env h) c)"

definition closeError :: "'a tcp_env \<Rightarrow> 'a tcp \<Rightarrow> 'a tcp option" where
  "closeError env c = map_option shut (to_handler env on_close c)"

section \<open>Callbacks\<close>

definition on_connect :: "'a tcp_env \<Rightarrow> int \<Rightarrow> 'a tcp \<Rightarrow> 'a tcp option" where
  "on_connect env status c =
    (if status < 0
     then Some (on_link (\<lambda>l. l\<lparr>m_bConnecting := False, m_bConnected := False,
                  m_nReconnectErrors := m_nReconnectErrors l + 1\<rparr>) c)
     else do {
       c \<leftarrow> to_handler env on_connected (on_link (\<lambda>l. l\<lparr>m_bConnecting := False, m_bConnected := True\<rparr>) c);
       t \<leftarrow> m_pTimer (link c);
       h \<leftarrow> m_pTcp (link c);
       Some (on_net (\<lambda>n. uv_do (Uv_read_start h) (uv_do (Uv_timer_stop t) n)) c)
     })"

text \<open>The static read buffer, allocated once: its address and its size.\<close>

definition on_alloc :: "nat option \<Rightarrow> net \<Rightarrow> (nat \<times> int) \<times> nat option \<times> net" where
  "on_alloc s_pStaticBuf n =
    (case s_pStaticBuf of
       Some b \<Rightarrow> ((b, 64 * 1024), s_pStaticBuf, n)
     | None \<Rightarrow> (case new_addr n of (b, n) \<Rightarrow> ((b, 64 * 1024), Some b, n)))"

text \<open>\<open>buf\<close> are the bytes in the read buffer.\<close>

definition on_read :: "'a tcp_env \<Rightarrow> int \<Rightarrow> byte list \<Rightarrow> 'a tcp \<Rightarrow> 'a tcp option" where
  "on_read env nread buf c0 =
    (let c = on_link (\<lambda>l. l\<lparr>m_nReads := m_nReads l + 1\<rparr>) c0
     in if nread > 0 then do {
          l \<leftarrow> addData buf nread (link c);
          let c = c\<lparr>link := l\<rparr>;
          case m_pHandler l of
            None \<Rightarrow> Some c
          | Some h \<Rightarrow> do {
              bs \<leftarrow> handed_over l;
              (handled_len, c) \<leftarrow> on_data (handler_at env h) bs c;
              if handled_len > 0
              then map_option (\<lambda>l. c\<lparr>link := l\<rparr>) (removeData handled_len (link c))
              else Some c
            }
        }
        else if nread < 0 then
          (if \<not> m_bPeerLink (link c) then start_timer (on_link (\<lambda>l. l\<lparr>m_bConnected := False\<rparr>) c)
           else closeError env c)
        else Some c)"

text \<open>The \<open>SendData\<close> of the request is its entry in \<open>pending\<close>, with this link.\<close>

definition on_write :: "nat \<Rightarrow> int \<Rightarrow> 'a tcp \<Rightarrow> 'a tcp option" where
  "on_write req status c = do {
     n \<leftarrow> release (pending (net c) req) (net c);
     let c = c\<lparr>net := n\<lparr>pending := (pending n)(req := None)\<rparr>\<rparr>;
     if status < 0 then
       (let c = snd (close c) in if \<not> m_bPeerLink (link c) then start_timer c else Some c)
     else Some c
   }"

definition on_timer :: "'a tcp_env \<Rightarrow> 'a tcp \<Rightarrow> 'a tcp option" where
  "on_timer env c =
    (if \<not> m_bConnected (link c) \<and> \<not> m_bConnecting (link c) then do {
       (r, c) \<leftarrow> connect env (m_strIP (link c)) (m_bPort (link c)) c;
       Some (on_link (\<lambda>l. l\<lparr>m_nReconnects := m_nReconnects l + 1\<rparr>) c)
     }
     else Some c)"

section \<open>Events\<close>

datatype tcp_event =
    Call_connect string u16
  | Call_send "byte list"
  | Call_close
  | Connected int
  | Read int "byte list"
  | Written nat int
  | Timer_fired

fun tcp_step :: "'a tcp_env \<Rightarrow> tcp_event \<Rightarrow> 'a tcp \<Rightarrow> 'a tcp option" where
  "tcp_step env (Call_connect ip port) c = map_option snd (connect env ip port c)"
| "tcp_step env (Call_send data) c = map_option snd (send env data c)"
| "tcp_step env Call_close c = Some (snd (close c))"
| "tcp_step env (Connected status) c = on_connect env status c"
| "tcp_step env (Read nread buf) c = on_read env nread buf c"
| "tcp_step env (Written req status) c = on_write req status c"
| "tcp_step env Timer_fired c = on_timer env c"

text \<open>
  What libuv and the caller keep to: a read fills at most the 64 KiB buffer, a request is completed
  once, and the caller sends less than 2 GiB at a time.  A connection may succeed at any time: that
  of a handle which a second \<open>connect\<close> has replaced may do so after \<open>close\<close>.
\<close>

fun allowed :: "tcp_event \<Rightarrow> 'a tcp \<Rightarrow> bool" where
  "allowed (Read nread buf) c \<longleftrightarrow> (nread > 0 \<longrightarrow> nread = int (length buf) \<and> length buf \<le> 65536)"
| "allowed (Written req status) c \<longleftrightarrow> pending (net c) req \<noteq> None"
| "allowed (Call_send data) c \<longleftrightarrow> length data < 2 ^ 31"
| "allowed _ c \<longleftrightarrow> True"

text \<open>
  The misuse: a connection succeeds on a link whose handle is null by the time \<open>on_connected\<close> of its
  handler has returned; \<open>on_connect\<close> then hands the null pointer to \<open>uv_read_start\<close>.
\<close>

definition null_read_start :: "'a tcp_env \<Rightarrow> tcp_event \<Rightarrow> 'a tcp \<Rightarrow> bool" where
  "null_read_start env e c \<longleftrightarrow>
    (case e of
       Connected status \<Rightarrow> 0 \<le> status \<and>
         (\<exists>c'. to_handler env on_connected (on_link (\<lambda>l. l\<lparr>m_bConnecting := False, m_bConnected := True\<rparr>) c) = Some c' \<and>
           m_pTcp (link c') = None)
     | _ \<Rightarrow> False)"

fun tcp_events :: "'a tcp_env \<Rightarrow> tcp_event list \<Rightarrow> 'a tcp \<Rightarrow> 'a tcp option" where
  "tcp_events env [] c = Some c"
| "tcp_events env (e # es) c = Option.bind (tcp_step env e c) (tcp_events env es)"

fun all_allowed :: "'a tcp_env \<Rightarrow> tcp_event list \<Rightarrow> 'a tcp \<Rightarrow> bool" where
  "all_allowed env [] c \<longleftrightarrow> True"
| "all_allowed env (e # es) c \<longleftrightarrow>
    allowed e c \<and> (\<forall>c'. tcp_step env e c = Some c' \<longrightarrow> all_allowed env es c')"

lemma tcp_events_append: "tcp_events env (es @ es') c = Option.bind (tcp_events env es c) (tcp_events env es')"
proof (induction es arbitrary: c)
  case (Cons e es)
  then show ?case by (cases "tcp_step env e c") simp_all
qed simp

lemma all_allowed_prefix: "all_allowed env (es @ es') c \<Longrightarrow> all_allowed env es c"
  by (induction es arbitrary: c) simp_all

section \<open>The invariant of a link\<close>

definition link_ok :: "'a tcp \<Rightarrow> bool" where
  "link_ok c \<longleftrightarrow>
    net_ok (net c) \<and> buf_inv (link c) \<and> m_pTimer (link c) \<noteq> None \<and>
    \<not> (m_bConnected (link c) \<and> m_bConnecting (link c))"

lemma buf_inv_cong:
  "m_pBuffer l' = m_pBuffer l \<Longrightarrow> m_nPos l' = m_nPos l \<Longrightarrow> m_nLen l' = m_nLen l \<Longrightarrow>
    m_nCapacity l' = m_nCapacity l \<Longrightarrow> buf_inv l' = buf_inv l"
  by (simp add: buf_inv_def)

lemma buf_inv_fields [simp]:
  "buf_inv (l\<lparr>m_pTcp := a\<rparr>) = buf_inv l" "buf_inv (l\<lparr>m_bConnected := x\<rparr>) = buf_inv l"
  "buf_inv (l\<lparr>m_bConnecting := x\<rparr>) = buf_inv l" "buf_inv (l\<lparr>m_nReads := v\<rparr>) = buf_inv l"
  "buf_inv (l\<lparr>m_nSends := v\<rparr>) = buf_inv l" "buf_inv (l\<lparr>m_nSendErrors := v\<rparr>) = buf_inv l"
  "buf_inv (l\<lparr>m_nReconnects := v\<rparr>) = buf_inv l" "buf_inv (l\<lparr>m_nReconnectErrors := v\<rparr>) = buf_inv l"
  "buf_inv (l\<lparr>m_pHandler := h\<rparr>) = buf_inv l" "buf_inv (l\<lparr>m_bPort := p\<rparr>) = buf_inv l"
  "buf_inv (l\<lparr>m_strIP := s\<rparr>) = buf_inv l" "buf_inv (l\<lparr>m_nIP := i\<rparr>) = buf_inv l"
  by (rule buf_inv_cong; simp)+

lemma link_ok_do: "link_ok c \<Longrightarrow> sent u = None \<Longrightarrow> link_ok (on_net (uv_do u) c)"
  by (simp add: link_ok_def on_net_def net_ok_do)

lemma link_ok_start_timer:
  assumes "link_ok c"
  shows "\<exists>t. m_pTimer (link c) = Some t \<and>
    start_timer c = Some (on_net (uv_do (Uv_timer_start t 1000 1000)) c) \<and>
    link_ok (on_net (uv_do (Uv_timer_start t 1000 1000)) c)"
proof -
  obtain t where "m_pTimer (link c) = Some t" using assms by (auto simp: link_ok_def)
  with link_ok_do [OF assms, of "Uv_timer_start t 1000 1000"] show ?thesis by (simp add: start_timer_def)
qed

lemma stop_timer_link [simp]: "link (stop_timer c) = link c" "app (stop_timer c) = app c"
  by (simp_all add: stop_timer_def on_net_def split: option.split)

lemma link_ok_stop_timer: "link_ok c \<Longrightarrow> link_ok (stop_timer c)"
  by (simp add: stop_timer_def link_ok_do split: option.split)

lemma shut_eq:
  "shut c = stop_timer (case m_pTcp (link c) of
     None \<Rightarrow> on_link (\<lambda>l. l\<lparr>m_bConnected := False\<rparr>) c
   | Some h \<Rightarrow> on_link (\<lambda>l. l\<lparr>m_bConnected := False, m_pTcp := None\<rparr>) (on_net (uv_do (Uv_close h)) c))"
  by (cases "m_pTcp (link c)") (simp_all add: shut_def on_link_def on_net_def Let_def)

lemma link_ok_down:
  "link_ok c \<Longrightarrow> link_ok (on_link (\<lambda>l. l\<lparr>m_bConnected := False\<rparr>) c)"
  "link_ok c \<Longrightarrow> link_ok (on_link (\<lambda>l. l\<lparr>m_bConnected := False, m_pTcp := None\<rparr>) c)"
  by (simp_all add: link_ok_def on_link_def)

lemma link_ok_shut: "link_ok c \<Longrightarrow> link_ok (shut c)"
  unfolding shut_eq
  by (cases "m_pTcp (link c)") (simp_all add: link_ok_stop_timer link_ok_down link_ok_do)

lemma app_shut [simp]: "app (shut c) = app c" "m_bPeerLink (link (shut c)) = m_bPeerLink (link c)"
  "m_pTcp (link (shut c)) = None" "m_bConnected (link (shut c)) = False"
  "m_pHandler (link (shut c)) = m_pHandler (link c)" "m_nId (link (shut c)) = m_nId (link c)"
  unfolding shut_eq by (cases "m_pTcp (link c)"; simp add: on_link_def on_net_def)+

lemma link_ok_connect:
  assumes "link_ok c"
  shows "\<exists>r c'. connect env ip port c = Some (r, c') \<and> link_ok c' \<and> app c' = app c \<and>
    m_pHandler (link c') = m_pHandler (link c) \<and> m_nId (link c') = m_nId (link c) \<and> m_pTcp (link c') \<noteq> None"
proof -
  have H: "net_ok (net c)" using assms by (simp add: link_ok_def)
  let ?n1 = "uv_do (Uv_tcp_init (next_addr (net c))) ((net c)\<lparr>next_addr := next_addr (net c) + 1\<rparr>)"
  let ?n2 = "?n1\<lparr>next_addr := next_addr ?n1 + 1\<rparr>"
  have n2: "net_ok ?n2" by (intro net_ok_addr net_ok_do H) simp
  obtain r n3 where ask: "uv_ask (answers env) (Uv_tcp_connect (next_addr (net c)) ip port) ?n2 = (r, n3)"
    by (cases "uv_ask (answers env) (Uv_tcp_connect (next_addr (net c)) ip port) ?n2")
  have n3: "net_ok n3" using ask net_ok_do [OF n2] by (auto simp: uv_ask_def)
  let ?c = "c\<lparr>net := n3, link := (link c)\<lparr>m_strIP := ip, m_nIP := aton env ip, m_bPort := port,
    m_pTcp := Some (next_addr (net c)), m_bConnecting := True, m_bConnected := False\<rparr>\<rparr>"
  have ok: "link_ok ?c" using assms n3 by (auto simp: link_ok_def)
  show ?thesis
  proof (cases "r = 0")
    case False
    with ask ok show ?thesis by (simp add: connect_def new_addr_def)
  next
    case True
    with ask link_ok_start_timer [OF ok] show ?thesis by (auto simp: connect_def new_addr_def on_net_def)
  qed
qed

text \<open>What a send does, in every case.\<close>

definition buffered :: "'a tcp \<Rightarrow> 'a tcp \<Rightarrow> bool" where
  "buffered c c' \<longleftrightarrow> app c' = app c \<and> m_pHandler (link c') = m_pHandler (link c) \<and> m_nId (link c') = m_nId (link c)
    \<and> m_pTcp (link c') = m_pTcp (link c) \<and> m_bPeerLink (link c') = m_bPeerLink (link c)
    \<and> m_bConnected (link c') = m_bConnected (link c)"

lemma link_ok_send:
  assumes ok: "link_ok c" and len: "length data < 2 ^ 31"
  shows "\<exists>r c'. send env data c = Some (r, c') \<and> link_ok c' \<and> buffered c c' \<and>
    (r = 0 \<and> length data \<le> 524288 \<longrightarrow>
      (\<exists>h req. m_pTcp (link c) = Some h \<and> calls (net c') = calls (net c) @ [Uv_write h req data] \<and>
        pending (net c') req \<noteq> None)) \<and>
    (m_pTcp (link c) \<noteq> None \<and> m_bConnected (link c) \<and> \<not> m_bConnecting (link c) \<and>
      (\<forall>u. answers env (calls (net c)) u = 0) \<longrightarrow> r = 0)"
proof (cases "m_pTcp (link c)")
  case None
  then show ?thesis using ok by (simp add: send_def buffered_def)
next
  case h: (Some h)
  show ?thesis
  proof (cases "m_bConnecting (link c) \<or> \<not> m_bConnected (link c)")
    case True
    have "link_ok (on_link (\<lambda>l. l\<lparr>m_nSendErrors := m_nSendErrors l + 1\<rparr>) c)"
      using ok by (simp add: link_ok_def on_link_def)
    with True h show ?thesis by (auto simp: send_def buffered_def on_link_def)
  next
    case up: False
    obtain H where H: "net_inv (net c) H" using ok by (auto simp: link_ok_def net_ok_def)
    have i: "c_int (length data) = int (length data)" using len by (rule c_int_small)
    show ?thesis
    proof (cases "length data \<le> 524288")
      case False
      then have "524288 < c_int (length data)" using i by simp
      from send_buffer_big [OF H this, of data] obtain p where
        "send_buffer data (c_int (length data)) (net c) = Some (None, [], (net c)\<lparr>mpool := p\<rparr>)"
        "net_inv ((net c)\<lparr>mpool := p\<rparr>) H" by blast
      with h up ok False show ?thesis by (auto simp: send_def link_ok_def buffered_def dest: net_okI)
    next
      case True
      from send_buffer_ok [OF H, of "c_int (length data)" data] i True obtain a p where
        buf: "send_buffer data (c_int (length data)) (net c) = Some (Some a, data, (net c)\<lparr>mpool := p\<rparr>)"
        and inv: "net_inv ((net c)\<lparr>mpool := p\<rparr>) (insert a H)" "a \<notin> H"
          "take (length data) (block_of p a) = map Some data" by auto
      let ?n = "(net c)\<lparr>mpool := p\<rparr>" and ?req = "next_addr (net c)"
      let ?w = "Uv_write h ?req data"
      let ?n1 = "?n\<lparr>calls := calls ?n @ [?w], next_addr := next_addr ?n + 1\<rparr>"
      have ask: "uv_ask (answers env) ?w (?n\<lparr>next_addr := ?req + 1\<rparr>) = (answers env (calls (net c)) ?w, ?n1)"
        by (simp add: uv_ask_def uv_do_def)
      have failed: "net_inv ?n1 (insert a H)"
        by (rule net_inv_failed [OF inv(1)]) simp
      have queued: "net_inv (?n1\<lparr>pending := (pending ?n)(?req \<mapsto> a)\<rparr>) H"
        using net_inv_queue [OF inv(1,2), of ?w data] inv(3) by simp
      show ?thesis
      proof (cases "answers env (calls (net c)) ?w = 0")
        case False
        then have "send env data c = Some (- 1, c\<lparr>net := ?n1\<rparr>)"
          using h up buf ask by (simp add: send_def new_addr_def)
        with ok failed False h show ?thesis by (auto simp: link_ok_def buffered_def dest: net_okI)
      next
        case sent: True
        then have "send env data c = Some (0, on_link (\<lambda>l. l\<lparr>m_nSends := m_nSends l + 1\<rparr>)
            (c\<lparr>net := ?n1\<lparr>pending := (pending ?n)(?req \<mapsto> a)\<rparr>\<rparr>))"
          using h up buf ask by (simp add: send_def new_addr_def)
        with ok net_okI [OF queued] h show ?thesis by (auto simp: link_ok_def buffered_def on_link_def)
      qed
    qed
  qed
qed

text \<open>Data over 512 KiB is dropped, and the result still says 0.\<close>

lemma send_oversize:
  assumes ok: "link_ok c" and len: "length data < 2 ^ 31" and big: "524288 < length data"
    and up: "m_pTcp (link c) = Some h" "m_bConnected (link c)" "\<not> m_bConnecting (link c)"
    and sent: "send env data c = Some (r, c')"
  shows "r = 0 \<and> calls (net c') = calls (net c)"
proof -
  obtain H where H: "net_inv (net c) H" using ok by (auto simp: link_ok_def net_ok_def)
  have "524288 < c_int (length data)" using c_int_small [OF len] big by simp
  from send_buffer_big [OF H this, of data] up sent show ?thesis by (auto simp: send_def)
qed

lemma same_link_fields:
  assumes "same_link l l'"
  shows "m_pTimer l' = m_pTimer l" "m_bConnected l' = m_bConnected l" "m_bConnecting l' = m_bConnecting l"
    "m_pTcp l' = m_pTcp l" "m_pHandler l' = m_pHandler l" "m_nId l' = m_nId l" "m_bPeerLink l' = m_bPeerLink l"
  using assms [unfolded same_link_def, THEN arg_cong, of m_pTimer]
    assms [unfolded same_link_def, THEN arg_cong, of m_bConnected]
    assms [unfolded same_link_def, THEN arg_cong, of m_bConnecting]
    assms [unfolded same_link_def, THEN arg_cong, of m_pTcp]
    assms [unfolded same_link_def, THEN arg_cong, of m_pHandler]
    assms [unfolded same_link_def, THEN arg_cong, of m_nId]
    assms [unfolded same_link_def, THEN arg_cong, of m_bPeerLink]
  by simp_all

section \<open>The contract of a handler\<close>

text \<open>
  What the link relies on when it calls its handler: the callbacks return, keep the link's
  invariant and the application's invariant \<open>A\<close>.  They may use the link, even close it.
\<close>

locale link_client =
  fixes env :: "'a tcp_env" and A :: "'a \<Rightarrow> bool"
  assumes data_ok:
      "\<lbrakk>link_ok c; A (app c); length bs < 2 ^ 31\<rbrakk> \<Longrightarrow>
        \<exists>v c'. on_data (handler_at env h) bs c = Some (v, c') \<and> link_ok c' \<and> A (app c')"
    and close_ok:
      "\<lbrakk>link_ok c; A (app c)\<rbrakk> \<Longrightarrow>
        \<exists>c'. on_close (handler_at env h) c = Some c' \<and> link_ok c' \<and> A (app c')"
    and connected_ok:
      "\<lbrakk>link_ok c; A (app c)\<rbrakk> \<Longrightarrow>
        \<exists>c'. on_connected (handler_at env h) c = Some c' \<and> link_ok c' \<and> A (app c')"
begin

definition client_ok :: "'a tcp \<Rightarrow> bool" where
  "client_ok c \<longleftrightarrow> link_ok c \<and> A (app c)"

lemma connect_ok:
  assumes "client_ok c"
  shows "\<exists>r c'. connect env ip port c = Some (r, c') \<and> client_ok c'"
  using link_ok_connect [of c env ip port] assms by (auto simp: client_ok_def)

lemma send_ok:
  assumes "client_ok c" and "length data < 2 ^ 31"
  shows "\<exists>r c'. send env data c = Some (r, c') \<and> client_ok c'"
  using link_ok_send [of c data env] assms by (auto simp: client_ok_def buffered_def)

lemma closeError_ok:
  assumes "client_ok c"
  shows "\<exists>c'. closeError env c = Some c' \<and> client_ok c'"
proof (cases "m_pHandler (link c)")
  case None
  with assms show ?thesis by (simp add: closeError_def to_handler_def client_ok_def link_ok_shut)
next
  case (Some h)
  with close_ok [of c h] assms show ?thesis
    by (auto simp: closeError_def to_handler_def client_ok_def link_ok_shut)
qed

lemma on_connect_ok:
  assumes ok: "client_ok c"
  shows "if null_read_start env (Connected status) c then on_connect env status c = None
    else \<exists>c'. on_connect env status c = Some c' \<and> client_ok c'"
proof (cases "status < 0")
  case True
  with ok show ?thesis by (simp add: on_connect_def null_read_start_def client_ok_def link_ok_def on_link_def)
next
  case False
  let ?c = "on_link (\<lambda>l. l\<lparr>m_bConnecting := False, m_bConnected := True\<rparr>) c"
  have c: "link_ok ?c" "A (app ?c)" using ok by (auto simp: client_ok_def link_ok_def on_link_def)
  obtain c' where c': "to_handler env on_connected ?c = Some c'" "link_ok c'" "A (app c')"
    using connected_ok [OF c] c by (cases "m_pHandler (link ?c)") (fastforce simp: to_handler_def)+
  obtain t where t: "m_pTimer (link c') = Some t" using c'(2) by (auto simp: link_ok_def)
  show ?thesis
  proof (cases "m_pTcp (link c')")
    case None
    with c'(1) False t show ?thesis by (simp add: on_connect_def null_read_start_def)
  next
    case (Some h)
    have "link_ok (on_net (\<lambda>n. uv_do (Uv_read_start h) (uv_do (Uv_timer_stop t) n)) c')"
      using link_ok_do [OF link_ok_do [OF c'(2)], of "Uv_timer_stop t" "Uv_read_start h"] by (simp add: on_net_def)
    with False c' t Some show ?thesis
      by (simp add: on_connect_def null_read_start_def client_ok_def on_net_def)
  qed
qed

lemma on_read_ok:
  assumes ok: "client_ok c" and n: "nread > 0 \<longrightarrow> nread = int (length buf) \<and> length buf \<le> 65536"
  shows "\<exists>c'. on_read env nread buf c = Some c' \<and> client_ok c'"
proof -
  let ?c = "on_link (\<lambda>l. l\<lparr>m_nReads := m_nReads l + 1\<rparr>) c"
  have c: "link_ok ?c" "A (app ?c)" using ok by (simp_all add: client_ok_def link_ok_def on_link_def)
  consider "nread > 0" | "nread = 0" | "nread < 0" by linarith
  then show ?thesis
  proof cases
    case 1
    have "buf_inv (link ?c)" using c(1) by (simp add: link_ok_def)
    from addData_queue [OF this] 1 n obtain l where
      l: "addData buf nread (link ?c) = Some l" "buf_inv l" "same_link (link ?c) l" by blast
    let ?d = "?c\<lparr>link := l\<rparr>"
    have d: "link_ok ?d" "A (app ?d)" using c l(2) same_link_fields [OF l(3)] by (simp_all add: link_ok_def)
    obtain bs where bs: "handed_over l = Some bs" using handed_over_defined [OF l(2)] by blast
    have small: "length bs < 2 ^ 31" by (rule handed_over_small [OF l(2) bs])
    show ?thesis
    proof (cases "m_pHandler l")
      case None
      with 1 l d show ?thesis by (simp add: on_read_def client_ok_def)
    next
      case (Some h)
      from data_ok [OF d small, of h] obtain v e where
        e: "on_data (handler_at env h) bs ?d = Some (v, e)" "link_ok e" "A (app e)" by blast
      have "\<exists>l'. removeData v (link e) = Some l' \<and> link_ok (e\<lparr>link := l'\<rparr>)" if "0 < v"
      proof -
        have "buf_inv (link e)" using e(2) by (simp add: link_ok_def)
        from removeData_queue [OF this that] obtain l' where
          l': "removeData v (link e) = Some l'" "buf_inv l'" "same_link (link e) l'" by blast
        with e(2) same_link_fields [OF l'(3)] show ?thesis by (simp add: link_ok_def)
      qed
      with 1 l Some bs e show ?thesis by (auto simp: on_read_def client_ok_def)
    qed
  next
    case 2
    with c show ?thesis by (simp add: on_read_def client_ok_def)
  next
    case 3
    have down: "link_ok (on_link (\<lambda>l. l\<lparr>m_bConnected := False\<rparr>) ?c)" by (rule link_ok_down [OF c(1)])
    show ?thesis
    proof (cases "m_bPeerLink (link c)")
      case True
      with closeError_ok [of ?c] 3 c show ?thesis
        by (simp add: on_read_def client_ok_def Let_def on_link_def)
    next
      case False
      with link_ok_start_timer [OF down] 3 c show ?thesis
        by (auto simp: on_read_def client_ok_def Let_def on_link_def on_net_def)
    qed
  qed
qed

lemma on_write_ok:
  assumes ok: "client_ok c" and r: "pending (net c) req \<noteq> None"
  shows "\<exists>c'. on_write req status c = Some c' \<and> client_ok c'"
proof -
  obtain H where H: "net_inv (net c) H" using ok by (auto simp: client_ok_def link_ok_def net_ok_def)
  obtain a where a: "pending (net c) req = Some a" using r by auto
  from net_inv_done [OF H a] obtain p where
    p: "release (Some a) (net c) = Some ((net c)\<lparr>mpool := p\<rparr>)"
      "net_inv ((net c)\<lparr>mpool := p, pending := (pending (net c))(req := None)\<rparr>) H" by blast
  let ?c = "c\<lparr>net := (net c)\<lparr>mpool := p, pending := (pending (net c))(req := None)\<rparr>\<rparr>"
  have c: "link_ok ?c" "A (app ?c)" using ok net_okI [OF p(2)] by (simp_all add: client_ok_def link_ok_def)
  then have "link_ok (shut ?c)" by (simp add: link_ok_shut)
  from link_ok_start_timer [OF this] this c show ?thesis
    by (cases "status < 0"; cases "m_bPeerLink (link c)")
      (auto simp: on_write_def a p(1) close_def client_ok_def on_net_def Let_def)
qed

lemma on_timer_ok:
  assumes "client_ok c"
  shows "\<exists>c'. on_timer env c = Some c' \<and> client_ok c'"
proof (cases "\<not> m_bConnected (link c) \<and> \<not> m_bConnecting (link c)")
  case True
  from connect_ok [OF assms, of "m_strIP (link c)" "m_bPort (link c)"] obtain r c' where
    "connect env (m_strIP (link c)) (m_bPort (link c)) c = Some (r, c')" "client_ok c'" by blast
  with True show ?thesis by (simp add: on_timer_def client_ok_def link_ok_def on_link_def)
next
  case False
  with assms show ?thesis by (auto simp: on_timer_def)
qed

lemma tcp_step_ok:
  assumes "client_ok c" and "allowed e c"
  shows "if null_read_start env e c then tcp_step env e c = None
    else \<exists>c'. tcp_step env e c = Some c' \<and> client_ok c'"
proof (cases e)
  case (Call_connect ip port)
  with connect_ok [OF assms(1), of ip port] show ?thesis by (auto simp: null_read_start_def)
next
  case (Call_send data)
  with send_ok [OF assms(1), of data] assms(2) show ?thesis by (auto simp: null_read_start_def)
next
  case Call_close
  with assms(1) show ?thesis by (simp add: close_def client_ok_def link_ok_shut null_read_start_def)
next
  case (Connected s)
  with on_connect_ok [OF assms(1), of s] show ?thesis by simp
next
  case (Read n buf)
  with on_read_ok [OF assms(1), of n buf] assms(2) show ?thesis by (simp add: null_read_start_def)
next
  case (Written r s)
  with on_write_ok [OF assms(1), of r s] assms(2) show ?thesis by (simp add: null_read_start_def)
next
  case Timer_fired
  with on_timer_ok [OF assms(1)] show ?thesis by (simp add: null_read_start_def)
qed

lemma tcp_events_prefix_ok:
  "client_ok c \<Longrightarrow> all_allowed env es c \<Longrightarrow> tcp_events env es c = Some d \<Longrightarrow> client_ok d"
proof (induction es arbitrary: c)
  case (Cons e es)
  then obtain c1 where one: "tcp_step env e c = Some c1" "tcp_events env es c1 = Some d" by (auto simp: bind_eq_Some_conv)
  have "client_ok c1" using tcp_step_ok [OF Cons.prems(1), of e] Cons.prems(2) one(1) by (auto split: if_splits)
  with Cons.IH [of c1] Cons.prems(2) one show ?case by simp
qed simp

lemma tcp_events_ok:
  "client_ok c \<Longrightarrow> all_allowed env es c \<Longrightarrow>
    (\<exists>es1 e es2 d. es = es1 @ e # es2 \<and> tcp_events env es1 c = Some d \<and> null_read_start env e d) \<or>
    (\<exists>c'. tcp_events env es c = Some c' \<and> client_ok c')"
proof (induction es arbitrary: c)
  case (Cons e es)
  show ?case
  proof (cases "null_read_start env e c")
    case True
    then have "e # es = [] @ e # es \<and> tcp_events env [] c = Some c \<and> null_read_start env e c" by simp
    then show ?thesis by blast
  next
    case False
    with tcp_step_ok [OF Cons.prems(1), of e] Cons.prems(2) obtain c1 where
      one: "tcp_step env e c = Some c1" "client_ok c1" "all_allowed env es c1" by auto
    from Cons.IH [OF one(2,3)] consider
        (bad) es1 e' es2 d where "es = es1 @ e' # es2" "tcp_events env es1 c1 = Some d" "null_read_start env e' d"
      | (good) c' where "tcp_events env es c1 = Some c'" "client_ok c'" by blast
    then show ?thesis
    proof cases
      case bad
      then have "e # es = (e # es1) @ e' # es2 \<and> tcp_events env (e # es1) c = Some d \<and> null_read_start env e' d"
        using one(1) by simp
      then show ?thesis by blast
    qed (simp add: one(1))
  qed
qed simp

lemma null_read_start_stuck:
  "client_ok d \<Longrightarrow> null_read_start env e d \<Longrightarrow> tcp_step env e d = None"
  using on_connect_ok [of d] by (cases e) (auto simp: null_read_start_def)

lemma tcp_events_safe:
  assumes c: "client_ok c" and all: "all_allowed env es c"
  shows "(tcp_events env es c = None \<longleftrightarrow>
      (\<exists>es1 e es2 d. es = es1 @ e # es2 \<and> tcp_events env es1 c = Some d \<and> null_read_start env e d)) \<and>
    (\<forall>c'. tcp_events env es c = Some c' \<longrightarrow> client_ok c')"
proof -
  have "tcp_events env es c = None"
    if es: "es = es1 @ e # es2" and d: "tcp_events env es1 c = Some d" and bad: "null_read_start env e d" for es1 e es2 d
  proof -
    have pre: "all_allowed env es1 c" using all unfolding es by (rule all_allowed_prefix)
    have "client_ok d" using tcp_events_prefix_ok [OF c pre d] .
    then have "tcp_step env e d = None" using bad by (rule null_read_start_stuck)
    with d show ?thesis by (simp add: es tcp_events_append)
  qed
  with tcp_events_ok [OF c all] show ?thesis by (metis option.distinct(1) option.inject)
qed

end

section \<open>The default handler\<close>

text \<open>The member functions of \<open>ISNLinkHandler\<close> (\<open>src/include/isnet.h\<close>), for a class that overrides none.\<close>

definition default_handler :: "'a link_handler" where
  "default_handler =
    \<lparr>on_connected = (\<lambda>c. Some c), on_close = (\<lambda>c. Some c),
     on_data = (\<lambda>bs c. Some (int (length bs), c))\<rparr>"

definition default_env :: "uv_answers \<Rightarrow> (string \<Rightarrow> u32) \<Rightarrow> 'a tcp_env" where
  "default_env ans inet = \<lparr>answers = ans, handler_at = (\<lambda>_. default_handler), aton = inet\<rparr>"

interpretation default: link_client "default_env ans inet" "\<lambda>_. True"
  by unfold_locales (auto simp: default_env_def default_handler_def)

lemma client_start:
  assumes "net_ok n"
  shows "link_ok \<lparr>net = snd (TcpLink_client g n), link = fst (TcpLink_client g n), app = a\<rparr>"
proof -
  let ?n = "n\<lparr>s_nLastId := s_nLastId n + 1\<rparr>"
  have "net_ok ?n" using assms net_inv_id [of n] by (fastforce simp: net_ok_def LinkidAllocator_next_def)
  then have "net_ok (uv_do (Uv_timer_init (next_addr n)) (?n\<lparr>next_addr := next_addr n + 1\<rparr>))"
    using net_ok_do [OF net_ok_addr [of ?n]] by simp
  moreover have "buf_inv (fst (TcpLink_client g n))"
    using buf_inv_cong [of "fst (TcpLink_client g n)" "empty_link g"] empty_link_inv(1) [of g]
    by (simp add: TcpLink_client_def empty_link_def LinkidAllocator_next_def new_addr_def)
  ultimately show ?thesis
    by (simp add: link_ok_def TcpLink_client_def LinkidAllocator_next_def new_addr_def)
qed

lemma peer_start:
  assumes "net_ok n"
  shows "link_ok \<lparr>net = snd (TcpLink_peer tcp g n), link = fst (TcpLink_peer tcp g n), app = a\<rparr>"
proof -
  let ?n = "n\<lparr>s_nLastId := s_nLastId n + 1\<rparr>"
  have "net_ok ?n" using assms net_inv_id [of n] by (fastforce simp: net_ok_def LinkidAllocator_next_def)
  then have "net_ok (uv_do (Uv_read_start tcp) (uv_do (Uv_timer_init (next_addr n)) (?n\<lparr>next_addr := next_addr n + 1\<rparr>)))"
    using net_ok_do [OF net_ok_do [OF net_ok_addr [of ?n]]] by simp
  moreover have "buf_inv (fst (TcpLink_peer tcp g n))"
    using buf_inv_cong [of "fst (TcpLink_peer tcp g n)" "empty_link g"] empty_link_inv(1) [of g]
    by (simp add: TcpLink_peer_def empty_link_def LinkidAllocator_next_def new_addr_def)
  ultimately show ?thesis
    by (simp add: link_ok_def TcpLink_peer_def LinkidAllocator_next_def new_addr_def)
qed


definition new_client :: "unit tcp" where
  "new_client = \<lparr>net = snd (TcpLink_client blank_link net_start), link = fst (TcpLink_client blank_link net_start), app = ()\<rparr>"

lemma new_client_ok: "link_ok new_client"
  unfolding new_client_def by (rule client_start [OF net_okI [OF net_inv_start]])


section \<open>Sending\<close>

text \<open>
  C24.  \<open>send\<close> on a connected link, up to 512 KiB: when it answers 0, exactly the given bytes are in
  one \<open>uv_write\<close> on the link's handle, and stay in their buffer until that write completes; it
  answers 0 if libuv does.  A link that is not connected answers -1 and sends nothing; a longer block is dropped although the
  answer is 0.
\<close>

theorem send_exact:
  assumes ok: "link_ok c" and len: "length data < 2 ^ 31"
  shows "\<exists>r c'. send env data c = Some (r, c') \<and> link_ok c' \<and>
    (if m_pTcp (link c) = None \<or> m_bConnecting (link c) \<or> \<not> m_bConnected (link c)
     then r = - 1 \<and> calls (net c') = calls (net c)
     else if length data > 524288 then r = 0 \<and> calls (net c') = calls (net c)
     else (r = 0 \<longrightarrow> (\<exists>h req. m_pTcp (link c) = Some h \<and>
       calls (net c') = calls (net c) @ [Uv_write h req data] \<and> pending (net c') req \<noteq> None)) \<and>
      ((\<forall>u. answers env (calls (net c)) u = 0) \<longrightarrow> r = 0))"
proof -
  obtain r c' where r: "send env data c = Some (r, c')" "link_ok c'"
      "r = 0 \<and> length data \<le> 524288 \<longrightarrow>
      (\<exists>h req. m_pTcp (link c) = Some h \<and> calls (net c') = calls (net c) @ [Uv_write h req data] \<and>
        pending (net c') req \<noteq> None)"
      "m_pTcp (link c) \<noteq> None \<and> m_bConnected (link c) \<and> \<not> m_bConnecting (link c) \<and>
        (\<forall>u. answers env (calls (net c)) u = 0) \<longrightarrow> r = 0"
    using link_ok_send [OF ok len, of env] by blast
  have down: "r = - 1 \<and> calls (net c') = calls (net c)"
    if "m_pTcp (link c) = None \<or> m_bConnecting (link c) \<or> \<not> m_bConnected (link c)"
    using r(1) that by (auto simp: send_def on_link_def split: option.splits)
  have big: "r = 0 \<and> calls (net c') = calls (net c)"
    if "m_pTcp (link c) = Some h" "\<not> m_bConnecting (link c)" "m_bConnected (link c)" "524288 < length data" for h
    using send_oversize [OF ok len that(4,1,3,2) r(1)] .
  from r down big show ?thesis by auto
qed

definition up_link :: "tcp_link \<Rightarrow> unit tcp" where
  "up_link g = \<lparr>net = snd (TcpLink_peer 7 g net_start), link = fst (TcpLink_peer 7 g net_start), app = ()\<rparr>"

lemma send_exact_witness:
  "\<exists>c' req. send (default_env (\<lambda>_ _. 0) (\<lambda>_. 0)) ''hello'' (up_link blank_link) = Some (0, c') \<and>
    calls (net c') = [Uv_timer_init 0, Uv_read_start 7, Uv_write 7 req ''hello'']"
proof -
  let ?e = "default_env (\<lambda>_ _. 0) (\<lambda>_. 0) :: unit tcp_env"
  have up: "m_pTcp (link (up_link blank_link)) = Some 7" "m_bConnected (link (up_link blank_link))"
    "\<not> m_bConnecting (link (up_link blank_link))" "calls (net (up_link blank_link)) = [Uv_timer_init 0, Uv_read_start 7]"
    by (simp_all add: up_link_def TcpLink_peer_def LinkidAllocator_next_def new_addr_def uv_do_def net_start_def)
  have "link_ok (up_link blank_link)"
    unfolding up_link_def by (rule peer_start [OF net_okI [OF net_inv_start]])
  from send_exact [OF this, of "''hello''" ?e] up show ?thesis
    by (auto simp: default_env_def)
qed

end
