(* ===== verification/TcpTraffic.thy ===== *)
theory TcpTraffic
  imports TcpLink
begin

section \<open>Receiving\<close>

text \<open>
  A handler that takes everything it is given and works on its own state only.
\<close>

definition takes_all :: "'a tcp_env \<Rightarrow> (byte list \<Rightarrow> 'a \<Rightarrow> 'a) \<Rightarrow> bool" where
  "takes_all env f \<longleftrightarrow>
    (\<forall>h bs c. on_data (handler_at env h) bs c = Some (int (length bs), c\<lparr>app := f bs (app c)\<rparr>))"

lemma queue_length: "buf_inv l \<Longrightarrow> m_nLen l = int (length (queue l))"
  by (erule buf_invE)

lemma read_taken:
  assumes f: "takes_all env f" and ok: "link_ok c" and pos: "m_nPos (link c) = 0" "queue (link c) = []"
    and h: "m_pHandler (link c) \<noteq> None" and bs: "bs \<noteq> []" "length bs \<le> 65536"
  shows "\<exists>c'. on_read env (int (length bs)) bs c = Some c' \<and> link_ok c' \<and> app c' = f bs (app c) \<and>
    m_nPos (link c') = 0 \<and> queue (link c') = [] \<and> m_pHandler (link c') \<noteq> None \<and> net c' = net c"
proof -
  let ?c = "on_link (\<lambda>l. l\<lparr>m_nReads := m_nReads l + 1\<rparr>) c"
  have q: "queue (link ?c) = []" "m_nPos (link ?c) = 0" using pos by (simp_all add: on_link_def queue_def)
  have inv: "buf_inv (link ?c)" using ok by (simp add: link_ok_def on_link_def)
  note l0 = queue_length [OF inv]
  have "\<not> overfull (link ?c) (length bs)"
    using bs l0 q unfolding overfull_def by (auto simp: tcp_sizes)
  with addData_queue [OF inv bs(2)] q obtain l where
    l: "addData bs (int (length bs)) (link ?c) = Some l" "buf_inv l" "same_link (link ?c) l" "queue l = bs"
    by auto
  have pos': "m_nPos l = 0"
    using l(1) q l0 by (auto simp: addData_def append_bytes_def Let_def split: if_splits option.splits)
  from handed_over_defined [OF l(2)] pos' l(4) have give: "handed_over l = Some bs" by auto
  obtain hd where hd: "m_pHandler l = Some hd"
    using h same_link_fields(5) [OF l(3)] by (auto simp: on_link_def)
  have "0 < int (length bs)" using bs by simp
  from removeData_queue [OF l(2) this] l(4) obtain l' where
    l': "removeData (int (length bs)) l = Some l'" "buf_inv l'" "same_link l l'" "queue l' = []" by auto
  have "m_nPos l' = 0"
    using l'(1) l(4) queue_length [OF l(2)] by (auto simp: removeData_def Let_def)
  moreover have "on_read env (int (length bs)) bs c =
      Some (?c\<lparr>link := l', app := f bs (app c)\<rparr>)"
    using bs l(1) hd give f l'(1) by (simp add: on_read_def takes_all_def on_link_def)
  moreover have "link_ok (?c\<lparr>link := l', app := f bs (app c)\<rparr>)"
    using ok l'(2) same_link_fields [OF l(3)] same_link_fields [OF l'(3)] by (simp add: link_ok_def on_link_def)
  ultimately show ?thesis
    using l'(4) hd same_link_fields(5) [OF l'(3)] by (simp add: on_link_def)
qed

definition reads :: "byte list list \<Rightarrow> tcp_event list" where
  "reads bss = map (\<lambda>bs. Read (int (length bs)) bs) bss"

text \<open>
  C25.  With a handler that takes all it is given, every read of 1 to 65536 bytes is passed on as
  it arrives, once and in order, and the buffer is empty again after each, so it never overflows.
\<close>

theorem reads_delivered_in_order:
  assumes "takes_all env f" and "link_ok c" and "m_nPos (link c) = 0" and "queue (link c) = []"
    and "m_pHandler (link c) \<noteq> None" and "\<forall>bs \<in> set bss. bs \<noteq> [] \<and> length bs \<le> 65536"
  shows "\<exists>c'. tcp_events env (reads bss) c = Some c' \<and> app c' = fold f bss (app c) \<and>
    queue (link c') = [] \<and> net c' = net c"
  using assms(2-)
proof (induction bss arbitrary: c)
  case Nil
  then show ?case by (simp add: reads_def)
next
  case (Cons bs bss)
  have bs: "bs \<noteq> []" "length bs \<le> 65536" using Cons.prems(5) by simp_all
  obtain c1 where c1: "on_read env (int (length bs)) bs c = Some c1" "link_ok c1" "app c1 = f bs (app c)"
      "m_nPos (link c1) = 0" "queue (link c1) = []" "m_pHandler (link c1) \<noteq> None" "net c1 = net c"
    using read_taken [OF assms(1) Cons.prems(1-4) bs] by blast
  obtain c' where "tcp_events env (reads bss) c1 = Some c'" "app c' = fold f bss (app c1)"
      "queue (link c') = []" "net c' = net c1"
    using Cons.IH [OF c1(2,4-6)] Cons.prems(5) by auto
  with c1 show ?case by (simp add: reads_def)
qed

definition collecting_env :: "byte list tcp_env" where
  "collecting_env =
    \<lparr>answers = \<lambda>_ _. 0, handler_at = \<lambda>_. \<lparr>on_connected = Some, on_close = Some,
       on_data = (\<lambda>bs c. Some (int (length bs), c\<lparr>app := app c @ bs\<rparr>))\<rparr>, aton = \<lambda>_. 0\<rparr>"

lemma reads_delivered_in_order_witness:
  "\<exists>c'. tcp_events collecting_env (reads [''ab'', ''c''])
      (set_handler (Some 0) \<lparr>net = snd (TcpLink_client blank_link net_start), link = fst (TcpLink_client blank_link net_start), app = []\<rparr>) =
    Some c' \<and> app c' = ''abc''"
proof -
  let ?c = "\<lparr>net = snd (TcpLink_client blank_link net_start), link = fst (TcpLink_client blank_link net_start), app = [] :: byte list\<rparr>"
  have f: "takes_all collecting_env (\<lambda>bs a. a @ bs)" by (simp add: takes_all_def collecting_env_def)
  have "link_ok (set_handler (Some 0) ?c)"
    using client_start [OF net_okI [OF net_inv_start], of blank_link "[]"] by (simp add: link_ok_def set_handler_def on_link_def)
  moreover have "m_nPos (link (set_handler (Some 0) ?c)) = 0" "queue (link (set_handler (Some 0) ?c)) = []"
    "m_pHandler (link (set_handler (Some 0) ?c)) \<noteq> None" "app (set_handler (Some 0) ?c) = []"
    by (simp_all add: set_handler_def on_link_def TcpLink_client_def LinkidAllocator_next_def new_addr_def queue_def)
  ultimately show ?thesis
    using reads_delivered_in_order [OF f, of "set_handler (Some 0) ?c" "[''ab'', ''c'']"] by auto
qed

text \<open>
  A handler that keeps what it is given, and answers how much of it it takes by \<open>v\<close>, a function of
  the bytes and of what it was given before.
\<close>

definition takes :: "byte list list tcp_env \<Rightarrow> (byte list \<Rightarrow> byte list list \<Rightarrow> int) \<Rightarrow> bool" where
  "takes env v \<longleftrightarrow>
    (\<forall>h xs c. on_data (handler_at env h) xs c = Some (v xs (app c), c\<lparr>app := app c @ [xs]\<rparr>))"

lemma read_given:
  assumes v: "takes env v" and h: "m_pHandler (link c) \<noteq> None" and xs: "xs \<noteq> []"
    and add: "addData xs (int (length xs)) ((link c)\<lparr>m_nReads := m_nReads (link c) + 1\<rparr>) = Some l"
    and l: "buf_inv l" "m_pHandler l \<noteq> None" "handed_over l = Some ys"
  shows "\<exists>c'. on_read env (int (length xs)) xs c = Some c' \<and> net c' = net c \<and> app c' = app c @ [ys] \<and>
    (if 0 < v ys (app c) then removeData (v ys (app c)) l = Some (link c') else link c' = l)"
proof -
  from l(2) obtain hd where hd: "m_pHandler l = Some hd" by blast
  have add': "addData xs (int (length xs)) ((link c)\<lparr>m_nReads := 1 + m_nReads (link c)\<rparr>) = Some l"
    using add by (simp add: add.commute)
  show ?thesis
  proof (cases "0 < v ys (app c)")
    case True
    from removeData_queue [OF l(1) True] obtain l' where "removeData (v ys (app c)) l = Some l'" by blast
    with True xs add add' hd l(3) v show ?thesis by (simp add: on_read_def takes_def on_link_def)
  next
    case False
    with xs add add' hd l(3) v show ?thesis by (simp add: on_read_def takes_def on_link_def)
  qed
qed

lemma part_gone:
  "removeData n l = Some l' \<Longrightarrow> m_nPos l = 0 \<Longrightarrow> m_nLen l \<le> 2 * n \<Longrightarrow> m_nPos l' = 0"
  "removeData n l = Some l' \<Longrightarrow> m_nCapacity l' = m_nCapacity l"
  by (auto simp: removeData_def Let_def split: if_splits)

text \<open>
  C27.  Two reads on a link with an empty buffer that has room for both, with a handler that takes
  \<open>k\<close> bytes of the first: if that is nothing, all, or at least half of it, it is given the rest
  together with the second read, as it should be.  If it takes less than half, it is given the \<open>k\<close>
  bytes it already took once more, and the last \<open>k\<close> bytes of the second read are withheld:
  \<open>on_read\<close> passes \<open>m_pBuffer\<close> and not \<open>m_pBuffer + m_nPos\<close>.
\<close>

theorem partial_consumption_replays:
  assumes v: "takes env v" and ok: "link_ok c" and pos: "m_nPos (link c) = 0" "queue (link c) = []"
    and h: "m_pHandler (link c) \<noteq> None"
    and xs: "xs \<noteq> []" "length xs \<le> 65536" and ys: "ys \<noteq> []" "length ys \<le> 65536"
    and room: "int (length xs + length ys) < m_nCapacity (link c)"
    and k: "v xs (app c) = int k" "k \<le> length xs"
  shows "\<exists>c'. tcp_events env (reads [xs, ys]) c = Some c' \<and>
    app c' = app c @ [xs,
      if 0 < k \<and> 2 * k < length xs then take (length xs - k + length ys) (xs @ ys) else drop k xs @ ys]"
proof -
  let ?l0 = "(link c)\<lparr>m_nReads := m_nReads (link c) + 1\<rparr>"
  have inv0: "buf_inv ?l0" using ok by (simp add: link_ok_def)
  have q0: "queue ?l0 = []" "m_nPos ?l0 = 0" using pos by (simp_all add: queue_def)
  note n0 = queue_length [OF inv0]
  have free: "\<not> m_nCapacity ?l0 \<le> m_nPos ?l0 + m_nLen ?l0 + int (length xs)" using n0 q0 room by simp
  then have "\<not> overfull ?l0 (length xs)" by (simp add: overfull_def)
  with addData_queue [OF inv0 xs(2)] q0 obtain l where
    l: "addData xs (int (length xs)) ?l0 = Some l" "buf_inv l" "same_link ?l0 l" "queue l = xs" by auto
  have pos1: "m_nPos l = 0" "m_nCapacity l = m_nCapacity (link c)"
    using l(1) q0 free by (auto simp: addData_def append_bytes_def)
  have h1: "m_pHandler l \<noteq> None" using h same_link_fields(5) [OF l(3)] by simp
  have give: "handed_over l = Some xs" using handed_over_defined [OF l(2)] pos1(1) l(4) by auto
  from read_given [OF v h xs(1) l(1,2) h1 give] obtain c1 where
    c1: "on_read env (int (length xs)) xs c = Some c1" "app c1 = app c @ [xs]"
    and l1: "if 0 < int k then removeData (int k) l = Some (link c1) else link c1 = l"
    by (auto simp: k(1) split: if_splits)
  let ?l1 = "(link c1)\<lparr>m_nReads := m_nReads (link c1) + 1\<rparr>"
  have len: "m_nLen l = int (length xs)" using queue_length [OF l(2)] l(4) by simp
  have "\<exists>l2 zs. addData ys (int (length ys)) ?l1 = Some l2 \<and> buf_inv l2 \<and> m_pHandler l2 \<noteq> None \<and>
      handed_over l2 = Some zs \<and> m_pHandler (link c1) \<noteq> None \<and>
      zs = (if 0 < k \<and> 2 * k < length xs then take (length xs - k + length ys) (xs @ ys) else drop k xs @ ys)"
  proof (cases "0 < k \<and> 2 * k < length xs")
    case True
    let ?m = "l\<lparr>m_nReads := m_nReads l + 1\<rparr>"
    have m: "buf_inv ?m" "m_nPos ?m = 0" "queue ?m = xs" "m_nLen ?m + int (length ys) < m_nCapacity ?m"
      using l(2,4) pos1 len room by (simp_all add: queue_def)
    have "link c1 = l\<lparr>m_nPos := int k, m_nLen := m_nLen l - int k\<rparr>"
      using part_taken [OF l(2) pos1(1), of k] True l1 l(4) by simp
    then have eq: "?l1 = ?m\<lparr>m_nPos := int k, m_nLen := m_nLen ?m - int k\<rparr>" "m_pHandler (link c1) \<noteq> None"
      using h1 by simp_all
    from part_taken_more [OF m(1,2), of k ys] True m(3,4) obtain l2 where
      l2: "addData ys (int (length ys)) ?l1 = Some l2" "buf_inv l2"
        "handed_over l2 = Some (take (length xs - k + length ys) (xs @ ys))" unfolding eq by auto
    have "m_pHandler l2 = m_pHandler ?l1"
      using l2(1) by (auto simp: addData_def append_bytes_def Let_def split: if_splits option.splits)
    with l2 eq(2) True show ?thesis by simp
  next
    case False
    have part: "buf_inv (link c1) \<and> queue (link c1) = drop k xs \<and> m_nPos (link c1) = 0 \<and>
      m_nCapacity (link c1) = m_nCapacity (link c) \<and> m_pHandler (link c1) \<noteq> None"
    proof (cases "k = 0")
      case True
      with l1 l(2,4) pos1 h1 show ?thesis by simp
    next
      case nonzero: False
      then have r: "removeData (int k) l = Some (link c1)" using l1 by simp
      have "0 < int k" using nonzero by simp
      from removeData_queue [OF l(2) this] r l(4) have
        "buf_inv (link c1)" "queue (link c1) = drop k xs" "same_link l (link c1)" by auto
      moreover have "m_nPos (link c1) = 0" "m_nCapacity (link c1) = m_nCapacity l"
        using part_gone [OF r] nonzero False pos1(1) len k(2) by auto
      ultimately show ?thesis using pos1(2) h1 same_link_fields(5) by metis
    qed
    have inv1: "buf_inv ?l1" using part by simp
    have "queue ?l1 = queue (link c1)" by (simp add: queue_def)
    then have q1: "queue ?l1 = drop k xs" "m_nPos ?l1 = 0" using part by simp_all
    have "\<not> m_nCapacity ?l1 \<le> m_nPos ?l1 + m_nLen ?l1 + int (length ys)"
      using queue_length [OF inv1] q1 room part by simp
    then have free1: "\<not> overfull ?l1 (length ys)" "\<not> m_nCapacity ?l1 \<le> m_nPos ?l1 + m_nLen ?l1 + int (length ys)"
      by (simp_all add: overfull_def)
    from addData_queue [OF inv1 ys(2)] free1(1) q1 obtain l2 where
      l2: "addData ys (int (length ys)) ?l1 = Some l2" "buf_inv l2" "same_link ?l1 l2" "queue l2 = drop k xs @ ys" by auto
    have "m_nPos l2 = 0" using l2(1) q1 free1(2) by (auto simp: addData_def append_bytes_def)
    with handed_over_defined [OF l2(2)] l2(4) have "handed_over l2 = Some (drop k xs @ ys)" by auto
    with l2 part False same_link_fields(5) [OF l2(3)] show ?thesis by auto
  qed
  then obtain l2 zs where l2: "addData ys (int (length ys)) ?l1 = Some l2" "buf_inv l2" "m_pHandler l2 \<noteq> None"
    "handed_over l2 = Some zs" "m_pHandler (link c1) \<noteq> None"
    and zs: "zs = (if 0 < k \<and> 2 * k < length xs then take (length xs - k + length ys) (xs @ ys) else drop k xs @ ys)"
    by blast
  from read_given [OF v l2(5) ys(1) l2(1-4)] obtain c' where
    "on_read env (int (length ys)) ys c1 = Some c'" "app c' = app c1 @ [zs]" by blast
  with c1 zs show ?thesis by (simp add: reads_def)
qed

text \<open>One byte of four taken: it comes again, and the last byte of the second read is missing.\<close>

definition one_byte_env :: "byte list list tcp_env" where
  "one_byte_env =
    \<lparr>answers = \<lambda>_ _. 0, handler_at = \<lambda>_. \<lparr>on_connected = Some, on_close = Some,
       on_data = (\<lambda>xs c. Some (1, c\<lparr>app := app c @ [xs]\<rparr>))\<rparr>, aton = \<lambda>_. 0\<rparr>"

lemma partial_consumption_replays_witness:
  "\<exists>c'. tcp_events one_byte_env (reads [''abcd'', ''ef''])
      (set_handler (Some 0) \<lparr>net = snd (TcpLink_client blank_link net_start), link = fst (TcpLink_client blank_link net_start), app = []\<rparr>) =
    Some c' \<and> app c' = [''abcd'', ''abcde'']"
proof -
  let ?c = "set_handler (Some 0) \<lparr>net = snd (TcpLink_client blank_link net_start), link = fst (TcpLink_client blank_link net_start),
    app = [] :: byte list list\<rparr>"
  have v: "takes one_byte_env (\<lambda>xs a. 1)" by (simp add: takes_def one_byte_env_def)
  have ok: "link_ok ?c"
    using client_start [OF net_okI [OF net_inv_start], of blank_link "[] :: byte list list"]
    by (simp add: link_ok_def set_handler_def on_link_def)
  have f: "m_nPos (link ?c) = 0" "queue (link ?c) = []" "m_pHandler (link ?c) \<noteq> None" "app ?c = []" "6 < m_nCapacity (link ?c)"
    by (simp_all add: set_handler_def on_link_def TcpLink_client_def LinkidAllocator_next_def new_addr_def queue_def tcp_sizes)
  show ?thesis
    using partial_consumption_replays [OF v ok f(1-3), of "''abcd''" "''ef''" 1] f(4,5) by simp
qed

section \<open>Reconnecting\<close>

text \<open>
  C26.  A client link whose connection fails while it is up tries again: the read error starts the
  one-second timer, and the next tick of the timer connects to the same address and port (with a
  new handle; the old one is never closed).
\<close>

theorem read_error_reconnects:
  assumes ok: "link_ok c" and client: "\<not> m_bPeerLink (link c)" and up: "m_bConnected (link c)"
    and err: "nread < 0"
  shows "\<exists>c1 c2 t h. tcp_step env (Read nread buf) c = Some c1 \<and> tcp_step env Timer_fired c1 = Some c2 \<and>
    m_pTimer (link c) = Some t \<and> m_pTcp (link c2) = Some h \<and> m_bConnecting (link c2) \<and>
    (\<exists>rest. calls (net c2) = calls (net c) @ [Uv_timer_start t 1000 1000, Uv_tcp_init h,
       Uv_tcp_connect h (m_strIP (link c)) (m_bPort (link c))] @ rest \<and>
       (\<forall>u \<in> set rest. \<exists>t. u = Uv_timer_start t 1000 1000))"
proof -
  obtain t where t: "m_pTimer (link c) = Some t" using ok by (auto simp: link_ok_def)
  have idle: "\<not> m_bConnecting (link c)" using ok up by (simp add: link_ok_def)
  let ?c1 = "on_net (uv_do (Uv_timer_start t 1000 1000))
    (on_link (\<lambda>l. l\<lparr>m_nReads := m_nReads l + 1, m_bConnected := False\<rparr>) c)"
  have one: "on_read env nread buf c = Some ?c1"
    using err client t by (simp add: on_read_def Let_def start_timer_def on_link_def on_net_def)
  have "link_ok (on_link (\<lambda>l. l\<lparr>m_nReads := m_nReads l + 1, m_bConnected := False\<rparr>) c)"
    using ok by (simp add: link_ok_def on_link_def)
  then have "link_ok ?c1" by (rule link_ok_do) simp
  from link_ok_connect [OF this, of env "m_strIP (link c)" "m_bPort (link c)"] obtain r c2 where
    c2: "connect env (m_strIP (link c)) (m_bPort (link c)) ?c1 = Some (r, c2)" by blast
  have same: "m_strIP (link ?c1) = m_strIP (link c)" "m_bPort (link ?c1) = m_bPort (link c)"
    "\<not> m_bConnected (link ?c1)" "\<not> m_bConnecting (link ?c1)"
    using idle by (simp_all add: on_link_def on_net_def)
  have two: "on_timer env ?c1 = Some (on_link (\<lambda>l. l\<lparr>m_nReconnects := m_nReconnects l + 1\<rparr>) c2)"
    using c2 unfolding on_timer_def same by (simp add: same)
  have "m_pTcp (link c2) = Some (next_addr (net c)) \<and> m_bConnecting (link c2) \<and>
    (\<exists>rest. calls (net c2) = calls (net c) @ [Uv_timer_start t 1000 1000, Uv_tcp_init (next_addr (net c)),
       Uv_tcp_connect (next_addr (net c)) (m_strIP (link c)) (m_bPort (link c))] @ rest \<and>
       (\<forall>u \<in> set rest. \<exists>t. u = Uv_timer_start t 1000 1000))"
    using c2 t
    by (auto simp: connect_def new_addr_def uv_ask_def Let_def start_timer_def on_net_def on_link_def uv_do_def
        split: if_splits)
  with one two t show ?thesis by (auto simp: on_link_def)
qed

lemma read_error_reconnects_witness:
  "\<exists>(c :: unit tcp) c1 c2. tcp_step (default_env (\<lambda>_ _. 0) (\<lambda>_. 0)) (Read (- 4095) []) c = Some c1 \<and>
    tcp_step (default_env (\<lambda>_ _. 0) (\<lambda>_. 0)) Timer_fired c1 = Some c2 \<and> m_bConnecting (link c2)"
proof -
  let ?c = "\<lparr>net = snd (TcpLink_client blank_link net_start),
    link = (fst (TcpLink_client blank_link net_start))\<lparr>m_bConnected := True\<rparr>, app = ()\<rparr>"
  have "\<not> m_bConnecting (fst (TcpLink_client blank_link net_start))"
    by (simp add: TcpLink_client_def LinkidAllocator_next_def new_addr_def)
  then have "link_ok ?c"
    using client_start [OF net_okI [OF net_inv_start], of blank_link "()"] by (simp add: link_ok_def)
  moreover have "\<not> m_bPeerLink (link ?c)" "m_bConnected (link ?c)"
    by (simp_all add: TcpLink_client_def LinkidAllocator_next_def new_addr_def)
  moreover have "(- 4095 :: int) < 0" by simp
  ultimately show ?thesis
    using read_error_reconnects [of ?c "- 4095" "default_env (\<lambda>_ _. 0) (\<lambda>_. 0)" "[]"] by fast
qed

text \<open>
  C28.  A client link whose \<open>uv_tcp_connect\<close> fails at once answers -1 and is stuck: it stays
  \<open>m_bConnecting\<close>, so that no tick of the timer, however many come, tries again.
\<close>

theorem failed_connect_never_retries:
  assumes "connect env ip port c = Some (- 1, c')"
  shows "tcp_events env (replicate k Timer_fired) c' = Some c'"
proof -
  have "m_bConnecting (link c')"
    using assms by (auto simp: connect_def new_addr_def uv_ask_def Let_def start_timer_def split: if_splits)
  then have "on_timer env c' = Some c'" by (simp add: on_timer_def)
  then show ?thesis by (induction k) simp_all
qed

lemma failed_connect_never_retries_witness:
  "\<exists>c'. connect (default_env (\<lambda>_ _. - 101) (\<lambda>_. 0)) ''1.2.3.4'' 80 (up_link blank_link) = Some (- 1, c') \<and>
    tcp_events (default_env (\<lambda>_ _. - 101) (\<lambda>_. 0)) (replicate 5 Timer_fired) c' = Some c'"
proof -
  have "\<exists>c'. connect (default_env (\<lambda>_ _. - 101) (\<lambda>_. 0)) ''1.2.3.4'' 80 (up_link blank_link) = Some (- 1, c')"
    by (simp add: connect_def new_addr_def uv_ask_def Let_def default_env_def)
  then show ?thesis using failed_connect_never_retries by blast
qed

text \<open>
  C29.  Closing a client link does not keep it closed while a write is pending: libuv completes
  the write with an error, which starts the timer again, and its next tick opens a new connection.
\<close>

theorem close_reopens_with_pending_write:
  assumes ok: "link_ok c" and client: "\<not> m_bPeerLink (link c)" and up: "m_bConnected (link c)"
    and req: "pending (net c) req \<noteq> None" and status: "status < 0"
  shows "\<exists>c1 c2. on_write req status (snd (close c)) = Some c1 \<and> on_timer env c1 = Some c2 \<and>
    m_bConnecting (link c2) \<and>
    (\<exists>h. m_pTcp (link c2) = Some h \<and> Uv_tcp_connect h (m_strIP (link c)) (m_bPort (link c)) \<in> set (calls (net c2)))"
proof -
  have idle: "\<not> m_bConnecting (link c)" using ok up by (simp add: link_ok_def)
  have shut_fields: "pending (net (shut c)) = pending (net c)" "m_bConnecting (link (shut c)) = m_bConnecting (link c)"
    "m_strIP (link (shut c)) = m_strIP (link c)" "m_bPort (link (shut c)) = m_bPort (link c)" for c :: "'a tcp"
    unfolding shut_eq
    by (cases "m_pTcp (link c)"; cases "m_pTimer (link c)"; simp add: stop_timer_def on_link_def on_net_def uv_do_def)+
  obtain a where a: "pending (net (shut c)) req = Some a" using req by (auto simp: shut_fields)
  have ok': "link_ok (shut c)" by (rule link_ok_shut [OF ok])
  then obtain H where H: "net_inv (net (shut c)) H" by (auto simp: link_ok_def net_ok_def)
  from net_inv_done [OF H a] obtain p where
    p: "release (Some a) (net (shut c)) = Some ((net (shut c))\<lparr>mpool := p\<rparr>)"
      "net_inv ((net (shut c))\<lparr>mpool := p, pending := (pending (net (shut c)))(req := None)\<rparr>) H" by blast
  let ?d = "(shut c)\<lparr>net := (net (shut c))\<lparr>mpool := p, pending := (pending (net (shut c)))(req := None)\<rparr>\<rparr>"
  have "link_ok ?d" using ok' net_okI [OF p(2)] by (simp add: link_ok_def)
  from link_ok_start_timer [OF link_ok_shut [OF this]] obtain t where
    c1: "start_timer (shut ?d) = Some (on_net (uv_do (Uv_timer_start t 1000 1000)) (shut ?d))"
      "link_ok (on_net (uv_do (Uv_timer_start t 1000 1000)) (shut ?d))" by blast
  let ?c1 = "on_net (uv_do (Uv_timer_start t 1000 1000)) (shut ?d)"
  have one: "on_write req status (snd (close c)) = Some ?c1"
    using a p(1) status client c1(1) by (simp add: on_write_def close_def Let_def)
  have f: "\<not> m_bConnected (link ?c1)" "\<not> m_bConnecting (link ?c1)" "m_strIP (link ?c1) = m_strIP (link c)"
    "m_bPort (link ?c1) = m_bPort (link c)"
    using idle by (simp_all add: on_net_def shut_fields)
  from link_ok_connect [OF c1(2), of env "m_strIP (link c)" "m_bPort (link c)"] obtain r c2 where
    c2: "connect env (m_strIP (link c)) (m_bPort (link c)) ?c1 = Some (r, c2)" by blast
  have "m_bConnecting (link c2) \<and>
    (\<exists>h. m_pTcp (link c2) = Some h \<and> Uv_tcp_connect h (m_strIP (link c)) (m_bPort (link c)) \<in> set (calls (net c2)))"
    using c2
    by (auto simp: connect_def new_addr_def uv_ask_def Let_def start_timer_def on_net_def uv_do_def split: if_splits)
  moreover have "on_timer env ?c1 = Some (on_link (\<lambda>l. l\<lparr>m_nReconnects := m_nReconnects l + 1\<rparr>) c2)"
    using c2 f by (simp add: on_timer_def)
  ultimately show ?thesis using one by (auto simp: on_link_def)
qed

lemma close_reopens_with_pending_write_witness:
  "\<exists>(c :: unit tcp) req c1 c2. on_write req (- 125) (snd (close c)) = Some c1 \<and>
    on_timer (default_env (\<lambda>_ _. 0) (\<lambda>_. 0)) c1 = Some c2 \<and> m_bConnecting (link c2)"
proof -
  let ?e = "default_env (\<lambda>_ _. 0) (\<lambda>_. 0) :: unit tcp_env"
  let ?c0 = "\<lparr>net = snd (TcpLink_client blank_link net_start),
    link = (fst (TcpLink_client blank_link net_start))\<lparr>m_bConnected := True, m_pTcp := Some 9\<rparr>, app = ()\<rparr>"
  have f: "\<not> m_bConnecting (fst (TcpLink_client blank_link net_start))" "\<not> m_bPeerLink (fst (TcpLink_client blank_link net_start))"
    by (simp_all add: TcpLink_client_def LinkidAllocator_next_def new_addr_def)
  then have "link_ok ?c0"
    using client_start [OF net_okI [OF net_inv_start], of blank_link "()"] by (simp add: link_ok_def)
  from link_ok_send [OF this, of "''x''" ?e] f obtain c' req where
    c': "link_ok c'" "buffered ?c0 c'" "pending (net c') req \<noteq> None"
    by (auto simp: default_env_def)
  have "m_bConnected (link c')" "\<not> m_bPeerLink (link c')"
    using c'(2) f by (simp_all add: buffered_def)
  moreover have "(- 125 :: int) < 0" by simp
  ultimately show ?thesis
    using close_reopens_with_pending_write [OF c'(1) _ _ c'(3), of "- 125" ?e] by blast
qed

end
