(* ===== verification/UdpLink.thy ===== *)
theory UdpLink
  imports Net "HOL-Library.Monad_Syntax"
begin

text \<open>
  \<open>class UdpLink\<close> (\<open>src/src/udplink.cpp\<close>): a UDP client.  A datagram is first offered to
  \<open>uv_udp_try_send\<close>; if that does not take it, it is queued with \<open>uv_udp_send\<close>, and its buffer
  belongs to the request until \<open>on_send\<close>.

  As for TCP, \<open>None\<close> is a null or stale pointer, the handler is found through its address, the
  constructor starts from indeterminate fields \<open>g\<close>, and log messages (with the queue length they
  ask libuv for) are left out.  The field \<open>m_readBuf\<close> is never used.  The host stores numbers
  least significant byte first, so \<open>htons\<close> and \<open>htonl\<close> reverse the bytes.
\<close>

definition htons :: "u16 \<Rightarrow> u16" where
  "htons x = push_bit 8 x OR drop_bit 8 x"

definition htonl :: "u32 \<Rightarrow> u32" where
  "htonl x =
    push_bit 24 (take_bit 8 x) OR push_bit 16 (take_bit 8 (drop_bit 8 x)) OR
    push_bit 8 (take_bit 8 (drop_bit 16 x)) OR take_bit 8 (drop_bit 24 x)"

text \<open>An address as it stands in a \<open>sockaddr_in\<close>: \<open>s_addr\<close> and \<open>sin_port\<close>.\<close>

type_synonym sockaddr = "u32 \<times> u16"

record udp_link =
  m_pUdp :: "nat option"
  m_nId :: u32
  m_strIP :: string
  m_nIP :: u32
  m_bPort :: u16
  m_pHandler :: "nat option"
  m_peer_addr :: sockaddr
  m_nLastErrorLogStamp :: u64
  m_nSends :: u64
  m_nReads :: u64

record 'a udp =
  net :: net
  link :: udp_link
  app :: 'a

record 'a udp_handler =
  on_close :: "'a udp \<Rightarrow> 'a udp option"
  on_data :: "byte list \<Rightarrow> 'a udp \<Rightarrow> (int \<times> 'a udp) option"

record 'a udp_env =
  answers :: uv_answers
  handler_at :: "nat \<Rightarrow> 'a udp_handler"
  aton :: "string \<Rightarrow> u32"

definition on_udp :: "(udp_link \<Rightarrow> udp_link) \<Rightarrow> 'a udp \<Rightarrow> 'a udp" where
  "on_udp f c = c\<lparr>link := f (link c)\<rparr>"

section \<open>The class\<close>

definition UdpLink_new :: "udp_link \<Rightarrow> net \<Rightarrow> udp_link \<times> net" where
  "UdpLink_new g n =
    (case LinkidAllocator_next n of (i, n) \<Rightarrow>
       (g\<lparr>m_nLastErrorLogStamp := 0, m_pUdp := None, m_pHandler := None, m_nSends := 0, m_nReads := 0,
          m_strIP := [], m_nId := i\<rparr>, n))"

definition UdpLink_set_handler :: "nat option \<Rightarrow> 'a udp \<Rightarrow> 'a udp" where
  "UdpLink_set_handler h = on_udp (\<lambda>l. l\<lparr>m_pHandler := h\<rparr>)"

definition UdpLink_connect :: "'a udp_env \<Rightarrow> string \<Rightarrow> u16 \<Rightarrow> 'a udp \<Rightarrow> int \<times> 'a udp" where
  "UdpLink_connect env ip port c =
    (let nIP = aton env ip
     in case new_addr (net c) of (h, n) \<Rightarrow>
       let n = uv_do (Uv_udp_init h) n;
           n = uv_do (Uv_udp_connect h ip port) n;
           n = uv_do (Uv_udp_recv_start h) n
       in (0, c\<lparr>net := n, link := (link c)\<lparr>m_strIP := ip, m_nIP := nIP, m_bPort := port,
                 m_peer_addr := (htonl nIP, htons port), m_pUdp := Some h\<rparr>\<rparr>))"

text \<open>
  \<open>uv_udp_send\<close> with a new request that keeps the \<open>MemItem\<close> at \<open>a\<close>.  Its result is ignored; if
  libuv refuses, no callback will come.
\<close>

definition udp_queue ::
  "uv_answers \<Rightarrow> nat \<Rightarrow> nat \<Rightarrow> byte list \<Rightarrow> sockaddr option \<Rightarrow> net \<Rightarrow> net"
where
  "udp_queue ans h a buf dest n =
    (case new_addr n of (req, n) \<Rightarrow>
     case uv_ask ans (Uv_udp_send h req buf dest) n of (r, n) \<Rightarrow>
       if r = 0 then n\<lparr>pending := (pending n)(req \<mapsto> a)\<rparr> else n)"

text \<open>What the two \<open>send\<close>s share, from \<open>MemPool::get\<close> on.\<close>

definition udp_transmit ::
  "uv_answers \<Rightarrow> nat \<Rightarrow> byte list \<Rightarrow> sockaddr option \<Rightarrow> net \<Rightarrow> (int \<times> net) option"
where
  "udp_transmit ans h data dest n = do {
     (mem, buf, n) \<leftarrow> send_buffer data (c_int (length data)) n;
     case mem of
       None \<Rightarrow> Some (0, n)
     | Some a \<Rightarrow>
         (case uv_ask ans (Uv_udp_try_send h buf dest) n of (sent_bytes, n) \<Rightarrow>
            if sent_bytes \<le> 0 then Some (sent_bytes, udp_queue ans h a buf dest n)
            else map_option (Pair sent_bytes) (release (Some a) n))
   }"

definition UdpLink_send :: "'a udp_env \<Rightarrow> byte list \<Rightarrow> 'a udp \<Rightarrow> (int \<times> 'a udp) option" where
  "UdpLink_send env data c =
    (case m_pUdp (link c) of
       None \<Rightarrow> Some (- 1, c)
     | Some h \<Rightarrow>
         let c = on_udp (\<lambda>l. l\<lparr>m_nSends := m_nSends l + 1\<rparr>) c
         in map_option (\<lambda>(r, n). (r, c\<lparr>net := n\<rparr>)) (udp_transmit (answers env) h data None (net c)))"

definition UdpLink_send_to ::
  "'a udp_env \<Rightarrow> byte list \<Rightarrow> u32 \<Rightarrow> u16 \<Rightarrow> 'a udp \<Rightarrow> (int \<times> 'a udp) option"
where
  "UdpLink_send_to env data ip port c =
    (case m_pUdp (link c) of
       None \<Rightarrow> Some (- 1, c)
     | Some h \<Rightarrow>
         let c = on_udp (\<lambda>l. l\<lparr>m_nSends := m_nSends l + 1\<rparr>) c
         in map_option (\<lambda>(r, n). (r, c\<lparr>net := n\<rparr>))
              (udp_transmit (answers env) h data (Some (htonl ip, htons port)) (net c)))"

definition UdpLink_close :: "'a udp_env \<Rightarrow> 'a udp \<Rightarrow> (int \<times> 'a udp) option" where
  "UdpLink_close env c = do {
     c \<leftarrow> (case m_pHandler (link c) of None \<Rightarrow> Some c | Some h \<Rightarrow> on_close (handler_at env h) c);
     case m_pUdp (link c) of
       None \<Rightarrow> Some (0, c)
     | Some h \<Rightarrow> Some (0, on_udp (\<lambda>l. l\<lparr>m_pUdp := None\<rparr>) (c\<lparr>net := uv_do (Uv_close h) (net c)\<rparr>))
   }"

text \<open>The destructor.\<close>

definition UdpLink_delete :: "'a udp_env \<Rightarrow> 'a udp \<Rightarrow> 'a udp option" where
  "UdpLink_delete env c = map_option snd (UdpLink_close env c)"

definition UdpLink_on_alloc :: "nat option \<Rightarrow> net \<Rightarrow> (nat \<times> int) \<times> nat option \<times> net" where
  "UdpLink_on_alloc s_pStaticBuf n =
    (case s_pStaticBuf of
       Some b \<Rightarrow> ((b, 64 * 1024), s_pStaticBuf, n)
     | None \<Rightarrow> (case new_addr n of (b, n) \<Rightarrow> ((b, 64 * 1024), Some b, n)))"

definition UdpLink_on_send :: "nat \<Rightarrow> int \<Rightarrow> net \<Rightarrow> net option" where
  "UdpLink_on_send req status n =
    map_option (\<lambda>n. n\<lparr>pending := (pending n)(req := None)\<rparr>) (release (pending n req) n)"

definition UdpLink_on_read :: "'a udp_env \<Rightarrow> int \<Rightarrow> byte list \<Rightarrow> 'a udp \<Rightarrow> 'a udp option" where
  "UdpLink_on_read env nread buf c =
    (if nread > 0 then
       (let c = on_udp (\<lambda>l. l\<lparr>m_nReads := m_nReads l + 1\<rparr>) c
        in case m_pHandler (link c) of
             None \<Rightarrow> Some c
           | Some h \<Rightarrow> map_option snd (on_data (handler_at env h) buf c))
     else Some c)"

section \<open>Sending\<close>

text \<open>Queueing keeps the network's invariant; the buffer is pending, or lost if libuv refuses.\<close>

lemma udp_queue_ok:
  assumes inv: "net_inv n (insert a H)" "a \<notin> H" and block: "take (length buf) (block_of (mpool n) a) = map Some buf"
  shows "net_ok (udp_queue ans h a buf dest n)"
    and "calls (udp_queue ans h a buf dest n) = calls n @ [Uv_udp_send h (next_addr n) buf dest]"
    and "ans (calls n) (Uv_udp_send h (next_addr n) buf dest) = 0 \<Longrightarrow>
      pending (udp_queue ans h a buf dest n) = (pending n)(next_addr n \<mapsto> a)"
    and "ans (calls n) (Uv_udp_send h (next_addr n) buf dest) \<noteq> 0 \<Longrightarrow>
      pending (udp_queue ans h a buf dest n) = pending n"
proof -
  let ?u = "Uv_udp_send h (next_addr n) buf dest"
  have q: "net_inv (n\<lparr>calls := calls n @ [?u], next_addr := next_addr n + 1, pending := (pending n)(next_addr n \<mapsto> a)\<rparr>) H"
    by (rule net_inv_queue [OF inv _ block]) simp
  have f: "net_inv (n\<lparr>calls := calls n @ [?u], next_addr := next_addr n + 1\<rparr>) (insert a H)"
    by (rule net_inv_failed [OF inv(1)]) simp
  have "udp_queue ans h a buf dest n =
      (if ans (calls n) ?u = 0
       then n\<lparr>calls := calls n @ [?u], next_addr := next_addr n + 1, pending := (pending n)(next_addr n \<mapsto> a)\<rparr>
       else n\<lparr>calls := calls n @ [?u], next_addr := next_addr n + 1\<rparr>)"
    by (cases n) (simp add: udp_queue_def new_addr_def uv_ask_def uv_do_def)
  with q f show "net_ok (udp_queue ans h a buf dest n)" by (simp add: net_okI)
qed (simp_all add: udp_queue_def new_addr_def uv_ask_def uv_do_def)

text \<open>What a transmission does, by size and by libuv's answer.\<close>

lemma udp_transmit_ok:
  assumes n: "net_ok n" and len: "length data < 2 ^ 31"
  shows "\<exists>r n'. udp_transmit ans h data dest n = Some (r, n') \<and> net_ok n' \<and>
    (if length data > 524288 then r = 0 \<and> calls n' = calls n \<and> pending n' = pending n
     else r = ans (calls n) (Uv_udp_try_send h data dest) \<and>
       (if r > 0 then calls n' = calls n @ [Uv_udp_try_send h data dest] \<and> pending n' = pending n
        else calls n' = calls n @ [Uv_udp_try_send h data dest, Uv_udp_send h (next_addr n) data dest] \<and>
          (pending n' (next_addr n) \<noteq> None \<longleftrightarrow>
            ans (calls n @ [Uv_udp_try_send h data dest]) (Uv_udp_send h (next_addr n) data dest) = 0)))"
proof -
  obtain H where H: "net_inv n H" using n by (auto simp: net_ok_def)
  have i: "c_int (length data) = int (length data)" using len by (rule c_int_small)
  show ?thesis
  proof (cases "length data \<le> 524288")
    case False
    then have "524288 < c_int (length data)" using i by simp
    from send_buffer_big [OF H this, of data] obtain p where
      "send_buffer data (c_int (length data)) n = Some (None, [], n\<lparr>mpool := p\<rparr>)" "net_inv (n\<lparr>mpool := p\<rparr>) H"
      by blast
    with False show ?thesis by (auto simp: udp_transmit_def dest: net_okI)
  next
    case True
    from send_buffer_ok [OF H, of "c_int (length data)" data] i True obtain a p where
      buf: "send_buffer data (c_int (length data)) n = Some (Some a, data, n\<lparr>mpool := p\<rparr>)"
      and a: "a \<notin> H" and inv: "net_inv (n\<lparr>mpool := p\<rparr>) (insert a H)"
      and block: "take (length data) (block_of p a) = map Some data" by auto
    let ?t = "Uv_udp_try_send h data dest" 
    let ?n1 = "uv_do ?t (n\<lparr>mpool := p\<rparr>)"
    have inv1: "net_inv ?n1 (insert a H)" by (rule net_inv_do [OF inv]) simp
    have f: "calls ?n1 = calls n @ [?t]" "next_addr ?n1 = next_addr n" "pending ?n1 = pending n" "mpool ?n1 = p"
      by (simp_all add: uv_do_def)
    have tx: "udp_transmit ans h data dest n =
        (if ans (calls n) ?t \<le> 0 then Some (ans (calls n) ?t, udp_queue ans h a data dest ?n1)
         else map_option (Pair (ans (calls n) ?t)) (release (Some a) ?n1))"
      by (simp add: udp_transmit_def buf uv_ask_def)
    show ?thesis
    proof (cases "ans (calls n) ?t > 0")
      case sent: True
      from net_inv_return [OF inv1, of a] obtain q where
        "release (Some a) ?n1 = Some (?n1\<lparr>mpool := q\<rparr>)" "net_inv (?n1\<lparr>mpool := q\<rparr>) (insert a H - {a})" by auto
      with tx sent True f show ?thesis by (auto dest: net_okI)
    next
      case queued: False
      have "pending n (next_addr n) = None" using H by (fastforce simp: net_inv_def)
      with udp_queue_ok [OF inv1 a, of data ans h dest] block tx queued True f show ?thesis
        by (cases "ans (calls n @ [?t]) (Uv_udp_send h (next_addr n) data dest) = 0") auto
    qed
  qed
qed

text \<open>
  C37.  A datagram of up to 512 KiB sent on a connected link is offered to \<open>uv_udp_try_send\<close> with
  exactly its bytes; when that takes it nothing is left pending, and otherwise exactly the same
  bytes are queued with \<open>uv_udp_send\<close> and stay in their buffer until its callback.  The answer is
  that of the first call, so that it is negative or zero although the datagram is on its way.  A
  longer datagram is dropped with answer 0, and a link without a socket answers -1.
\<close>

theorem udp_send_exact:
  assumes n: "net_ok (net c)" and len: "length data < 2 ^ 31"
  shows "\<exists>r c'. UdpLink_send env data c = Some (r, c') \<and> net_ok (net c') \<and>
    (case m_pUdp (link c) of
       None \<Rightarrow> r = - 1 \<and> c' = c
     | Some h \<Rightarrow>
        (let first = Uv_udp_try_send h data None; req = next_addr (net c);
             second = Uv_udp_send h req data None
         in if length data > 524288 then r = 0 \<and> calls (net c') = calls (net c)
            else r = answers env (calls (net c)) first \<and>
              (if r > 0 then calls (net c') = calls (net c) @ [first] \<and> pending (net c') = pending (net c)
               else calls (net c') = calls (net c) @ [first, second] \<and>
                 (pending (net c') req \<noteq> None \<longleftrightarrow> answers env (calls (net c) @ [first]) second = 0))))"
proof (cases "m_pUdp (link c)")
  case None
  with n show ?thesis by (simp add: UdpLink_send_def)
next
  case (Some h)
  have "net (on_udp f c) = net c" for f by (simp add: on_udp_def)
  moreover from udp_transmit_ok [OF n len, of "answers env" h None] obtain r n' where
    tx: "udp_transmit (answers env) h data None (net c) = Some (r, n')" "net_ok n'" and
    how: "if length data > 524288 then r = 0 \<and> calls n' = calls (net c) \<and> pending n' = pending (net c)
     else r = answers env (calls (net c)) (Uv_udp_try_send h data None) \<and>
       (if r > 0 then calls n' = calls (net c) @ [Uv_udp_try_send h data None] \<and> pending n' = pending (net c)
        else calls n' = calls (net c) @ [Uv_udp_try_send h data None, Uv_udp_send h (next_addr (net c)) data None] \<and>
          (pending n' (next_addr (net c)) \<noteq> None \<longleftrightarrow>
            answers env (calls (net c) @ [Uv_udp_try_send h data None]) (Uv_udp_send h (next_addr (net c)) data None) = 0))"
    by blast
  ultimately have "UdpLink_send env data c =
      Some (r, on_udp (\<lambda>l. l\<lparr>m_nSends := m_nSends l + 1\<rparr>) c\<lparr>net := n'\<rparr>)"
    using Some by (simp add: UdpLink_send_def Let_def)
  moreover have "net (on_udp f c\<lparr>net := n'\<rparr>) = n'" for f by simp
  ultimately show ?thesis using tx(2) how Some unfolding Let_def by auto
qed

definition default_udp :: "unit udp_env" where
  "default_udp =
    \<lparr>answers = (\<lambda>_ u. case u of Uv_udp_try_send h bs d \<Rightarrow> - 11 | _ \<Rightarrow> 0),
     handler_at = \<lambda>_. \<lparr>on_close = Some, on_data = \<lambda>bs c. Some (int (length bs), c)\<rparr>, aton = \<lambda>_. 0\<rparr>"

definition blank_udp :: udp_link where
  "blank_udp =
    \<lparr>m_pUdp = None, m_nId = 0, m_strIP = [], m_nIP = 0, m_bPort = 0, m_pHandler = None, m_peer_addr = (0, 0),
     m_nLastErrorLogStamp = 0, m_nSends = 0, m_nReads = 0\<rparr>"

definition example_udp :: "unit udp" where
  "example_udp =
    snd (UdpLink_connect default_udp ''1.2.3.4'' 80
      \<lparr>net = snd (UdpLink_new blank_udp net_start), link = fst (UdpLink_new blank_udp net_start), app = ()\<rparr>)"

lemma net_ok_start: "net_ok net_start"
  by (rule net_okI [OF net_inv_start])

lemma example_udp_fields:
  "net_ok (net example_udp)" "m_pUdp (link example_udp) = Some 0" "next_addr (net example_udp) = 1"
  "calls (net example_udp) = [Uv_udp_init 0, Uv_udp_connect 0 ''1.2.3.4'' 80, Uv_udp_recv_start 0]"
proof -
  have "net_ok (uv_do (Uv_udp_recv_start 0) (uv_do (Uv_udp_connect 0 ''1.2.3.4'' 80) (uv_do (Uv_udp_init 0)
      (snd (new_addr (snd (LinkidAllocator_next net_start)))))))"
    by (intro net_ok_do net_ok_new_addr net_ok_id net_ok_start) simp_all
  then show "net_ok (net example_udp)"
    by (simp add: example_udp_def UdpLink_connect_def UdpLink_new_def LinkidAllocator_next_def new_addr_def
        net_start_def Let_def)
qed (simp_all add: example_udp_def UdpLink_connect_def UdpLink_new_def LinkidAllocator_next_def new_addr_def
    net_start_def uv_do_def Let_def)

lemma default_udp_answers:
  "answers default_udp cs (Uv_udp_try_send h bs d) = - 11" "answers default_udp cs (Uv_udp_send h r bs d) = 0"
  by (simp_all add: default_udp_def)

lemma udp_send_exact_witness:
  "\<exists>c'. UdpLink_send default_udp ''ping'' example_udp = Some (- 11, c') \<and> pending (net c') 1 \<noteq> None"
  using udp_send_exact [OF example_udp_fields(1), of "''ping''" default_udp] example_udp_fields
  by (auto simp: default_udp_answers Let_def)

section \<open>Byte order\<close>

lemma htonl_twice: "htonl (htonl a) = a"
proof (rule bit_word_eqI)
  fix i assume i: "i < LENGTH(32)"
  then consider "i < 8" | "8 \<le> i" "i < 16" | "16 \<le> i" "i < 24" | "24 \<le> i" "i < 32" by fastforce
  then show "bit (htonl (htonl a)) i \<longleftrightarrow> bit a i"
    by cases (auto simp: htonl_def bit_simps less_diff_conv2 le_diff_conv2)
qed

lemma htons_twice: "htons (htons p) = p"
proof (rule bit_word_eqI)
  fix i assume i: "i < LENGTH(16)"
  then consider "i < 8" | "8 \<le> i" "i < 16" by fastforce
  then show "bit (htons (htons p)) i \<longleftrightarrow> bit p i"
    by cases (auto simp: htons_def bit_simps less_diff_conv2 le_diff_conv2)
qed

text \<open>
  \<open>send\<close> to an address converts it from host to network order, and converting twice gives it
  back: so the arguments have to be in host order.  The link's own \<open>ip()\<close> is in network order
  (\<open>inet_addr\<close>); passed to \<open>send\<close> it arrives reversed, while its port arrives as it should.
\<close>

theorem send_to_address:
  fixes env :: "'a udp_env" and ip port and c :: "'a udp"
  assumes n: "net_ok (net c)" and len: "length data \<le> 524288"
  defines "up \<equiv> snd (UdpLink_connect env ip port c)"
  shows "(\<exists>r c' h rest. UdpLink_send_to env data (m_nIP (link up)) (m_bPort (link up)) up = Some (r, c') \<and>
      calls (net c') = calls (net up) @ Uv_udp_try_send h data (Some (htonl (aton env ip), htons port)) # rest) \<and>
    (\<forall>a. htonl (htonl a) = a) \<and> (\<forall>p. htons (htons p) = p)"
proof (intro conjI allI htonl_twice htons_twice)
  have up: "m_nIP (link up) = aton env ip" "m_bPort (link up) = port" "m_pUdp (link up) = Some (next_addr (net c))"
    by (simp_all add: up_def UdpLink_connect_def new_addr_def Let_def)
  have "net_ok (uv_do (Uv_udp_recv_start h) (uv_do (Uv_udp_connect h ip port) (uv_do (Uv_udp_init h)
      (snd (new_addr (net c))))))" for h
    by (intro net_ok_do net_ok_new_addr n) simp_all
  then have "net_ok (net up)" by (simp add: up_def UdpLink_connect_def new_addr_def Let_def)
  moreover have "length data < 2 ^ 31" using len by simp
  ultimately obtain r n' where
    tx: "udp_transmit (answers env) (next_addr (net c)) data (Some (htonl (aton env ip), htons port)) (net up) = Some (r, n')"
    and calls: "\<exists>rest. calls n' = calls (net up) @
      Uv_udp_try_send (next_addr (net c)) data (Some (htonl (aton env ip), htons port)) # rest"
    using udp_transmit_ok [of "net up" data "answers env" "next_addr (net c)"] len
    by (fastforce split: if_splits)
  have "net (on_udp f up) = net up" for f by (simp add: on_udp_def)
  moreover obtain rest where rest: "calls n' = calls (net up) @
      Uv_udp_try_send (next_addr (net c)) data (Some (htonl (aton env ip), htons port)) # rest"
    using calls by blast
  ultimately have "UdpLink_send_to env data (m_nIP (link up)) (m_bPort (link up)) up =
      Some (r, on_udp (\<lambda>l. l\<lparr>m_nSends := m_nSends l + 1\<rparr>) up\<lparr>net := n'\<rparr>)"
    by (simp add: UdpLink_send_to_def up tx Let_def)
  with rest show "\<exists>r c' h rest. UdpLink_send_to env data (m_nIP (link up)) (m_bPort (link up)) up = Some (r, c') \<and>
      calls (net c') = calls (net up) @ Uv_udp_try_send h data (Some (htonl (aton env ip), htons port)) # rest"
    by (intro exI conjI) (assumption, simp)
qed

lemma send_to_address_witness:
  "\<exists>r c' h rest.
    UdpLink_send_to default_udp ''x'' 0 80 (snd (UdpLink_connect default_udp ''1.2.3.4'' 80 example_udp)) = Some (r, c') \<and>
    calls (net c') = calls (net (snd (UdpLink_connect default_udp ''1.2.3.4'' 80 example_udp))) @
      Uv_udp_try_send h ''x'' (Some (0, htons 80)) # rest"
proof -
  have "m_nIP (link (snd (UdpLink_connect default_udp ''1.2.3.4'' 80 example_udp))) = 0"
    "m_bPort (link (snd (UdpLink_connect default_udp ''1.2.3.4'' 80 example_udp))) = 80"
    "aton default_udp ''1.2.3.4'' = 0" "htonl 0 = 0"
    by (simp_all add: UdpLink_connect_def new_addr_def Let_def default_udp_def htonl_def)
  then show ?thesis
    using conjunct1 [OF send_to_address [OF example_udp_fields(1), of "''x''" default_udp "''1.2.3.4''" 80]] by simp
qed

section \<open>Sessions\<close>

text \<open>
  The operations and callbacks as events, and what libuv and the caller keep to: a read fills at
  most the 64 KiB buffer, a request completes once, and datagrams are below 2 GiB.
\<close>

datatype udp_event =
    Connect string u16
  | Send "byte list"
  | Send_to "byte list" u32 u16
  | Close
  | Sent nat int
  | Read int "byte list"

fun udp_step :: "'a udp_env \<Rightarrow> udp_event \<Rightarrow> 'a udp \<Rightarrow> 'a udp option" where
  "udp_step env (Connect ip port) c = Some (snd (UdpLink_connect env ip port c))"
| "udp_step env (Send data) c = map_option snd (UdpLink_send env data c)"
| "udp_step env (Send_to data ip port) c = map_option snd (UdpLink_send_to env data ip port c)"
| "udp_step env Close c = map_option snd (UdpLink_close env c)"
| "udp_step env (Sent req status) c = map_option (\<lambda>n. c\<lparr>net := n\<rparr>) (UdpLink_on_send req status (net c))"
| "udp_step env (Read nread buf) c = UdpLink_on_read env nread buf c"

fun udp_allowed :: "udp_event \<Rightarrow> 'a udp \<Rightarrow> bool" where
  "udp_allowed (Send data) c \<longleftrightarrow> length data < 2 ^ 31"
| "udp_allowed (Send_to data ip port) c \<longleftrightarrow> length data < 2 ^ 31"
| "udp_allowed (Sent req status) c \<longleftrightarrow> pending (net c) req \<noteq> None"
| "udp_allowed (Read nread buf) c \<longleftrightarrow> (nread > 0 \<longrightarrow> nread = int (length buf) \<and> length buf \<le> 65536)"
| "udp_allowed _ c \<longleftrightarrow> True"

text \<open>A link that has been used: the states that allowed events lead to from its construction.\<close>

inductive udp_reachable :: "'a udp_env \<Rightarrow> udp_link \<Rightarrow> net \<Rightarrow> 'a \<Rightarrow> 'a udp \<Rightarrow> bool" for env g n a where
  born: "udp_reachable env g n a \<lparr>net = snd (UdpLink_new g n), link = fst (UdpLink_new g n), app = a\<rparr>"
| step: "udp_reachable env g n a c \<Longrightarrow> udp_allowed e c \<Longrightarrow> udp_step env e c = Some c' \<Longrightarrow>
    udp_reachable env g n a c'"

text \<open>What the link relies on when it calls its handler.\<close>

locale udp_client =
  fixes env :: "'a udp_env" and A :: "'a \<Rightarrow> bool"
  assumes data_ok: "\<lbrakk>net_ok (net c); A (app c)\<rbrakk> \<Longrightarrow>
      \<exists>v c'. on_data (handler_at env h) bs c = Some (v, c') \<and> net_ok (net c') \<and> A (app c')"
    and close_ok: "\<lbrakk>net_ok (net c); A (app c)\<rbrakk> \<Longrightarrow>
      \<exists>c'. on_close (handler_at env h) c = Some c' \<and> net_ok (net c') \<and> A (app c')"
begin

lemma transmit_ok:
  assumes "net_ok (net c)" and "length data < 2 ^ 31"
  shows "\<exists>r n'. udp_transmit (answers env) h data dest (net c) = Some (r, n') \<and> net_ok n'"
  using udp_transmit_ok [OF assms, of "answers env" h dest] by blast

lemma on_link_same [simp]: "net (on_udp f c) = net c" "app (on_udp f c) = app c"
  by (simp_all add: on_udp_def)

lemma step_ok:
  assumes c: "net_ok (net c)" "A (app c)" and e: "udp_allowed e c"
  shows "\<exists>c'. udp_step env e c = Some c' \<and> net_ok (net c') \<and> A (app c')"
proof (cases e)
  case (Connect ip port)
  have "net_ok (uv_do (Uv_udp_recv_start h) (uv_do (Uv_udp_connect h ip port) (uv_do (Uv_udp_init h)
      (snd (new_addr (net c))))))" for h
    by (intro net_ok_do net_ok_new_addr c) simp_all
  with Connect c show ?thesis by (simp add: UdpLink_connect_def new_addr_def Let_def)
next
  case (Send data)
  show ?thesis
  proof (cases "m_pUdp (link c)")
    case (Some h)
    with Send e transmit_ok [OF c(1), of data h None] c(2) show ?thesis
      by (auto simp: UdpLink_send_def Let_def)
  qed (use Send c in \<open>simp add: UdpLink_send_def\<close>)
next
  case (Send_to data ip port)
  show ?thesis
  proof (cases "m_pUdp (link c)")
    case (Some h)
    with Send_to e transmit_ok [OF c(1), of data h "Some (htonl ip, htons port)"] c(2) show ?thesis
      by (auto simp: UdpLink_send_to_def Let_def)
  qed (use Send_to c in \<open>simp add: UdpLink_send_to_def\<close>)
next
  case Close
  obtain c1 where c1: "(case m_pHandler (link c) of None \<Rightarrow> Some c | Some h \<Rightarrow> on_close (handler_at env h) c) = Some c1"
    "net_ok (net c1)" "A (app c1)"
    using close_ok [OF c] c by (cases "m_pHandler (link c)") auto
  with Close show ?thesis
    by (cases "m_pUdp (link c1)") (simp_all add: UdpLink_close_def net_ok_do)
next
  case (Sent req status)
  with e obtain a where a: "pending (net c) req = Some a" by auto
  obtain H where "net_inv (net c) H" using c(1) by (auto simp: net_ok_def)
  from net_inv_done [OF this a] Sent a c(2) show ?thesis
    by (auto simp: UdpLink_on_send_def dest: net_okI)
next
  case (Read nread buf)
  show ?thesis
  proof (cases "m_pHandler (link c)")
    case (Some h)
    with Read c data_ok [of "on_udp (\<lambda>l. l\<lparr>m_nReads := m_nReads l + 1\<rparr>) c" h buf] show ?thesis
      by (auto simp: UdpLink_on_read_def Let_def on_udp_def)
  qed (use Read c in \<open>simp add: UdpLink_on_read_def Let_def on_udp_def\<close>)
qed

lemma reachable_ok:
  assumes "udp_reachable env g n a c" and "net_ok n" and "A a"
  shows "net_ok (net c) \<and> A (app c)"
  using assms
proof (induction rule: udp_reachable.induct)
  case born
  then show ?case using net_ok_id [of n] by (simp add: UdpLink_new_def split_def)
next
  case (step c e c')
  then show ?case using step_ok [of c e] by auto
qed

end

interpretation default_udp: udp_client default_udp "\<lambda>_. True"
  by unfold_locales (simp_all add: default_udp_def)



end
