(* ===== verification/Timer.thy ===== *)
theory Timer
  imports Net
begin

text \<open>
  \<open>class Timer\<close> (\<open>src/src/timer.cpp\<close>): a libuv timer with an id and a handler.

  \<open>None\<close> is a call of libuv with a null handle.  The constructor leaves \<open>m_pHandler\<close>
  indeterminate (\<open>g\<close>).  The test for a null \<open>handle->data\<close> is left out: the constructor sets it.
\<close>

record timer =
  m_pTimer :: "nat option"
  m_pHandler :: "nat option"
  m_nId :: int

definition Timer_new :: "timer \<Rightarrow> net \<Rightarrow> timer \<times> net" where
  "Timer_new g n =
    (case new_addr n of (t, n) \<Rightarrow> (g\<lparr>m_pTimer := Some t, m_nId := 0\<rparr>, uv_do (Uv_timer_init t) n))"

definition Timer_delete :: "timer \<Rightarrow> net \<Rightarrow> net" where
  "Timer_delete t n = (case m_pTimer t of None \<Rightarrow> n | Some h \<Rightarrow> uv_do (Uv_close h) n)"

definition Timer_init :: "int \<Rightarrow> timer \<Rightarrow> timer" where
  "Timer_init i t = t\<lparr>m_nId := i\<rparr>"

definition Timer_set_handler :: "nat option \<Rightarrow> timer \<Rightarrow> timer" where
  "Timer_set_handler h t = t\<lparr>m_pHandler := h\<rparr>"

text \<open>The interval is converted to \<open>uint64_t\<close>.\<close>

definition Timer_start :: "int \<Rightarrow> timer \<Rightarrow> net \<Rightarrow> net option" where
  "Timer_start interval t n =
    map_option (\<lambda>h. uv_do (Uv_timer_start h 0 (unat (of_int interval :: u64))) n) (m_pTimer t)"

definition Timer_stop :: "timer \<Rightarrow> net \<Rightarrow> net option" where
  "Timer_stop t n = map_option (\<lambda>h. uv_do (Uv_timer_stop h) n) (m_pTimer t)"

definition Timer_close :: "timer \<Rightarrow> net \<Rightarrow> timer \<times> net" where
  "Timer_close t n =
    (case m_pTimer t of None \<Rightarrow> (t, n) | Some h \<Rightarrow> (t\<lparr>m_pTimer := None\<rparr>, uv_do (Uv_close h) n))"

definition Timer_on_timer :: "(nat \<Rightarrow> int \<Rightarrow> 'a \<Rightarrow> 'a option) \<Rightarrow> timer \<Rightarrow> 'a \<Rightarrow> 'a option" where
  "Timer_on_timer handler_at t a =
    (case m_pHandler t of None \<Rightarrow> Some a | Some h \<Rightarrow> handler_at h (m_nId t) a)"

section \<open>Uses of a timer\<close>

datatype timer_op = Init int | Set_handler "nat option" | Start int | Stop | Close

fun timer_step :: "timer_op \<Rightarrow> timer \<times> net \<Rightarrow> (timer \<times> net) option" where
  "timer_step (Init i) (t, n) = Some (Timer_init i t, n)"
| "timer_step (Set_handler h) (t, n) = Some (Timer_set_handler h t, n)"
| "timer_step (Start i) (t, n) = map_option (Pair t) (Timer_start i t n)"
| "timer_step Stop (t, n) = map_option (Pair t) (Timer_stop t n)"
| "timer_step Close (t, n) = Some (Timer_close t n)"

fun timer_run :: "timer_op list \<Rightarrow> timer \<times> net \<Rightarrow> (timer \<times> net) option" where
  "timer_run [] s = Some s"
| "timer_run (x # xs) s = Option.bind (timer_step x s) (timer_run xs)"

definition needs_handle :: "timer_op \<Rightarrow> bool" where
  "needs_handle x \<longleftrightarrow> x = Stop \<or> (\<exists>i. x = Start i)"

lemma needs_handle_Close [simp]: "\<not> needs_handle Close"
  by (simp add: needs_handle_def)

definition closes :: "nat \<Rightarrow> net \<Rightarrow> nat" where
  "closes h n = count_list (calls n) (Uv_close h)"

lemma closed_run:
  "m_pTimer t = None \<Longrightarrow>
    (if list_ex needs_handle xs then timer_run xs (t, n) = None
     else \<exists>t'. timer_run xs (t, n) = Some (t', n) \<and> m_pTimer t' = None)"
proof (induction xs arbitrary: t)
  case (Cons x xs)
  then show ?case
    by (cases x) (auto simp: needs_handle_def Timer_init_def Timer_set_handler_def Timer_start_def Timer_stop_def
        Timer_close_def)
qed simp

lemma open_run:
  "m_pTimer t = Some h \<Longrightarrow>
    (if list_ex needs_handle (dropWhile (\<lambda>x. x \<noteq> Close) xs) then timer_run xs (t, n) = None
     else \<exists>t' n'. timer_run xs (t, n) = Some (t', n') \<and>
       m_pTimer t' = (if Close \<in> set xs then None else Some h) \<and>
       closes h n' = closes h n + (if Close \<in> set xs then 1 else 0))"
proof (induction xs arbitrary: t n)
  case (Cons x xs)
  show ?case
  proof (cases "x = Close")
    case True
    have close: "timer_step Close (t, n) = Some (t\<lparr>m_pTimer := None\<rparr>, uv_do (Uv_close h) n)"
      using Cons.prems by (simp add: Timer_close_def)
    have "closes h (uv_do (Uv_close h) n) = closes h n + 1" by (simp add: closes_def uv_do_def)
    with close closed_run [of "t\<lparr>m_pTimer := None\<rparr>" xs "uv_do (Uv_close h) n"] True show ?thesis
      by (auto split: if_splits)
  next
    case False
    then obtain t1 n1 where one: "timer_step x (t, n) = Some (t1, n1)" "m_pTimer t1 = Some h" "closes h n1 = closes h n"
      using Cons.prems
      by (cases x) (auto simp: Timer_init_def Timer_set_handler_def Timer_start_def Timer_stop_def closes_def uv_do_def)
    with Cons.IH [OF one(2), of n1] False show ?thesis by auto
  qed
qed simp

text \<open>
  A timer may be initialised, given a handler, started, stopped and closed in any order and
  any number of times: its libuv handle is closed exactly once, at the first \<open>close\<close>, and the
  only misuse that calls libuv with a null handle is \<open>start\<close> or \<open>stop\<close> after \<open>close\<close>.
\<close>

theorem timer_use:
  "case Timer_new g n of (t, n0) \<Rightarrow>
     (if list_ex needs_handle (dropWhile (\<lambda>x. x \<noteq> Close) xs) then timer_run xs (t, n0) = None
      else \<exists>t' n'. timer_run xs (t, n0) = Some (t', n') \<and>
        closes (next_addr n) n' = closes (next_addr n) n + (if Close \<in> set xs then 1 else 0))"
proof -
  obtain t n0 where new: "Timer_new g n = (t, n0)" by fastforce
  then have "m_pTimer t = Some (next_addr n)" "closes (next_addr n) n0 = closes (next_addr n) n"
    by (auto simp: Timer_new_def new_addr_def uv_do_def closes_def)
  with open_run [OF this(1), of xs n0] new show ?thesis by auto
qed

end
