(* ===== verification/StdMap.thy ===== *)
theory StdMap
  imports Prelude
begin

text \<open>
  \<open>std::map\<close> as the code uses it: a list of pairs in increasing order of the keys, with
  \<open>m[k] = v\<close>, \<open>find\<close> (\<open>map_of\<close>) and \<open>erase\<close>, and iteration along the list.  The locale is the
  contract the classes that keep a table of links rely on.
\<close>

type_synonym ('k, 'v) std_map = "('k \<times> 'v) list"

fun std_insert :: "'k::linorder \<Rightarrow> 'v \<Rightarrow> ('k, 'v) std_map \<Rightarrow> ('k, 'v) std_map" where
  "std_insert k v [] = [(k, v)]"
| "std_insert k v ((k', v') # m) =
    (if k < k' then (k, v) # (k', v') # m
     else if k = k' then (k, v) # m
     else (k', v') # std_insert k v m)"

definition std_erase :: "'k \<Rightarrow> ('k, 'v) std_map \<Rightarrow> ('k, 'v) std_map" where
  "std_erase k m = filter (\<lambda>p. fst p \<noteq> k) m"

definition std_ordered :: "('k::linorder, 'v) std_map \<Rightarrow> bool" where
  "std_ordered m \<longleftrightarrow> sorted_wrt (<) (map fst m)"

lemma std_ordered_Nil [simp]: "std_ordered []"
  by (simp add: std_ordered_def)

lemma std_ordered_Cons [simp]:
  "std_ordered ((k, v) # m) \<longleftrightarrow> (\<forall>k' \<in> fst ` set m. k < k') \<and> std_ordered m"
  by (auto simp: std_ordered_def)

lemma std_ordered_distinct: "std_ordered m \<Longrightarrow> distinct (map fst m)"
  by (simp add: std_ordered_def strict_sorted_iff)

lemma std_insert_keys: "fst ` set (std_insert k v m) = insert k (fst ` set m)"
  by (induction k v m rule: std_insert.induct) auto

lemma map_of_std_insert [simp]: "map_of (std_insert k v m) = (map_of m)(k \<mapsto> v)"
  by (induction k v m rule: std_insert.induct) (auto simp: fun_eq_iff)

lemma std_insert_ordered: "std_ordered m \<Longrightarrow> std_ordered (std_insert k v m)"
proof (induction k v m rule: std_insert.induct)
  case (2 k v k' v' m)
  then show ?case using std_insert_keys [of k v m] by (auto intro: less_trans)
qed simp

lemma map_of_std_erase [simp]: "map_of (std_erase k m) = (map_of m)(k := None)"
  by (induction m) (auto simp: std_erase_def fun_eq_iff)

lemma std_erase_ordered: "std_ordered m \<Longrightarrow> std_ordered (std_erase k m)"
  by (simp add: std_ordered_def std_erase_def sorted_wrt_map sorted_wrt_filter)

text \<open>Two ordered lists with the same entries are the same list.\<close>

lemma std_ordered_ext:
  assumes "std_ordered m" and "std_ordered m'" and "map_of m = map_of m'"
  shows "m = m'"
proof -
  have sets: "set m = set m'"
    using assms by (metis map_of_eq_Some_iff std_ordered_distinct subsetI subset_antisym surj_pair)
  have keys: "sorted_wrt (<) (map fst m)" "sorted_wrt (<) (map fst m')"
    using assms by (simp_all add: std_ordered_def)
  have "map fst m = map fst m'"
    by (rule strict_sorted_equal) (use keys sets in simp_all)
  moreover have "v = v'" if "(k, v) \<in> set m" "(k, v') \<in> set m'" for k v v'
    using that assms by (metis map_of_eq_Some_iff option.inject std_ordered_distinct)
  ultimately show ?thesis
    by (auto intro!: nth_equalityI dest: arg_cong [of _ _ length])
      (metis length_map nth_map nth_mem prod.collapse prod_eqI)
qed

section \<open>The contract of a table\<close>

locale table =
  fixes look :: "'m \<Rightarrow> 'k \<Rightarrow> 'v option" and put :: "'k \<Rightarrow> 'v \<Rightarrow> 'm \<Rightarrow> 'm" and del :: "'k \<Rightarrow> 'm \<Rightarrow> 'm"
    and ok :: "'m \<Rightarrow> bool"
  assumes look_put: "ok m \<Longrightarrow> look (put k v m) = (look m)(k \<mapsto> v)"
    and look_del: "ok m \<Longrightarrow> look (del k m) = (look m)(k := None)"
    and put_ok: "ok m \<Longrightarrow> ok (put k v m)"
    and del_ok: "ok m \<Longrightarrow> ok (del k m)"
begin

text \<open>Every entry satisfies \<open>P\<close>: what the tables of links keep.\<close>

definition each :: "('k \<Rightarrow> 'v \<Rightarrow> bool) \<Rightarrow> 'm \<Rightarrow> bool" where
  "each P m \<longleftrightarrow> ok m \<and> (\<forall>k v. look m k = Some v \<longrightarrow> P k v)"

lemma each_put: "each P m \<Longrightarrow> P k v \<Longrightarrow> each P (put k v m)"
  by (auto simp: each_def look_put put_ok)

lemma each_del: "each P m \<Longrightarrow> each P (del k m)"
  by (auto simp: each_def look_del del_ok split: if_splits)

lemma each_look: "each P m \<Longrightarrow> look m k = Some v \<Longrightarrow> P k v"
  by (simp add: each_def)

lemma del_put: "ok m \<Longrightarrow> look m k = None \<Longrightarrow> look (del k (put k v m)) = look m"
  by (auto simp: look_put look_del put_ok)

end

interpretation std: table map_of std_insert std_erase "std_ordered :: ('k::linorder, 'v) std_map \<Rightarrow> bool"
  by unfold_locales (simp_all add: std_insert_ordered std_erase_ordered)

end
