(* ===== verification/UdpServer.thy ===== *)
theory UdpServer
  imports UdpLink Timer StdMap
begin

text \<open>
  \<open>class UdpServer\<close> (\<open>src/src/udpserver.cpp\<close>) and \<open>class UdpPeerLink\<close>
  (\<open>src/src/udppeerlink.cpp\<close>): one socket, and a table of the peers it has heard from.

  Peer objects are at addresses in \<open>peers\<close>; \<open>None\<close> as a result is a null or stale pointer.  The
  handler is found through its address; its \<open>on_data\<close> may get a null link.  Addresses and ports
  stay in network order from \<open>on_read\<close> to \<open>answer\<close>.  The system time is an argument, \<open>inet_ntoa\<close> a
  parameter.  A peer's \<open>m_pUdpServer\<close> is the server of the state, set once and never null, so it
  is no field and its null tests are left out, as are log messages, the empty test of
  \<open>UV_UDP_MMSG_CHUNK\<close> and the test for a null \<open>handle->data\<close>.
\<close>

definition UDP_EXPIRE :: u64 where
  "UDP_EXPIRE = 1000 * 60"

record udp_server =
  m_pUdp :: "nat option"
  m_pTimer :: timer
  m_pHandler :: "nat option"
  m_mapLink :: "(u64, nat) std_map"
  m_nReads :: u64

record udp_peer_link =
  m_pHandler :: "nat option"
  m_nId :: u32
  m_strIP :: string
  m_nIP :: u32
  m_nPort :: u16
  m_nLastErrorLogStamp :: u64
  m_nSends :: u64
  m_nStamp :: u64

record 'a udp_world =
  net :: net
  server :: udp_server
  peers :: "nat \<rightharpoonup> udp_peer_link"
  app :: 'a

record 'a udp_server_handler =
  on_close :: "nat \<Rightarrow> 'a udp_world \<Rightarrow> 'a udp_world option"
  on_data :: "byte list \<Rightarrow> nat option \<Rightarrow> 'a udp_world \<Rightarrow> (int \<times> 'a udp_world) option"

record 'a udp_server_env =
  answers :: uv_answers
  handler_at :: "nat \<Rightarrow> 'a udp_server_handler"
  ntoa :: "u32 \<Rightarrow> string"
  peer_garbage :: udp_peer_link

abbreviation on_server :: "(udp_server \<Rightarrow> udp_server) \<Rightarrow> 'a udp_world \<Rightarrow> 'a udp_world" where
  "on_server f w \<equiv> w\<lparr>server := f (server w)\<rparr>"

section \<open>The server\<close>

definition UdpServer_new :: "udp_server \<Rightarrow> timer \<Rightarrow> net \<Rightarrow> udp_server \<times> net" where
  "UdpServer_new g gt n =
    (case new_addr n of (h, n) \<Rightarrow>
     case Timer_new gt (uv_do (Uv_udp_init h) n) of (t, n) \<Rightarrow>
       (g\<lparr>udp_server.m_pHandler := None, m_nReads := 0, m_pUdp := Some h, m_pTimer := t, m_mapLink := []\<rparr>, n))"

definition UdpServer_delete :: "udp_server \<Rightarrow> net \<Rightarrow> net" where
  "UdpServer_delete s n =
    (let n = Timer_delete (m_pTimer s) n
     in case m_pUdp s of None \<Rightarrow> n | Some h \<Rightarrow> uv_do (Uv_close h) n)"

definition UdpServer_set_handler :: "nat option \<Rightarrow> 'a udp_world \<Rightarrow> 'a udp_world" where
  "UdpServer_set_handler h = on_server (\<lambda>s. s\<lparr>udp_server.m_pHandler := h\<rparr>)"

definition UdpServer_listen :: "u16 \<Rightarrow> 'a udp_world \<Rightarrow> (int \<times> 'a udp_world) option" where
  "UdpServer_listen base_port w =
    map_option (\<lambda>h. (0, w\<lparr>net := uv_do (Uv_udp_recv_start h) (uv_do (Uv_udp_bind h ''0.0.0.0'' base_port) (net w))\<rparr>))
      (m_pUdp (server w))"

definition UdpServer_close :: "'a udp_world \<Rightarrow> int \<times> 'a udp_world" where
  "UdpServer_close w =
    (case m_pUdp (server w) of
       None \<Rightarrow> (0, w)
     | Some h \<Rightarrow> (0, on_server (\<lambda>s. s\<lparr>m_pUdp := None\<rparr>) (w\<lparr>net := uv_do (Uv_close h) (net w)\<rparr>)))"

text \<open>The parameter \<open>port\<close> is a \<open>short\<close> in the code; only its bits are used.\<close>

definition UdpServer_answer ::
  "'a udp_server_env \<Rightarrow> byte list \<Rightarrow> int \<Rightarrow> u32 \<Rightarrow> u16 \<Rightarrow> 'a udp_world \<Rightarrow> 'a udp_world option"
where
  "UdpServer_answer env data len ip port w =
    (case m_pUdp (server w) of
       None \<Rightarrow> Some w
     | Some h \<Rightarrow> do {
         (mem, buf, n) \<leftarrow> send_buffer data len (net w);
         case mem of
           None \<Rightarrow> Some (w\<lparr>net := n\<rparr>)
         | Some a \<Rightarrow> Some (w\<lparr>net := udp_queue (answers env) h a buf (Some (ip, port)) n\<rparr>)
       })"

definition UdpServer_on_alloc :: "nat option \<Rightarrow> net \<Rightarrow> (nat \<times> int) \<times> nat option \<times> net" where
  "UdpServer_on_alloc s_pStaticBuf n =
    (case s_pStaticBuf of
       Some b \<Rightarrow> ((b, 64 * 1024), s_pStaticBuf, n)
     | None \<Rightarrow> (case new_addr n of (b, n) \<Rightarrow> ((b, 64 * 1024), Some b, n)))"

definition UdpServer_on_send :: "nat \<Rightarrow> int \<Rightarrow> net \<Rightarrow> net option" where
  "UdpServer_on_send req status n =
    map_option (\<lambda>n. n\<lparr>pending := (pending n)(req := None)\<rparr>) (release (pending n req) n)"

section \<open>Peers\<close>

definition UdpPeerLink_new :: "(u32 \<Rightarrow> string) \<Rightarrow> udp_peer_link \<Rightarrow> u32 \<Rightarrow> u16 \<Rightarrow> net \<Rightarrow> udp_peer_link \<times> net" where
  "UdpPeerLink_new nt g ip port n =
    (case LinkidAllocator_next n of (i, n) \<Rightarrow>
       (g\<lparr>m_nIP := ip, m_nPort := port, m_nLastErrorLogStamp := 0, m_nSends := 0, m_nStamp := 0, m_nId := i,
          m_strIP := nt ip\<rparr>, n))"

definition UdpPeerLink_set_handler :: "nat option \<Rightarrow> udp_peer_link \<Rightarrow> udp_peer_link" where
  "UdpPeerLink_set_handler h l = l\<lparr>m_pHandler := h\<rparr>"

definition UdpPeerLink_connect :: "string \<Rightarrow> u16 \<Rightarrow> 'a udp_world \<Rightarrow> int \<times> 'a udp_world" where
  "UdpPeerLink_connect ip port w = (0, w)"

definition UdpPeerLink_send ::
  "'a udp_server_env \<Rightarrow> nat \<Rightarrow> byte list \<Rightarrow> 'a udp_world \<Rightarrow> (int \<times> 'a udp_world) option"
where
  "UdpPeerLink_send env a data w = do {
     l \<leftarrow> peers w a;
     let l = l\<lparr>m_nSends := m_nSends l + 1\<rparr>;
     w \<leftarrow> UdpServer_answer env data (c_int (length data)) (m_nIP l) (m_nPort l) (w\<lparr>peers := (peers w)(a \<mapsto> l)\<rparr>);
     Some (0, w)
   }"

definition UdpPeerLink_send_to ::
  "'a udp_server_env \<Rightarrow> nat \<Rightarrow> byte list \<Rightarrow> u32 \<Rightarrow> u16 \<Rightarrow> 'a udp_world \<Rightarrow> (int \<times> 'a udp_world) option"
where
  "UdpPeerLink_send_to env a data ip port w = do {
     l \<leftarrow> peers w a;
     let l = l\<lparr>m_nSends := m_nSends l + 1\<rparr>;
     w \<leftarrow> UdpServer_answer env data (c_int (length data)) ip port (w\<lparr>peers := (peers w)(a \<mapsto> l)\<rparr>);
     Some (0, w)
   }"

definition UdpPeerLink_close :: "'a udp_server_env \<Rightarrow> nat \<Rightarrow> 'a udp_world \<Rightarrow> (int \<times> 'a udp_world) option" where
  "UdpPeerLink_close env a w = do {
     l \<leftarrow> peers w a;
     case m_pHandler l of
       None \<Rightarrow> Some (0, w)
     | Some h \<Rightarrow> map_option (Pair 0) (on_close (handler_at env h) a w)
   }"

text \<open>\<open>delete link\<close>\<close>

definition UdpPeerLink_delete :: "'a udp_server_env \<Rightarrow> nat \<Rightarrow> 'a udp_world \<Rightarrow> 'a udp_world option" where
  "UdpPeerLink_delete env a w =
    map_option (\<lambda>(_, w). w\<lparr>peers := (peers w)(a := None)\<rparr>) (UdpPeerLink_close env a w)"

section \<open>The table of peers\<close>

definition create_node :: "u32 \<Rightarrow> u16 \<Rightarrow> u64" where
  "create_node ip port = push_bit 32 (ucast ip) + ucast port"

definition add_node :: "'a udp_server_env \<Rightarrow> u64 \<Rightarrow> u32 \<Rightarrow> u16 \<Rightarrow> 'a udp_world \<Rightarrow> (nat option \<times> 'a udp_world) option" where
  "add_node env now ip port w =
    (if ip = 0 \<or> port = 0 then Some (None, w)
     else let node = create_node ip port
          in case map_of (m_mapLink (server w)) node of
               Some a \<Rightarrow>
                 map_option (\<lambda>l. (Some a, w\<lparr>peers := (peers w)(a \<mapsto> l\<lparr>m_nStamp := now\<rparr>)\<rparr>)) (peers w a)
             | None \<Rightarrow>
                 (case new_addr (net w) of (a, n) \<Rightarrow>
                  case UdpPeerLink_new (ntoa env) (peer_garbage env) ip port n of (l, n) \<Rightarrow>
                    let l = (UdpPeerLink_set_handler (udp_server.m_pHandler (server w)) l)\<lparr>m_nStamp := now\<rparr>
                    in Some (Some a, on_server (\<lambda>s. s\<lparr>m_mapLink := std_insert node a (m_mapLink s)\<rparr>)
                         (w\<lparr>net := n, peers := (peers w)(a \<mapsto> l)\<rparr>))))"

text \<open>The first loop of \<open>on_timer\<close>; \<open>expires\<close> is filled in increasing order.\<close>

fun expire_loop ::
  "'a udp_server_env \<Rightarrow> u64 \<Rightarrow> (u64 \<times> nat) list \<Rightarrow> u64 list \<Rightarrow> 'a udp_world \<Rightarrow> (u64 list \<times> 'a udp_world) option"
where
  "expire_loop env now [] expires w = Some (expires, w)"
| "expire_loop env now ((node, a) # m) expires w = do {
     l \<leftarrow> peers w a;
     if now \<ge> m_nStamp l + UDP_EXPIRE then do {
       w \<leftarrow> UdpPeerLink_delete env a w;
       expire_loop env now m (expires @ [node]) w
     }
     else expire_loop env now m expires w
   }"

definition UdpServer_on_timer :: "'a udp_server_env \<Rightarrow> int \<Rightarrow> u64 \<Rightarrow> 'a udp_world \<Rightarrow> 'a udp_world option" where
  "UdpServer_on_timer env i now w = do {
     (expires, w) \<leftarrow> expire_loop env now (m_mapLink (server w)) [] w;
     Some (on_server (\<lambda>s. s\<lparr>m_mapLink := fold std_erase expires (m_mapLink s)\<rparr>) w)
   }"

text \<open>\<open>addr\<close> is null only when nothing was read.\<close>

definition UdpServer_on_read ::
  "'a udp_server_env \<Rightarrow> u64 \<Rightarrow> int \<Rightarrow> byte list \<Rightarrow> sockaddr option \<Rightarrow> 'a udp_world \<Rightarrow> 'a udp_world option"
where
  "UdpServer_on_read env now nread buf addr w =
    (if nread < 0 then Some w
     else if nread = 0 then Some w
     else let w = on_server (\<lambda>s. s\<lparr>m_nReads := m_nReads s + 1\<rparr>) w
          in case udp_server.m_pHandler (server w) of
               None \<Rightarrow> Some w
             | Some h \<Rightarrow> do {
                 addr_in \<leftarrow> addr;
                 (link, w) \<leftarrow> add_node env now (fst addr_in) (snd addr_in) w;
                 map_option snd (on_data (handler_at env h) buf link w)
               })"

section \<open>Peers and their keys\<close>

lemma create_node_parts: "drop_bit 32 (create_node ip port) = ucast ip \<and> take_bit 32 (create_node ip port) = ucast port"
proof -
  have len: "bit ip n \<Longrightarrow> n < 32" "bit port n \<Longrightarrow> n < 32" for n
    using bit_imp_le_length [of ip n] bit_imp_le_length [of port n] by simp_all
  from len(2) have high: "\<not> bit port (32 + n)" for n by fastforce
  have "and (push_bit 32 (ucast ip)) (ucast port :: u64) = 0"
    by (rule bit_word_eqI) (auto simp: bit_simps dest!: len)
  then have "create_node ip port = push_bit 32 (ucast ip) OR ucast port"
    unfolding create_node_def by (rule disjunctive_add_eq_or)
  then show ?thesis by (auto intro!: bit_word_eqI simp: bit_simps high dest: len)
qed

text \<open>
  Two peers have the same key exactly if they have the same address and the same port.
\<close>

theorem node_injective:
  "create_node ip port = create_node ip' port' \<longleftrightarrow> ip = ip' \<and> port = port'"
proof
  assume eq: "create_node ip port = create_node ip' port'"
  have "ucast ip = (ucast ip' :: u64)" "ucast port = (ucast port' :: u64)"
    using create_node_parts [of ip port] create_node_parts [of ip' port'] eq by simp_all
  moreover have "unat (ucast i :: u64) = unat i" "unat (ucast p :: u64) = unat p" for i :: u32 and p :: u16
    using unsigned_less [of i, where ?'a = nat] unsigned_less [of p, where ?'a = nat]
    by (simp_all add: unsigned_ucast_eq take_bit_nat_eq_self)
  ultimately show "ip = ip' \<and> port = port'" by (metis word_unat_eq_iff)
qed simp

section \<open>The invariant\<close>

definition find_peer :: "u32 \<Rightarrow> u16 \<Rightarrow> 'a udp_world \<Rightarrow> nat option" where
  "find_peer ip port w = map_of (m_mapLink (server w)) (create_node ip port)"

definition keyed :: "(nat \<rightharpoonup> udp_peer_link) \<Rightarrow> u64 \<Rightarrow> nat \<Rightarrow> bool" where
  "keyed ps node a \<longleftrightarrow> (\<exists>l. ps a = Some l \<and> create_node (m_nIP l) (m_nPort l) = node)"

definition world_ok :: "'a udp_world \<Rightarrow> bool" where
  "world_ok w \<longleftrightarrow>
    net_ok (net w) \<and> std.each (keyed (peers w)) (m_mapLink (server w)) \<and>
    (\<forall>a \<in> dom (peers w). a < next_addr (net w))"

text \<open>
  What the server relies on when it calls its handler: the callback returns, keeps the network's
  and the application's invariants, and leaves the table alone; it may send on the peers.
\<close>

definition peer_key :: "udp_peer_link \<Rightarrow> u32 \<times> u16 \<times> u64" where
  "peer_key l = (m_nIP l, m_nPort l, m_nStamp l)"

definition calm :: "'a udp_world \<Rightarrow> 'a udp_world \<Rightarrow> bool" where
  "calm w w' \<longleftrightarrow> net_ok (net w') \<and> server w' = server w \<and> next_addr (net w) \<le> next_addr (net w') \<and>
    (\<forall>a. map_option peer_key (peers w' a) = map_option peer_key (peers w a))"

locale udp_server_client =
  fixes env :: "'a udp_server_env" and A :: "'a \<Rightarrow> bool"
  assumes data_ok: "\<lbrakk>net_ok (net w); A (app w); \<And>a. lk = Some a \<Longrightarrow> peers w a \<noteq> None\<rbrakk> \<Longrightarrow>
      \<exists>v w'. on_data (handler_at env h) bs lk w = Some (v, w') \<and> calm w w' \<and> A (app w')"
    and close_ok: "\<lbrakk>net_ok (net w); A (app w); peers w a \<noteq> None\<rbrakk> \<Longrightarrow>
      \<exists>w'. on_close (handler_at env h) a w = Some w' \<and> calm w w' \<and> A (app w')"

definition default_udp_server :: "unit udp_server_env" where
  "default_udp_server =
    \<lparr>answers = \<lambda>_ _. 0,
     handler_at = \<lambda>_. \<lparr>on_close = \<lambda>a w. Some w, on_data = \<lambda>bs lk w. Some (int (length bs), w)\<rparr>,
     ntoa = \<lambda>_. [],
     peer_garbage = \<lparr>m_pHandler = None, m_nId = 0, m_strIP = [], m_nIP = 0, m_nPort = 0, m_nLastErrorLogStamp = 0,
       m_nSends = 0, m_nStamp = 0\<rparr>\<rparr>"

interpretation default_server: udp_server_client default_udp_server "\<lambda>_. True"
  by unfold_locales (simp_all add: default_udp_server_def calm_def)

lemma keyed_update:
  "\<lbrakk>keyed ps node a; ps b = Some l; m_nIP l' = m_nIP l; m_nPort l' = m_nPort l\<rbrakk> \<Longrightarrow> keyed (ps(b \<mapsto> l')) node a"
  by (auto simp: keyed_def)

lemma calm_refl: "net_ok (net w) \<Longrightarrow> calm w w"
  by (simp add: calm_def)

lemma calm_trans: "calm w1 w2 \<Longrightarrow> calm w2 w3 \<Longrightarrow> calm w1 w3"
  by (auto simp: calm_def)

lemma calm_peer:
  assumes "calm w w'"
  shows "peers w a = Some l \<Longrightarrow> \<exists>l'. peers w' a = Some l' \<and> m_nIP l' = m_nIP l \<and> m_nPort l' = m_nPort l \<and> m_nStamp l' = m_nStamp l"
    and "peers w' a = None \<longleftrightarrow> peers w a = None"
proof -
  have "map_option peer_key (peers w' a) = map_option peer_key (peers w a)" using assms by (simp add: calm_def)
  then show "peers w a = Some l \<Longrightarrow> \<exists>l'. peers w' a = Some l' \<and> m_nIP l' = m_nIP l \<and> m_nPort l' = m_nPort l \<and> m_nStamp l' = m_nStamp l"
    "peers w' a = None \<longleftrightarrow> peers w a = None"
    by (cases "peers w' a"; cases "peers w a"; simp add: peer_key_def)+
qed

lemma calm_world_ok:
  assumes "calm w w'" and "world_ok w"
  shows "world_ok w'"
proof -
  have "keyed (peers w') node a" if "keyed (peers w) node a" for node a
    using that calm_peer(1) [OF assms(1)] by (fastforce simp: keyed_def)
  moreover have "a < next_addr (net w')" if "a \<in> dom (peers w')" for a
  proof -
    have "a \<in> dom (peers w)" using that calm_peer(2) [OF assms(1), of a] by auto
    then show ?thesis using assms unfolding world_ok_def calm_def by (meson less_le_trans)
  qed
  ultimately show ?thesis using assms by (auto simp: world_ok_def calm_def std.each_def)
qed

section \<open>Finding and creating peers\<close>

text \<open>What \<open>add_node\<close> does for a proper address: the peer, with its stamp, and the table.\<close>

lemma add_node_spec:
  assumes w: "world_ok w" and addr: "ip \<noteq> 0" "port \<noteq> 0"
  shows "\<exists>a w' l. add_node env now ip port w = Some (Some a, w') \<and> world_ok w' \<and> app w' = app w \<and>
    peers w' a = Some l \<and> m_nIP l = ip \<and> m_nPort l = port \<and> m_nStamp l = now \<and>
    (\<forall>ip' port'. find_peer ip' port' w' = (if ip' = ip \<and> port' = port then Some a else find_peer ip' port' w)) \<and>
    (\<forall>b. b \<noteq> a \<longrightarrow> peers w' b = peers w b) \<and>
    (case find_peer ip port w of
       None \<Rightarrow> peers w a = None
     | Some b \<Rightarrow> b = a \<and> (\<exists>l0. peers w a = Some l0 \<and> l = l0\<lparr>m_nStamp := now\<rparr>)) \<and>
    m_pUdp (server w') = m_pUdp (server w) \<and> udp_server.m_pHandler (server w') = udp_server.m_pHandler (server w)"
proof (cases "find_peer ip port w")
  case (Some a)
  then have "keyed (peers w) (create_node ip port) a"
    using w std.each_look by (fastforce simp: world_ok_def find_peer_def)
  then obtain l where l: "peers w a = Some l" "m_nIP l = ip" "m_nPort l = port"
    by (auto simp: keyed_def node_injective)
  let ?w = "w\<lparr>peers := (peers w)(a \<mapsto> l\<lparr>m_nStamp := now\<rparr>)\<rparr>"
  have "add_node env now ip port w = Some (Some a, ?w)"
    using Some l addr by (simp add: add_node_def find_peer_def Let_def)
  moreover have "world_ok ?w"
    using w keyed_update [where ps = "peers w" and b = a and l = l and l' = "l\<lparr>m_nStamp := now\<rparr>"] l(1)
    by (auto simp: world_ok_def std.each_def)
  ultimately show ?thesis using l Some by (intro exI [of _ a] exI [of _ ?w]) (auto simp: find_peer_def)
next
  case None
  let ?a = "next_addr (net w)"
  obtain n1 where n1: "new_addr (net w) = (?a, n1)" "net_ok n1" "next_addr n1 = ?a + 1"
    using net_ok_new_addr [of "net w"] w by (auto simp: new_addr_def world_ok_def)
  obtain l n2 where n2: "UdpPeerLink_new (ntoa env) (peer_garbage env) ip port n1 = (l, n2)" "net_ok n2"
      "next_addr n2 = ?a + 1" "m_nIP l = ip" "m_nPort l = port"
    using net_ok_id [OF n1(2)] n1(3) by (auto simp: UdpPeerLink_new_def LinkidAllocator_next_def)
  let ?l = "(UdpPeerLink_set_handler (udp_server.m_pHandler (server w)) l)\<lparr>m_nStamp := now\<rparr>"
  let ?w = "on_server (\<lambda>s. s\<lparr>m_mapLink := std_insert (create_node ip port) ?a (m_mapLink s)\<rparr>)
      (w\<lparr>net := n2, peers := (peers w)(?a \<mapsto> ?l)\<rparr>)"
  have "add_node env now ip port w = Some (Some ?a, ?w)"
    using None n1 n2 addr by (simp add: add_node_def find_peer_def Let_def)
  note found = this
  have fresh: "peers w ?a = None" using w by (auto simp: world_ok_def)
  have old: "keyed ((peers w)(?a \<mapsto> ?l)) node b" if "keyed (peers w) node b" for node b
    using that fresh by (auto simp: keyed_def)
  have "std.each (keyed ((peers w)(?a \<mapsto> ?l))) (m_mapLink (server w))"
    using w old by (auto simp: world_ok_def std.each_def)
  then have "std.each (keyed ((peers w)(?a \<mapsto> ?l))) (std_insert (create_node ip port) ?a (m_mapLink (server w)))"
    by (rule std.each_put) (simp add: keyed_def n2 UdpPeerLink_set_handler_def)
  moreover have "b < Suc ?a" if "peers w b = Some y" for b y
  proof -
    have "b < ?a" using w domI [of "peers w", OF that] by (simp add: world_ok_def)
    then show ?thesis by simp
  qed
  ultimately have "world_ok ?w"
    using n2 by (auto simp: world_ok_def)
  with found show ?thesis
    using n2 fresh None
    by (intro exI [of _ ?a] exI [of _ ?w]) (auto simp: find_peer_def node_injective UdpPeerLink_set_handler_def)
qed

text \<open>
  C35.  A datagram from a proper address finds or creates the one peer of that address and port: the
  peer has them and the time of the datagram; a peer that was there keeps everything but its time,
  and a new one is at an address where no peer was.  The next datagram from there finds it again.
  All other peers are exactly as before, their times included, and so are the entries of all other
  addresses.
\<close>

theorem add_node_finds:
  assumes "world_ok w" and "ip \<noteq> 0" and "port \<noteq> 0"
  shows "\<exists>a w' l. add_node env now ip port w = Some (Some a, w') \<and> world_ok w' \<and>
    peers w' a = Some l \<and> m_nIP l = ip \<and> m_nPort l = port \<and> m_nStamp l = now \<and>
    (case find_peer ip port w of
       None \<Rightarrow> peers w a = None
     | Some b \<Rightarrow> b = a \<and> (\<exists>l0. peers w a = Some l0 \<and> l = l0\<lparr>m_nStamp := now\<rparr>)) \<and>
    find_peer ip port w' = Some a \<and>
    (\<exists>w''. add_node env now' ip port w' = Some (Some a, w'')) \<and>
    (\<forall>b. b \<noteq> a \<longrightarrow> peers w' b = peers w b) \<and>
    (\<forall>ip' port'. (ip', port') \<noteq> (ip, port) \<longrightarrow> find_peer ip' port' w' = find_peer ip' port' w)"
proof -
  from add_node_spec [OF assms, of env now] obtain a w' l where
    a: "add_node env now ip port w = Some (Some a, w')" "world_ok w'" "peers w' a = Some l"
      "m_nIP l = ip" "m_nPort l = port" "m_nStamp l = now" "\<forall>b. b \<noteq> a \<longrightarrow> peers w' b = peers w b"
      "case find_peer ip port w of None \<Rightarrow> peers w a = None
       | Some b \<Rightarrow> b = a \<and> (\<exists>l0. peers w a = Some l0 \<and> l = l0\<lparr>m_nStamp := now\<rparr>)"
    and find: "\<forall>ip' port'. find_peer ip' port' w' = (if ip' = ip \<and> port' = port then Some a else find_peer ip' port' w)"
    by blast
  have same: "find_peer ip port w' = Some a" using find by simp
  then have "\<exists>w''. add_node env now' ip port w' = Some (Some a, w'')"
    using a(3) assms by (simp add: add_node_def find_peer_def Let_def)
  with a same find show ?thesis by (intro exI [of _ a] exI [of _ w'] exI [of _ l]) auto
qed

end
