(* ===== verification/UdpSession.thy ===== *)
theory UdpSession
  imports UdpServer
begin

text \<open>
  The UDP server (\<open>src/src/udpserver.cpp\<close>) over time: expiry of peers, answers, and any sequence of
  operations and libuv callbacks.
\<close>

definition blank_udp_server :: udp_server where
  "blank_udp_server =
    \<lparr>udp_server.m_pUdp = None, udp_server.m_pTimer = \<lparr>timer.m_pTimer = None, timer.m_pHandler = None, timer.m_nId = 0\<rparr>, udp_server.m_pHandler = None, m_mapLink = [],
     udp_server.m_nReads = 0\<rparr>"

definition server_start :: "udp_server \<Rightarrow> timer \<Rightarrow> net \<Rightarrow> 'a \<Rightarrow> 'a udp_world" where
  "server_start g gt n a =
    \<lparr>net = snd (UdpServer_new g gt n), server = fst (UdpServer_new g gt n), peers = Map.empty, app = a\<rparr>"

lemma server_start_ok: "net_ok n \<Longrightarrow> world_ok (server_start g gt n a)"
proof -
  assume n: "net_ok n"
  have "net_ok (uv_do (Uv_timer_init h) (snd (new_addr (uv_do (Uv_udp_init h') (snd (new_addr n))))))" for h h'
    by (intro net_ok_do net_ok_new_addr n) simp_all
  then show ?thesis
    by (simp add: world_ok_def server_start_def UdpServer_new_def Timer_new_def new_addr_def std.each_def)
qed

lemma add_node_finds_witness:
  "\<exists>a w' w''. add_node default_udp_server 7 1 2 (server_start blank_udp_server (m_pTimer blank_udp_server) net_start ()) = Some (Some a, w') \<and>
    add_node default_udp_server 9 1 2 w' = Some (Some a, w'')"
  using add_node_finds [OF server_start_ok [OF net_ok_start], of 1 2 default_udp_server 7 blank_udp_server
      "m_pTimer blank_udp_server" "()" 9]
  by auto

section \<open>Expiry\<close>

text \<open>A minute, in milliseconds, after the peer was last heard from.\<close>

definition expired :: "u64 \<Rightarrow> udp_peer_link \<Rightarrow> bool" where
  "expired now l \<longleftrightarrow> now \<ge> m_nStamp l + 60000"

lemma expired_limit: "expired now l \<longleftrightarrow> now \<ge> m_nStamp l + UDP_EXPIRE"
  by (simp add: expired_def UDP_EXPIRE_def)

definition expired_at :: "u64 \<Rightarrow> 'a udp_world \<Rightarrow> nat \<Rightarrow> bool" where
  "expired_at now w a \<longleftrightarrow> (\<exists>l. peers w a = Some l \<and> expired now l)"

lemma expired_at_calm: "calm w w' \<Longrightarrow> expired_at now w' a = expired_at now w a"
  using calm_peer [of w w' a]
  by (cases "peers w a"; cases "peers w' a") (auto simp: expired_at_def expired_def)

text \<open>Two worlds that agree, but for the peers in \<open>D\<close>, which are gone from the second.\<close>

definition reaped :: "nat set \<Rightarrow> 'a udp_world \<Rightarrow> 'a udp_world \<Rightarrow> bool" where
  "reaped D w w' \<longleftrightarrow> net_ok (net w') \<and> server w' = server w \<and> next_addr (net w) \<le> next_addr (net w') \<and>
    (\<forall>a. map_option peer_key (peers w' a) = (if a \<in> D then None else map_option peer_key (peers w a)))"

lemma reaped_trans: "reaped D w1 w2 \<Longrightarrow> reaped E w2 w3 \<Longrightarrow> reaped (D \<union> E) w1 w3"
  by (auto simp: reaped_def)

lemma fold_std_erase: "map_of (fold std_erase ks m) k = (if k \<in> set ks then None else map_of m k)"
  by (induction ks arbitrary: m) auto

lemma fold_std_erase_ordered: "std_ordered m \<Longrightarrow> std_ordered (fold std_erase ks m)"
  by (induction ks arbitrary: m) (simp_all add: std_erase_ordered)

context udp_server_client
begin

lemma delete_ok:
  assumes "net_ok (net w)" and "A (app w)" and "peers w a \<noteq> None"
  shows "\<exists>w'. UdpPeerLink_delete env a w = Some w' \<and> reaped {a} w w' \<and> A (app w')"
proof -
  obtain l where l: "peers w a = Some l" using assms(3) by blast
  show ?thesis
  proof (cases "m_pHandler l")
    case None
    with l assms show ?thesis by (simp add: UdpPeerLink_delete_def UdpPeerLink_close_def reaped_def)
  next
    case (Some h)
    from close_ok [OF assms, of h] obtain w1 where
      w1: "on_close (handler_at env h) a w = Some w1" "calm w w1" "A (app w1)" by blast
    with Some l show ?thesis
      by (auto simp: UdpPeerLink_delete_def UdpPeerLink_close_def reaped_def calm_def)
  qed
qed

lemma expire_loop_ok:
  assumes "net_ok (net w)" and "A (app w)" and "\<forall>(k, a) \<in> set m. peers w a \<noteq> None" and "distinct (map snd m)"
  shows "\<exists>w'. expire_loop env now m ex w = Some (ex @ map fst (filter (\<lambda>(k, a). expired_at now w a) m), w') \<and>
    reaped (snd ` {p \<in> set m. expired_at now w (snd p)}) w w' \<and> A (app w')"
  using assms
proof (induction m arbitrary: ex w)
  case Nil
  then show ?case by (simp add: reaped_def)
next
  case (Cons p m)
  obtain k a where [simp]: "p = (k, a)" by (cases p)
  obtain l where l: "peers w a = Some l" using Cons.prems(3) by auto
  show ?case
  proof (cases "expired now l")
    case False
    then have "\<not> expired_at now w a" using l by (simp add: expired_at_def)
    moreover from this have "{q \<in> set (p # m). expired_at now w (snd q)} = {q \<in> set m. expired_at now w (snd q)}"
      by auto
    ultimately show ?thesis using Cons.IH [OF Cons.prems(1,2)] Cons.prems(3,4) False l
      by (simp add: expired_limit)
  next
    case True
    from delete_ok [OF Cons.prems(1,2), of a] l obtain w1 where
      w1: "UdpPeerLink_delete env a w = Some w1" "reaped {a} w w1" "A (app w1)" by auto
    have key: "map_option peer_key (peers w1 b) = map_option peer_key (peers w b)" if "b \<noteq> a" for b
      using w1(2) that by (simp add: reaped_def)
    have same: "expired_at now w1 b = expired_at now w b" "peers w1 b = None \<longleftrightarrow> peers w b = None" if "b \<noteq> a" for b
      using key [OF that] by (cases "peers w b"; cases "peers w1 b"; simp add: expired_at_def expired_def peer_key_def)+
    have other: "b \<noteq> a" if "(k', b) \<in> set m" for k' b using Cons.prems(4) that by force
    have live: "\<forall>(k, b) \<in> set m. peers w1 b \<noteq> None" using Cons.prems(3) other same(2) by fastforce
    from w1(2) have n1: "net_ok (net w1)" by (simp add: reaped_def)
    obtain w2 where w2:
      "expire_loop env now m (ex @ [k]) w1 = Some ((ex @ [k]) @ map fst (filter (\<lambda>(k, b). expired_at now w1 b) m), w2)"
      "reaped (snd ` {q \<in> set m. expired_at now w1 (snd q)}) w1 w2" "A (app w2)"
      using Cons.IH [OF n1 w1(3) live, of "ex @ [k]"] Cons.prems(4) by auto
    have f: "filter (\<lambda>(k, b). expired_at now w1 b) m = filter (\<lambda>(k, b). expired_at now w b) m"
      by (rule filter_cong) (use other same(1) in auto)
    have s: "{q \<in> set m. expired_at now w1 (snd q)} = {q \<in> set m. expired_at now w (snd q)}"
      using other same(1) by fastforce
    have a: "expired_at now w a" using True l by (simp add: expired_at_def)
    have "snd ` {q \<in> set (p # m). expired_at now w (snd q)} = {a} \<union> snd ` {q \<in> set m. expired_at now w (snd q)}"
      using a by (force simp: image_iff)
    with reaped_trans [OF w1(2) w2(2)] w1(1) w2(1,3) f s a l True show ?thesis
      by (simp add: expired_limit)
  qed
qed

end

lemma table_distinct:
  assumes "std.each (keyed ps) m"
  shows "distinct (map snd m)"
proof -
  have d: "distinct (map fst m)" using assms by (intro std_ordered_distinct) (simp add: std.each_def)
  have "k = k'" if "(k, a) \<in> set m" "(k', a) \<in> set m" for k k' a
  proof -
    have "keyed ps k a" "keyed ps k' a" using that d assms by (simp_all add: std.each_def)
    then show ?thesis by (auto simp: keyed_def)
  qed
  then have "inj_on snd (set m)" by (auto simp: inj_on_def)
  with d show ?thesis by (auto simp: distinct_map)
qed

text \<open>
  C33.  A tick of the expiry timer removes from the table exactly the peers last heard from a
  minute ago or more, deletes each of them once, and keeps the others.
\<close>

theorem expiry:
  assumes "udp_server_client env A" and w: "world_ok w" and "A (app w)"
  shows "\<exists>w'. UdpServer_on_timer env i now w = Some w' \<and> world_ok w' \<and> A (app w') \<and>
    (\<forall>ip port. find_peer ip port w' =
      (case find_peer ip port w of
         None \<Rightarrow> None
       | Some a \<Rightarrow> if expired_at now w a then None else Some a)) \<and>
    (\<forall>ip port a. find_peer ip port w = Some a \<longrightarrow> (peers w' a = None \<longleftrightarrow> expired_at now w a))"
proof -
  let ?m = "m_mapLink (server w)"
  let ?ex = "map fst (filter (\<lambda>(k, a). expired_at now w a) ?m)"
  have each: "std.each (keyed (peers w)) ?m" and n: "net_ok (net w)"
    and fresh: "\<forall>a \<in> dom (peers w). a < next_addr (net w)" using w by (simp_all add: world_ok_def)
  then have ord: "std_ordered ?m" by (simp add: std.each_def)
  have entry: "(k, a) \<in> set ?m \<longleftrightarrow> map_of ?m k = Some a" for k a
    using std_ordered_distinct [OF ord] by simp
  have live: "\<forall>(k, a) \<in> set ?m. peers w a \<noteq> None"
    using each entry by (fastforce simp: std.each_def keyed_def)
  from udp_server_client.expire_loop_ok [OF assms(1) n assms(3) live table_distinct [OF each], of now "[]"]
  obtain w1 where w1: "expire_loop env now ?m [] w = Some (?ex, w1)"
    "reaped (snd ` {p \<in> set ?m. expired_at now w (snd p)}) w w1" "A (app w1)" by auto
  let ?w = "on_server (\<lambda>s. s\<lparr>m_mapLink := fold std_erase ?ex (m_mapLink s)\<rparr>) w1"
  have run: "UdpServer_on_timer env i now w = Some ?w" using w1(1) by (simp add: UdpServer_on_timer_def)
  have srv: "server w1 = server w" using w1(2) by (simp add: reaped_def)
  have ex: "k \<in> set ?ex \<longleftrightarrow> expired_at now w a" if "map_of ?m k = Some a" for k a
    using that entry by force
  have gone: "b \<in> snd ` {p \<in> set ?m. expired_at now w (snd p)} \<longleftrightarrow> expired_at now w b" if "map_of ?m k = Some b" for k b
    using that entry by force
  have keys: "map_option peer_key (peers w1 b) = (if expired_at now w b then None else map_option peer_key (peers w b))"
    if "map_of ?m k = Some b" for k b
    using w1(2) gone [OF that] by (simp add: reaped_def)
  have look: "map_of (m_mapLink (server ?w)) k = (case map_of ?m k of None \<Rightarrow> None | Some a \<Rightarrow>
      if expired_at now w a then None else Some a)" for k
  proof (cases "map_of ?m k")
    case None
    then show ?thesis by (simp add: fold_std_erase srv)
  next
    case (Some a)
    with ex [OF Some] show ?thesis by (simp add: fold_std_erase srv)
  qed
  have "keyed (peers w1) k b" if "map_of (m_mapLink (server ?w)) k = Some b" for k b
  proof -
    from that look [of k] have b: "map_of ?m k = Some b" "\<not> expired_at now w b"
      by (auto split: option.splits if_splits)
    then have "keyed (peers w) k b" using each by (simp add: std.each_def)
    then obtain l where "peers w b = Some l" "create_node (m_nIP l) (m_nPort l) = k" by (auto simp: keyed_def)
    with keys [OF b(1)] b(2) show ?thesis by (cases "peers w1 b") (auto simp: keyed_def peer_key_def)
  qed
  moreover have "std_ordered (m_mapLink (server ?w))" using ord by (simp add: srv fold_std_erase_ordered)
  moreover have "b < next_addr (net w1)" if "b \<in> dom (peers w1)" for b
  proof -
    let ?gone = "b \<in> snd ` {p \<in> set ?m. expired_at now w (snd p)}"
    have "map_option peer_key (peers w1 b) = (if ?gone then None else map_option peer_key (peers w b))"
      using w1(2) by (simp add: reaped_def)
    then have "peers w b \<noteq> None" using that by (cases "peers w b"; cases ?gone) auto
    then have "b \<in> dom (peers w)" by blast
    then have "b < next_addr (net w)" using fresh by blast
    moreover have "next_addr (net w) \<le> next_addr (net w1)" using w1(2) by (simp add: reaped_def)
    ultimately show ?thesis by (rule less_le_trans)
  qed
  ultimately have "world_ok ?w" using w1(2) by (simp add: world_ok_def std.each_def reaped_def)
  moreover have "peers w1 a = None \<longleftrightarrow> expired_at now w a" if "map_of ?m k = Some a" for k a
  proof -
    have "peers w a \<noteq> None" using live that entry by blast
    with keys [OF that] show ?thesis by (cases "peers w1 a") (auto split: if_splits)
  qed
  ultimately show ?thesis using run w1(3) look by (auto simp: find_peer_def)
qed

definition one_peer :: "unit udp_world" where
  "one_peer = snd (the (add_node default_udp_server 7 1 2
    (server_start blank_udp_server (m_pTimer blank_udp_server) net_start ())))"

lemma one_peer: "world_ok one_peer \<and> (\<exists>a l. find_peer 1 2 one_peer = Some a \<and> peers one_peer a = Some l \<and> m_nStamp l = 7)"
proof -
  let ?w = "server_start blank_udp_server (m_pTimer blank_udp_server) net_start ()"
  have "(1 :: u32) \<noteq> 0" "(2 :: u16) \<noteq> 0" by simp_all
  from add_node_spec [OF server_start_ok [OF net_ok_start] this, of default_udp_server 7
      blank_udp_server "m_pTimer blank_udp_server" "()"] obtain a w' l where
    "add_node default_udp_server 7 1 2 ?w = Some (Some a, w')" "world_ok w'" "peers w' a = Some l" "m_nStamp l = 7"
    and "\<forall>ip' port'. find_peer ip' port' w' = (if ip' = 1 \<and> port' = 2 then Some a else find_peer ip' port' ?w)"
    by (elim exE conjE) (rule that; assumption)
  then show ?thesis by (simp add: one_peer_def)
qed

lemma expiry_witness:
  "\<exists>w'. UdpServer_on_timer default_udp_server 0 60007 one_peer = Some w' \<and> find_peer 1 2 w' = None"
proof -
  obtain a l where a: "find_peer 1 2 one_peer = Some a" "peers one_peer a = Some l" "m_nStamp l = 7"
    using one_peer by blast
  then have "expired_at 60007 one_peer a" by (simp add: expired_at_def expired_def)
  with expiry [OF default_server.udp_server_client_axioms conjunct1 [OF one_peer] TrueI, of 0 60007] a show ?thesis
    by auto
qed

section \<open>Answers\<close>

lemma answer_ok:
  assumes w: "net_ok (net w)" and len: "length data < 2 ^ 31"
  shows "\<exists>n. UdpServer_answer env data (c_int (length data)) ip port w = Some (w\<lparr>net := n\<rparr>) \<and> net_ok n \<and>
    next_addr (net w) \<le> next_addr n \<and>
    (case m_pUdp (server w) of
       None \<Rightarrow> n = net w
     | Some h \<Rightarrow>
         if length data > 524288 then calls n = calls (net w)
         else calls n = calls (net w) @ [Uv_udp_send h (next_addr (net w)) data (Some (ip, port))] \<and>
           (answers env (calls (net w)) (Uv_udp_send h (next_addr (net w)) data (Some (ip, port))) = 0 \<longrightarrow>
             pending n (next_addr (net w)) \<noteq> None))"
proof (cases "m_pUdp (server w)")
  case None
  with w show ?thesis by (intro exI [of _ "net w"]) (simp add: UdpServer_answer_def)
next
  case (Some h)
  obtain H where H: "net_inv (net w) H" using w by (auto simp: net_ok_def)
  have i: "c_int (length data) = int (length data)" using len by (rule c_int_small)
  show ?thesis
  proof (cases "length data \<le> 524288")
    case False
    then have "524288 < c_int (length data)" using i by simp
    from send_buffer_big [OF H this, of data] obtain p where
      "send_buffer data (c_int (length data)) (net w) = Some (None, [], (net w)\<lparr>mpool := p\<rparr>)"
      "net_inv ((net w)\<lparr>mpool := p\<rparr>) H" by blast
    with False Some show ?thesis by (auto simp: UdpServer_answer_def dest: net_okI)
  next
    case True
    from send_buffer_ok [OF H, of "c_int (length data)" data] i True obtain a p where
      buf: "send_buffer data (c_int (length data)) (net w) = Some (Some a, data, (net w)\<lparr>mpool := p\<rparr>)"
      and a: "a \<notin> H" and inv: "net_inv ((net w)\<lparr>mpool := p\<rparr>) (insert a H)"
      and block: "take (length data) (block_of p a) = map Some data" by auto
    let ?n = "udp_queue (answers env) h a data (Some (ip, port)) ((net w)\<lparr>mpool := p\<rparr>)"
    have "next_addr ?n = next_addr (net w) + 1"
      by (simp add: udp_queue_def new_addr_def uv_ask_def uv_do_def)
    moreover have "UdpServer_answer env data (c_int (length data)) ip port w = Some (w\<lparr>net := ?n\<rparr>)"
      using buf Some by (simp add: UdpServer_answer_def)
    ultimately show ?thesis
      using udp_queue_ok [OF inv a, of data "answers env" h "Some (ip, port)"] block True Some
      by (intro exI [of _ ?n]) (auto split: if_splits)
  qed
qed

text \<open>
  C34.  What a handler sends on the link it was given with a datagram goes to the address and port
  that datagram came from, with exactly its bytes, up to 512 KiB and as long as the server is
  open; the table of peers is as before.
\<close>

theorem answer_returns_to_sender:
  assumes w: "world_ok w" and addr: "ip \<noteq> 0" "port \<noteq> 0" and h: "m_pUdp (server w) = Some h"
    and len: "length data \<le> 524288"
  shows "\<exists>a w1 w2 req. add_node env now ip port w = Some (Some a, w1) \<and>
    UdpPeerLink_send env a data w1 = Some (0, w2) \<and> world_ok w2 \<and>
    calls (net w2) = calls (net w1) @ [Uv_udp_send h req data (Some (ip, port))] \<and>
    (\<forall>ip' port'. find_peer ip' port' w2 = find_peer ip' port' w1)"
proof -
  from add_node_spec [OF w addr, of env now] obtain a w1 l where
    a: "add_node env now ip port w = Some (Some a, w1)" "world_ok w1" "peers w1 a = Some l"
      "m_nIP l = ip" "m_nPort l = port" "m_pUdp (server w1) = Some h" using h by metis
  let ?l = "l\<lparr>m_nSends := m_nSends l + 1\<rparr>"
  let ?w = "w1\<lparr>peers := (peers w1)(a \<mapsto> ?l)\<rparr>"
  have "net_ok (net ?w)" using a(2) by (simp add: world_ok_def)
  moreover have "length data < 2 ^ 31" using len by simp
  ultimately obtain n where n:
    "UdpServer_answer env data (c_int (length data)) ip port ?w = Some (?w\<lparr>net := n\<rparr>)" "net_ok n"
    "next_addr (net w1) \<le> next_addr n"
    "calls n = calls (net w1) @ [Uv_udp_send h (next_addr (net w1)) data (Some (ip, port))]"
    using answer_ok [of ?w data env ip port] a(6) len by auto
  have "calm w1 (?w\<lparr>net := n\<rparr>)" using n a(3) by (simp add: calm_def peer_key_def)
  from calm_world_ok [OF this a(2)] have "world_ok (?w\<lparr>net := n\<rparr>)" .
  moreover have "UdpPeerLink_send env a data w1 = Some (0, ?w\<lparr>net := n\<rparr>)"
    using a n(1) by (simp add: UdpPeerLink_send_def)
  ultimately show ?thesis using a(1) n(4) by (intro exI conjI) (assumption | simp add: find_peer_def)+
qed

lemma answer_returns_to_sender_witness:
  "\<exists>a w1 w2 req. add_node default_udp_server 7 1 2 (server_start blank_udp_server (m_pTimer blank_udp_server) net_start ()) = Some (Some a, w1) \<and>
    UdpPeerLink_send default_udp_server a ''pong'' w1 = Some (0, w2) \<and>
    calls (net w2) = calls (net w1) @ [Uv_udp_send 0 req ''pong'' (Some (1, 2))]"
proof -
  have "m_pUdp (server (server_start blank_udp_server (m_pTimer blank_udp_server) net_start ())) = Some 0"
    by (simp add: server_start_def UdpServer_new_def new_addr_def Timer_new_def net_start_def uv_do_def)
  from answer_returns_to_sender [OF server_start_ok [OF net_ok_start] _ _ this, of 1 2 "''pong''" default_udp_server 7]
  show ?thesis by auto
qed

section \<open>Sessions\<close>

text \<open>
  The operations and callbacks as events.  libuv gives the sender's address with every datagram
  and completes a request once, and no datagram has 2 GiB.  A tick is an event although \<open>UdpServer\<close>
  never starts its timer.
\<close>

datatype server_event =
    Listen u16
  | Close_server
  | Set_handler_to "nat option"
  | Datagram u64 int "byte list" "sockaddr option"
  | Answered nat int
  | Tick int u64
  | Peer_send nat "byte list"
  | Peer_send_to nat "byte list" u32 u16
  | Peer_close nat

fun server_step :: "'a udp_server_env \<Rightarrow> server_event \<Rightarrow> 'a udp_world \<Rightarrow> 'a udp_world option" where
  "server_step env (Listen port) w = map_option snd (UdpServer_listen port w)"
| "server_step env Close_server w = Some (snd (UdpServer_close w))"
| "server_step env (Set_handler_to h) w = Some (UdpServer_set_handler h w)"
| "server_step env (Datagram now nread buf addr) w = UdpServer_on_read env now nread buf addr w"
| "server_step env (Answered req status) w = map_option (\<lambda>n. w\<lparr>net := n\<rparr>) (UdpServer_on_send req status (net w))"
| "server_step env (Tick i now) w = UdpServer_on_timer env i now w"
| "server_step env (Peer_send a data) w = map_option snd (UdpPeerLink_send env a data w)"
| "server_step env (Peer_send_to a data ip port) w = map_option snd (UdpPeerLink_send_to env a data ip port w)"
| "server_step env (Peer_close a) w = map_option snd (UdpPeerLink_close env a w)"

fun server_allowed :: "server_event \<Rightarrow> 'a udp_world \<Rightarrow> bool" where
  "server_allowed (Datagram now nread buf addr) w \<longleftrightarrow> (nread > 0 \<longrightarrow> addr \<noteq> None)"
| "server_allowed (Answered req status) w \<longleftrightarrow> pending (net w) req \<noteq> None"
| "server_allowed (Peer_send a data) w \<longleftrightarrow> length data < 2 ^ 31"
| "server_allowed (Peer_send_to a data ip port) w \<longleftrightarrow> length data < 2 ^ 31"
| "server_allowed _ w \<longleftrightarrow> True"

text \<open>
  The misuses: \<open>listen\<close> after \<open>close\<close> hands a null handle to \<open>uv_udp_bind\<close>, and a link that has been
  deleted (or never was one) is used.
\<close>

fun uses_peer :: "server_event \<Rightarrow> nat \<Rightarrow> bool" where
  "uses_peer (Peer_send a data) b \<longleftrightarrow> b = a"
| "uses_peer (Peer_send_to a data ip port) b \<longleftrightarrow> b = a"
| "uses_peer (Peer_close a) b \<longleftrightarrow> b = a"
| "uses_peer _ b \<longleftrightarrow> False"

definition server_misuse :: "server_event \<Rightarrow> 'a udp_world \<Rightarrow> bool" where
  "server_misuse e w \<longleftrightarrow>
    (\<exists>port. e = Listen port \<and> m_pUdp (server w) = None) \<or> (\<exists>a. uses_peer e a \<and> peers w a = None)"

inductive server_reachable :: "'a udp_server_env \<Rightarrow> 'a udp_world \<Rightarrow> 'a udp_world \<Rightarrow> bool" for env w0 where
  born: "server_reachable env w0 w0"
| step: "server_reachable env w0 w \<Longrightarrow> server_allowed e w \<Longrightarrow> server_step env e w = Some w' \<Longrightarrow>
    server_reachable env w0 w'"

lemma world_ok_net: "world_ok w \<Longrightarrow> net_ok n \<Longrightarrow> next_addr (net w) \<le> next_addr n \<Longrightarrow> world_ok (w\<lparr>net := n\<rparr>)"
  by (auto simp: world_ok_def intro: less_le_trans)

lemma world_ok_server: "world_ok w \<Longrightarrow> m_mapLink s = m_mapLink (server w) \<Longrightarrow> world_ok (w\<lparr>server := s\<rparr>)"
  by (simp add: world_ok_def)

lemma world_ok_count:
  assumes "world_ok w" and "peers w a = Some l"
  shows "world_ok (w\<lparr>peers := (peers w)(a \<mapsto> l\<lparr>m_nSends := v\<rparr>)\<rparr>)"
proof -
  have "calm w (w\<lparr>peers := (peers w)(a \<mapsto> l\<lparr>m_nSends := v\<rparr>)\<rparr>)"
    using assms by (simp add: calm_def world_ok_def peer_key_def)
  from calm_world_ok [OF this assms(1)] show ?thesis .
qed

context udp_server_client
begin

lemma peer_send_ok:
  assumes w: "world_ok w" "A (app w)" and l: "peers w a = Some l" and len: "length data < 2 ^ 31"
  shows "\<exists>w'. UdpServer_answer env data (c_int (length data)) ip port
      (w\<lparr>peers := (peers w)(a \<mapsto> l\<lparr>m_nSends := m_nSends l + 1\<rparr>)\<rparr>) = Some w' \<and> world_ok w' \<and> A (app w')"
proof -
  let ?w = "w\<lparr>peers := (peers w)(a \<mapsto> l\<lparr>m_nSends := m_nSends l + 1\<rparr>)\<rparr>"
  have ok: "world_ok ?w" by (rule world_ok_count [OF w(1) l])
  then have "net_ok (net ?w)" by (simp only: world_ok_def)
  from answer_ok [OF this len, of env ip port] obtain n where
    "UdpServer_answer env data (c_int (length data)) ip port ?w = Some (?w\<lparr>net := n\<rparr>)" "net_ok n"
    "next_addr (net ?w) \<le> next_addr n" by blast
  with world_ok_net [OF ok] w(2) show ?thesis by auto
qed

lemma read_ok:
  assumes w: "world_ok w" "A (app w)" and addr: "nread > 0 \<longrightarrow> addr \<noteq> None"
  shows "\<exists>w'. UdpServer_on_read env now nread buf addr w = Some w' \<and> world_ok w' \<and> A (app w')"
proof (cases "nread > 0")
  case False
  with w show ?thesis by (auto simp: UdpServer_on_read_def)
next
  case True
  then obtain ip port where a: "addr = Some (ip, port)" using addr by auto
  let ?w = "on_server (\<lambda>s. s\<lparr>m_nReads := m_nReads s + 1\<rparr>) w"
  have w1: "world_ok ?w" by (rule world_ok_server [OF w(1)]) simp
  show ?thesis
  proof (cases "udp_server.m_pHandler (server w)")
    case None
    with True w1 w(2) show ?thesis by (simp add: UdpServer_on_read_def)
  next
    case (Some h)
    have "\<exists>lk w2. add_node env now ip port ?w = Some (lk, w2) \<and> world_ok w2 \<and> A (app w2) \<and>
      (\<forall>a. lk = Some a \<longrightarrow> peers w2 a \<noteq> None)"
    proof (cases "ip = 0 \<or> port = 0")
      case True
      with w1 w(2) show ?thesis by (auto simp: add_node_def)
    next
      case False
      with add_node_spec [OF w1, of ip port env now] w(2) show ?thesis by fastforce
    qed
    then obtain lk w2 where w2: "add_node env now ip port ?w = Some (lk, w2)" "world_ok w2" "A (app w2)"
      "\<And>a. lk = Some a \<Longrightarrow> peers w2 a \<noteq> None" by blast
    have "net_ok (net w2)" using w2(2) by (simp add: world_ok_def)
    from data_ok [OF this w2(3), of lk h buf] w2(4) obtain v w3 where
      w3: "on_data (handler_at env h) buf lk w2 = Some (v, w3)" "calm w2 w3" "A (app w3)" by blast
    with calm_world_ok [OF w3(2) w2(2)] w2(1) True a Some show ?thesis
      by (simp add: UdpServer_on_read_def)
  qed
qed

lemma step_ok:
  assumes w: "world_ok w" "A (app w)" and e: "server_allowed e w" and fit: "\<not> server_misuse e w"
  shows "\<exists>w'. server_step env e w = Some w' \<and> world_ok w' \<and> A (app w')"
proof (cases e)
  case (Listen port)
  with fit obtain h where h: "m_pUdp (server w) = Some h" by (auto simp: server_misuse_def)
  have n: "net_ok (uv_do (Uv_udp_recv_start h) (uv_do (Uv_udp_bind h ''0.0.0.0'' port) (net w)))"
    using w(1) by (intro net_ok_do) (simp_all add: world_ok_def)
  have "world_ok (w\<lparr>net := uv_do (Uv_udp_recv_start h) (uv_do (Uv_udp_bind h ''0.0.0.0'' port) (net w))\<rparr>)"
    by (rule world_ok_net [OF w(1) n]) (simp add: uv_do_def)
  with Listen h w(2) show ?thesis by (simp add: UdpServer_listen_def)
next
  case Close_server
  show ?thesis
  proof (cases "m_pUdp (server w)")
    case (Some h)
    have n: "net_ok (uv_do (Uv_close h) (net w))" using w(1) by (intro net_ok_do) (simp_all add: world_ok_def)
    have "world_ok (w\<lparr>net := uv_do (Uv_close h) (net w)\<rparr>)"
      by (rule world_ok_net [OF w(1) n]) (simp add: uv_do_def)
    then have "world_ok (on_server (\<lambda>s. s\<lparr>m_pUdp := None\<rparr>) (w\<lparr>net := uv_do (Uv_close h) (net w)\<rparr>))"
      by (rule world_ok_server) simp
    with Close_server Some w(2) show ?thesis by (simp add: UdpServer_close_def)
  qed (use Close_server w in \<open>simp add: UdpServer_close_def\<close>)
next
  case (Set_handler_to h)
  have "world_ok (on_server (\<lambda>s. s\<lparr>udp_server.m_pHandler := h\<rparr>) w)" by (rule world_ok_server [OF w(1)]) simp
  with Set_handler_to w(2) show ?thesis by (simp add: UdpServer_set_handler_def)
next
  case (Datagram now nread buf addr)
  with read_ok [OF w, of nread addr now buf] e show ?thesis by simp
next
  case (Answered req status)
  with e obtain a where a: "pending (net w) req = Some a" by auto
  obtain H where "net_inv (net w) H" using w(1) by (auto simp: world_ok_def net_ok_def)
  from net_inv_done [OF this a] obtain p where p: "release (Some a) (net w) = Some ((net w)\<lparr>mpool := p\<rparr>)"
    "net_inv ((net w)\<lparr>mpool := p, pending := (pending (net w))(req := None)\<rparr>) H" by blast
  have "world_ok (w\<lparr>net := (net w)\<lparr>mpool := p, pending := (pending (net w))(req := None)\<rparr>\<rparr>)"
    by (rule world_ok_net [OF w(1) net_okI [OF p(2)]]) simp
  with Answered a p(1) w(2) show ?thesis by (simp add: UdpServer_on_send_def)
next
  case (Tick i now)
  with expiry [OF udp_server_client_axioms w, of i now] show ?thesis by auto
next
  case (Peer_send a data)
  with fit obtain l where l: "peers w a = Some l" by (auto simp: server_misuse_def)
  with peer_send_ok [OF w l, of data "m_nIP l" "m_nPort l"] Peer_send e show ?thesis
    by (auto simp: UdpPeerLink_send_def)
next
  case (Peer_send_to a data ip port)
  with fit obtain l where l: "peers w a = Some l" by (auto simp: server_misuse_def)
  with peer_send_ok [OF w l, of data ip port] Peer_send_to e show ?thesis
    by (auto simp: UdpPeerLink_send_to_def)
next
  case (Peer_close a)
  with fit obtain l where l: "peers w a = Some l" by (auto simp: server_misuse_def)
  show ?thesis
  proof (cases "m_pHandler l")
    case (Some h)
    have "net_ok (net w)" using w(1) by (simp add: world_ok_def)
    from close_ok [OF this w(2), of a h] l obtain w' where
      "on_close (handler_at env h) a w = Some w'" "calm w w'" "A (app w')" by auto
    with calm_world_ok [OF _ w(1)] Peer_close l Some show ?thesis by (simp add: UdpPeerLink_close_def)
  qed (use Peer_close l w in \<open>simp add: UdpPeerLink_close_def\<close>)
qed

lemma misuse_stuck: "server_misuse e w \<Longrightarrow> server_step env e w = None"
  by (cases e) (auto simp: server_misuse_def UdpServer_listen_def UdpPeerLink_send_def UdpPeerLink_send_to_def
      UdpPeerLink_close_def)

lemma reachable_ok:
  assumes "server_reachable env w0 w" and "world_ok w0" and "A (app w0)"
  shows "world_ok w \<and> A (app w)"
  using assms
proof (induction rule: server_reachable.induct)
  case (step w e w')
  then show ?case using step_ok [of w e] misuse_stuck [of e w] by (cases "server_misuse e w") auto
qed simp

end

text \<open>
  C10.  A UDP server from its construction on, under any sequence of operations and callbacks, with
  any handler that keeps the contract: in every state its table is ordered, each entry leads to a
  live peer with the address and port of its key, and every datagram libuv still holds keeps its
  bytes.  A null or stale pointer is used in exactly two cases: by \<open>listen\<close> on a server that has
  been closed, and by a call on a link that has been deleted.
\<close>

theorem udp_server_safe:
  assumes "udp_server_client env A" and "server_reachable env (server_start g gt n a) w" and "net_ok n" and "A a"
  shows "world_ok w \<and>
    (\<forall>e. server_allowed e w \<longrightarrow>
      (server_step env e w = None \<longleftrightarrow>
        (\<exists>port. e = Listen port \<and> m_pUdp (server w) = None) \<or> (\<exists>b. uses_peer e b \<and> peers w b = None)))"
proof -
  have start: "world_ok (server_start g gt n a)" "A (app (server_start g gt n a))"
    using server_start_ok [OF assms(3)] assms(4) by (simp_all add: server_start_def)
  from udp_server_client.reachable_ok [OF assms(1,2) start] have w: "world_ok w" "A (app w)" by simp_all
  have "server_step env e w = None \<longleftrightarrow> server_misuse e w" if "server_allowed e w" for e
    using udp_server_client.step_ok [OF assms(1) w that] udp_server_client.misuse_stuck [OF assms(1), of e w]
    by (cases "server_misuse e w") auto
  with w(1) show ?thesis by (simp add: server_misuse_def)
qed

lemma udp_server_safe_witness:
  "world_ok (server_start blank_udp_server (m_pTimer blank_udp_server) net_start ()) \<and>
   server_step default_udp_server (Datagram 5 4 ''ping'' (Some (1, 2)))
     (server_start blank_udp_server (m_pTimer blank_udp_server) net_start ()) \<noteq> None \<and>
   server_step default_udp_server (Peer_send 9 ''x'')
     (server_start blank_udp_server (m_pTimer blank_udp_server) net_start ()) = None"
proof -
  let ?w = "server_start blank_udp_server (m_pTimer blank_udp_server) net_start ()"
  note safe = udp_server_safe [OF default_server.udp_server_client_axioms server_reachable.born [of default_udp_server ?w]
      net_ok_start TrueI]
  have "server_step default_udp_server (Datagram 5 4 ''ping'' (Some (1, 2))) ?w \<noteq> None"
    using safe [THEN conjunct2, rule_format, of "Datagram 5 4 ''ping'' (Some (1, 2))"] by simp
  moreover have "server_step default_udp_server (Peer_send 9 ''x'') ?w = None"
    using safe [THEN conjunct2, rule_format, of "Peer_send 9 ''x''"] by (simp add: server_start_def)
  ultimately show ?thesis using conjunct1 [OF safe] by blast
qed

end
