(* ===== verification/HttpClient.thy ===== *)
theory HttpClient
  imports HttpSession
begin

text \<open>
  What the callbacks of a client of the parser keep, \<open>sn_http_parser_execute\<close> keeps
  (\<open>src/src/httpparser.cpp\<close>): the parser touches the application state only through them.
\<close>

section \<open>An invariant of the application state\<close>

primrec app_ok :: "('a \<Rightarrow> bool) \<Rightarrow> 'a outcome \<Rightarrow> bool" where
  "app_ok I (Break c) = I (app c)"
| "app_ok I (Reexecute c) = I (app c)"
| "app_ok I (Return n pr a) = I a"
| "app_ok I Abort = True"

lemma app_ok_fail [simp]:
  "app_ok I (RETURN v c) = I (app c)" "app_ok I (goto_error c) = I (app c)" "app_ok I (fail e c) = I (app c)"
  by (simp_all add: RETURN_def goto_error_def fail_def SET_ERRNO_def)

lemma app_ok_macros:
  "\<lbrakk>I (app c); I (app c) \<Longrightarrow> app_ok I (k c)\<rbrakk> \<Longrightarrow> app_ok I (STRICT_CHECK b c k)"
  "\<lbrakk>I (app c); \<And>n. app_ok I (k (c\<lparr>n_read := n\<rparr>))\<rbrakk> \<Longrightarrow> app_ok I (COUNT_HEADER_SIZE env v c k)"
  by (simp_all add: STRICT_CHECK_def COUNT_HEADER_SIZE_def Let_def)

lemma app_MARK [simp]: "app (MARK m c) = app c" "app (reset_message c) = app c"
  "app (finish_header c) = app c" "app (take_body n c) = app c" "app (SET_ERRNO e c) = app c"
  by (simp_all add: MARK_def reset_message_def finish_header_def take_body_def SET_ERRNO_def)

locale callback_invariant =
  fixes st :: "'a http_parser_settings" and I :: "'a \<Rightarrow> bool"
  assumes notify_keeps: "\<lbrakk>notify_cb st n = Some f; I a; f pr a = (r, pr', a')\<rbrakk> \<Longrightarrow> I a'"
    and data_keeps: "\<lbrakk>data_cb st m = Some g; I a; g pr bs a = (r, pr', a')\<rbrakk> \<Longrightarrow> I a'"
    and headers_keeps: "\<lbrakk>on_headers_complete st = Some f; I a; f pr a = (r, pr', a')\<rbrakk> \<Longrightarrow> I a'"
begin

lemma notify_app:
  assumes "settings env = st" and "I (app c)" and "\<And>c'. I (app c') \<Longrightarrow> app_ok I (k c')"
  shows "app_ok I (callback_notify env n er c k)"
  using assms notify_keeps [of n]
  by (auto simp: callback_notify_def after_callback_def Let_def split: option.split prod.split)

lemma data_app:
  assumes "settings env = st" and "I (app c)" and "\<And>c'. I (app c') \<Longrightarrow> app_ok I (k c')"
  shows "app_ok I (callback_data env m e er c k)"
  using assms data_keeps [of m]
  by (auto simp: callback_data_def after_callback_def Let_def split: option.split prod.split)

lemmas callback_apps = CALLBACK_NOTIFY_def CALLBACK_NOTIFY_NOADVANCE_def CALLBACK_DATA_def
  CALLBACK_DATA_NOADVANCE_def message_complete_def

lemmas app_intros = notify_app data_app app_ok_macros

lemma at_header_field_app:
  assumes st: "settings env = st" and i: "I (app c)"
  shows "app_ok I (at_header_field env c)"
proof (cases "field_loop (data env) (max_header_size env) (ptr c) (cur c) (parser c)")
  case None
  then show ?thesis by (simp add: at_header_field_def)
next
  case (Some t)
  with assms show ?thesis
    by (cases t) (auto simp: at_header_field_def Let_def callback_apps intro!: app_intros)
qed

lemma at_header_value_app:
  assumes st: "settings env = st" and i: "I (app c)"
  shows "app_ok I (at_header_value env c)"
proof -
  obtain stop j ch h pr where loop: "value_loop (data env) (max_header_size env) (lenient env) (ptr c) (cur c)
      (header_state (parser c)) (parser c) = (stop, j, ch, h, pr)" by (metis prod_cases5)
  show ?thesis
    by (cases stop)
      (use st i in \<open>auto simp: at_header_value_def loop Let_def callback_apps intro!: app_intros\<close>)
qed

lemma at_headers_almost_done_app:
  assumes st: "settings env = st" and i: "I (app c)"
  shows "app_ok I (at_headers_almost_done env c)"
  using assms headers_keeps
  by (auto simp: at_headers_almost_done_def Let_def callback_apps intro!: app_intros
      split: option.split prod.split)

lemma at_headers_done_app:
  assumes st: "settings env = st" and i: "I (app c)"
  shows "app_ok I (at_headers_done env c)"
  using assms
  by (auto simp: at_headers_done_def Let_def callback_apps intro!: app_intros)

lemma at_body_app:
  assumes st: "settings env = st" and i: "I (app c)"
  shows "app_ok I (at_body_identity env c)" "app_ok I (at_body_identity_eof env c)"
    "app_ok I (at_message_done env c)" "app_ok I (at_chunk_size_start c)" "app_ok I (at_chunk_size c)"
    "app_ok I (at_chunk_parameters c)" "app_ok I (at_chunk_size_almost_done env c)"
    "app_ok I (at_chunk_data env c)" "app_ok I (at_chunk_data_almost_done env c)"
    "app_ok I (at_chunk_data_done env c)"
  using assms
  by (auto simp: at_body_identity_def at_body_identity_eof_def at_message_done_def at_chunk_size_start_def
      at_chunk_size_def at_chunk_parameters_def at_chunk_size_almost_done_def at_chunk_data_def
      at_chunk_data_almost_done_def at_chunk_data_done_def Let_def callback_apps intro!: app_intros)

lemma at_start_app:
  assumes st: "settings env = st" and i: "I (app c)"
  shows "app_ok I (at_dead c)" "app_ok I (at_start_req_or_res env c)" "app_ok I (at_res_or_resp_H c)"
    "app_ok I (at_start_res env c)" "app_ok I (expect x s c)"
    "app_ok I (at_res_first_status_code c)" "app_ok I (at_res_status_code c)"
    "app_ok I (at_res_status_start c)" "app_ok I (at_res_status env c)" "app_ok I (at_start_req env c)"
    "app_ok I (at_req_method c)" "app_ok I (url_char c)"
  using assms
  by (auto simp: at_dead_def at_start_req_or_res_def at_res_or_resp_H_def at_start_res_def expect_def
      at_res_first_status_code_def at_res_status_code_def at_res_status_start_def
      at_res_status_def at_start_req_def at_req_method_def url_char_def Let_def callback_apps
      intro!: app_intros split: option.split prod.split)

lemma at_version_app:
  assumes i: "I (app c)"
  shows "app_ok I (at_res_HTTP c)" "app_ok I (at_req_HTTP c)" "app_ok I (at_res_http_version c)"
    "app_ok I (at_req_http_version c)" "app_ok I (at_req_http_start c)" "app_ok I (at_req_http_end c)"
    "app_ok I (at_req_line_almost_done c)"
proof -
  have e: "app_ok I (expect x s c)" for x s using i by (simp add: expect_def STRICT_CHECK_def)
  show "app_ok I (at_res_HTTP c)" "app_ok I (at_req_HTTP c)"
    by (cases "p_state c"; simp add: at_res_HTTP_def at_req_HTTP_def e)+
  show "app_ok I (at_res_http_version c)" "app_ok I (at_req_http_version c)"
    using i by (cases "p_state c"; simp add: at_res_http_version_def at_req_http_version_def)+
  show "app_ok I (at_req_http_start c)" "app_ok I (at_req_http_end c)" "app_ok I (at_req_line_almost_done c)"
    using i by (simp_all add: at_req_http_start_def at_req_http_end_def at_req_line_almost_done_def)
qed

lemma at_url_app:
  assumes st: "settings env = st" and i: "I (app c)"
  shows "app_ok I (at_req_spaces_before_url c)" "app_ok I (at_req_schema c)" "app_ok I (at_req_url env c)"
  using assms
  by (auto simp: at_req_spaces_before_url_def at_req_schema_def at_req_url_def url_char_def Let_def
      callback_apps intro!: app_intros)

lemma at_header_value_start_app: "I (app c) \<Longrightarrow> app_ok I (at_header_value_start c)"
  by (cases "header_state (parser c)") (simp_all add: at_header_value_start_def Let_def MARK_def)

lemma at_header_app:
  assumes st: "settings env = st" and i: "I (app c)"
  shows "app_ok I (at_header_field_start c)" "app_ok I (at_header_value_discard_ws c)"
    "app_ok I (at_header_value_lws c)" "app_ok I (at_header_almost_done c)"
    "app_ok I (at_header_value_discard_lws env c)"
  using assms
  by (auto simp: at_header_field_start_def at_header_value_discard_ws_def at_header_value_lws_def
      at_header_almost_done_def at_header_value_discard_lws_def Let_def callback_apps
      at_header_value_start_app intro!: app_intros)

lemma step_app:
  assumes st: "settings env = st" and i: "I (app c)"
  shows "app_ok I (step env c)"
  using at_start_app [OF assms] at_version_app [of c] at_url_app [OF assms] at_header_app [OF assms]
    at_header_field_app [OF assms] at_header_value_app [OF assms] at_headers_done_app [OF assms]
    at_headers_almost_done_app [OF assms] at_body_app [OF assms] at_header_value_start_app [of c] i
  by (cases "p_state c") (simp_all add: step_def)

lemma loop_head_app:
  assumes st: "settings env = st" and i: "I (app c)"
  shows "app_ok I (loop_head env c)"
  using assms
  by (auto simp: loop_head_def loop_end_def Let_def callback_apps intro!: app_intros)

lemma exec_entry_app:
  assumes st: "settings env = st" and i: "I a"
  shows "app_ok I (exec_entry env pr a)"
  using assms
  by (auto simp: exec_entry_def Let_def callback_apps intro!: app_intros loop_head_app)

lemma run_app:
  assumes st: "settings env = st" and out: "app_ok I out" and ret: "run env out = Some (Returned n pr a)"
  shows "I a"
proof -
  have "case r of Returned n pr a \<Rightarrow> settings env = st \<longrightarrow> app_ok I out \<longrightarrow> I a | Aborted \<Rightarrow> True"
    if "run env out = Some r" for r
  proof (rule run.raw_induct [where P = "\<lambda>env out r.
      case r of Returned n pr a \<Rightarrow> settings env = st \<longrightarrow> app_ok I out \<longrightarrow> I a | Aborted \<Rightarrow> True", OF _ that])
    fix f env out r
    assume IH: "\<And>env out r. f env out = Some r \<Longrightarrow>
        case r of Returned n pr a \<Rightarrow> settings env = st \<longrightarrow> app_ok I out \<longrightarrow> I a | Aborted \<Rightarrow> True"
      and eq: "(case out of Break c \<Rightarrow> f env (loop_head env (c\<lparr>ptr := ptr c + 1\<rparr>))
          | Reexecute c \<Rightarrow> f env (step env c) | Return n pr a \<Rightarrow> Some (Returned n pr a) | Abort \<Rightarrow> Some Aborted) = Some r"
    show "case r of Returned n pr a \<Rightarrow> settings env = st \<longrightarrow> app_ok I out \<longrightarrow> I a | Aborted \<Rightarrow> True"
    proof (cases out)
      case (Break c)
      with eq IH [of env "loop_head env (c\<lparr>ptr := ptr c + 1\<rparr>)" r] loop_head_app [of env "c\<lparr>ptr := ptr c + 1\<rparr>"]
      show ?thesis by (cases r) auto
    next
      case (Reexecute c)
      with eq IH [of env "step env c" r] step_app [of env c] show ?thesis by (cases r) auto
    qed (use eq in auto)
  qed
  with assms show ?thesis by fastforce
qed

lemma execute_app:
  assumes "I a" and "sn_http_parser_execute st mhs pr a d = Some (Returned n pr' a')"
  shows "I a'"
proof -
  let ?env = "\<lparr>settings = st, max_header_size = mhs, data = d, lenient = lenient_http_headers pr\<rparr>"
  have st: "settings ?env = st" by simp
  have "app_ok I (exec_entry ?env pr a)" by (rule exec_entry_app [OF st assms(1)])
  with run_app [OF st] assms(2) show ?thesis by (simp add: sn_http_parser_execute_def Let_def)
qed

end

text \<open>The recorder's log only grows.\<close>

interpretation growing_log: callback_invariant recorder "\<lambda>log'. \<exists>es. log' = log @ es"
  by unfold_locales (auto simp: recorder_notify recorder_data recorder_headers)

end
