(* ===== verification/Format.thy ===== *)
theory Format
  imports Prelude
begin

text \<open>
  \<open>class format\<close> (\<open>src/src/format.cpp\<close>): numbers to text and back, trimming, and lists of ids.

  From the standard library it uses \<open>std::string\<close>'s searches and \<open>erase\<close> (\<open>npos\<close> is \<open>None\<close>), and
  string streams: \<open><<\<close> of an unsigned number, \<open>>>\<close> into a string (the next word) and \<open>>>\<close> into an
  unsigned number as in libstdc++ (white space, a sign, digits; the largest value on overflow, 0
  without digits, the negated value after a minus sign; no value is stored if the input is already
  at its end).  \<open>std::set\<close> is iterated in increasing order.  All in the "C" locale.
\<close>

section \<open>Streams\<close>

definition isspace :: "char \<Rightarrow> bool" where
  "isspace c \<longleftrightarrow> c = SP \<or> (9 \<le> ord c \<and> ord c \<le> 13)"

definition is_digit :: "char \<Rightarrow> bool" where
  "is_digit c \<longleftrightarrow> ord CHR ''0'' \<le> ord c \<and> ord c \<le> ord CHR ''9''"

definition digit_char :: "nat \<Rightarrow> char" where
  "digit_char d = ''0123456789abcdef'' ! d"

fun numeral_text :: "nat \<Rightarrow> nat \<Rightarrow> string" where
  "numeral_text b n =
    (if b < 2 \<or> n < b then [digit_char n] else numeral_text b (n div b) @ [digit_char (n mod b)])"

declare numeral_text.simps [simp del]

text \<open>\<open>ss << n\<close>, after \<open>std::hex\<close> or not; and \<open>ss >> str\<close>.\<close>

definition put_uint :: "bool \<Rightarrow> nat \<Rightarrow> string" where
  "put_uint hex n = numeral_text (if hex then 16 else 10) n"

definition get_word :: "string \<Rightarrow> string" where
  "get_word s = takeWhile (Not \<circ> isspace) (dropWhile isspace s)"

definition num_value :: "string \<Rightarrow> nat" where
  "num_value ds = foldl (\<lambda>v d. v * 10 + (ord d - ord CHR ''0'')) 0 ds"

text \<open>\<open>ss >> val\<close>; \<open>val\<close> is what the variable held before.\<close>

definition get_uint :: "'w::len word \<Rightarrow> string \<Rightarrow> 'w word" where
  "get_uint val s =
    (case dropWhile isspace s of
       [] \<Rightarrow> val
     | x # t \<Rightarrow>
         let ds = takeWhile is_digit (if x = CHR ''-'' \<or> x = CHR ''+'' then t else x # t);
             v = num_value ds
         in if ds = [] then 0
            else if v > unat (- 1 :: 'w word) then - 1
            else if x = CHR ''-'' then - of_nat v else of_nat v)"

section \<open>The functions\<close>

definition uint2str16 :: "u16 \<Rightarrow> string" where
  "uint2str16 i = get_word (put_uint False (unat i))"

definition uint2str32 :: "u32 \<Rightarrow> string" where
  "uint2str32 i = get_word (put_uint False (unat i))"

definition uint2str64 :: "u64 \<Rightarrow> string" where
  "uint2str64 i = get_word (put_uint False (unat i))"

text \<open>The first argument is the value of the uninitialised local \<open>val\<close>.\<close>

definition str2uint16 :: "u16 \<Rightarrow> string \<Rightarrow> u16" where
  "str2uint16 val str = get_uint val str"

definition str2uint32 :: "u32 \<Rightarrow> string \<Rightarrow> u32" where
  "str2uint32 val str = get_uint val str"

definition str2uint64 :: "u64 \<Rightarrow> string \<Rightarrow> u64" where
  "str2uint64 val str = get_uint val str"

primrec find_first_not_of :: "char \<Rightarrow> string \<Rightarrow> nat option" where
  "find_first_not_of c [] = None"
| "find_first_not_of c (x # s) = (if x \<noteq> c then Some 0 else map_option Suc (find_first_not_of c s))"

definition find_last_not_of :: "char \<Rightarrow> string \<Rightarrow> nat option" where
  "find_last_not_of c s = map_option (\<lambda>i. length s - 1 - i) (find_first_not_of c (rev s))"

definition erase :: "string \<Rightarrow> nat \<Rightarrow> nat option \<Rightarrow> string" where
  "erase s pos count = take pos s @ (case count of None \<Rightarrow> [] | Some k \<Rightarrow> drop (pos + k) s)"

definition trim :: "string \<Rightarrow> string" where
  "trim s =
    (if s = [] then s
     else let s = erase s 0 (find_first_not_of SP s)
          in erase s (case find_last_not_of SP s of None \<Rightarrow> 0 | Some i \<Rightarrow> i + 1) None)"

fun put_ids :: "bool \<Rightarrow> nat \<Rightarrow> nat list \<Rightarrow> string" where
  "put_ids hexStyle idx [] = []"
| "put_ids hexStyle idx (x # xs) =
    (if idx > 0 then '','' else []) @ put_uint hexStyle x @ put_ids hexStyle (idx + 1) xs"

definition uint32ids2str :: "u32 set \<Rightarrow> bool \<Rightarrow> string" where
  "uint32ids2str ids hexStyle =
    ''['' @ put_ids hexStyle 0 (map unat (sorted_list_of_set ids)) @ '']''"

definition uint64ids2str :: "u64 set \<Rightarrow> bool \<Rightarrow> string" where
  "uint64ids2str ids hexStyle =
    ''['' @ put_ids hexStyle 0 (map unat (sorted_list_of_set ids)) @ '']''"

section \<open>Numbers\<close>

lemma digit_char_cases:
  assumes "d < 16"
  shows "\<not> isspace (digit_char d) \<and> digit_char d \<noteq> CHR '','' \<and> digit_char d \<noteq> CHR '']'' \<and>
    digit_char d \<noteq> CHR ''-'' \<and> digit_char d \<noteq> CHR ''+''"
proof -
  have "\<forall>d \<in> set [0..<16]. \<not> isspace (digit_char d) \<and> digit_char d \<noteq> CHR '','' \<and> digit_char d \<noteq> CHR '']'' \<and>
    digit_char d \<noteq> CHR ''-'' \<and> digit_char d \<noteq> CHR ''+''"
    by (simp add: upt_rec digit_char_def isspace_def ord_def)
  with assms show ?thesis by simp
qed

lemma digit_char_dec:
  assumes "d < 10"
  shows "is_digit (digit_char d) \<and> ord (digit_char d) - ord CHR ''0'' = d"
proof -
  have "\<forall>d \<in> set [0..<10]. is_digit (digit_char d) \<and> ord (digit_char d) - ord CHR ''0'' = d"
    by (simp add: upt_rec digit_char_def is_digit_def ord_def)
  with assms show ?thesis by simp
qed

lemma digit_char_inj: "\<lbrakk>d < 16; e < 16; digit_char d = digit_char e\<rbrakk> \<Longrightarrow> d = e"
  unfolding digit_char_def by (subst (asm) nth_eq_iff_index_eq) simp_all

definition word_char :: "char \<Rightarrow> bool" where
  "word_char c \<longleftrightarrow> (\<exists>d < 16. c = digit_char d)"

lemma digits_chars: "2 \<le> b \<Longrightarrow> b \<le> 16 \<Longrightarrow> c \<in> set (numeral_text b n) \<Longrightarrow> word_char c"
proof (induction b n rule: numeral_text.induct)
  case (1 b n)
  have "word_char (digit_char d)" if "d < b" for d
    unfolding word_char_def using that "1.prems"(2) by (intro exI [of _ d]) simp
  moreover have "n mod b < b" using "1.prems" by simp
  ultimately show ?case
    using "1.IH" "1.prems" numeral_text.simps [of b n] by (auto split: if_splits)
qed

lemma digits_nonempty [simp]: "numeral_text b n \<noteq> []"
  by (subst numeral_text.simps) simp

lemma digits_dec: "c \<in> set (numeral_text 10 n) \<Longrightarrow> is_digit c"
proof (induction "10 :: nat" n rule: numeral_text.induct)
  case (1 n)
  then show ?case by (subst (asm) (2) numeral_text.simps) (auto simp: digit_char_dec split: if_splits)
qed

lemma digits_value: "num_value (numeral_text 10 n) = n"
proof (induction "10 :: nat" n rule: numeral_text.induct)
  case (1 n)
  then show ?case
    by (subst numeral_text.simps) (auto simp: num_value_def digit_char_dec)
qed

lemma digits_inj: "\<lbrakk>2 \<le> b; b \<le> 16; numeral_text b m = numeral_text b n\<rbrakk> \<Longrightarrow> m = n"
proof (induction b m arbitrary: n rule: numeral_text.induct)
  case (1 b m)
  have len: "length (numeral_text b k) = 1 \<longleftrightarrow> k < b" for k
    using "1.prems"(1) by (subst numeral_text.simps) auto
  show ?case
  proof (cases "m < b")
    case True
    with len "1.prems"(3) have "n < b" by metis
    with True "1.prems" have "digit_char m = digit_char n"
      using numeral_text.simps [of b m] numeral_text.simps [of b n] by simp
    with True \<open>n < b\<close> "1.prems" show ?thesis by (intro digit_char_inj) simp_all
  next
    case False
    with len "1.prems"(3) have n: "\<not> n < b" by metis
    with False "1.prems" have "numeral_text b (m div b) = numeral_text b (n div b)" "digit_char (m mod b) = digit_char (n mod b)"
      using numeral_text.simps [of b m] numeral_text.simps [of b n] by simp_all
    moreover have "m mod b < 16" "n mod b < 16"
      using "1.prems"(1,2) by (auto intro: less_le_trans [of _ b])
    ultimately have "m div b = n div b" "m mod b = n mod b"
      using "1.IH" [of "n div b"] False "1.prems" digit_char_inj by auto
    then show ?thesis by (metis div_mult_mod_eq)
  qed
qed


lemma get_word_all: "\<forall>c \<in> set s. \<not> isspace c \<Longrightarrow> get_word s = s"
  by (cases s) (auto simp: get_word_def)

lemma digits_no_space: "\<forall>c \<in> set (numeral_text 10 n). \<not> isspace c"
  using digits_chars [of 10] digit_char_cases by (fastforce simp: word_char_def)

lemma uint2str: "uint2str16 i = numeral_text 10 (unat i)" "uint2str32 j = numeral_text 10 (unat j)"
  "uint2str64 k = numeral_text 10 (unat k)"
  by (simp_all add: uint2str16_def uint2str32_def uint2str64_def put_uint_def get_word_all digits_no_space)

text \<open>A word of digits is read as its value, up to the largest value of the type.\<close>

lemma get_uint_digits:
  fixes val :: "'w::len word"
  assumes "ds \<noteq> []" and "\<forall>c \<in> set ds. is_digit c" and "\<forall>c \<in> set sp. isspace c"
    and "\<not> is_digit x"
  shows "get_uint val (sp @ ds @ x # rest) =
    (if num_value ds > unat (- 1 :: 'w word) then - 1 else of_nat (num_value ds))"
    and "get_uint val (sp @ ds) =
    (if num_value ds > unat (- 1 :: 'w word) then - 1 else of_nat (num_value ds))"
proof -
  obtain d ds' where ds: "ds = d # ds'" using assms(1) by (cases ds) auto
  have d: "\<not> isspace d" "d \<noteq> CHR ''-''" "d \<noteq> CHR ''+''"
    using assms(2) ds by (auto simp: is_digit_def isspace_def ord_def)
  have skip: "dropWhile isspace (sp @ d # t) = d # t" for t
    using assms(3) d by (induction sp) auto
  have "takeWhile is_digit ds = ds" using assms(2) by (simp add: takeWhile_eq_all_conv)
  moreover have "takeWhile is_digit (ds @ x # rest) = ds"
    using assms(2,4) by (simp add: takeWhile_append2)
  ultimately show "get_uint val (sp @ ds @ x # rest) =
      (if num_value ds > unat (- 1 :: 'w word) then - 1 else of_nat (num_value ds))"
    "get_uint val (sp @ ds) = (if num_value ds > unat (- 1 :: 'w word) then - 1 else of_nat (num_value ds))"
    using d ds by (auto simp: get_uint_def skip Let_def)
qed

lemma get_uint_dec:
  fixes val i :: "'w::len word"
  shows "get_uint val (numeral_text 10 (unat i)) = i"
proof -
  have "unat i \<le> unat (- 1 :: 'w word)" by (simp flip: word_le_nat_alt)
  moreover have "\<forall>c \<in> set (numeral_text 10 (unat i)). is_digit c" by (blast intro: digits_dec)
  moreover have "\<not> is_digit NUL" by (simp add: is_digit_def ord_def)
  ultimately show ?thesis
    using get_uint_digits(2) [of "numeral_text 10 (unat i)" "[]" NUL val] by (simp add: digits_value not_less)
qed

lemma get_uint_blank: "\<forall>c \<in> set sp. isspace c \<Longrightarrow> get_uint val sp = val"
proof -
  assume "\<forall>c \<in> set sp. isspace c"
  then have "dropWhile isspace sp = []" by simp
  then show ?thesis by (simp only: get_uint_def list.case)
qed

lemma saturated:
  fixes n :: nat
  shows "(if n > unat (- 1 :: u16) then - 1 else of_nat n) = (of_nat (min n 65535) :: u16)"
    "(if n > unat (- 1 :: u32) then - 1 else of_nat n) = (of_nat (min n 4294967295) :: u32)"
    "(if n > unat (- 1 :: u64) then - 1 else of_nat n) = (of_nat (min n 18446744073709551615) :: u64)"
  by (auto simp: min_def unsigned_minus_1_eq_mask mask_eq_exp_minus_1)

text \<open>
  C38.  Every number is read back from its text, at all three widths, whatever the uninitialised
  variable held.
\<close>

theorem uint_roundtrip:
  "str2uint16 val16 (uint2str16 i) = i \<and> str2uint32 val32 (uint2str32 j) = j \<and>
   str2uint64 val64 (uint2str64 k) = k"
  by (simp add: uint2str str2uint16_def str2uint32_def str2uint64_def get_uint_dec)

text \<open>
  A decimal number after white space and before anything that is no digit is read exactly up
  to the largest value of the type and as that value beyond it; text of white space only leaves
  the uninitialised variable as it was.
\<close>

theorem str2uint_reads:
  assumes "ds \<noteq> []" and "\<forall>c \<in> set ds. is_digit c" and "\<forall>c \<in> set sp. isspace c" and "\<not> is_digit x"
  shows "str2uint16 val16 (sp @ ds @ x # rest) = of_nat (min (num_value ds) 65535) \<and>
    str2uint32 val32 (sp @ ds @ x # rest) = of_nat (min (num_value ds) 4294967295) \<and>
    str2uint64 val64 (sp @ ds @ x # rest) = of_nat (min (num_value ds) 18446744073709551615) \<and>
    str2uint16 val16 sp = val16 \<and> str2uint32 val32 sp = val32 \<and> str2uint64 val64 sp = val64"
  unfolding str2uint16_def str2uint32_def str2uint64_def get_uint_digits(1) [OF assms]
    get_uint_blank [OF assms(3)] saturated
  by simp

lemma str2uint_reads_witness:
  "str2uint16 7 ('' 70000'' @ '';'') = 65535 \<and> str2uint32 7 ('' 70000'' @ '';'') = 70000 \<and> str2uint16 7 '' '' = 7"
proof -
  have "num_value ''70000'' = 70000" by (simp add: num_value_def ord_def)
  then show ?thesis
    using str2uint_reads [of "''70000''" "'' ''" "CHR '';''" 7 "[]" 7 7]
    by (simp add: is_digit_def isspace_def ord_def)
qed

section \<open>Trimming\<close>

lemma find_first: "find_first_not_of c s =
    (if \<forall>x \<in> set s. x = c then None else Some (length (takeWhile (\<lambda>x. x = c) s)))"
  by (induction s) auto

lemma trim_while: "trim s = rev (dropWhile (\<lambda>x. x = SP) (rev (dropWhile (\<lambda>x. x = SP) s)))"
proof -
  let ?p = "\<lambda>x. x = SP" and ?t = "dropWhile (\<lambda>x. x = SP) s"
  have front: "erase s 0 (find_first_not_of SP s) = ?t"
  proof (cases "\<forall>x \<in> set s. x = SP")
    case True
    then have "?t = []" by simp
    with True show ?thesis by (simp only: erase_def find_first if_True) simp
  next
    case False
    then show ?thesis
      unfolding erase_def find_first by (simp only: if_False option.case take_0 append_Nil add_0 dropWhile_eq_drop)
  qed
  have rear: "erase t (case find_last_not_of SP t of None \<Rightarrow> 0 | Some i \<Rightarrow> i + 1) None =
      rev (dropWhile ?p (rev t))" for t
  proof (cases "\<forall>x \<in> set t. x = SP")
    case True
    then show ?thesis by (simp add: erase_def find_last_not_of_def find_first)
  next
    case False
    then obtain y where y: "y \<in> set (rev t)" "\<not> ?p y" by auto
    let ?k = "length (takeWhile ?p (rev t))"
    have "0 < length (dropWhile ?p (rev t))" using y by auto
    moreover have "?k + length (dropWhile ?p (rev t)) = length t"
      by (metis length_append length_rev takeWhile_dropWhile_id)
    ultimately have "?k < length t" by linarith
    moreover have "rev (dropWhile ?p (rev t)) = take (length t - ?k) t"
      by (simp add: dropWhile_eq_drop rev_drop)
    moreover have "Suc (length t - Suc ?k) = length t - ?k" using \<open>?k < length t\<close> by simp
    ultimately show ?thesis using False by (auto simp: erase_def find_last_not_of_def find_first)
  qed
  show ?thesis
    by (auto simp: trim_def Let_def front rear)
qed

text \<open>
  \<open>trim\<close> removes exactly the spaces at both ends: what is left neither starts nor ends
  with a space, and spaces around it give the text back.
\<close>

theorem trim_ends:
  "(\<exists>i j. s = replicate i SP @ trim s @ replicate j SP) \<and>
   (trim s = [] \<or> hd (trim s) \<noteq> SP \<and> last (trim s) \<noteq> SP)"
proof -
  let ?p = "\<lambda>x. x = SP" and ?t = "dropWhile (\<lambda>x. x = SP) s"
  have all: "takeWhile ?p u = replicate (length (takeWhile ?p u)) SP" for u :: string
  proof -
    have "\<forall>x \<in> set (takeWhile ?p u). x = SP" by (blast dest: set_takeWhileD)
    then show ?thesis by (simp add: replicate_length_same)
  qed
  have "s = takeWhile ?p s @ ?t" by simp
  moreover have "?t = rev (dropWhile ?p (rev ?t)) @ rev (takeWhile ?p (rev ?t))"
    by (metis rev_append rev_rev_ident takeWhile_dropWhile_id)
  moreover have "rev (takeWhile ?p (rev ?t)) = replicate (length (takeWhile ?p (rev ?t))) SP"
    by (rule trans [OF arg_cong [OF all, of rev] rev_replicate])
  ultimately have "s = replicate (length (takeWhile ?p s)) SP @ trim s @ replicate (length (takeWhile ?p (rev ?t))) SP"
    using all [of s] trim_while [of s] by metis
  moreover have "hd (trim s) \<noteq> SP \<and> last (trim s) \<noteq> SP" if "trim s \<noteq> []"
  proof
    have ne: "dropWhile ?p (rev ?t) \<noteq> []" using that by (simp add: trim_while)
    then show "last (trim s) \<noteq> SP"
      using hd_dropWhile [of ?p "rev ?t"] by (simp add: trim_while last_rev)
    obtain r where r: "?t = trim s @ r"
      using \<open>?t = rev (dropWhile ?p (rev ?t)) @ rev (takeWhile ?p (rev ?t))\<close> by (metis trim_while)
    then have "?t \<noteq> []" using that by auto
    then have "hd ?t \<noteq> SP" using hd_dropWhile [of ?p s] by blast
    with r that show "hd (trim s) \<noteq> SP" by (metis hd_append2)
  qed
  ultimately show ?thesis by blast
qed

section \<open>Lists of ids\<close>

lemma put_uint_chars: "c \<in> set (put_uint h n) \<Longrightarrow> word_char c"
  using digits_chars [of 10] digits_chars [of 16] by (auto simp: put_uint_def split: if_splits)

lemma put_uint_inj: "put_uint h m = put_uint h n \<Longrightarrow> m = n"
  using digits_inj [of 10] digits_inj [of 16] by (auto simp: put_uint_def split: if_splits)

lemma not_word: "\<not> word_char CHR '',''" "\<not> word_char CHR '']''"
  using digit_char_cases unfolding word_char_def by metis+

lemma number_split:
  assumes "put_uint h m @ u = put_uint h n @ v" and "u \<noteq> []" "\<not> word_char (hd u)" and "v \<noteq> []" "\<not> word_char (hd v)"
  shows "m = n \<and> u = v"
proof -
  have cut: "takeWhile word_char (put_uint h k @ w) = put_uint h k" if "w \<noteq> []" "\<not> word_char (hd w)" for k w
    using that put_uint_chars [of _ h k] by (cases w) (simp_all add: takeWhile_append2)
  have "put_uint h m = put_uint h n"
    using cut [OF assms(2,3), of m] cut [OF assms(4,5), of n] assms(1) by metis
  with assms(1) show ?thesis by (auto dest: put_uint_inj)
qed

lemma put_ids_start: "put_ids h (Suc i) xs @ '']'' \<noteq> [] \<and> \<not> word_char (hd (put_ids h (Suc i) xs @ '']''))"
  by (cases xs) (simp_all add: not_word)

lemma put_ids_inj:
  "put_ids h (Suc i) xs @ '']'' = put_ids h (Suc j) ys @ '']'' \<Longrightarrow> xs = ys"
proof (induction xs arbitrary: i j ys)
  case Nil
  then show ?case by (cases ys) auto
next
  case (Cons x xs)
  then obtain y ys' where ys: "ys = y # ys'" by (cases ys) auto
  with Cons.prems have "put_uint h x @ put_ids h (Suc (Suc i)) xs @ '']'' = put_uint h y @ put_ids h (Suc (Suc j)) ys' @ '']''"
    by simp
  from number_split [OF this] have "x = y" "put_ids h (Suc (Suc i)) xs @ '']'' = put_ids h (Suc (Suc j)) ys' @ '']''"
    using put_ids_start by blast+
  with Cons.IH ys show ?case by blast
qed

lemma put_ids_first_inj:
  assumes "put_ids h 0 xs @ '']'' = put_ids h 0 ys @ '']''"
  shows "xs = ys"
proof -
  have first: "put_uint h x \<noteq> []" for x by (simp add: put_uint_def)
  have stop: "put_uint h x @ w \<noteq> '']''" for x w
    using first [of x] put_uint_chars [of _ h x] not_word(2)
    by (cases "put_uint h x") auto
  show ?thesis
  proof (cases xs)
    case Nil
    with assms stop show ?thesis by (cases ys) auto
  next
    case (Cons x xs')
    with assms stop obtain y ys' where ys: "ys = y # ys'" by (cases ys) auto
    with Cons assms have "put_uint h x @ put_ids h (Suc 0) xs' @ '']'' = put_uint h y @ put_ids h (Suc 0) ys' @ '']''"
      by simp
    from number_split [OF this] have "x = y" "put_ids h (Suc 0) xs' @ '']'' = put_ids h (Suc 0) ys' @ '']''"
      using put_ids_start by blast+
    with put_ids_inj Cons ys show ?thesis by blast
  qed
qed

lemma ids_inj:
  fixes A B :: "'w::len word set"
  assumes "put_ids h 0 (map unat (sorted_list_of_set A)) @ '']'' = put_ids h 0 (map unat (sorted_list_of_set B)) @ '']''"
  shows "A = B"
proof -
  have "map unat (sorted_list_of_set A) = map unat (sorted_list_of_set B)"
    using put_ids_first_inj [OF assms] .
  then have "sorted_list_of_set A = sorted_list_of_set B"
    by (rule map_injective) (auto intro: injI)
  then have "set (sorted_list_of_set A) = set (sorted_list_of_set B)" by simp
  then show ?thesis by simp
qed

text \<open>
  The text of a set of ids, decimal or hexadecimal, determines the set.
\<close>

theorem ids2str_injective:
  "(uint32ids2str A h = uint32ids2str B h \<longleftrightarrow> A = B) \<and> (uint64ids2str C h = uint64ids2str D h \<longleftrightarrow> C = D)"
  using ids_inj [of h A B] ids_inj [of h C D] by (auto simp: uint32ids2str_def uint64ids2str_def)

end
