(* ===== verification/HttpReply.thy ===== *)
theory HttpReply
  imports StdMap Format "HOL-Library.Char_ord" "HOL-Library.List_Lexorder"
begin

text \<open>
  The request and the response of the HTTP server (\<open>src/src/httpserver.cpp\<close>: \<open>class HttpRequest\<close>,
  \<open>struct HttpResponse\<close>) and the comparison of the request's method.

  A \<open>std::map\<close> of strings is ordered by \<open>std::string\<close>'s \<open><\<close>, which is lexicographic on unsigned
  bytes.
\<close>

section \<open>HttpRequest\<close>

record http_request =
  m_strMethod :: string
  m_strUrl :: string
  m_mapHeaders :: "(string, string) std_map"
  m_strBody :: string

definition HttpRequest_new :: http_request where
  "HttpRequest_new = \<lparr>m_strMethod = '''', m_strUrl = '''', m_mapHeaders = [], m_strBody = ''''\<rparr>"

definition HttpRequest_get_method :: "http_request \<Rightarrow> string" where
  "HttpRequest_get_method r = m_strMethod r"

definition HttpRequest_set_method :: "string \<Rightarrow> http_request \<Rightarrow> http_request" where
  "HttpRequest_set_method v r = r\<lparr>m_strMethod := v\<rparr>"

definition HttpRequest_get_url :: "http_request \<Rightarrow> string" where
  "HttpRequest_get_url r = m_strUrl r"

definition HttpRequest_set_url :: "string \<Rightarrow> http_request \<Rightarrow> http_request" where
  "HttpRequest_set_url url r = r\<lparr>m_strUrl := url\<rparr>"

definition HttpRequest_get_headers :: "http_request \<Rightarrow> (string, string) std_map" where
  "HttpRequest_get_headers r = m_mapHeaders r"

definition HttpRequest_add_header :: "string \<Rightarrow> string \<Rightarrow> http_request \<Rightarrow> http_request" where
  "HttpRequest_add_header field v r = r\<lparr>m_mapHeaders := std_insert field v (m_mapHeaders r)\<rparr>"

definition HttpRequest_get_body :: "http_request \<Rightarrow> string" where
  "HttpRequest_get_body r = m_strBody r"

definition HttpRequest_set_body :: "string \<Rightarrow> http_request \<Rightarrow> http_request" where
  "HttpRequest_set_body body r = r\<lparr>m_strBody := body\<rparr>"

definition HttpRequest_clear :: "http_request \<Rightarrow> http_request" where
  "HttpRequest_clear r = r\<lparr>m_strUrl := '''', m_strMethod := '''', m_mapHeaders := [], m_strBody := ''''\<rparr>"

definition HttpRequest_format_headers :: "http_request \<Rightarrow> string" where
  "HttpRequest_format_headers r = concat (map (\<lambda>(k, v). k @ '':'' @ v @ '';'') (m_mapHeaders r))"

lemmas request_ops = HttpRequest_get_method_def HttpRequest_set_method_def HttpRequest_get_url_def
  HttpRequest_set_url_def HttpRequest_get_headers_def HttpRequest_add_header_def HttpRequest_get_body_def
  HttpRequest_set_body_def

section \<open>The method\<close>

text \<open>\<open>strncmp(a, b, n) == 0\<close> for \<open>c_str()\<close>s: the comparison stops at a NUL.\<close>

fun strncmp_eq :: "string \<Rightarrow> string \<Rightarrow> nat \<Rightarrow> bool" where
  "strncmp_eq a b 0 \<longleftrightarrow> True"
| "strncmp_eq a b (Suc n) \<longleftrightarrow>
    (let x = (case a of [] \<Rightarrow> NUL | x # _ \<Rightarrow> x); y = (case b of [] \<Rightarrow> NUL | y # _ \<Rightarrow> y)
     in x = y \<and> (x = NUL \<or> strncmp_eq (tl a) (tl b) n))"

text \<open>\<open>strncmp(get_method().c_str(), m, get_method().size()) == 0\<close>\<close>

definition method_is :: "string \<Rightarrow> http_request \<Rightarrow> bool" where
  "method_is m r \<longleftrightarrow> strncmp_eq (HttpRequest_get_method r) m (length (HttpRequest_get_method r))"

text \<open>So the length compared is the request's: every prefix of the literal compares equal.\<close>

lemma strncmp_prefix: "NUL \<notin> set a \<Longrightarrow> strncmp_eq a b (length a) \<longleftrightarrow> take (length a) b = a"
proof (induction a arbitrary: b)
  case (Cons x a)
  then show ?case by (cases b) (auto simp: Let_def)
qed simp

lemma method_is_prefix: "NUL \<notin> set (m_strMethod r) \<Longrightarrow>
    method_is m r \<longleftrightarrow> take (length (m_strMethod r)) m = m_strMethod r"
  by (simp add: method_is_def HttpRequest_get_method_def strncmp_prefix)

section \<open>HttpResponse\<close>

record http_response =
  m_nStatus :: int
  m_strVersion :: string
  m_strContentType :: string
  m_strBody :: string

definition HttpResponse_new :: http_response where
  "HttpResponse_new =
    \<lparr>m_nStatus = 200, m_strVersion = ''HTTP/1.1'', m_strContentType = ''application/json'', m_strBody = ''''\<rparr>"

definition HttpResponse_get_status :: "http_response \<Rightarrow> int" where
  "HttpResponse_get_status r = m_nStatus r"

definition HttpResponse_set_status :: "int \<Rightarrow> http_response \<Rightarrow> http_response" where
  "HttpResponse_set_status status r = r\<lparr>m_nStatus := status\<rparr>"

definition HttpResponse_get_version :: "http_response \<Rightarrow> string" where
  "HttpResponse_get_version r = m_strVersion r"

definition HttpResponse_set_version :: "string \<Rightarrow> http_response \<Rightarrow> http_response" where
  "HttpResponse_set_version version r = r\<lparr>m_strVersion := version\<rparr>"

definition HttpResponse_get_content_type :: "http_response \<Rightarrow> string" where
  "HttpResponse_get_content_type r = m_strContentType r"

definition HttpResponse_set_content_type :: "string \<Rightarrow> http_response \<Rightarrow> http_response" where
  "HttpResponse_set_content_type content_type r = r\<lparr>m_strContentType := content_type\<rparr>"

definition HttpResponse_get_body :: "http_response \<Rightarrow> string" where
  "HttpResponse_get_body r = m_strBody r"

definition HttpResponse_set_body :: "string \<Rightarrow> http_response \<Rightarrow> http_response" where
  "HttpResponse_set_body body r = r\<lparr>m_strBody := body\<rparr>"

definition CRLF :: string where
  "CRLF = [CR, LF]"

definition HttpResponse_format :: "http_response \<Rightarrow> string" where
  "HttpResponse_format r =
    m_strVersion r @ '' '' @ uint2str32 (of_int (m_nStatus r)) @ '' OK'' @ CRLF @
    ''Server:SOMO Video Proxy'' @ CRLF @
    ''Content-Type:'' @ m_strContentType r @ CRLF @
    ''Connection: close'' @ CRLF @ CRLF @
    m_strBody r @ CRLF @ CRLF"

text \<open>The response to a request whose handler gave the text \<open>res\<close>.\<close>

lemma response_length:
  "length (HttpResponse_format (HttpResponse_set_body res HttpResponse_new)) = length res + 98"
proof -
  have "uint2str32 200 = ''200''"
    by (simp add: uint2str32_def put_uint_def numeral_text.simps digit_char_def get_word_def isspace_def ord_def)
  then show ?thesis
    by (simp add: HttpResponse_format_def HttpResponse_set_body_def HttpResponse_new_def CRLF_def)
qed

end
