(* ===== verification/TcpServer.thy ===== *)
theory TcpServer
  imports TcpLink StdMap
begin

text \<open>
  \<open>class TcpServer\<close> (\<open>src/src/tcpserver.cpp\<close>) and the links it has accepted.

  \<open>TcpLink\<close> objects are at addresses in \<open>links\<close>; the links share the network state and the
  application's state, and an operation on one of them is an operation of theory \<open>TcpLink\<close> on its
  record.  \<open>None\<close> is a null or stale pointer.  The indeterminate fields of a new link are \<open>garbage\<close>.
  Log messages and the test for a null \<open>server->data\<close> are left out.
\<close>

record tcp_server =
  m_pTcp :: "nat option"
  m_nPort :: u16
  m_bListen :: bool
  m_pHander :: "nat option"
  m_nClients :: u64
  m_mapLinks :: "(u32, nat) std_map"

record 'a tcp_world =
  snet :: net
  listener :: tcp_server
  links :: "nat \<rightharpoonup> tcp_link"
  next_link :: nat
  sapp :: 'a

text \<open>An operation on the link at an address.\<close>

definition view :: "'a tcp_world \<Rightarrow> tcp_link \<Rightarrow> 'a tcp" where
  "view w l = \<lparr>net = snet w, link = l, app = sapp w\<rparr>"

definition at_link :: "nat \<Rightarrow> ('a tcp \<Rightarrow> 'a tcp option) \<Rightarrow> 'a tcp_world \<Rightarrow> 'a tcp_world option" where
  "at_link a f w = do {
     l \<leftarrow> links w a;
     c \<leftarrow> f (view w l);
     Some (w\<lparr>snet := net c, links := (links w)(a \<mapsto> link c), sapp := app c\<rparr>)
   }"

section \<open>The class\<close>

definition TcpServer_new :: "net \<Rightarrow> tcp_server \<times> net" where
  "TcpServer_new n =
    (case new_addr n of (h, n) \<Rightarrow>
       (\<lparr>m_pTcp = Some h, m_nPort = 0, m_bListen = False, m_pHander = None, m_nClients = 0, m_mapLinks = []\<rparr>,
        uv_do (Uv_tcp_init h) n))"

definition TcpServer_delete :: "tcp_server \<Rightarrow> net \<Rightarrow> net option" where
  "TcpServer_delete s n = map_option (\<lambda>h. uv_do (Uv_tcp_close_reset h) n) (m_pTcp s)"

definition TcpServer_set_handler :: "nat option \<Rightarrow> 'a tcp_world \<Rightarrow> 'a tcp_world" where
  "TcpServer_set_handler h w = w\<lparr>listener := (listener w)\<lparr>m_pHander := h\<rparr>\<rparr>"

definition TcpServer_listen :: "'a tcp_env \<Rightarrow> u16 \<Rightarrow> 'a tcp_world \<Rightarrow> (int \<times> 'a tcp_world) option" where
  "TcpServer_listen env base_port w = do {
     h \<leftarrow> m_pTcp (listener w);
     let n = uv_do (Uv_tcp_bind h ''0.0.0.0'' base_port) (snet w);
     let (r, n) = uv_ask (answers env) (Uv_listen h 100) n;
     Some (0, w\<lparr>snet := n, listener := (listener w)\<lparr>m_nPort := base_port, m_bListen := True\<rparr>\<rparr>)
   }"

definition TcpServer_close :: "'a tcp_world \<Rightarrow> int \<times> 'a tcp_world" where
  "TcpServer_close w =
    (let s = (listener w)\<lparr>m_bListen := False\<rparr>
     in case m_pTcp s of
          None \<Rightarrow> (0, w\<lparr>listener := s\<rparr>)
        | Some h \<Rightarrow> (0, w\<lparr>snet := uv_do (Uv_tcp_close_reset h) (snet w), listener := s\<lparr>m_pTcp := None\<rparr>\<rparr>))"

definition TcpServer_port :: "tcp_server \<Rightarrow> u16" where
  "TcpServer_port s = m_nPort s"

definition TcpServer_get_link :: "u32 \<Rightarrow> tcp_server \<Rightarrow> nat option" where
  "TcpServer_get_link i s = map_of (m_mapLinks s) i"

text \<open>\<open>uv_accept\<close> on the server's handle; the new link's handler is told it is connected.\<close>

definition TcpServer_on_accept ::
  "'a tcp_env \<Rightarrow> tcp_link \<Rightarrow> int \<Rightarrow> 'a tcp_world \<Rightarrow> 'a tcp_world option"
where
  "TcpServer_on_accept env garbage status w0 =
    (let s = (listener w0)\<lparr>m_nClients := m_nClients (listener w0) + 1\<rparr>;
         w = w0\<lparr>listener := s\<rparr>
     in if status < 0 then Some w
        else do {
          h \<leftarrow> m_pTcp s;
          let (client, n) = new_addr (snet w);
          let n = uv_do (Uv_tcp_init client) n;
          let (r, n) = uv_ask (answers env) (Uv_accept h client) n;
          if r = 0 then do {
            let (l, n) = TcpLink_peer client garbage n;
            let a = next_link w;
            let l = l\<lparr>m_pHandler := m_pHander s\<rparr>;
            let w = w\<lparr>snet := n, links := (links w)(a \<mapsto> l), next_link := a + 1,
                      listener := s\<lparr>m_mapLinks := std_insert (m_nId l) a (m_mapLinks s)\<rparr>\<rparr>;
            case m_pHander s of
              None \<Rightarrow> Some w
            | Some h \<Rightarrow> at_link a (on_connected (handler_at env h)) w
          }
          else Some (w\<lparr>snet := uv_do (Uv_close client) n\<rparr>)
        })"

section \<open>Ids of links\<close>

text \<open>A handler that keeps the contract of a link and leaves the link's id alone.\<close>

locale steady_client = link_client +
  assumes data_id: "on_data (handler_at env h) bs c = Some (v, c') \<Longrightarrow> m_nId (link c') = m_nId (link c)"
    and close_id: "on_close (handler_at env h) c = Some c' \<Longrightarrow> m_nId (link c') = m_nId (link c)"
    and connected_id: "on_connected (handler_at env h) c = Some c' \<Longrightarrow> m_nId (link c') = m_nId (link c)"

interpretation default_steady: steady_client "default_env ans inet" "\<lambda>_. True"
  by unfold_locales (auto simp: default_env_def default_handler_def)

lemma start_timer_id: "start_timer c = Some c' \<Longrightarrow> m_nId (link c') = m_nId (link c)"
  by (auto simp: start_timer_def on_net_def)

lemma shut_id [simp]: "m_nId (link (shut c)) = m_nId (link c)"
  by (simp add: shut_def Let_def on_net_def on_link_def split: option.split)

lemma connect_id: "connect env ip port c = Some (r, c') \<Longrightarrow> m_nId (link c') = m_nId (link c)"
  by (auto simp: connect_def Let_def split: prod.splits if_splits dest: start_timer_id)

lemma send_id: "send env data c = Some (r, c') \<Longrightarrow> m_nId (link c') = m_nId (link c)"
  by (auto simp: send_def on_link_def split: option.splits prod.splits if_splits bind_splits)

lemma addData_id: "addData bs n l = Some l' \<Longrightarrow> m_nId l' = m_nId l"
  by (auto simp: addData_def append_bytes_def Let_def split: if_splits option.splits)

lemma removeData_id: "removeData n l = Some l' \<Longrightarrow> m_nId l' = m_nId l"
  by (auto simp: removeData_def Let_def split: if_splits)

context steady_client
begin

lemma to_handler_ids:
  "to_handler env on_close c = Some c' \<Longrightarrow> m_nId (link c') = m_nId (link c)"
  "to_handler env on_connected c = Some c' \<Longrightarrow> m_nId (link c') = m_nId (link c)"
  by (auto simp: to_handler_def split: option.splits dest: close_id connected_id)

lemma tcp_step_id: "tcp_step env e c = Some c' \<Longrightarrow> m_nId (link c') = m_nId (link c)"
proof (cases e)
  case (Connected s)
  moreover assume "tcp_step env e c = Some c'"
  ultimately show ?thesis
    by (auto simp: on_connect_def on_link_def on_net_def split: if_splits bind_splits option.splits
        dest!: to_handler_ids(2))
next
  case (Read n buf)
  moreover assume "tcp_step env e c = Some c'"
  ultimately show ?thesis
    by (auto simp: on_read_def on_link_def closeError_def Let_def split: if_splits bind_splits option.splits
        dest!: to_handler_ids(1) addData_id removeData_id data_id start_timer_id)
next
  case (Written r s)
  moreover assume "tcp_step env e c = Some c'"
  ultimately show ?thesis
    by (auto simp: on_write_def close_def Let_def split: if_splits bind_splits dest!: start_timer_id)
qed (auto simp: close_def on_timer_def on_link_def split: if_splits bind_splits dest!: connect_id send_id)

end

section \<open>The invariant\<close>

definition linked :: "(nat \<rightharpoonup> tcp_link) \<Rightarrow> u32 \<Rightarrow> nat \<Rightarrow> bool" where
  "linked ls i a \<longleftrightarrow> (\<exists>l. ls a = Some l \<and> m_nId l = i)"

definition serving :: "('a \<Rightarrow> bool) \<Rightarrow> 'a tcp_world \<Rightarrow> bool" where
  "serving A w \<longleftrightarrow>
    net_ok (snet w) \<and> A (sapp w) \<and> (\<forall>a l. links w a = Some l \<longrightarrow> link_ok (view w l)) \<and>
    (\<forall>a \<in> dom (links w). a < next_link w) \<and> std.each (linked (links w)) (m_mapLinks (listener w))"

lemma link_ok_view: "link_ok (view w l) \<Longrightarrow> net_ok (snet w') \<Longrightarrow> link_ok (view w' l)"
  by (simp add: link_ok_def view_def)

lemma serving_net:
  "serving A w \<Longrightarrow> net_ok n \<Longrightarrow> m_mapLinks s = m_mapLinks (listener w) \<Longrightarrow>
    serving A (w\<lparr>snet := n, listener := s\<rparr>)"
  by (auto simp: serving_def link_ok_def view_def)

definition tcp_start :: "net \<Rightarrow> 'a \<Rightarrow> 'a tcp_world" where
  "tcp_start n a =
    \<lparr>snet = snd (TcpServer_new n), listener = fst (TcpServer_new n), links = Map.empty, next_link = 0, sapp = a\<rparr>"

lemma tcp_start_serving: "net_ok n \<Longrightarrow> A a \<Longrightarrow> serving A (tcp_start n a)"
proof -
  assume n: "net_ok n" and "A a"
  have "net_ok (uv_do (Uv_tcp_init h) (snd (new_addr n)))" for h
    by (intro net_ok_do net_ok_new_addr n) simp
  with \<open>A a\<close> show ?thesis
    by (simp add: serving_def tcp_start_def TcpServer_new_def new_addr_def std.each_def)
qed

section \<open>Sessions\<close>

datatype listener_event =
    Listening u16
  | Stop_listening
  | Handler_is "nat option"
  | Accepted int
  | On_link nat tcp_event

fun listener_step :: "'a tcp_env \<Rightarrow> tcp_link \<Rightarrow> listener_event \<Rightarrow> 'a tcp_world \<Rightarrow> 'a tcp_world option" where
  "listener_step env g (Listening port) w = map_option snd (TcpServer_listen env port w)"
| "listener_step env g Stop_listening w = Some (snd (TcpServer_close w))"
| "listener_step env g (Handler_is h) w = Some (TcpServer_set_handler h w)"
| "listener_step env g (Accepted status) w = TcpServer_on_accept env g status w"
| "listener_step env g (On_link a e) w = at_link a (tcp_step env e) w"

text \<open>libuv reports connections on an open socket only, and events of live links.\<close>

fun listener_allowed :: "listener_event \<Rightarrow> 'a tcp_world \<Rightarrow> bool" where
  "listener_allowed (Accepted status) w \<longleftrightarrow> m_pTcp (listener w) \<noteq> None"
| "listener_allowed (On_link a e) w \<longleftrightarrow> (case links w a of None \<Rightarrow> False | Some l \<Rightarrow> allowed e (view w l))"
| "listener_allowed _ w \<longleftrightarrow> True"

text \<open>
  The two misuses: \<open>listen\<close> after \<open>close\<close> hands a null handle to \<open>uv_tcp_bind\<close>, and a connection made
  by a link whose handle is null hands it to \<open>uv_read_start\<close>.
\<close>

definition listener_misuse :: "'a tcp_env \<Rightarrow> listener_event \<Rightarrow> 'a tcp_world \<Rightarrow> bool" where
  "listener_misuse env e w \<longleftrightarrow>
    (\<exists>port. e = Listening port \<and> m_pTcp (listener w) = None) \<or>
    (\<exists>a x l. e = On_link a x \<and> links w a = Some l \<and> null_read_start env x (view w l))"

inductive listener_reachable :: "'a tcp_env \<Rightarrow> tcp_link \<Rightarrow> 'a tcp_world \<Rightarrow> 'a tcp_world \<Rightarrow> bool" for env g w0 where
  born: "listener_reachable env g w0 w0"
| step: "listener_reachable env g w0 w \<Longrightarrow> listener_allowed e w \<Longrightarrow> listener_step env g e w = Some w' \<Longrightarrow>
    listener_reachable env g w0 w'"

text \<open>The new link, before its handler hears of it.\<close>

definition accepted :: "tcp_link \<Rightarrow> nat \<Rightarrow> net \<Rightarrow> 'a tcp_world \<Rightarrow> 'a tcp_world" where
  "accepted garbage client n w =
    (let s = (listener w)\<lparr>m_nClients := m_nClients (listener w) + 1\<rparr>; a = next_link w;
         l = (fst (TcpLink_peer client garbage n))\<lparr>m_pHandler := m_pHander s\<rparr>
     in w\<lparr>snet := snd (TcpLink_peer client garbage n), links := (links w)(a \<mapsto> l), next_link := a + 1,
          listener := s\<lparr>m_mapLinks := std_insert (m_nId l) a (m_mapLinks s)\<rparr>\<rparr>)"

lemma accepted_serving:
  assumes w: "serving A w" and n: "net_ok n"
  shows "serving A (accepted garbage client n w)"
proof -
  let ?l = "(fst (TcpLink_peer client garbage n))\<lparr>m_pHandler := m_pHander (listener w)\<rparr>" and ?a = "next_link w"
  let ?ls = "(links w)(?a \<mapsto> ?l)"
  have peer: "link_ok \<lparr>net = snd (TcpLink_peer client garbage n), link = fst (TcpLink_peer client garbage n), app = x\<rparr>" for x :: 'a
    by (rule peer_start [OF n])
  then have n': "net_ok (snd (TcpLink_peer client garbage n))" by (simp add: link_ok_def)
  have fresh: "links w ?a = None" using w by (auto simp: serving_def)
  have "linked ?ls i b" if "linked (links w) i b" for i b
    using that fresh by (auto simp: linked_def)
  then have "std.each (linked ?ls) (m_mapLinks (listener w))" using w by (auto simp: serving_def std.each_def)
  then have "std.each (linked ?ls) (std_insert (m_nId ?l) ?a (m_mapLinks (listener w)))"
    by (rule std.each_put) (simp add: linked_def)
  moreover have "b < Suc ?a" if "links w b = Some y" for b y
  proof -
    have "b < ?a" using w domI [of "links w", OF that] by (simp add: serving_def)
    then show ?thesis by simp
  qed
  ultimately show ?thesis
    using w n' peer
    by (auto simp: accepted_def Let_def serving_def link_ok_def view_def)
qed

context steady_client
begin

text \<open>An event of one link leaves the others and the table as they are.\<close>

lemma link_step_ok:
  assumes w: "serving A w" and l: "links w a = Some l"
    and f: "\<exists>c. f (view w l) = Some c \<and> link_ok c \<and> A (app c)"
    and same: "\<And>c. f (view w l) = Some c \<Longrightarrow> m_nId (link c) = m_nId l"
  shows "\<exists>w'. at_link a f w = Some w' \<and> serving A w' \<and> listener w' = listener w"
proof -
  obtain c where c: "f (view w l) = Some c" "link_ok c" "A (app c)" using f by blast
  let ?w = "w\<lparr>snet := net c, links := (links w)(a \<mapsto> link c), sapp := app c\<rparr>"
  have n: "net_ok (net c)" using c(2) by (simp add: link_ok_def)
  have "linked ((links w)(a \<mapsto> link c)) i b" if "linked (links w) i b" for i b
    using that same [OF c(1)] l by (auto simp: linked_def)
  then have "std.each (linked ((links w)(a \<mapsto> link c))) (m_mapLinks (listener w))"
    using w by (auto simp: serving_def std.each_def)
  moreover have "link_ok (view ?w l')" if "((links w)(a \<mapsto> link c)) b = Some l'" for b l'
    using that w c(2) n by (auto simp: serving_def link_ok_def view_def split: if_splits)
  moreover have "\<forall>b \<in> dom ((links w)(a \<mapsto> link c)). b < next_link w"
    using w l by (auto simp: serving_def)
  ultimately have "serving A ?w" using c(3) n by (simp add: serving_def)
  then show ?thesis using c(1) l by (simp add: at_link_def)
qed

lemma accept_ok:
  assumes w: "serving A w" and h: "m_pTcp (listener w) = Some h"
  shows "\<exists>w'. TcpServer_on_accept env garbage status w = Some w' \<and> serving A w' \<and>
    (\<forall>i. map_of (m_mapLinks (listener w)) i \<noteq> None \<longrightarrow> map_of (m_mapLinks (listener w')) i \<noteq> None)"
proof -
  let ?s = "(listener w)\<lparr>m_nClients := m_nClients (listener w) + 1\<rparr>"
  let ?client = "next_addr (snet w)"
  obtain n0 where new: "new_addr (snet w) = (?client, n0)" and n0: "net_ok n0"
    using net_ok_new_addr [of "snet w"] w by (auto simp: new_addr_def serving_def)
  let ?n1 = "uv_do (Uv_tcp_init ?client) n0"
  let ?n2 = "uv_do (Uv_accept h ?client) ?n1"
  have n2: "net_ok ?n2" using n0 by (intro net_ok_do) simp_all
  consider (error) "status < 0" | (refused) "0 \<le> status" "answers env (calls ?n1) (Uv_accept h ?client) \<noteq> 0"
    | (accept) "0 \<le> status" "answers env (calls ?n1) (Uv_accept h ?client) = 0" by linarith
  then show ?thesis
  proof cases
    case error
    have "serving A (w\<lparr>snet := snet w, listener := ?s\<rparr>)"
      by (rule serving_net [OF w]) (use w in \<open>simp_all add: serving_def\<close>)
    with error show ?thesis by (simp add: TcpServer_on_accept_def Let_def)
  next
    case refused
    have "serving A (w\<lparr>snet := uv_do (Uv_close ?client) ?n2, listener := ?s\<rparr>)"
      by (rule serving_net [OF w]) (use net_ok_do [OF n2] in simp_all)
    moreover have "TcpServer_on_accept env garbage status w =
        Some (w\<lparr>snet := uv_do (Uv_close ?client) ?n2, listener := ?s\<rparr>)"
      using refused h by (simp add: TcpServer_on_accept_def Let_def new uv_ask_def)
    ultimately show ?thesis by simp
  next
    case accept
    let ?w = "accepted garbage ?client ?n2 w"
    have ok: "serving A ?w" by (rule accepted_serving [OF w n2])
    have grow: "\<forall>i. map_of (m_mapLinks (listener w)) i \<noteq> None \<longrightarrow> map_of (m_mapLinks (listener ?w)) i \<noteq> None"
      by (simp add: accepted_def Let_def)
    obtain l where l: "links ?w (next_link w) = Some l" by (simp add: accepted_def Let_def)
    have run: "TcpServer_on_accept env garbage status w =
        (case m_pHander (listener w) of None \<Rightarrow> Some ?w
         | Some h \<Rightarrow> at_link (next_link w) (on_connected (handler_at env h)) ?w)"
      using accept h
      by (simp add: TcpServer_on_accept_def Let_def new uv_ask_def accepted_def split_def split: option.split)
    show ?thesis
    proof (cases "m_pHander (listener w)")
      case None
      with run ok grow show ?thesis by simp
    next
      case (Some g)
      have "link_ok (view ?w l)" "A (app (view ?w l))" using ok l by (auto simp: serving_def view_def)
      from connected_ok [OF this, of g] have
        "\<exists>c. on_connected (handler_at env g) (view ?w l) = Some c \<and> link_ok c \<and> A (app c)" by blast
      from link_step_ok [where f = "on_connected (handler_at env g)", OF ok l this] obtain w' where
        "at_link (next_link w) (on_connected (handler_at env g)) ?w = Some w'" "serving A w'" "listener w' = listener ?w"
        using connected_id [of g "view ?w l"] by (auto simp: view_def)
      with run Some grow show ?thesis by simp
    qed
  qed
qed

lemma listener_step_ok:
  assumes w: "serving A w" and e: "listener_allowed e w"
  shows "if listener_misuse env e w then listener_step env g e w = None
    else \<exists>w'. listener_step env g e w = Some w' \<and> serving A w' \<and>
    (\<forall>i. TcpServer_get_link i (listener w) \<noteq> None \<longrightarrow> TcpServer_get_link i (listener w') \<noteq> None)"
proof (cases e)
  case (Listening port)
  show ?thesis
  proof (cases "m_pTcp (listener w)")
    case None
    with Listening show ?thesis by (simp add: TcpServer_listen_def listener_misuse_def)
  next
  case h: (Some h)
  have "net_ok (uv_do (Uv_listen h 100) (uv_do (Uv_tcp_bind h ''0.0.0.0'' port) (snet w)))"
    using w by (intro net_ok_do) (simp_all add: serving_def)
  from serving_net [OF w this, of "(listener w)\<lparr>m_nPort := port, m_bListen := True\<rparr>"] Listening h show ?thesis
    by (simp add: TcpServer_listen_def uv_ask_def TcpServer_get_link_def listener_misuse_def)
  qed
next
  case Stop_listening
  have n: "net_ok (snet w)" using w by (simp add: serving_def)
  show ?thesis
  proof (cases "m_pTcp (listener w)")
    case None
    with serving_net [OF w n, of "(listener w)\<lparr>m_bListen := False\<rparr>"] Stop_listening show ?thesis
      by (simp add: TcpServer_close_def TcpServer_get_link_def listener_misuse_def)
  next
    case (Some h)
    have "net_ok (uv_do (Uv_tcp_close_reset h) (snet w))" by (rule net_ok_do [OF n]) simp
    from serving_net [OF w this, of "(listener w)\<lparr>m_bListen := False, m_pTcp := None\<rparr>"] Some Stop_listening show ?thesis
      by (simp add: TcpServer_close_def TcpServer_get_link_def listener_misuse_def)
  qed
next
  case (Handler_is h)
  have "net_ok (snet w)" using w by (simp add: serving_def)
  from serving_net [OF w this, of "(listener w)\<lparr>m_pHander := h\<rparr>"] Handler_is show ?thesis
    by (simp add: TcpServer_set_handler_def TcpServer_get_link_def listener_misuse_def)
next
  case (Accepted status)
  with e obtain h where "m_pTcp (listener w) = Some h" by auto
  from accept_ok [OF w this, of g status] Accepted show ?thesis
    by (auto simp: TcpServer_get_link_def listener_misuse_def)
next
  case (On_link a x)
  with e obtain l where l: "links w a = Some l" "allowed x (view w l)" by (auto split: option.splits)
  have "client_ok (view w l)" using w l(1) by (auto simp: client_ok_def serving_def view_def)
  note step = tcp_step_ok [OF this l(2)]
  show ?thesis
  proof (cases "null_read_start env x (view w l)")
    case True
    with step l(1) On_link show ?thesis by (simp add: listener_misuse_def at_link_def)
  next
    case False
    with step have "\<exists>c. tcp_step env x (view w l) = Some c \<and> link_ok c \<and> A (app c)"
      by (auto simp: client_ok_def)
    from link_step_ok [where f = "tcp_step env x", OF w l(1) this] obtain w' where
      "at_link a (tcp_step env x) w = Some w'" "serving A w'" "listener w' = listener w"
      using tcp_step_id [of x "view w l"] by (auto simp: view_def)
    with On_link l(1) False show ?thesis by (simp add: listener_misuse_def)
  qed
qed

lemma listener_reachable_ok:
  assumes "listener_reachable env g w0 w" and "serving A w0"
  shows "serving A w \<and>
    (\<forall>i. TcpServer_get_link i (listener w0) \<noteq> None \<longrightarrow> TcpServer_get_link i (listener w) \<noteq> None)"
  using assms
proof (induction rule: listener_reachable.induct)
  case (step w e w')
  then show ?case using listener_step_ok [of w e g] by (auto split: if_splits)
qed simp

end

section \<open>Properties\<close>

text \<open>
  C9.  A TCP server from its construction on, with any number of links, under any interleaving of
  connections, libuv callbacks and calls on the server and its links, with any handler that keeps
  the contract: every link keeps its invariant, and every entry of the table is the link of that id.
  A null pointer is used in exactly two cases: by \<open>listen\<close> on a server that has been closed, and
  when a connection made by a link succeeds although the link's handle is null.
\<close>

theorem tcp_server_safe:
  assumes "steady_client env A" and "listener_reachable env g (tcp_start n a) w" and "net_ok n" and "A a"
  shows "serving A w \<and>
    (\<forall>e. listener_allowed e w \<longrightarrow>
      (listener_step env g e w = None \<longleftrightarrow>
        (\<exists>port. e = Listening port \<and> m_pTcp (listener w) = None) \<or>
        (\<exists>b x l. e = On_link b x \<and> links w b = Some l \<and> null_read_start env x (view w l))))"
proof -
  have w: "serving A w"
    using steady_client.listener_reachable_ok [OF assms(1,2)] tcp_start_serving [of n A a] assms(3,4) by blast
  have "listener_step env g e w = None \<longleftrightarrow> listener_misuse env e w" if "listener_allowed e w" for e
    using steady_client.listener_step_ok [OF assms(1) w that, of g] by (auto split: if_splits)
  with w show ?thesis by (simp add: listener_misuse_def)
qed

lemma tcp_server_safe_witness:
  "\<exists>w. TcpServer_close (tcp_start net_start ()) = (0, w) \<and>
    listener_step (default_env (\<lambda>_ _. 0) (\<lambda>_. 0)) blank_link (Accepted 0) (tcp_start net_start ()) \<noteq> None \<and>
    serving (\<lambda>_. True) w \<and>
    listener_step (default_env (\<lambda>_ _. 0) (\<lambda>_. 0)) blank_link (Listening 80) w = None"
proof -
  let ?e = "default_env (\<lambda>_ _. 0) (\<lambda>_. 0) :: unit tcp_env" and ?w = "tcp_start net_start ()"
  note born = listener_reachable.born [of ?e blank_link ?w]
  note safe = tcp_server_safe [OF default_steady.steady_client_axioms _ net_okI [OF net_inv_start] TrueI]
  have "listener_allowed (Accepted 0) ?w" by (simp add: tcp_start_def TcpServer_new_def new_addr_def)
  then have good: "listener_step ?e blank_link (Accepted 0) ?w \<noteq> None"
    using safe [OF born, THEN conjunct2, rule_format, of "Accepted 0"] by simp
  obtain w where w: "TcpServer_close ?w = (0, w)" "m_pTcp (listener w) = None"
    by (simp add: TcpServer_close_def tcp_start_def TcpServer_new_def new_addr_def Let_def)
  have "listener_reachable ?e blank_link ?w w"
    by (rule listener_reachable.step [OF born, where e = Stop_listening]) (simp_all add: w)
  note closed = safe [OF this]
  have "listener_step ?e blank_link (Listening 80) w = None"
    using closed [THEN conjunct2, rule_format, of "Listening 80"] w(2) by simp
  moreover have "serving (\<lambda>_. True) w" using closed by blast
  ultimately show ?thesis using w(1) good by blast
qed

text \<open>
  C31.  A connection that libuv accepts becomes a link with the next link id, known to the server
  under that id.  Its handler, which is the server's, is told: \<open>on_connected\<close> runs on the new link,
  connected, with the accepted handle, and what it makes of the link, the network and the application
  is the outcome; without a handler the application's state is as before.  The links of all other ids,
  and all other links, are as before.
\<close>

theorem accept_registers:
  assumes "steady_client env A" and w: "serving A w" and "0 \<le> status" and h: "m_pTcp (listener w) = Some h"
    and yes: "\<forall>cs client. answers env cs (Uv_accept h client) = 0"
  shows "\<exists>w' l. TcpServer_on_accept env garbage status w = Some w' \<and> serving A w' \<and>
    TcpServer_get_link (s_nLastId (snet w)) (listener w') = Some (next_link w) \<and>
    links w' (next_link w) = Some l \<and> m_nId l = s_nLastId (snet w) \<and>
    (\<exists>c. m_nId (link c) = s_nLastId (snet w) \<and> tcp_link.m_pTcp (link c) = Some (next_addr (snet w)) \<and>
      m_bConnected (link c) \<and> m_pHandler (link c) = m_pHander (listener w) \<and> app c = sapp w \<and>
      Uv_accept h (next_addr (snet w)) \<in> set (calls (net c)) \<and>
      (case m_pHander (listener w) of
         None \<Rightarrow> l = link c \<and> snet w' = net c \<and> sapp w' = app c
       | Some g \<Rightarrow> \<exists>c'. on_connected (handler_at env g) c = Some c' \<and>
           l = link c' \<and> snet w' = net c' \<and> sapp w' = app c')) \<and>
    (\<forall>i. i \<noteq> s_nLastId (snet w) \<longrightarrow> TcpServer_get_link i (listener w') = TcpServer_get_link i (listener w)) \<and>
    (\<forall>a. a \<noteq> next_link w \<longrightarrow> links w' a = links w a)"
proof -
  let ?client = "next_addr (snet w)"
  let ?n2 = "uv_do (Uv_accept h ?client) (uv_do (Uv_tcp_init ?client) ((snet w)\<lparr>next_addr := next_addr (snet w) + 1\<rparr>))"
  let ?w = "accepted garbage ?client ?n2 w"
  have run: "TcpServer_on_accept env garbage status w =
      (case m_pHander (listener w) of None \<Rightarrow> Some ?w
       | Some h \<Rightarrow> at_link (next_link w) (on_connected (handler_at env h)) ?w)"
    using assms(3) h yes
    by (simp add: TcpServer_on_accept_def Let_def new_addr_def uv_ask_def accepted_def split_def split: option.split)
  have "net_ok ?n2" using w by (intro net_ok_do net_ok_addr) (simp_all add: serving_def)
  from accepted_serving [OF w this] have ok: "serving A ?w" .
  obtain l where l: "links ?w (next_link w) = Some l" "m_nId l = s_nLastId (snet w)" "m_bConnected l"
    "tcp_link.m_pTcp l = Some ?client" "m_pHandler l = m_pHander (listener w)"
    "sapp ?w = sapp w" "Uv_accept h ?client \<in> set (calls (snet ?w))"
    by (simp add: accepted_def Let_def TcpLink_peer_def LinkidAllocator_next_def new_addr_def uv_do_def)
  have tab: "TcpServer_get_link i (listener ?w) =
      (if i = s_nLastId (snet w) then Some (next_link w) else TcpServer_get_link i (listener w))" for i
    by (simp add: accepted_def Let_def TcpLink_peer_def LinkidAllocator_next_def new_addr_def uv_do_def
        TcpServer_get_link_def)
  have rest: "links ?w a = links w a" if "a \<noteq> next_link w" for a
    using that by (simp add: accepted_def Let_def)
  show ?thesis
  proof (cases "m_pHander (listener w)")
    case None
    with run have acc: "TcpServer_on_accept env garbage status w = Some ?w" by simp
    let ?c = "view ?w l"
    have "m_nId (link ?c) = s_nLastId (snet w) \<and> tcp_link.m_pTcp (link ?c) = Some ?client \<and>
      m_bConnected (link ?c) \<and> m_pHandler (link ?c) = m_pHander (listener w) \<and> app ?c = sapp w \<and>
      Uv_accept h ?client \<in> set (calls (net ?c)) \<and> l = link ?c \<and> snet ?w = net ?c \<and> sapp ?w = app ?c"
      using l by (simp add: view_def)
    with acc ok l(1,2) tab rest None show ?thesis by (intro exI [of _ ?w] exI [of _ l]) auto
  next
    case (Some g)
    have v: "link_ok (view ?w l)" "A (app (view ?w l))" using ok l(1) by (auto simp: serving_def view_def)
    have hear: "\<exists>c. on_connected (handler_at env g) (view ?w l) = Some c \<and> link_ok c \<and> A (app c)"
      using link_client.connected_ok [OF steady_client.axioms(1) [OF assms(1)] v, of g] by blast
    from hear obtain c where c: "on_connected (handler_at env g) (view ?w l) = Some c" by blast
    have i: "m_nId (link c) = m_nId l"
      using steady_client.connected_id [OF assms(1) c] by (simp add: view_def)
    let ?v = "?w\<lparr>snet := net c, links := (links ?w)(next_link w \<mapsto> link c), sapp := app c\<rparr>"
    have at: "at_link (next_link w) (on_connected (handler_at env g)) ?w = Some ?v"
      using c l(1) by (simp add: at_link_def)
    from steady_client.link_step_ok [where f = "on_connected (handler_at env g)", OF assms(1) ok l(1)]
    have "serving A ?v" using at c i hear by fastforce
    moreover have "TcpServer_on_accept env garbage status w = Some ?v" using run Some at by simp
    moreover have "m_nId (link (view ?w l)) = s_nLastId (snet w) \<and> tcp_link.m_pTcp (link (view ?w l)) = Some ?client \<and>
      m_bConnected (link (view ?w l)) \<and> m_pHandler (link (view ?w l)) = m_pHander (listener w) \<and> app (view ?w l) = sapp w \<and>
      Uv_accept h ?client \<in> set (calls (net (view ?w l))) \<and>
      on_connected (handler_at env g) (view ?w l) = Some c \<and> link c = link c \<and> snet ?v = net c \<and> sapp ?v = app c"
      using l c by (simp add: view_def)
    ultimately show ?thesis using l(2) tab rest i Some by (intro exI [of _ ?v] exI [of _ "link c"]) auto
  qed
qed

lemma accept_registers_witness:
  "\<exists>w'. TcpServer_on_accept (default_env (\<lambda>_ _. 0) (\<lambda>_. 0)) blank_link 0 (tcp_start net_start ()) = Some w' \<and>
    TcpServer_get_link 1 (listener w') = Some 0"
proof -
  let ?w = "tcp_start net_start ()" and ?e = "default_env (\<lambda>_ _. 0) (\<lambda>_. 0) :: unit tcp_env"
  have f: "m_pTcp (listener ?w) = Some 0" "m_pHander (listener ?w) = None" "next_link ?w = 0" "s_nLastId (snet ?w) = 1"
    by (simp_all add: tcp_start_def TcpServer_new_def new_addr_def net_start_def uv_do_def)
  have "serving (\<lambda>_. True) ?w" by (rule tcp_start_serving) (simp_all add: net_okI [OF net_inv_start])
  from accept_registers [OF default_steady.steady_client_axioms this _ f(1), of 0 "\<lambda>_ _. 0" "\<lambda>_. 0" blank_link] f
  show ?thesis by (auto simp: default_env_def)
qed

text \<open>
  C32.  The table of links only grows: whatever happens to a link, even its closing, the server
  still hands it out under its id.
\<close>

theorem links_never_erased:
  assumes "steady_client env A" and "serving A w" and "listener_reachable env g w w'"
    and "TcpServer_get_link i (listener w) \<noteq> None"
  shows "TcpServer_get_link i (listener w') \<noteq> None"
  using steady_client.listener_reachable_ok [OF assms(1,3,2)] assms(4) by blast

definition one_link :: "unit tcp_world" where
  "one_link = accepted blank_link 5 net_start (tcp_start net_start ())"

text \<open>The one link is closed, and still known.\<close>

lemma links_never_erased_witness:
  "\<exists>w' l. listener_reachable (default_env (\<lambda>_ _. 0) (\<lambda>_. 0)) blank_link one_link w' \<and>
    links w' 0 = Some l \<and> tcp_link.m_pTcp l = None \<and> TcpServer_get_link 1 (listener w') \<noteq> None"
proof -
  let ?e = "default_env (\<lambda>_ _. 0) (\<lambda>_. 0) :: unit tcp_env"
  have ok: "serving (\<lambda>_. True) one_link"
    unfolding one_link_def
    by (intro accepted_serving tcp_start_serving net_okI [OF net_inv_start] TrueI)
  obtain l where f: "links one_link 0 = Some l" "TcpServer_get_link 1 (listener one_link) \<noteq> None"
    by (simp add: one_link_def accepted_def Let_def tcp_start_def TcpServer_new_def new_addr_def net_start_def
        TcpServer_get_link_def TcpLink_peer_def LinkidAllocator_next_def)
  obtain w' l' where w': "listener_step ?e blank_link (On_link 0 Call_close) one_link = Some w'" "links w' 0 = Some l'"
    "tcp_link.m_pTcp l' = None"
    using f(1) by (simp add: at_link_def close_def)
  have "listener_reachable ?e blank_link one_link w'"
    by (rule listener_reachable.step [OF listener_reachable.born _ w'(1)]) (simp add: f)
  with links_never_erased [OF default_steady.steady_client_axioms ok this f(2)] w'(2,3) show ?thesis by blast
qed

end
