(* ===== verification/HttpPeer.thy ===== *)
theory HttpPeer
  imports HttpClient HttpReply TcpServer
begin

text \<open>
  \<open>class HttpPeerLink\<close> (\<open>src/src/httpserver.cpp\<close>): one HTTP connection.  It runs the parser on the
  data of its TCP link; the parser's callbacks fill in the request, and the last one asks the
  application and answers.

  Several callbacks have an \<open>int\<close> result and no \<open>return\<close>: what the parser then reads is the
  parameter \<open>no_return\<close>.  \<open>None\<close> is a null or stale pointer or a parser that does not return.  The
  parser, its settings and the request are part of their \<open>HttpPeerLink\<close>, which owns them.  The
  pointer \<open>m_pLink\<close> is represented by the id of the TCP link, under which the server finds the
  \<open>HttpPeerLink\<close>; the TCP link at hand is the one with that id.  Log messages are left out.
\<close>

record 'h http_server_handler =
  on_get :: "string \<Rightarrow> (string, string) std_map \<Rightarrow> 'h \<Rightarrow> string \<times> 'h"
  on_post :: "string \<Rightarrow> (string, string) std_map \<Rightarrow> string \<Rightarrow> 'h \<Rightarrow> string \<times> 'h"

record http_server =
  m_pTcpServer :: "nat option"
  m_pHttpHandler :: "nat option"
  m_mapLink :: "(u32, nat) std_map"

record http_peer_link =
  m_pHttpHandler :: "nat option"
  m_pLink :: u32
  m_pHttParser :: http_parser
  m_pRequest :: http_request
  m_strField :: string
  m_strValue :: string

text \<open>
  The state the callbacks of the server work on: the server, the \<open>HttpPeerLink\<close> objects at their
  addresses, the address of the \<open>TcpServer\<close> object that exists, and the application's own state.
\<close>

record 'h http_state =
  http_server :: http_server
  http_peers :: "nat \<rightharpoonup> http_peer_link"
  next_peer :: nat
  tcp_server_at :: "nat option"
  user :: 'h

type_synonym 'h http_ctx = "'h http_state tcp"

record 'h http_env =
  net_answers :: uv_answers
  http_handler_at :: "nat \<Rightarrow> 'h http_server_handler"
  max_header :: u32
  no_return :: "event \<Rightarrow> int"

text \<open>Sending and closing need only libuv's answers from the environment of a TCP link.\<close>

abbreviation link_env :: "'h http_env \<Rightarrow> 'h http_state tcp_env" where
  "link_env env \<equiv> default_env (net_answers env) (\<lambda>_. 0)"

section \<open>Construction\<close>

definition HttpPeerLink_new :: "http_parser \<Rightarrow> u32 \<Rightarrow> http_peer_link" where
  "HttpPeerLink_new g i =
    \<lparr>m_pHttpHandler = None, m_pLink = i, m_pHttParser = g, m_pRequest = HttpRequest_new,
     m_strField = '''', m_strValue = ''''\<rparr>"

definition HttpPeerLink_delete :: "nat \<Rightarrow> 'h http_state \<Rightarrow> 'h http_state option" where
  "HttpPeerLink_delete p s =
    map_option (\<lambda>l. s\<lparr>http_peers := (http_peers s)(p := None)\<rparr>) (http_peers s p)"

definition HttpPeerLink_set_handler :: "nat option \<Rightarrow> http_peer_link \<Rightarrow> http_peer_link" where
  "HttpPeerLink_set_handler h l = l\<lparr>m_pHttpHandler := h\<rparr>"

section \<open>Callbacks of the parser\<close>

definition on_peer :: "nat \<Rightarrow> (http_peer_link \<Rightarrow> http_peer_link) \<Rightarrow> 'h http_ctx \<Rightarrow> 'h http_ctx option" where
  "on_peer p f c =
    map_option (\<lambda>l. c\<lparr>tcp.app := (tcp.app c)\<lparr>http_peers := (http_peers (tcp.app c))(p \<mapsto> f l)\<rparr>\<rparr>)
      (http_peers (tcp.app c) p)"

definition on_request :: "nat \<Rightarrow> (http_request \<Rightarrow> http_request) \<Rightarrow> 'h http_ctx \<Rightarrow> 'h http_ctx option" where
  "on_request p f = on_peer p (\<lambda>l. l\<lparr>m_pRequest := f (m_pRequest l)\<rparr>)"

definition HttpPeerLink_on_begin :: "nat \<Rightarrow> 'h http_ctx \<Rightarrow> 'h http_ctx option" where
  "HttpPeerLink_on_begin p = on_request p HttpRequest_clear"

definition HttpPeerLink_on_url :: "nat \<Rightarrow> http_method \<Rightarrow> byte list \<Rightarrow> 'h http_ctx \<Rightarrow> 'h http_ctx option" where
  "HttpPeerLink_on_url p meth bs =
    on_request p (\<lambda>r.
      let r = HttpRequest_set_url bs r
      in case meth of
           HTTP_GET \<Rightarrow> HttpRequest_set_method ''GET'' r
         | HTTP_POST \<Rightarrow> HttpRequest_set_method ''POST'' r
         | _ \<Rightarrow> r)"

definition HttpPeerLink_on_header_field :: "nat \<Rightarrow> byte list \<Rightarrow> 'h http_ctx \<Rightarrow> 'h http_ctx option" where
  "HttpPeerLink_on_header_field p bs = on_peer p (\<lambda>l. l\<lparr>m_strField := bs\<rparr>)"

definition HttpPeerLink_on_header_value :: "nat \<Rightarrow> byte list \<Rightarrow> 'h http_ctx \<Rightarrow> 'h http_ctx option" where
  "HttpPeerLink_on_header_value p bs =
    on_peer p (\<lambda>l. l\<lparr>m_strValue := bs, m_pRequest := HttpRequest_add_header (m_strField l) bs (m_pRequest l)\<rparr>)"

definition HttpPeerLink_on_header_complete :: "nat \<Rightarrow> 'h http_ctx \<Rightarrow> int option" where
  "HttpPeerLink_on_header_complete p c =
    map_option (\<lambda>l. if method_is ''GET'' (m_pRequest l) then 1 else 0) (http_peers (tcp.app c) p)"

definition HttpPeerLink_on_body :: "nat \<Rightarrow> byte list \<Rightarrow> 'h http_ctx \<Rightarrow> 'h http_ctx option" where
  "HttpPeerLink_on_body p bs = on_request p (HttpRequest_set_body bs)"

text \<open>The answer: the response around \<open>res\<close> is sent and the link closed.\<close>

definition HttpPeerLink_close :: "'h http_ctx \<Rightarrow> 'h http_ctx" where
  "HttpPeerLink_close c = snd (close c)"

definition answer_with :: "'h http_env \<Rightarrow> http_peer_link \<Rightarrow> string \<times> 'h \<Rightarrow> 'h http_ctx \<Rightarrow> 'h http_ctx option" where
  "answer_with env l a c =
    (case a of (res, u) \<Rightarrow> if m_pLink l \<noteq> m_nId (link c) then None else do {
       let c = c\<lparr>tcp.app := (tcp.app c)\<lparr>user := u\<rparr>\<rparr>;
       let reshttp = HttpResponse_format (HttpResponse_set_body res HttpResponse_new);
       (r, c) \<leftarrow> send (link_env env) reshttp c;
       Some (snd (close c))
     })"

definition HttpPeerLink_on_complete :: "'h http_env \<Rightarrow> nat \<Rightarrow> 'h http_ctx \<Rightarrow> 'h http_ctx option" where
  "HttpPeerLink_on_complete env p c = do {
     l \<leftarrow> http_peers (tcp.app c) p;
     let r = m_pRequest l;
     case m_pHttpHandler l of
       None \<Rightarrow> Some c
     | Some h \<Rightarrow>
         if method_is ''GET'' r
         then answer_with env l
                (on_get (http_handler_at env h) (HttpRequest_get_url r) (HttpRequest_get_headers r) (user (tcp.app c))) c
         else if method_is ''POST'' r
         then answer_with env l
                (on_post (http_handler_at env h) (HttpRequest_get_url r) (HttpRequest_get_headers r)
                  (HttpRequest_get_body r) (user (tcp.app c))) c
         else Some c
   }"

section \<open>The settings\<close>

text \<open>The parser hands the callbacks the state, or \<open>None\<close> once one of them has failed.\<close>

definition data_callback ::
  "'h http_env \<Rightarrow> mark \<Rightarrow> (http_method \<Rightarrow> byte list \<Rightarrow> 'h http_ctx \<Rightarrow> 'h http_ctx option) \<Rightarrow>
    'h http_ctx option http_data_cb option"
where
  "data_callback env m f =
    Some (\<lambda>pr bs co. (no_return env (Received m bs), pr, Option.bind co (f (method pr) bs)))"

definition HttpPeerLink_settings :: "'h http_env \<Rightarrow> nat \<Rightarrow> 'h http_ctx option http_parser_settings" where
  "HttpPeerLink_settings env p =
    sn_http_parser_settings_init
      \<lparr>on_url := data_callback env M_url (HttpPeerLink_on_url p),
       on_header_field := data_callback env M_header_field (\<lambda>_. HttpPeerLink_on_header_field p),
       on_header_value := data_callback env M_header_value (\<lambda>_. HttpPeerLink_on_header_value p),
       on_headers_complete := Some (\<lambda>pr co.
         case Option.bind co (HttpPeerLink_on_header_complete p) of
           None \<Rightarrow> (0, pr, None)
         | Some r \<Rightarrow> (r, pr, co)),
       on_body := data_callback env M_body (\<lambda>_. HttpPeerLink_on_body p),
       on_message_complete := Some (\<lambda>pr co.
         (no_return env (Notified N_message_complete), pr, Option.bind co (HttpPeerLink_on_complete env p)))\<rparr>"

text \<open>
  \<open>HttpPeerLink::on_data\<close>.  A length that became negative in its conversion to \<open>int\<close> is read as a
  \<open>size_t\<close> beyond the data.
\<close>

definition HttpPeerLink_on_data :: "'h http_env \<Rightarrow> nat \<Rightarrow> byte list \<Rightarrow> 'h http_ctx \<Rightarrow> (int \<times> 'h http_ctx) option" where
  "HttpPeerLink_on_data env p bs c =
    (let len = c_int (length bs)
     in if len < 0 \<or> http_peers (tcp.app c) p = None then None
        else case sn_http_parser_execute (HttpPeerLink_settings env p) (max_header env)
                    (sn_http_parser_init HTTP_REQUEST) (Some c) bs of
               Some (Returned n pr (Some c)) \<Rightarrow> map_option (Pair len) (on_peer p (\<lambda>l. l\<lparr>m_pHttParser := pr\<rparr>) c)
             | _ \<Rightarrow> None)"

end
