(* ===== verification/HttpServer.thy ===== *)
theory HttpServer
  imports HttpPeer
begin

text \<open>
  \<open>class HttpServer\<close> (\<open>src/src/httpserver.cpp\<close>): the handler of a TCP server that gives every TCP
  link its \<open>HttpPeerLink\<close>.

  The \<open>TcpServer\<close> object is the \<open>listener\<close> of the TCP world while \<open>tcp_server_at\<close> gives its
  address; using or deleting it otherwise is \<open>None\<close>.  \<open>close\<close> ends without the \<open>return\<close> its type
  asks for; no caller in the library uses the result.
\<close>

section \<open>The class\<close>

definition HttpServer_new :: "http_server \<Rightarrow> http_server" where
  "HttpServer_new g = g\<lparr>m_pTcpServer := None, m_mapLink := []\<rparr>"

definition HttpServer_set_handler :: "nat option \<Rightarrow> http_server \<Rightarrow> http_server" where
  "HttpServer_set_handler h s = s\<lparr>http_server.m_pHttpHandler := h\<rparr>"

type_synonym 'h http_world = "'h http_state tcp_world"

text \<open>\<open>if (m_pTcpServer) delete m_pTcpServer;\<close>\<close>

definition HttpServer_close :: "'h http_world \<Rightarrow> 'h http_world option" where
  "HttpServer_close w =
    (case m_pTcpServer (http_server (sapp w)) of
       None \<Rightarrow> Some w
     | Some p \<Rightarrow>
         if tcp_server_at (sapp w) = Some p
         then map_option (\<lambda>n. w\<lparr>snet := n, sapp := (sapp w)\<lparr>tcp_server_at := None\<rparr>\<rparr>)
                (TcpServer_delete (listener w) (snet w))
         else None)"

definition HttpServer_delete :: "'h http_world \<Rightarrow> 'h http_world option" where
  "HttpServer_delete w = HttpServer_close w"

definition HttpServer_listen :: "'h http_state tcp_env \<Rightarrow> nat \<Rightarrow> u16 \<Rightarrow> 'h http_world \<Rightarrow> 'h http_world option" where
  "HttpServer_listen env this base_port w = do {
     w \<leftarrow> HttpServer_close w;
     let (p, n) = new_addr (snet w);
     let (t, n) = TcpServer_new n;
     let s = sapp w;
     let w = w\<lparr>snet := n, listener := t,
               sapp := s\<lparr>tcp_server_at := Some p, http_server := (http_server s)\<lparr>m_pTcpServer := Some p\<rparr>\<rparr>\<rparr>;
     let w = TcpServer_set_handler (Some this) w;
     map_option snd (TcpServer_listen env base_port w)
   }"

section \<open>The callbacks of its TCP links\<close>

definition HttpServer_on_connected :: "http_parser \<Rightarrow> 'h http_ctx \<Rightarrow> 'h http_ctx option" where
  "HttpServer_on_connected g c =
    (let s = tcp.app c; i = m_nId (link c)
     in case map_of (m_mapLink (http_server s)) i of
          None \<Rightarrow>
            let l = HttpPeerLink_set_handler (http_server.m_pHttpHandler (http_server s)) (HttpPeerLink_new g i)
            in Some (c\<lparr>tcp.app := s\<lparr>http_peers := (http_peers s)(next_peer s \<mapsto> l), next_peer := next_peer s + 1,
                 http_server := (http_server s)\<lparr>m_mapLink := std_insert i (next_peer s) (m_mapLink (http_server s))\<rparr>\<rparr>\<rparr>)
        | Some p \<Rightarrow> Some c)"

definition HttpServer_on_close :: "'h http_ctx \<Rightarrow> 'h http_ctx option" where
  "HttpServer_on_close c =
    (let s = tcp.app c; i = m_nId (link c)
     in if i \<le> 0 then Some c
        else case map_of (m_mapLink (http_server s)) i of
          None \<Rightarrow> Some c
        | Some p \<Rightarrow>
            map_option (\<lambda>s. c\<lparr>tcp.app := s\<lparr>http_server := (http_server s)
                \<lparr>m_mapLink := std_erase i (m_mapLink (http_server s))\<rparr>\<rparr>\<rparr>)
              (HttpPeerLink_delete p s))"

definition HttpServer_on_data :: "'h http_env \<Rightarrow> byte list \<Rightarrow> 'h http_ctx \<Rightarrow> (int \<times> 'h http_ctx) option" where
  "HttpServer_on_data env bs c =
    (case map_of (m_mapLink (http_server (tcp.app c))) (m_nId (link c)) of
       None \<Rightarrow> Some (0, c)
     | Some p \<Rightarrow> HttpPeerLink_on_data env p bs c)"

definition http_handler :: "'h http_env \<Rightarrow> http_parser \<Rightarrow> 'h http_state link_handler" where
  "http_handler env g =
    \<lparr>on_connected = HttpServer_on_connected g, on_close = HttpServer_on_close,
     on_data = HttpServer_on_data env\<rparr>"

definition http_tcp_env :: "'h http_env \<Rightarrow> http_parser \<Rightarrow> (string \<Rightarrow> u32) \<Rightarrow> 'h http_state tcp_env" where
  "http_tcp_env env g inet =
    \<lparr>answers = net_answers env, handler_at = (\<lambda>_. http_handler env g), aton = inet\<rparr>"

section \<open>The invariant of the table\<close>

text \<open>Every entry leads to the one live \<open>HttpPeerLink\<close> of that id.\<close>

definition serves :: "(nat \<rightharpoonup> http_peer_link) \<Rightarrow> u32 \<Rightarrow> nat \<Rightarrow> bool" where
  "serves ps i p \<longleftrightarrow> (\<exists>l. ps p = Some l \<and> m_pLink l = i)"

definition http_ok :: "'h http_state \<Rightarrow> bool" where
  "http_ok s \<longleftrightarrow>
    std.each (serves (http_peers s)) (m_mapLink (http_server s)) \<and>
    (\<forall>p \<in> dom (http_peers s). p < next_peer s)"

text \<open>... and the server and the \<open>TcpServer\<close> it has are \<open>t\<close>, which no callback changes.\<close>

definition http_inv :: "nat option \<times> nat option \<Rightarrow> 'h http_state \<Rightarrow> bool" where
  "http_inv t s \<longleftrightarrow> http_ok s \<and> (m_pTcpServer (http_server s), tcp_server_at s) = t"

lemma http_ok_peer:
  assumes "http_ok s" and "map_of (m_mapLink (http_server s)) i = Some p"
  obtains l where "http_peers s p = Some l" and "m_pLink l = i"
  using std.each_look [of "serves (http_peers s)" "m_mapLink (http_server s)" i p] assms
  by (auto simp: http_ok_def serves_def)

lemma http_ok_update:
  assumes "http_ok s" and "http_peers s p = Some l" and "m_pLink l' = m_pLink l"
  shows "http_ok (s\<lparr>http_peers := (http_peers s)(p \<mapsto> l')\<rparr>)"
  using assms by (fastforce simp: http_ok_def std.each_def serves_def dom_def)

lemma on_connected_keeps:
  assumes inv: "http_inv t (tcp.app c)"
  shows "\<exists>c'. HttpServer_on_connected g c = Some c' \<and> link c' = link c \<and> net c' = net c \<and> http_inv t (tcp.app c')"
proof (cases "map_of (m_mapLink (http_server (tcp.app c))) (m_nId (link c))")
  case None
  let ?s = "tcp.app c"
  have ok: "http_ok ?s" using inv by (simp add: http_inv_def)
  have fresh: "http_peers ?s (next_peer ?s) = None" using ok by (fastforce simp: http_ok_def dom_def)
  let ?l = "HttpPeerLink_set_handler (http_server.m_pHttpHandler (http_server ?s)) (HttpPeerLink_new g (m_nId (link c)))"
  let ?ps = "(http_peers ?s)(next_peer ?s \<mapsto> ?l)"
  have "std.each (serves ?ps) (m_mapLink (http_server ?s))"
    using ok fresh by (fastforce simp: http_ok_def std.each_def serves_def)
  then have "std.each (serves ?ps) (std_insert (m_nId (link c)) (next_peer ?s) (m_mapLink (http_server ?s)))"
    by (rule std.each_put) (simp add: serves_def HttpPeerLink_set_handler_def HttpPeerLink_new_def)
  with None ok inv show ?thesis
    by (auto simp: HttpServer_on_connected_def Let_def http_ok_def http_inv_def less_Suc_eq)
qed (use inv in \<open>simp add: HttpServer_on_connected_def Let_def\<close>)

lemma on_close_keeps:
  assumes inv: "http_inv t (tcp.app c)"
  shows "\<exists>c'. HttpServer_on_close c = Some c' \<and> link c' = link c \<and> net c' = net c \<and> http_inv t (tcp.app c')"
proof (cases "map_of (m_mapLink (http_server (tcp.app c))) (m_nId (link c))")
  case (Some p)
  let ?s = "tcp.app c" and ?i = "m_nId (link c)"
  let ?m = "m_mapLink (http_server ?s)"
  have ok: "http_ok ?s" using inv by (simp add: http_inv_def)
  obtain l where l: "http_peers ?s p = Some l" "m_pLink l = ?i" by (rule http_ok_peer [OF ok Some])
  have each: "std.each (serves (http_peers ?s)) ?m" using ok by (simp add: http_ok_def)
  have "map_of ?m k \<noteq> Some p" if "k \<noteq> ?i" for k
    using std.each_look [OF each, of k p] l that by (auto simp: serves_def)
  then have "std.each (serves ((http_peers ?s)(p := None))) (std_erase ?i ?m)"
    using std.each_del [OF each, of ?i] by (auto simp: std.each_def serves_def)
  with Some ok inv l show ?thesis
    by (auto simp: HttpServer_on_close_def Let_def HttpPeerLink_delete_def http_ok_def http_inv_def)
qed (use inv in \<open>simp add: HttpServer_on_close_def Let_def\<close>)

section \<open>Reading\<close>

lemma settings_simps:
  "on_message_begin (HttpPeerLink_settings env p) = None" "on_status (HttpPeerLink_settings env p) = None"
  "on_chunk_header (HttpPeerLink_settings env p) = None" "on_chunk_complete (HttpPeerLink_settings env p) = None"
  "on_url (HttpPeerLink_settings env p) = data_callback env M_url (HttpPeerLink_on_url p)"
  "on_header_field (HttpPeerLink_settings env p) = data_callback env M_header_field (\<lambda>_. HttpPeerLink_on_header_field p)"
  "on_header_value (HttpPeerLink_settings env p) = data_callback env M_header_value (\<lambda>_. HttpPeerLink_on_header_value p)"
  "on_body (HttpPeerLink_settings env p) = data_callback env M_body (\<lambda>_. HttpPeerLink_on_body p)"
  "on_headers_complete (HttpPeerLink_settings env p) = Some (\<lambda>pr co.
     case Option.bind co (HttpPeerLink_on_header_complete p) of None \<Rightarrow> (0, pr, None) | Some r \<Rightarrow> (r, pr, co))"
  "on_message_complete (HttpPeerLink_settings env p) = Some (\<lambda>pr co.
     (no_return env (Notified N_message_complete), pr, Option.bind co (HttpPeerLink_on_complete env p)))"
  by (simp_all add: HttpPeerLink_settings_def sn_http_parser_settings_init_def)

lemma settings_notify: "notify_cb (HttpPeerLink_settings env p) n = Some f \<Longrightarrow>
    f pr co = (r, pr', co') \<Longrightarrow> pr' = pr \<and> co' = Option.bind co (HttpPeerLink_on_complete env p)"
  by (cases n) (auto simp: settings_simps)

lemma settings_data: "data_cb (HttpPeerLink_settings env p) m = Some f \<Longrightarrow> f pr bs co = (r, pr', co') \<Longrightarrow>
    pr' = pr \<and> co' = Option.bind co (\<lambda>c.
      case m of M_url \<Rightarrow> HttpPeerLink_on_url p (method pr) bs c
      | M_header_field \<Rightarrow> HttpPeerLink_on_header_field p bs c
      | M_header_value \<Rightarrow> HttpPeerLink_on_header_value p bs c
      | M_body \<Rightarrow> HttpPeerLink_on_body p bs c
      | M_status \<Rightarrow> None)"
  by (cases m) (auto simp: settings_simps data_callback_def)

lemma settings_headers: "on_headers_complete (HttpPeerLink_settings env p) = Some f \<Longrightarrow> f pr co = (r, pr', co') \<Longrightarrow>
    pr' = pr \<and> co' = (if Option.bind co (HttpPeerLink_on_header_complete p) = None then None else co)"
  by (auto simp: settings_simps split: option.splits)

interpretation peer: quiet_callbacks "HttpPeerLink_settings env p"
  by unfold_locales (auto simp: only_pauses_def dest!: settings_notify settings_data settings_headers)

text \<open>
  What the callbacks keep while the parser runs for the \<open>HttpPeerLink\<close> at \<open>p\<close> on the link with
  id \<open>i\<close>.
\<close>

definition peer_run :: "nat option \<times> nat option \<Rightarrow> u32 \<Rightarrow> nat \<Rightarrow> 'h http_ctx \<Rightarrow> bool" where
  "peer_run t i p c \<longleftrightarrow>
    link_ok c \<and> http_inv t (tcp.app c) \<and> m_nId (link c) = i \<and>
    (\<exists>l. http_peers (tcp.app c) p = Some l \<and> m_pLink l = i)"

definition running :: "nat option \<times> nat option \<Rightarrow> u32 \<Rightarrow> nat \<Rightarrow> 'h http_ctx option \<Rightarrow> bool" where
  "running t i p co \<longleftrightarrow> (\<exists>c. co = Some c \<and> peer_run t i p c)"

lemma on_peer_keeps:
  assumes "peer_run t i p c" and "\<And>l. m_pLink (f l) = m_pLink l"
  shows "running t i p (on_peer p f c)"
  using assms http_ok_update [of "tcp.app c" p]
  by (auto simp: running_def peer_run_def on_peer_def link_ok_def http_inv_def)

lemma peer_callbacks_keep:
  assumes "peer_run t i p c"
  shows "running t i p (HttpPeerLink_on_url p m bs c)" "running t i p (HttpPeerLink_on_header_field p bs c)"
    "running t i p (HttpPeerLink_on_header_value p bs c)" "running t i p (HttpPeerLink_on_body p bs c)"
  using assms
  by (simp_all add: HttpPeerLink_on_url_def HttpPeerLink_on_header_field_def HttpPeerLink_on_header_value_def
      HttpPeerLink_on_body_def on_request_def on_peer_keeps)

text \<open>The id of the TCP link stays as it is, whatever happens.\<close>

definition same_id :: "u32 \<Rightarrow> 'h http_ctx option \<Rightarrow> bool" where
  "same_id i co \<longleftrightarrow> (\<forall>c. co = Some c \<longrightarrow> m_nId (link c) = i)"

lemma same_id_peer: "m_nId (link c) = i \<Longrightarrow> same_id i (on_peer p f c)"
  by (auto simp: same_id_def on_peer_def)

lemma same_id_answer: "m_nId (link c) = i \<Longrightarrow> same_id i (answer_with env l a c)"
  by (cases a) (auto simp: same_id_def answer_with_def close_def Let_def split: if_splits bind_splits dest!: send_id)

lemma same_id_callbacks:
  assumes "m_nId (link c) = i"
  shows "same_id i (HttpPeerLink_on_url p m bs c)" "same_id i (HttpPeerLink_on_header_field p bs c)"
    "same_id i (HttpPeerLink_on_header_value p bs c)" "same_id i (HttpPeerLink_on_body p bs c)"
    "same_id i (HttpPeerLink_on_complete env p c)"
proof -
  show "same_id i (HttpPeerLink_on_complete env p c)"
    using assms same_id_answer [OF assms]
    by (cases "http_peers (tcp.app c) p")
      (auto simp: HttpPeerLink_on_complete_def Let_def same_id_def split: option.split)
qed (use assms in \<open>simp_all add: HttpPeerLink_on_url_def HttpPeerLink_on_header_field_def
    HttpPeerLink_on_header_value_def HttpPeerLink_on_body_def on_request_def same_id_peer\<close>)

interpretation peer_id: callback_invariant "HttpPeerLink_settings env p" "same_id i"
proof
  show "same_id i a'" if "notify_cb (HttpPeerLink_settings env p) n = Some f" "same_id i a" "f pr a = (r, pr', a')"
    for n f a pr r pr' a'
    using settings_notify [OF that(1,3)] that(2) same_id_callbacks(5) [OF refl]
    by (cases a) (auto simp: same_id_def)
  show "same_id i a'" if "data_cb (HttpPeerLink_settings env p) m = Some f" "same_id i a" "f pr bs a = (r, pr', a')"
    for m f bs a pr r pr' a'
    using settings_data [OF that(1,3)] that(2) same_id_callbacks(1-4)
    by (cases a; cases m) (simp_all add: same_id_def)
  show "same_id i a'" if "on_headers_complete (HttpPeerLink_settings env p) = Some f" "same_id i a" "f pr a = (r, pr', a')"
    for f a pr r pr' a'
    using settings_headers [OF that(1,3)] that(2) by (auto simp: same_id_def split: if_splits)
qed

lemma on_data_id:
  assumes "HttpServer_on_data env bs c = Some (v, c')"
  shows "m_nId (link c') = m_nId (link c)"
proof (cases "map_of (m_mapLink (http_server (tcp.app c))) (m_nId (link c))")
  case (Some p)
  let ?exec = "sn_http_parser_execute (HttpPeerLink_settings env p) (max_header env)
    (sn_http_parser_init HTTP_REQUEST) (Some c) bs"
  from assms Some obtain n pr d where exec: "?exec = Some (Returned n pr (Some d))"
    and d: "on_peer p (\<lambda>l. l\<lparr>m_pHttParser := pr\<rparr>) d = Some c'"
    by (auto simp: HttpServer_on_data_def HttpPeerLink_on_data_def Let_def
        split: if_splits option.splits exec_result.splits)
  have "same_id (m_nId (link c)) (Some d)"
    by (rule peer_id.execute_app [OF _ exec]) (simp add: same_id_def)
  with d show ?thesis by (auto simp: same_id_def on_peer_def)
qed (use assms in \<open>simp add: HttpServer_on_data_def\<close>)

text \<open>
  The application: its answers fit into the \<open>int\<close> that \<open>send\<close> takes.
\<close>

locale http_application =
  fixes env :: "'h http_env" and g :: http_parser and inet :: "string \<Rightarrow> u32"
  assumes get_small: "length (fst (on_get (http_handler_at env h) url hs u)) < 2 ^ 31 - 98"
    and post_small: "length (fst (on_post (http_handler_at env h) url hs body u)) < 2 ^ 31 - 98"
begin

lemma answer_keeps:
  assumes run: "peer_run t i p c" and l: "m_pLink l = i" and small: "length (fst a) < 2 ^ 31 - 98"
  shows "running t i p (answer_with env l a c)"
proof -
  obtain res u where a: "a = (res, u)" by (cases a)
  let ?c = "c\<lparr>tcp.app := (tcp.app c)\<lparr>user := u\<rparr>\<rparr>"
  let ?data = "HttpResponse_format (HttpResponse_set_body res HttpResponse_new)"
  have ok: "link_ok ?c" "m_nId (link c) = i" using run by (simp_all add: peer_run_def link_ok_def)
  have len: "length ?data < 2 ^ 31" using small a by (simp add: response_length)
  obtain r c' where sent: "send (link_env env) ?data ?c = Some (r, c')" "link_ok c'" "buffered ?c c'"
    using link_ok_send [OF ok(1) len, of "link_env env"] by blast
  then have "peer_run t i p (shut c')"
    using run by (auto simp: peer_run_def buffered_def http_inv_def http_ok_def intro: link_ok_shut)
  with sent(1) ok(2) l show ?thesis
    by (simp add: answer_with_def a Let_def close_def running_def)
qed

lemma on_complete_keeps:
  assumes run: "peer_run t i p c"
  shows "running t i p (HttpPeerLink_on_complete env p c)"
proof -
  obtain l where l: "http_peers (tcp.app c) p = Some l" "m_pLink l = i" using run by (auto simp: peer_run_def)
  have "running t i p (Some c)" using run by (simp add: running_def)
  then show ?thesis
    using l answer_keeps [OF run l(2)] get_small post_small
    by (simp add: HttpPeerLink_on_complete_def Let_def split: option.split)
qed

lemma settings_keep: "callback_invariant (HttpPeerLink_settings env p) (running t i p)"
proof
  show "running t i p a'" if "notify_cb (HttpPeerLink_settings env p) n = Some f" "running t i p a" "f pr a = (r, pr', a')"
    for n f a pr r pr' a'
    using settings_notify [OF that(1,3)] that(2) on_complete_keeps [of t i p] by (auto simp: running_def)
  show "running t i p a'" if "data_cb (HttpPeerLink_settings env p) m = Some f" "running t i p a" "f pr bs a = (r, pr', a')"
    for m f bs a pr r pr' a'
  proof -
    from that(2) obtain c where c: "a = Some c" "peer_run t i p c" by (auto simp: running_def)
    have "m \<noteq> M_status" using that(1) by (cases m) (simp_all add: settings_simps)
    then show ?thesis
      using settings_data [OF that(1,3)] peer_callbacks_keep [OF c(2)] c(1) by (cases m) simp_all
  qed
  show "running t i p a'" if "on_headers_complete (HttpPeerLink_settings env p) = Some f" "running t i p a" "f pr a = (r, pr', a')"
    for f a pr r pr' a'
    using settings_headers [OF that(1,3)] that(2)
    by (auto simp: running_def peer_run_def HttpPeerLink_on_header_complete_def)
qed

lemma peer_on_data:
  assumes run: "peer_run t i p c" and len: "length bs < 2 ^ 31"
  shows "\<exists>c'. HttpPeerLink_on_data env p bs c = Some (int (length bs), c') \<and> peer_run t i p c'"
proof -
  let ?st = "HttpPeerLink_settings env p" and ?pr = "sn_http_parser_init HTTP_REQUEST"
  have "length bs < 2 ^ 64" using len by simp
  from peer.execute_returns [OF parser_ok_init this, of _ _ _ _ "Some c"]
  obtain n pr a where exec: "sn_http_parser_execute ?st (max_header env) ?pr (Some c) bs = Some (Returned n pr a)"
    by meson
  have "running t i p (Some c)" using run by (simp add: running_def)
  from callback_invariant.execute_app [OF settings_keep this exec]
  obtain d where d: "a = Some d" "peer_run t i p d" by (auto simp: running_def)
  have "running t i p (on_peer p (\<lambda>l. l\<lparr>m_pHttParser := pr\<rparr>) d)" by (rule on_peer_keeps [OF d(2)]) simp
  moreover have "http_peers (tcp.app c) p \<noteq> None" using run by (auto simp: peer_run_def)
  ultimately show ?thesis
    using exec d(1) c_int_small [OF len] by (auto simp: HttpPeerLink_on_data_def Let_def running_def)
qed

lemma on_data_keeps:
  assumes "link_ok c" and inv: "http_inv t (tcp.app c)" and "length bs < 2 ^ 31"
  shows "\<exists>v c'. HttpServer_on_data env bs c = Some (v, c') \<and> link_ok c' \<and> http_inv t (tcp.app c') \<and>
    m_nId (link c') = m_nId (link c)"
proof (cases "map_of (m_mapLink (http_server (tcp.app c))) (m_nId (link c))")
  case (Some p)
  have "http_ok (tcp.app c)" using inv by (simp add: http_inv_def)
  from http_ok_peer [OF this Some] obtain l where
    "http_peers (tcp.app c) p = Some l" "m_pLink l = m_nId (link c)" .
  with assms have "peer_run t (m_nId (link c)) p c" by (simp add: peer_run_def)
  from peer_on_data [OF this assms(3)] Some show ?thesis
    by (auto simp: HttpServer_on_data_def peer_run_def)
qed (use assms in \<open>simp add: HttpServer_on_data_def\<close>)

end

lemma link_ok_same: "link c' = link c \<Longrightarrow> net c' = net c \<Longrightarrow> link_ok c' = link_ok c"
  by (simp add: link_ok_def)

text \<open>The HTTP server keeps the contract its TCP links ask of a handler.\<close>

sublocale http_application \<subseteq> server: steady_client "http_tcp_env env g inet" "http_inv t" for t
proof
  fix h c bs v c'
  show "\<exists>v c'. on_data (handler_at (http_tcp_env env g inet) h) bs c = Some (v, c') \<and> link_ok c' \<and> http_inv t (tcp.app c')"
    if "link_ok c" "http_inv t (tcp.app c)" "length bs < 2 ^ 31"
    using on_data_keeps [OF that] by (auto simp: http_tcp_env_def http_handler_def)
  show "\<exists>c'. on_close (handler_at (http_tcp_env env g inet) h) c = Some c' \<and> link_ok c' \<and> http_inv t (tcp.app c')"
    if "link_ok c" "http_inv t (tcp.app c)"
    using on_close_keeps [OF that(2)] that(1) link_ok_same [of _ c]
    by (auto simp: http_tcp_env_def http_handler_def)
  show "\<exists>c'. on_connected (handler_at (http_tcp_env env g inet) h) c = Some c' \<and> link_ok c' \<and> http_inv t (tcp.app c')"
    if "link_ok c" "http_inv t (tcp.app c)"
    using on_connected_keeps [OF that(2), of g] that(1) link_ok_same [of _ c]
    by (auto simp: http_tcp_env_def http_handler_def)
  show "m_nId (link c') = m_nId (link c)" if "on_data (handler_at (http_tcp_env env g inet) h) bs c = Some (v, c')"
    using that on_data_id by (simp add: http_tcp_env_def http_handler_def)
  show "m_nId (link c') = m_nId (link c)" if "on_close (handler_at (http_tcp_env env g inet) h) c = Some c'"
    using that by (auto simp: http_tcp_env_def http_handler_def HttpServer_on_close_def Let_def split: if_splits option.splits)
  show "m_nId (link c') = m_nId (link c)" if "on_connected (handler_at (http_tcp_env env g inet) h) c = Some c'"
    using that by (auto simp: http_tcp_env_def http_handler_def HttpServer_on_connected_def Let_def split: option.splits)
qed

end
