(* ===== verification/HttpService.thy ===== *)
theory HttpService
  imports HttpServer
begin

text \<open>
  The HTTP server as a whole (\<open>src/src/httpserver.cpp\<close>): from its construction on, with the TCP
  server below it, its links, the parser and the pool of send buffers, under any sequence of
  connections, reads, completed writes, timers and calls.
\<close>

section \<open>The life of a server\<close>

text \<open>\<open>new HttpServer\<close> and \<open>set_handler\<close>, in a process where nothing else has happened.\<close>

definition http_start :: "http_server \<Rightarrow> tcp_server \<Rightarrow> nat option \<Rightarrow> net \<Rightarrow> 'h \<Rightarrow> 'h http_world" where
  "http_start g0 t0 h n u =
    \<lparr>snet = n, listener = t0, links = Map.empty, next_link = 0,
     sapp = \<lparr>http_server = HttpServer_set_handler h (HttpServer_new g0), http_peers = Map.empty,
             next_peer = 0, tcp_server_at = None, user = u\<rparr>\<rparr>"

datatype http_event = Http_listen u16 | Http_close | Connection int | Link_event nat tcp_event

fun http_step :: "'h http_state tcp_env \<Rightarrow> nat \<Rightarrow> tcp_link \<Rightarrow> http_event \<Rightarrow> 'h http_world \<Rightarrow> 'h http_world option" where
  "http_step env this gl (Http_listen p) w = HttpServer_listen env this p w"
| "http_step env this gl Http_close w = HttpServer_close w"
| "http_step env this gl (Connection status) w = TcpServer_on_accept env gl status w"
| "http_step env this gl (Link_event a e) w = at_link a (tcp_step env e) w"

text \<open>
  libuv reports connections on an open socket only, and events of live links as in theory
  \<open>TcpLink\<close>.
\<close>

fun http_allowed :: "http_event \<Rightarrow> 'h http_world \<Rightarrow> bool" where
  "http_allowed (Connection status) w \<longleftrightarrow> tcp_server_at (sapp w) \<noteq> None"
| "http_allowed (Link_event a e) w \<longleftrightarrow> (case links w a of None \<Rightarrow> False | Some l \<Rightarrow> allowed e (view w l))"
| "http_allowed _ w \<longleftrightarrow> True"

text \<open>
  The misuses: \<open>close\<close> leaves the pointer to the deleted \<open>TcpServer\<close>, and a second \<open>close\<close> or a \<open>listen\<close>
  deletes it again; and a connection made by a link whose handle is null.
\<close>

definition not_closed :: "'h http_world \<Rightarrow> bool" where
  "not_closed w \<longleftrightarrow>
    m_pTcpServer (http_server (sapp w)) = None \<or>
    m_pTcpServer (http_server (sapp w)) = tcp_server_at (sapp w)"

definition http_misuse :: "'h http_state tcp_env \<Rightarrow> http_event \<Rightarrow> 'h http_world \<Rightarrow> bool" where
  "http_misuse env e w \<longleftrightarrow>
    (((\<exists>p. e = Http_listen p) \<or> e = Http_close) \<and> \<not> not_closed w) \<or>
    (\<exists>a x l. e = Link_event a x \<and> links w a = Some l \<and> null_read_start env x (view w l))"

inductive http_reachable ::
  "'h http_state tcp_env \<Rightarrow> nat \<Rightarrow> tcp_link \<Rightarrow> 'h http_world \<Rightarrow> 'h http_world \<Rightarrow> bool"
  for env this gl w0
where
  born: "http_reachable env this gl w0 w0"
| step: "http_reachable env this gl w0 w \<Longrightarrow> http_allowed e w \<Longrightarrow> http_step env this gl e w = Some w' \<Longrightarrow>
    http_reachable env this gl w0 w'"

inductive_cases http_reachableE: "http_reachable env this gl w0 w"

text \<open>The invariant: the links and the table are well formed, and a server that exists has its socket.\<close>

definition http_serving :: "'h http_world \<Rightarrow> bool" where
  "http_serving w \<longleftrightarrow>
    serving (http_inv (m_pTcpServer (http_server (sapp w)), tcp_server_at (sapp w))) w \<and>
    (tcp_server_at (sapp w) \<noteq> None \<longrightarrow>
      m_pTcpServer (http_server (sapp w)) = tcp_server_at (sapp w) \<and> tcp_server.m_pTcp (listener w) \<noteq> None)"

lemma http_start_serving: "net_ok n \<Longrightarrow> m_mapLinks t0 = [] \<Longrightarrow> http_serving (http_start g0 t0 h n u)"
  by (simp add: http_serving_def serving_def http_start_def http_inv_def http_ok_def std.each_def
      HttpServer_set_handler_def HttpServer_new_def)

lemma serving_app:
  assumes "serving A w" and "B b" and "net_ok n" and "std.each (linked (links w)) (m_mapLinks s)"
  shows "serving B (w\<lparr>snet := n, listener := s, sapp := b\<rparr>)"
  using assms by (auto simp: serving_def link_ok_def view_def)

lemma HttpServer_close_ok:
  assumes inv: "http_serving w" and open_server: "not_closed w"
  shows "\<exists>w'. HttpServer_close w = Some w' \<and> http_serving w' \<and> tcp_server_at (sapp w') = None \<and>
    m_pTcpServer (http_server (sapp w')) = m_pTcpServer (http_server (sapp w))"
proof (cases "m_pTcpServer (http_server (sapp w))")
  case None
  with inv show ?thesis by (auto simp: HttpServer_close_def http_serving_def)
next
  case (Some p)
  let ?s = "(sapp w)\<lparr>tcp_server_at := None\<rparr>"
  have at: "tcp_server_at (sapp w) = Some p" using open_server Some by (simp add: not_closed_def)
  then obtain h where h: "tcp_server.m_pTcp (listener w) = Some h" using inv by (auto simp: http_serving_def)
  let ?n = "uv_do (Uv_tcp_close_reset h) (snet w)"
  have w: "serving (http_inv (Some p, Some p)) w" using inv Some at by (simp add: http_serving_def)
  then have "net_ok ?n" by (intro net_ok_do) (simp_all add: serving_def)
  moreover have "http_inv (Some p, None) ?s" using w by (simp add: serving_def http_inv_def http_ok_def)
  ultimately have "serving (http_inv (Some p, None)) (w\<lparr>snet := ?n, listener := listener w, sapp := ?s\<rparr>)"
    using w by (intro serving_app [OF w]) (simp_all add: serving_def)
  with Some at h show ?thesis
    by (simp add: HttpServer_close_def TcpServer_delete_def http_serving_def)
qed

lemma HttpServer_listen_ok:
  assumes inv: "http_serving w" and open_server: "not_closed w"
  shows "\<exists>w'. HttpServer_listen env this p w = Some w' \<and> http_serving w' \<and> tcp_server_at (sapp w') \<noteq> None"
proof -
  obtain v where v: "HttpServer_close w = Some v" "http_serving v" using HttpServer_close_ok [OF assms] by blast
  let ?q = "next_addr (snet v)"
  obtain q n1 where q: "new_addr (snet v) = (q, n1)" by fastforce
  obtain t n2 where t: "TcpServer_new n1 = (t, n2)" by fastforce
  have w: "serving (http_inv (m_pTcpServer (http_server (sapp v)), tcp_server_at (sapp v))) v"
    using v(2) by (simp add: http_serving_def)
  then have n1: "net_ok n1" using net_ok_new_addr [of "snet v"] q by (simp add: serving_def)
  from t obtain h where h: "tcp_server.m_pTcp t = Some h" "m_mapLinks t = []"
    "n2 = uv_do (Uv_tcp_init h) (snd (new_addr n1))"
    by (auto simp: TcpServer_new_def new_addr_def)
  have n2: "net_ok n2" unfolding h(3) by (intro net_ok_do net_ok_new_addr n1) simp
  let ?n = "uv_do (Uv_listen h 100) (uv_do (Uv_tcp_bind h ''0.0.0.0'' p) n2)"
  have n: "net_ok ?n" by (intro net_ok_do n2) simp_all
  let ?s = "(sapp v)\<lparr>tcp_server_at := Some q, http_server := (http_server (sapp v))\<lparr>m_pTcpServer := Some q\<rparr>\<rparr>"
  let ?t = "t\<lparr>m_pHander := Some this, m_nPort := p, m_bListen := True\<rparr>"
  have "http_inv (Some q, Some q) ?s" using w by (simp add: serving_def http_inv_def http_ok_def)
  then have "serving (http_inv (Some q, Some q)) (v\<lparr>snet := ?n, listener := ?t, sapp := ?s\<rparr>)"
    by (rule serving_app [OF w _ n]) (simp add: h(2) std.each_def)
  moreover have "HttpServer_listen env this p w = Some (v\<lparr>snet := ?n, listener := ?t, sapp := ?s\<rparr>)"
    using v(1) q t h(1)
    by (simp add: HttpServer_listen_def TcpServer_set_handler_def TcpServer_listen_def Let_def uv_ask_def)
  ultimately show ?thesis using h(1) by (simp add: http_serving_def)
qed

lemma socket_kept:
  "TcpServer_on_accept env gl status w = Some w' \<Longrightarrow> tcp_server.m_pTcp (listener w') = tcp_server.m_pTcp (listener w)"
  "at_link a f w = Some w' \<Longrightarrow> tcp_server.m_pTcp (listener w') = tcp_server.m_pTcp (listener w)"
  by (auto simp: TcpServer_on_accept_def at_link_def Let_def split: if_splits bind_splits option.splits prod.splits)

context http_application
begin

lemma http_steady: "steady_client (http_tcp_env env g inet) (http_inv t)"
  by (rule server.steady_client_axioms)

end

lemma http_step_ok:
  assumes app: "http_application env" and inv: "http_serving w" and e: "http_allowed e w"
    and fit: "\<not> http_misuse (http_tcp_env env g inet) e w"
  shows "\<exists>w'. http_step (http_tcp_env env g inet) this gl e w = Some w' \<and> http_serving w'"
proof -
  let ?t = "(m_pTcpServer (http_server (sapp w)), tcp_server_at (sapp w))"
  have w: "serving (http_inv ?t) w" using inv by (simp add: http_serving_def)
  note env = http_application.http_steady [OF app]
  have still: "http_serving w'" if "serving (http_inv ?t) w'"
      and "tcp_server.m_pTcp (listener w') = tcp_server.m_pTcp (listener w)" for w'
    using inv that by (auto simp: http_serving_def serving_def http_inv_def)
  show ?thesis
  proof (cases e)
    case (Http_listen p)
    with fit HttpServer_listen_ok [OF inv, of "http_tcp_env env g inet" this p] show ?thesis
      by (auto simp: http_misuse_def)
  next
    case Http_close
    with fit HttpServer_close_ok [OF inv] show ?thesis by (auto simp: http_misuse_def)
  next
    case (Connection status)
    with e inv have "listener_allowed (Accepted status) w" by (auto simp: http_serving_def)
    from steady_client.listener_step_ok [OF env w this, of g inet gl] obtain w' where
      "TcpServer_on_accept (http_tcp_env env g inet) gl status w = Some w'" "serving (http_inv ?t) w'"
      by (auto simp: listener_misuse_def)
    with Connection still socket_kept(1) show ?thesis by fastforce
  next
    case (Link_event a x)
    with e have "listener_allowed (On_link a x) w" by simp
    from steady_client.listener_step_ok [OF env w this, of g inet gl] obtain w' where
      "at_link a (tcp_step (http_tcp_env env g inet) x) w = Some w'" "serving (http_inv ?t) w'"
      using fit Link_event by (auto simp: listener_misuse_def http_misuse_def split: if_splits)
    with Link_event still socket_kept(2) show ?thesis by fastforce
  qed
qed

lemma http_misuse_stuck:
  assumes app: "http_application env" and inv: "http_serving w" and e: "http_allowed e w"
    and bad: "http_misuse (http_tcp_env env g inet) e w"
  shows "http_step (http_tcp_env env g inet) this gl e w = None"
proof (cases e)
  case (Link_event a x)
  let ?t = "(m_pTcpServer (http_server (sapp w)), tcp_server_at (sapp w))"
  have w: "serving (http_inv ?t) w" using inv by (simp add: http_serving_def)
  have "listener_allowed (On_link a x) w" using e Link_event by simp
  from steady_client.listener_step_ok [OF http_application.http_steady [OF app] w this, of g inet gl] bad Link_event
  show ?thesis by (auto simp: listener_misuse_def http_misuse_def)
qed (use bad in \<open>auto simp: http_misuse_def not_closed_def HttpServer_close_def HttpServer_listen_def
    split: option.split\<close>)

lemma http_reachable_ok:
  assumes app: "http_application env" and "http_reachable (http_tcp_env env g inet) this gl w0 w" and "http_serving w0"
  shows "http_serving w"
  using assms(2,3)
proof (induction rule: http_reachable.induct)
  case (step w e w')
  then show ?case using http_step_ok [OF app, of w e g inet this gl] http_misuse_stuck [OF app, of w e g inet this gl]
    by (cases "http_misuse (http_tcp_env env g inet) e w") auto
qed

section \<open>An application\<close>

text \<open>The handler of the test program \<open>src/test/httpserver/main.cpp\<close>.\<close>

definition ServerHandler :: "unit http_server_handler" where
  "ServerHandler =
    \<lparr>on_get = (\<lambda>url hs u. (''{\"status\":1}'', u)), on_post = (\<lambda>url hs body u. (''{\"status\":1}'', u))\<rparr>"

definition ServerHandler_env :: "u32 \<Rightarrow> unit http_env" where
  "ServerHandler_env mhs =
    \<lparr>net_answers = \<lambda>_ _. 0, http_handler_at = \<lambda>_. ServerHandler, max_header = mhs, no_return = \<lambda>_. 0\<rparr>"

lemma ServerHandler_env_simps [simp]:
  "net_answers (ServerHandler_env mhs) cs v = 0" "http_handler_at (ServerHandler_env mhs) h = ServerHandler"
  "max_header (ServerHandler_env mhs) = mhs" "no_return (ServerHandler_env mhs) e = 0"
  "on_get ServerHandler url hs u = (''{\"status\":1}'', u)"
  "on_post ServerHandler url hs body u = (''{\"status\":1}'', u)"
  by (simp_all add: ServerHandler_env_def ServerHandler_def)

interpretation demo: http_application "ServerHandler_env mhs" g inet for mhs g inet
  by unfold_locales simp_all

section \<open>Properties\<close>

text \<open>
  C2.  An HTTP server from its construction on, with an application whose answers stay below 2 GiB:
  whatever bytes its connections deliver, in any interleaving of connections, reads, completed writes,
  timers, calls on links, \<open>listen\<close> and \<open>close\<close>, its tables of connections stay true.  A null or stale
  pointer is used in exactly two cases: by a \<open>close\<close> or \<open>listen\<close> after a \<open>close\<close>, where the server
  still holds the pointer to the \<open>TcpServer\<close> it has deleted, and when a connection made by a link
  succeeds although the link's handle is null.
\<close>

theorem http_server_safe:
  assumes app: "http_application env" and n: "net_ok n" and t0: "m_mapLinks t0 = []"
    and run: "http_reachable (http_tcp_env env g inet) this gl (http_start g0 t0 h n u) w"
  shows "http_serving w \<and>
    (\<forall>e. http_allowed e w \<longrightarrow>
      (http_step (http_tcp_env env g inet) this gl e w = None \<longleftrightarrow>
        (((\<exists>p. e = Http_listen p) \<or> e = Http_close) \<and> m_pTcpServer (http_server (sapp w)) \<noteq> None \<and>
          tcp_server_at (sapp w) \<noteq> m_pTcpServer (http_server (sapp w))) \<or>
        (\<exists>a x l. e = Link_event a x \<and> links w a = Some l \<and>
          null_read_start (http_tcp_env env g inet) x (view w l))))"
proof -
  have w: "http_serving w" by (rule http_reachable_ok [OF app run http_start_serving [OF n t0]])
  have "http_step (http_tcp_env env g inet) this gl e w = None \<longleftrightarrow> http_misuse (http_tcp_env env g inet) e w"
    if "http_allowed e w" for e
    using http_step_ok [OF app w that, of g inet this gl] http_misuse_stuck [OF app w that, of g inet this gl]
    by (cases "http_misuse (http_tcp_env env g inet) e w") auto
  with w show ?thesis unfolding http_misuse_def not_closed_def by auto
qed

definition blank_server :: http_server where
  "blank_server = \<lparr>m_pTcpServer = None, m_pHttpHandler = None, m_mapLink = []\<rparr>"

lemma http_server_safe_witness:
  "\<exists>w w'. HttpServer_listen (http_tcp_env (ServerHandler_env 80) (sn_http_parser_init HTTP_REQUEST) (\<lambda>_. 0)) 0 8000
      (http_start blank_server (fst (TcpServer_new net_start)) (Some 0) net_start ()) = Some w \<and>
    http_serving w \<and> TcpServer_on_accept (http_tcp_env (ServerHandler_env 80) (sn_http_parser_init HTTP_REQUEST) (\<lambda>_. 0)) blank_link 0 w \<noteq> None \<and>
    HttpServer_close w = Some w' \<and> http_serving w' \<and> HttpServer_close w' = None"
proof -
  let ?e = "http_tcp_env (ServerHandler_env 80) (sn_http_parser_init HTTP_REQUEST) (\<lambda>_. 0)"
  let ?w = "http_start blank_server (fst (TcpServer_new net_start)) (Some 0) net_start ()"
  have t0: "m_mapLinks (fst (TcpServer_new net_start)) = []" by (simp add: TcpServer_new_def new_addr_def)
  note safe = http_server_safe [OF demo.http_application_axioms net_okI [OF net_inv_start] t0]
  have start: "http_serving ?w" "not_closed ?w"
    using safe [OF http_reachable.born] by (simp_all add: not_closed_def http_start_def HttpServer_set_handler_def HttpServer_new_def)
  from HttpServer_listen_ok [OF this] obtain w where
    w: "HttpServer_listen ?e 0 8000 ?w = Some w" "http_serving w" "tcp_server_at (sapp w) \<noteq> None" by blast
  have run: "http_reachable ?e 0 blank_link ?w w"
    by (rule http_reachable.step [OF http_reachable.born, where e = "Http_listen 8000"]) (use w(1) in simp_all)
  have accepts: "http_step ?e 0 blank_link (Connection 0) w \<noteq> None"
    using safe [OF run, THEN conjunct2, rule_format, of "Connection 0"] w(3) by simp
  have "m_pTcpServer (http_server (sapp w)) = tcp_server_at (sapp w)" using w(2,3) by (simp add: http_serving_def)
  with HttpServer_close_ok [OF w(2)] w(3) obtain w' where
    w': "HttpServer_close w = Some w'" "http_serving w'" "tcp_server_at (sapp w') = None"
      "m_pTcpServer (http_server (sapp w')) \<noteq> None" by (auto simp: not_closed_def)
  have "http_reachable ?e 0 blank_link ?w w'"
    by (rule http_reachable.step [OF run, where e = Http_close]) (use w'(1) in simp_all)
  note closed = safe [OF this, THEN conjunct2, rule_format, of Http_close]
  have "http_step ?e 0 blank_link Http_close w' = None" using closed w'(3,4) by auto
  with w w'(1,2) accepts show ?thesis by auto
qed

text \<open>
  C39.  \<open>close\<close> deletes the TCP server but keeps the pointer to it: a second \<open>close\<close>, a new \<open>listen\<close>
  and even the destructor then use the deleted object.
\<close>

theorem http_close_twice:
  assumes inv: "http_serving w" and s: "tcp_server_at (sapp w) \<noteq> None"
  shows "\<exists>w'. HttpServer_close w = Some w' \<and> HttpServer_close w' = None \<and>
    HttpServer_listen env this p w' = None \<and> HttpServer_delete w' = None"
proof -
  obtain q where q: "m_pTcpServer (http_server (sapp w)) = Some q" "tcp_server_at (sapp w) = Some q"
    using inv s by (auto simp: http_serving_def)
  then have "not_closed w" by (simp add: not_closed_def)
  from HttpServer_close_ok [OF inv this] obtain w' where w': "HttpServer_close w = Some w'"
    "tcp_server_at (sapp w') = None" "m_pTcpServer (http_server (sapp w')) = Some q" using q by auto
  then have "HttpServer_close w' = None" by (simp add: HttpServer_close_def)
  with w'(1) show ?thesis by (simp add: HttpServer_listen_def HttpServer_delete_def)
qed

lemma http_close_twice_witness:
  "\<exists>w w'. HttpServer_listen (http_tcp_env (ServerHandler_env 80) (sn_http_parser_init HTTP_REQUEST) (\<lambda>_. 0)) 0 8000
      (http_start blank_server (fst (TcpServer_new net_start)) (Some 0) net_start ()) = Some w \<and>
    HttpServer_close w = Some w' \<and> HttpServer_delete w' = None"
proof -
  let ?e = "http_tcp_env (ServerHandler_env 80) (sn_http_parser_init HTTP_REQUEST) (\<lambda>_. 0)"
  let ?w = "http_start blank_server (fst (TcpServer_new net_start)) (Some 0) net_start ()"
  have "m_mapLinks (fst (TcpServer_new net_start)) = []" by (simp add: TcpServer_new_def new_addr_def)
  from http_start_serving [OF net_okI [OF net_inv_start] this] have "http_serving ?w" .
  moreover have "not_closed ?w"
    by (simp add: not_closed_def http_start_def HttpServer_set_handler_def HttpServer_new_def)
  ultimately obtain w where w: "HttpServer_listen ?e 0 8000 ?w = Some w" "http_serving w" "tcp_server_at (sapp w) \<noteq> None"
    using HttpServer_listen_ok [of ?w ?e 0 8000] by blast
  from http_close_twice [OF w(2,3), of ?e 0 8000] w(1) show ?thesis by blast
qed

end
