(* ===== verification/HttpAnswer.thy ===== *)
theory HttpAnswer
  imports HttpService HttpMessage
begin

text \<open>
  What one connection of the HTTP server (\<open>src/src/httpserver.cpp\<close>) does with a request that
  arrives in one read: the parser's callbacks as a listening client, the request they collect, and
  the answer.
\<close>

section \<open>The callbacks as a listening client\<close>

definition peer_say :: "'h http_env \<Rightarrow> nat \<Rightarrow> event \<Rightarrow> http_method \<Rightarrow> 'h http_ctx option \<Rightarrow> 'h http_ctx option" where
  "peer_say env p e m co =
    (case e of
       Received M_url bs \<Rightarrow> Option.bind co (HttpPeerLink_on_url p m bs)
     | Received M_header_field bs \<Rightarrow> Option.bind co (HttpPeerLink_on_header_field p bs)
     | Received M_header_value bs \<Rightarrow> Option.bind co (HttpPeerLink_on_header_value p bs)
     | Received M_body bs \<Rightarrow> Option.bind co (HttpPeerLink_on_body p bs)
     | Headers_complete \<Rightarrow> if Option.bind co (HttpPeerLink_on_header_complete p) = None then None else co
     | Notified N_message_complete \<Rightarrow> Option.bind co (HttpPeerLink_on_complete env p)
     | _ \<Rightarrow> co)"

definition peer_skip :: "nat \<Rightarrow> 'h http_ctx option \<Rightarrow> bool" where
  "peer_skip p co \<longleftrightarrow> Option.bind co (HttpPeerLink_on_header_complete p) = Some 1"

lemma peer_tells:
  assumes "\<forall>e. no_return env e = 0"
  shows "tells (HttpPeerLink_settings env p) (peer_say env p) (peer_skip p)"
proof -
  have data: "data_cb (HttpPeerLink_settings env p) m =
      Some (\<lambda>pr bs co. (0, pr, peer_say env p (Received m bs) (method pr) co))" if "m \<noteq> M_status" for m
    using that assms by (cases m) (auto simp: settings_simps data_callback_def peer_say_def fun_eq_iff)
  have "on_headers_complete (HttpPeerLink_settings env p) =
      Some (\<lambda>pr co. (if peer_skip p co then 1 else 0, pr, peer_say env p Headers_complete (method pr) co))"
    by (auto simp: settings_simps peer_say_def peer_skip_def fun_eq_iff HttpPeerLink_on_header_complete_def
        split: option.splits bind_splits)
  moreover have "peer_say env p (Notified N_message_begin) = (\<lambda>m a. a)" by (simp add: peer_say_def fun_eq_iff)
  moreover have "on_message_complete (HttpPeerLink_settings env p) =
      Some (\<lambda>pr co. (0, pr, peer_say env p (Notified N_message_complete) (method pr) co))"
    using assms by (simp add: settings_simps peer_say_def)
  ultimately show ?thesis using data by (simp add: tells_def settings_simps(1))
qed

section \<open>The request that is collected\<close>

definition at_peer :: "'h http_ctx \<Rightarrow> nat \<Rightarrow> http_peer_link \<Rightarrow> 'h http_ctx" where
  "at_peer c p l = c\<lparr>tcp.app := (tcp.app c)\<lparr>http_peers := (http_peers (tcp.app c))(p \<mapsto> l)\<rparr>\<rparr>"

lemma at_peer_simps [simp]:
  "http_peers (tcp.app (at_peer c p l)) p = Some l" "link (at_peer c p l) = link c" "net (at_peer c p l) = net c"
  "user (tcp.app (at_peer c p l)) = user (tcp.app c)" "at_peer (at_peer c p l) p l' = at_peer c p l'"
  "on_peer p f (at_peer c p l) = Some (at_peer c p (f l))"
  by (simp_all add: at_peer_def on_peer_def)

lemma at_peer_same: "http_peers (tcp.app c) p = Some l \<Longrightarrow> at_peer c p l = c"
  by (simp add: at_peer_def fun_upd_idem)

text \<open>The peer link after the URL, a header, a body.\<close>

definition url_heard :: "http_method \<Rightarrow> string \<Rightarrow> http_peer_link \<Rightarrow> http_peer_link" where
  "url_heard m url l = l\<lparr>m_pRequest := (m_pRequest l)\<lparr>m_strUrl := url,
     m_strMethod := (case m of HTTP_GET \<Rightarrow> ''GET'' | HTTP_POST \<Rightarrow> ''POST'' | _ \<Rightarrow> m_strMethod (m_pRequest l))\<rparr>\<rparr>"

definition header_heard :: "string \<times> string \<Rightarrow> http_peer_link \<Rightarrow> http_peer_link" where
  "header_heard h l = l\<lparr>m_strField := fst h, m_strValue := snd h,
     m_pRequest := HttpRequest_add_header (fst h) (snd h) (m_pRequest l)\<rparr>"

definition rq_all_headers :: "request \<Rightarrow> (string \<times> string) list" where
  "rq_all_headers r = rq_headers r @ (case rq_body r of None \<Rightarrow> [] | Some (h, bs) \<Rightarrow> [h])"

text \<open>The headers of a request as the map the handler is given: the last of several values of a name stays.\<close>

definition header_map :: "(string \<times> string) list \<Rightarrow> (string, string) std_map" where
  "header_map hs = fold (\<lambda>h. std_insert (fst h) (snd h)) hs []"

lemma url_said: "peer_say env p (Received M_url url) m (Some (at_peer c p l)) = Some (at_peer c p (url_heard m url l))"
  by (cases m) (simp_all add: peer_say_def HttpPeerLink_on_url_def on_request_def url_heard_def request_ops Let_def)

lemma headers_said:
  "told (peer_say env p) m (headers_events hs) (Some (at_peer c p l)) = Some (at_peer c p (fold header_heard hs l))"
proof (induction hs arbitrary: l)
  case (Cons h hs)
  have "told (peer_say env p) m (header_events h) (Some (at_peer c p l)) = Some (at_peer c p (header_heard h l))"
    by (simp add: header_events_def peer_say_def HttpPeerLink_on_header_field_def HttpPeerLink_on_header_value_def
        header_heard_def)
  with Cons show ?case by (simp add: headers_events_def)
qed (simp add: headers_events_def)

lemma fold_header_heard:
  "m_pHttpHandler (fold header_heard hs l) = m_pHttpHandler l"
  "m_pLink (fold header_heard hs l) = m_pLink l"
  "m_pRequest (fold header_heard hs l) =
    (m_pRequest l)\<lparr>m_mapHeaders := fold (\<lambda>h. std_insert (fst h) (snd h)) hs (m_mapHeaders (m_pRequest l))\<rparr>"
  by (induction hs arbitrary: l) (simp_all add: header_heard_def HttpRequest_add_header_def)

definition request_heard :: "request \<Rightarrow> http_peer_link \<Rightarrow> http_peer_link" where
  "request_heard r l = fold header_heard (rq_all_headers r) (url_heard (rq_method r) (rq_url r) l)"

lemma head_said:
  "before_headers_complete (peer_say env p) r (Some (at_peer c p l)) = Some (at_peer c p (request_heard r l))"
proof -
  have ev: "headers_events (rq_headers r) @ length_events r = headers_events (rq_all_headers r)"
    by (simp add: headers_events_def length_events_def rq_all_headers_def split: option.split)
  have "line_told (peer_say env p) r (Some (at_peer c p l)) = Some (at_peer c p (url_heard (rq_method r) (rq_url r) l))"
    using url_said [of env p "rq_url r" "rq_method r" c l] by (simp add: line_told_def peer_say_def)
  then show ?thesis by (simp add: before_headers_complete_def ev headers_said request_heard_def del: told_append)
qed

lemma request_heard_fields:
  assumes "m_pRequest l = HttpRequest_new"
  shows "m_pHttpHandler (request_heard r l) = m_pHttpHandler l" "m_pLink (request_heard r l) = m_pLink l"
    "m_pRequest (request_heard r l) = \<lparr>m_strMethod =
      (case rq_method r of HTTP_GET \<Rightarrow> ''GET'' | HTTP_POST \<Rightarrow> ''POST'' | _ \<Rightarrow> ''''),
      m_strUrl = rq_url r, m_mapHeaders = header_map (rq_all_headers r), m_strBody = ''''\<rparr>"
  using assms
  by (simp_all add: request_heard_def fold_header_heard url_heard_def header_map_def HttpRequest_new_def
      split: http_method.split)

section \<open>The answer\<close>

definition response_text :: "string \<Rightarrow> byte list" where
  "response_text res = HttpResponse_format (HttpResponse_set_body res HttpResponse_new)"

lemma response_text_length [simp]: "length (response_text res) = length res + 98"
  unfolding response_text_def by (rule response_length)

text \<open>
  \<open>closed_after c bs c'\<close>: the bytes went out in one write, or not at all when they are more than the
  512 KiB that \<open>send\<close> takes, and then the link was closed.
\<close>

definition closed_after :: "'h http_ctx \<Rightarrow> byte list \<Rightarrow> 'h http_ctx \<Rightarrow> bool" where
  "closed_after c bs c' \<longleftrightarrow>
    (\<exists>h req t. tcp_link.m_pTcp (link c) = Some h \<and>
      calls (net c') = calls (net c) @
        (if length bs \<le> 524288 then [Uv_write h req bs] else []) @ [Uv_close h, Uv_timer_stop t]) \<and>
    tcp_link.m_pTcp (link c') = None \<and> \<not> m_bConnected (link c')"

lemma shut_calls:
  assumes "link_ok c" and "tcp_link.m_pTcp (link c) = Some h"
  shows "\<exists>t. calls (net (shut c)) = calls (net c) @ [Uv_close h, Uv_timer_stop t]"
proof -
  obtain t where "m_pTimer (link c) = Some t" using assms(1) by (auto simp: link_ok_def)
  with assms(2) show ?thesis by (simp add: shut_def Let_def stop_timer_def on_link_def on_net_def uv_do_def)
qed

lemma answer_sent:
  assumes ok: "link_ok c" and up: "tcp_link.m_pTcp (link c) = Some h" "m_bConnected (link c)"
    and yes: "\<forall>cs u. net_answers env cs u = 0" and len: "length (response_text res) < 2 ^ 31"
    and l: "m_pLink l = m_nId (link c)"
  shows "\<exists>c'. answer_with env l (res, u) c = Some c' \<and> link_ok c' \<and> closed_after c (response_text res) c' \<and>
    tcp.app c' = (tcp.app c)\<lparr>user := u\<rparr> \<and> m_nId (link c') = m_nId (link c)"
proof -
  let ?c = "c\<lparr>tcp.app := (tcp.app c)\<lparr>user := u\<rparr>\<rparr>" and ?bs = "response_text res"
  have ok': "link_ok ?c" using ok by (simp add: link_ok_def)
  have free: "\<not> m_bConnecting (link c)" using ok up(2) by (auto simp: link_ok_def)
  have zero: "\<forall>v. answers (link_env env) (calls (net ?c)) v = 0" using yes by (simp add: default_env_def)
  obtain r d where d: "send (link_env env) ?bs ?c = Some (r, d)" "link_ok d" "buffered ?c d"
      "r = 0 \<and> length ?bs \<le> 524288 \<longrightarrow>
      (\<exists>h req. tcp_link.m_pTcp (link ?c) = Some h \<and> calls (net d) = calls (net ?c) @ [Uv_write h req ?bs] \<and>
        pending (net d) req \<noteq> None)"
      "tcp_link.m_pTcp (link ?c) \<noteq> None \<and> m_bConnected (link ?c) \<and> \<not> m_bConnecting (link ?c) \<and>
        (\<forall>v. answers (link_env env) (calls (net ?c)) v = 0) \<longrightarrow> r = 0"
    using link_ok_send [OF ok' len, of "link_env env"] by blast
  have "\<exists>req. calls (net d) = calls (net c) @ (if length ?bs \<le> 524288 then [Uv_write h req ?bs] else [])"
  proof (cases "length ?bs \<le> 524288")
    case True
    then show ?thesis using d(4,5) zero up free by auto
  next
    case False
    with send_oversize [OF ok' len _ _ _ _ d(1), of h] up free show ?thesis by simp
  qed
  then obtain req where sent:
    "calls (net d) = calls (net c) @ (if length ?bs \<le> 524288 then [Uv_write h req ?bs] else [])" by blast
  have h: "tcp_link.m_pTcp (link d) = Some h" using d(3) up by (simp add: buffered_def)
  obtain t where "calls (net (shut d)) = calls (net d) @ [Uv_close h, Uv_timer_stop t]"
    using shut_calls [OF d(2) h] by blast
  with sent up(1) have "closed_after c ?bs (shut d)" by (auto simp: closed_after_def)
  moreover have "answer_with env l (res, u) c = Some (shut d)"
    using d(1) l by (simp add: answer_with_def Let_def response_text_def close_def)
  ultimately show ?thesis using d(2,3) by (auto simp: link_ok_shut buffered_def)
qed

text \<open>What the application says to a request: any method but POST is a GET.\<close>

definition answer_to :: "'h http_server_handler \<Rightarrow> request \<Rightarrow> 'h \<Rightarrow> string \<times> 'h" where
  "answer_to a r u =
    (if rq_method r = HTTP_POST then on_post a (rq_url r) (header_map (rq_all_headers r)) (rq_payload r) u
     else on_get a (rq_url r) (header_map (rq_all_headers r)) u)"

lemma methods_compared:
  "method_is m \<lparr>m_strMethod = '''', m_strUrl = x, m_mapHeaders = y, m_strBody = z\<rparr>"
  "method_is ''GET'' \<lparr>m_strMethod = ''GET'', m_strUrl = x, m_mapHeaders = y, m_strBody = z\<rparr>"
  "\<not> method_is ''GET'' \<lparr>m_strMethod = ''POST'', m_strUrl = x, m_mapHeaders = y, m_strBody = z\<rparr>"
  "method_is ''POST'' \<lparr>m_strMethod = ''POST'', m_strUrl = x, m_mapHeaders = y, m_strBody = z\<rparr>"
  by (simp_all add: method_is_def request_ops)

definition body_heard :: "byte list \<Rightarrow> http_peer_link \<Rightarrow> http_peer_link" where
  "body_heard bs l = (if bs = [] then l else l\<lparr>m_pRequest := HttpRequest_set_body bs (m_pRequest l)\<rparr>)"

lemma request_said:
  assumes l: "m_pRequest l = HttpRequest_new" "m_pHttpHandler l = Some h"
  shows "request_told (peer_say env p) r (Some (at_peer c p l)) =
    (let l' = body_heard (rq_payload r) (request_heard r l)
     in answer_with env l' (answer_to (http_handler_at env h) r (user (tcp.app c))) (at_peer c p l'))"
proof -
  note f = request_heard_fields [OF l(1), of r]
  let ?l = "request_heard r l"
  have "HttpPeerLink_on_header_complete p (at_peer c p ?l) \<noteq> None"
    by (simp add: HttpPeerLink_on_header_complete_def)
  then have "request_told (peer_say env p) r (Some (at_peer c p l)) =
      HttpPeerLink_on_complete env p (at_peer c p (body_heard (rq_payload r) ?l))"
    by (auto simp: request_told_def head_said peer_say_def body_heard_def HttpPeerLink_on_body_def on_request_def)
  also have "\<dots> = (let l' = body_heard (rq_payload r) ?l
     in answer_with env l' (answer_to (http_handler_at env h) r (user (tcp.app c))) (at_peer c p l'))"
    using f l(2) methods_compared
    by (auto simp: HttpPeerLink_on_complete_def Let_def body_heard_def answer_to_def request_ops
        split: http_method.split)
  finally show ?thesis .
qed

text \<open>The parser hears out a request that is the whole of one read.\<close>

lemma peer_hears:
  assumes no: "\<forall>e. no_return env e = 0" and fits: "fits (max_header env) r"
    and len: "length (print_request r) < 2 ^ 31" and body: "rq_method r \<noteq> HTTP_POST \<Longrightarrow> rq_payload r = []"
    and l: "http_peers (tcp.app c) p = Some l" "m_pRequest l = HttpRequest_new"
  shows "\<exists>n pr. sn_http_parser_execute (HttpPeerLink_settings env p) (max_header env)
      (sn_http_parser_init HTTP_REQUEST) (Some c) (print_request r) =
    Some (Returned n pr (request_told (peer_say env p) r (Some c)))"
proof -
  let ?pr = "sn_http_parser_init HTTP_REQUEST" and ?d = "print_request r"
  let ?env = "\<lparr>settings = HttpPeerLink_settings env p, max_header_size = max_header env, data = ?d, lenient = False\<rparr>"
  let ?c = "entry_ctx ?pr (Some c)"
  have exec: "sn_http_parser_execute (HttpPeerLink_settings env p) (max_header env) ?pr (Some c) ?d = at_loop ?env ?c"
    using print_request_nonempty [of r] by (subst execute_at_loop) (simp_all add: sn_http_parser_init_def)
  have start: "http_errno (parser ?c) = HPE_OK" "type (parser ?c) = HTTP_REQUEST" "p_state ?c = s_start_req"
    "marks ?c = (\<lambda>_. None)" "n_read ?c = 0"
    by (auto simp: sn_http_parser_init_def initial_marks_def)
  have heard: "before_headers_complete (peer_say env p) r (Some c) = Some (at_peer c p (request_heard r l))"
    using head_said [of env p r c l] at_peer_same [OF l(1)] by simp
  have skips: "peer_skip p (before_headers_complete (peer_say env p) r (ctx.app ?c)) \<Longrightarrow> rq_payload r = []"
    using body request_heard_fields(3) [OF l(2), of r] methods_compared(3)
    by (cases "rq_method r = HTTP_POST") (auto simp: heard peer_skip_def HttpPeerLink_on_header_complete_def)
  have "\<exists>pr. rq_parsed r pr \<and> at_loop ?env ?c =
    at_loop ?env (?c\<lparr>parser := pr, ctx.app := request_told (peer_say env p) r (ctx.app ?c), p_state := next_state r,
      ptr := ptr ?c + length ?d, n_read := 0\<rparr>)"
    by (rule request_run [where skip = "peer_skip p", OF _ start(1-4)])
      (use peer_tells [OF no, of p] fits len skips in \<open>auto simp: fits_def room_def sn_http_parser_init_def\<close>)
  then obtain pr where pr: "rq_parsed r pr" "at_loop ?env ?c =
    at_loop ?env (?c\<lparr>parser := pr, ctx.app := request_told (peer_say env p) r (ctx.app ?c), p_state := next_state r,
      ptr := ptr ?c + length ?d, n_read := 0\<rparr>)" by blast
  then show ?thesis using exec start(4) by (simp add: at_loop_end rq_parsed_def)
qed

section \<open>Requests in several reads\<close>

text \<open>
  Every read starts a new parser: bytes that begin no method are dropped, whatever came before.
\<close>

lemma fragment_dropped:
  assumes no: "\<forall>e. no_return env e = 0" and mhs: "1 \<le> max_header env" and len: "length (x # w) < 2 ^ 31"
    and x: "initial_method x = None" "x \<noteq> CR" "x \<noteq> LF" and l: "http_peers (tcp.app c) p = Some l"
  shows "\<exists>pr. HttpPeerLink_on_data env p (x # w) c = Some (int (length (x # w)), at_peer c p (l\<lparr>m_pHttParser := pr\<rparr>)) \<and>
    http_errno pr = HPE_INVALID_METHOD"
proof -
  let ?pr = "sn_http_parser_init HTTP_REQUEST" and ?d = "x # w"
  let ?env = "\<lparr>settings = HttpPeerLink_settings env p, max_header_size = max_header env, data = ?d, lenient = False\<rparr>"
  let ?c = "entry_ctx ?pr (Some c)"
  have exec: "sn_http_parser_execute (HttpPeerLink_settings env p) (max_header env) ?pr (Some c) ?d = at_loop ?env ?c"
    by (subst execute_at_loop) (simp_all add: sn_http_parser_init_def)
  have "room ?env ?c 1" using mhs by (simp add: room_def sn_http_parser_init_def word_le_nat_alt)
  then obtain n pr where pr: "at_loop ?env ?c = Some (Returned n pr (Some c))" "http_errno pr = HPE_INVALID_METHOD"
    using request_begin [where skip = "peer_skip p" and say = "peer_say env p" and env = ?env and c = ?c and x = x]
      peer_tells [OF no, of p] x by (auto simp: sn_http_parser_init_def)
  moreover have "on_peer p (\<lambda>l. l\<lparr>m_pHttParser := pr\<rparr>) c = Some (at_peer c p (l\<lparr>m_pHttParser := pr\<rparr>))"
    using l by (simp add: on_peer_def at_peer_def)
  ultimately show ?thesis
    using exec l c_int_small [OF len] by (auto simp: HttpPeerLink_on_data_def)
qed

text \<open>The head of a request that has a body, alone in a read.\<close>

lemma head_alone:
  assumes no: "\<forall>e. no_return env e = 0" and fits: "fits (max_header env) r"
    and len: "length (print_request r) < 2 ^ 31" and post: "rq_method r = HTTP_POST" and body: "rq_payload r \<noteq> []"
    and l: "http_peers (tcp.app c) p = Some l" "m_pRequest l = HttpRequest_new"
  shows "\<exists>l'. HttpPeerLink_on_data env p (rq_head r) c = Some (int (length (rq_head r)), at_peer c p l')"
proof -
  let ?pr = "sn_http_parser_init HTTP_REQUEST" and ?d = "rq_head r" and ?l = "request_heard r l"
  let ?env = "\<lparr>settings = HttpPeerLink_settings env p, max_header_size = max_header env, data = ?d, lenient = False\<rparr>"
  let ?c = "entry_ctx ?pr (Some c)" and ?a = "Some (at_peer c p (request_heard r l))"
  have short: "length ?d < 2 ^ 31" "length (rq_payload r) < 2 ^ 64 - 1" using len by (simp_all add: print_request_def)
  have "?d \<noteq> []" by (simp add: rq_head_def)
  then have exec: "sn_http_parser_execute (HttpPeerLink_settings env p) (max_header env) ?pr (Some c) ?d = at_loop ?env ?c"
    by (subst execute_at_loop) (simp_all add: sn_http_parser_init_def)
  have start: "http_errno (parser ?c) = HPE_OK" "type (parser ?c) = HTTP_REQUEST" "p_state ?c = s_start_req"
    "marks ?c = (\<lambda>_. None)" "n_read ?c = 0"
    by (auto simp: sn_http_parser_init_def initial_marks_def)
  have heard: "before_headers_complete (peer_say env p) r (Some c) = ?a"
    using head_said [of env p r c l] at_peer_same [OF l(1)] by simp
  have noskip: "\<not> peer_skip p ?a"
    using post request_heard_fields(3) [OF l(2), of r] methods_compared(3)
    by (auto simp: peer_skip_def HttpPeerLink_on_header_complete_def)
  have said: "peer_say env p Headers_complete (rq_method r) ?a = ?a"
    by (simp add: peer_say_def HttpPeerLink_on_header_complete_def)
  obtain pr where pr: "head_parsed r pr" "at_loop ?env ?c =
      at_loop ?env (?c\<lparr>parser := head_done (peer_skip p ?a) pr, ctx.app := ?a,
        p_state := s_body_identity, ptr := ptr ?c + length ?d, n_read := 0\<rparr>)"
    using request_head_run [where skip = "peer_skip p" and say = "peer_say env p" and env = ?env and r = r and a = ?a, OF _ start(1-4)]
      peer_tells [OF no, of p] fits body noskip said heard short(2)
    by (auto simp: fits_def room_def sn_http_parser_init_def)
  then obtain n q where "at_loop ?env ?c = Some (Returned n q ?a)"
    using start(4) by (simp add: at_loop_end head_done_def head_parsed_def plain_request_def)
  then show ?thesis
    using exec l(1) c_int_small [OF short(1)] by (auto simp: HttpPeerLink_on_data_def)
qed

section \<open>Properties\<close>

text \<open>
  C4.  A request that is the whole of one read on a fresh connection, and has a body only if it is a
  POST, is answered: the application is asked once, with the URL, the headers and, for POST, the body
  (every method but POST counts as GET); the response around its text goes out in one write, or, when
  it is over the 512 KiB that \<open>send\<close> takes, not at all; and the link is closed.  This is under the
  condition that the callbacks, most of which have no return statement, happen to return 0, and that
  libuv accepts every call.
\<close>

theorem request_answered:
  assumes no: "\<forall>e. no_return env e = 0" and yes: "\<forall>cs u. net_answers env cs u = 0"
    and r: "fits (max_header env) r" "length (print_request r) < 2 ^ 31"
    and body: "rq_method r \<noteq> HTTP_POST \<Longrightarrow> rq_payload r = []"
    and c: "link_ok c" "tcp_link.m_pTcp (link c) \<noteq> None" "m_bConnected (link c)"
    and l: "http_peers (tcp.app c) p = Some l" "m_pRequest l = HttpRequest_new" "m_pHttpHandler l = Some h"
      "m_pLink l = m_nId (link c)"
    and a: "answer_to (http_handler_at env h) r (user (tcp.app c)) = (res, u)" "length (response_text res) < 2 ^ 31"
  shows "\<exists>c'. HttpPeerLink_on_data env p (print_request r) c = Some (int (length (print_request r)), c') \<and>
    link_ok c' \<and> closed_after c (response_text res) c' \<and> user (tcp.app c') = u"
proof -
  let ?l = "body_heard (rq_payload r) (request_heard r l)"
  obtain t where t: "tcp_link.m_pTcp (link c) = Some t" using c(2) by blast
  obtain n pr where exec: "sn_http_parser_execute (HttpPeerLink_settings env p) (max_header env)
      (sn_http_parser_init HTTP_REQUEST) (Some c) (print_request r) =
    Some (Returned n pr (request_told (peer_say env p) r (Some c)))"
    using peer_hears [OF no r body l(1,2)] by blast
  have ok: "link_ok (at_peer c p ?l)" using c(1) by (simp add: link_ok_def)
  have mine: "m_pLink ?l = m_nId (link (at_peer c p ?l))"
    using l request_heard_fields(2) [OF l(2), of r] by (simp add: body_heard_def)
  from answer_sent [OF ok _ _ yes a(2) mine, of t u] t c(3) obtain d where
    d: "answer_with env ?l (res, u) (at_peer c p ?l) = Some d" "link_ok d"
      "closed_after (at_peer c p ?l) (response_text res) d"
      "tcp.app d = (tcp.app (at_peer c p ?l))\<lparr>user := u\<rparr>" by auto
  have told: "request_told (peer_say env p) r (Some c) = Some d"
    using request_said [OF l(2,3), of env p r c] a(1) d(1) at_peer_same [OF l(1)] by (simp add: Let_def)
  have "http_peers (tcp.app d) p = Some ?l" using d(4) by simp
  then have "on_peer p (\<lambda>l. l\<lparr>m_pHttParser := pr\<rparr>) d = Some (at_peer d p (?l\<lparr>m_pHttParser := pr\<rparr>))"
    by (simp add: on_peer_def at_peer_def)
  then have "HttpPeerLink_on_data env p (print_request r) c =
      Some (int (length (print_request r)), at_peer d p (?l\<lparr>m_pHttParser := pr\<rparr>))"
    using exec told l(1) c_int_small [OF r(2)] by (simp add: HttpPeerLink_on_data_def)
  moreover have "link_ok (at_peer d p (?l\<lparr>m_pHttParser := pr\<rparr>))" using d(2) by (simp add: link_ok_def)
  ultimately show ?thesis using d(3,4) by (simp add: closed_after_def)
qed

text \<open>
  C16.  A POST request whose body arrives in a read of its own is not answered, if the body's first
  byte begins no method and is neither CR nor LF: after both reads the network and the application
  are as before, and only the connection's own data has changed.  (A body that looks like a request
  is taken for one by the new parser.)  The callbacks are again assumed to return 0.
\<close>

theorem split_post_unanswered:
  assumes no: "\<forall>e. no_return env e = 0" and r: "fits (max_header env) r" "length (print_request r) < 2 ^ 31"
    and post: "rq_method r = HTTP_POST" and body: "rq_payload r = x # w"
    and x: "initial_method x = None" "x \<noteq> CR" "x \<noteq> LF"
    and l: "http_peers (tcp.app c) p = Some l" "m_pRequest l = HttpRequest_new"
  shows "\<exists>v c1 v' c2 l2. HttpPeerLink_on_data env p (rq_head r) c = Some (v, c1) \<and>
    HttpPeerLink_on_data env p (rq_payload r) c1 = Some (v', c2) \<and> c2 = at_peer c p l2"
proof -
  obtain v l1 where first: "HttpPeerLink_on_data env p (rq_head r) c = Some (v, at_peer c p l1)"
    using head_alone [OF no r post _ l] body by auto
  have "rq_head r \<noteq> []" by (simp add: rq_head_def)
  then have "0 < unat (max_header env)" using r(1) by (cases "rq_head r") (simp_all add: fits_def)
  then have "1 \<le> max_header env" by (simp add: word_le_nat_alt)
  moreover have "length (x # w) < 2 ^ 31" using r(2) body by (simp add: print_request_def)
  ultimately obtain pr where "HttpPeerLink_on_data env p (x # w) (at_peer c p l1) =
      Some (int (length (x # w)), at_peer (at_peer c p l1) p (l1\<lparr>m_pHttParser := pr\<rparr>))"
    using fragment_dropped [OF no _ _ x at_peer_simps(1)] by blast
  with first body show ?thesis by auto
qed

section \<open>Witnesses\<close>

text \<open>A connection just accepted, in the test program's environment.\<close>

definition demo_ctx :: "unit http_ctx" where
  "demo_ctx =
    \<lparr>net = snd (TcpLink_peer 7 blank_link net_start), link = fst (TcpLink_peer 7 blank_link net_start),
     app = \<lparr>http_server = HttpServer_set_handler (Some 0) (HttpServer_new \<lparr>m_pTcpServer = None, m_pHttpHandler = None, m_mapLink = []\<rparr>),
       http_peers = [0 \<mapsto> HttpPeerLink_set_handler (Some 0) (HttpPeerLink_new (sn_http_parser_init HTTP_REQUEST) 1)],
       next_peer = 1, tcp_server_at = None, user = ()\<rparr>\<rparr>"

lemma demo_ctx_ok:
  "link_ok demo_ctx" "tcp_link.m_pTcp (link demo_ctx) = Some 7" "m_bConnected (link demo_ctx)" "m_nId (link demo_ctx) = 1"
  "http_peers (tcp.app demo_ctx) 0 = Some (HttpPeerLink_set_handler (Some 0) (HttpPeerLink_new (sn_http_parser_init HTTP_REQUEST) 1))"
  "user (tcp.app demo_ctx) = ()"
  using peer_start [OF net_okI [OF net_inv_start], of 7 blank_link]
  by (simp_all add: demo_ctx_def TcpLink_peer_def LinkidAllocator_next_def new_addr_def net_start_def)

lemma demo_request: "rq_method example_request = HTTP_POST" "rq_payload example_request = ''hi''"
  by (simp_all add: example_request_def rq_payload_def)

lemma request_answered_witness:
  "\<exists>c'. HttpPeerLink_on_data (ServerHandler_env 80) 0 (print_request example_request) demo_ctx = Some (52, c') \<and>
    closed_after demo_ctx (response_text ''{\"status\":1}'') c'"
proof -
  let ?l = "HttpPeerLink_set_handler (Some 0) (HttpPeerLink_new (sn_http_parser_init HTTP_REQUEST) 1)"
  have "m_pRequest ?l = HttpRequest_new" "m_pHttpHandler ?l = Some 0" "m_pLink ?l = m_nId (link demo_ctx)"
    by (simp_all add: HttpPeerLink_set_handler_def HttpPeerLink_new_def demo_ctx_ok)
  then show ?thesis
    using request_answered [of "ServerHandler_env 80" example_request demo_ctx 0 ?l 0 "''{\"status\":1}''" "()"]
      example_size example_wf demo_ctx_ok
    by (auto simp: answer_to_def fits_def demo_request)
qed

lemma split_post_unanswered_witness:
  "\<exists>v c1 v' c2 l2. HttpPeerLink_on_data (ServerHandler_env 80) 0 (rq_head example_request) demo_ctx = Some (v, c1) \<and>
    HttpPeerLink_on_data (ServerHandler_env 80) 0 (rq_payload example_request) c1 = Some (v', c2) \<and> c2 = at_peer demo_ctx 0 l2"
proof -
  let ?l = "HttpPeerLink_set_handler (Some 0) (HttpPeerLink_new (sn_http_parser_init HTTP_REQUEST) 1)"
  have "m_pRequest ?l = HttpRequest_new" by (simp add: HttpPeerLink_set_handler_def HttpPeerLink_new_def)
  moreover obtain x w where "rq_payload example_request = x # w" "initial_method x = None" "x \<noteq> CR" "x \<noteq> LF"
    using demo_request(2) by (auto simp: initial_method_def)
  ultimately show ?thesis
    using split_post_unanswered [of "ServerHandler_env 80" example_request x w demo_ctx 0 ?l]
      example_size example_wf demo_ctx_ok
    by (simp add: fits_def demo_request)
qed

end
