(* ===== verification/Platform.thy ===== *)
theory Platform
  imports Prelude
begin

text \<open>
  The process around the library: \<open>SNStartup\<close> and \<open>SNLoop\<close> (\<open>src/src/linkfactory.cpp\<close>) with the
  event loop they own (\<open>src/src/ioengine.cpp\<close>), the log (\<open>src/src/logger.cpp\<close>), the limits and
  signals of the process (\<open>src/src/env.cpp\<close>) and the clock (\<open>src/src/timeutil.cpp\<close>).

  The calls into the system and into libuv's loop are kept in order in \<open>os_calls\<close>.  \<open>uv_run\<close> is one
  call: the callbacks it makes are the events of the other theories.  \<open>uv_default_loop\<close> gives the
  address \<open>default_loop\<close> every time.  \<open>None\<close> is a null pointer handed to the loop.
\<close>

datatype os_call =
    Uv_default_loop
  | Uv_loop_init nat
  | Uv_run nat
  | Uv_loop_close nat
  | Vsyslog int string "string list"
  | Openlog
  | Signal_ignore string
  | Sigaction_ignore string
  | Setrlimit string u64
  | Print_error string
  | Prctl_dumpable

record io_engine =
  m_pLoop :: "nat option"
  m_bRunning :: bool

record sn_process =
  os_calls :: "os_call list"
  s_engine :: "io_engine option"
  s_engine_inited :: bool
  g_log_level :: int

definition os :: "os_call \<Rightarrow> sn_process \<Rightarrow> sn_process" where
  "os c p = p\<lparr>os_calls := os_calls p @ [c]\<rparr>"

section \<open>The log\<close>

definition Info :: int where "Info = 6"

text \<open>A message is its format and its arguments; \<open>vsyslog\<close> puts them together.\<close>

definition log_message :: "int \<Rightarrow> string \<Rightarrow> string list \<Rightarrow> sn_process \<Rightarrow> sn_process" where
  "log_message level fmt args p = (if level > g_log_level p then p else os (Vsyslog level fmt args) p)"

definition set_syslog_level :: "int \<Rightarrow> sn_process \<Rightarrow> sn_process" where
  "set_syslog_level level p = p\<lparr>g_log_level := level\<rparr>"

definition init_sys_log :: "sn_process \<Rightarrow> sn_process" where
  "init_sys_log = os Openlog"

definition FUNLOG :: "int \<Rightarrow> string \<Rightarrow> string \<Rightarrow> string \<Rightarrow> sn_process \<Rightarrow> sn_process" where
  "FUNLOG level cls fn fmt = log_message level (''[%s::%s]:'' @ fmt) [cls, fn]"

section \<open>The event loop\<close>

definition IOEngine_new :: "bool \<Rightarrow> io_engine" where
  "IOEngine_new garbage = \<lparr>m_pLoop = None, m_bRunning = garbage\<rparr>"

definition IOEngine_delete :: "io_engine \<Rightarrow> sn_process \<Rightarrow> sn_process" where
  "IOEngine_delete e p = (case m_pLoop e of None \<Rightarrow> p | Some l \<Rightarrow> os (Uv_loop_close l) p)"

definition IOEngine_init :: "nat \<Rightarrow> io_engine \<Rightarrow> sn_process \<Rightarrow> bool \<times> io_engine \<times> sn_process" where
  "IOEngine_init default_loop e p =
    (let p = FUNLOG Info ''IOEngine'' ''init'' ''ioengine init!!!'' p;
         p = os Uv_default_loop p;
         p = os (Uv_loop_init default_loop) p
     in (True, e\<lparr>m_pLoop := Some default_loop\<rparr>, p))"

definition IOEngine_run :: "io_engine \<Rightarrow> sn_process \<Rightarrow> (io_engine \<times> sn_process) option" where
  "IOEngine_run e p =
    (let p = FUNLOG Info ''IOEngine'' ''run'' ''ioengine run!!!'' p
     in map_option (\<lambda>l. (e\<lparr>m_bRunning := True\<rparr>, os (Uv_run l) p)) (m_pLoop e))"

definition SNStartup :: "bool \<Rightarrow> nat \<Rightarrow> sn_process \<Rightarrow> sn_process" where
  "SNStartup garbage default_loop p =
    (let e = (case s_engine p of None \<Rightarrow> IOEngine_new garbage | Some e \<Rightarrow> e)
     in if s_engine_inited p then p\<lparr>s_engine := Some e\<rparr>
        else case IOEngine_init default_loop e p of
          (r, e, p) \<Rightarrow> p\<lparr>s_engine := Some e, s_engine_inited := True\<rparr>)"

definition SNLoop :: "sn_process \<Rightarrow> sn_process option" where
  "SNLoop p =
    (case s_engine p of
       None \<Rightarrow> Some p
     | Some e \<Rightarrow>
         if \<not> s_engine_inited p then Some p
         else map_option (\<lambda>(e, p). p\<lparr>s_engine := Some e\<rparr>) (IOEngine_run e p))"

section \<open>Limits and signals\<close>

text \<open>\<open>refused r\<close>: \<open>setrlimit\<close> of the resource \<open>r\<close> answers less than 0.\<close>

definition init_linux_env :: "(string \<Rightarrow> bool) \<Rightarrow> sn_process \<Rightarrow> bool \<times> sn_process" where
  "init_linux_env refused p =
    (let p = os (Signal_ignore ''SIGHUP'') p;
         p = os (Signal_ignore ''SIGPIPE'') p;
         p = os (Sigaction_ignore ''SIGPIPE'') p;
         p = os (Setrlimit ''RLIMIT_NOFILE'' 65535) p
     in if refused ''RLIMIT_NOFILE'' then (False, os (Print_error ''setrlimit error'') p)
        else let p = os (Setrlimit ''RLIMIT_CORE'' (2097152000 - 1)) p
             in if refused ''RLIMIT_CORE'' then (False, os (Print_error ''setrlimit2 error'') p)
                else (True, os Prctl_dumpable p))"

definition Env_init :: "(string \<Rightarrow> bool) \<Rightarrow> sn_process \<Rightarrow> bool \<times> sn_process" where
  "Env_init refused p = (True, init_sys_log (snd (init_linux_env refused p)))"

section \<open>The clock\<close>

text \<open>\<open>time\<close> and \<open>gettimeofday\<close> are the arguments.\<close>

definition sys_time_sec :: "int \<Rightarrow> u32" where
  "sys_time_sec time = of_int time"

definition sys_time_msec :: "int \<Rightarrow> int \<Rightarrow> u64" where
  "sys_time_msec tv_sec tv_usec = of_int (tv_sec * 1000) + of_int (tv_usec div 1000)"

lemma msec_of_sec:
  assumes "0 \<le> s" and "s < 2 ^ 53" and "0 \<le> us" and "us < 1000000"
  shows "uint (sys_time_msec s us) div 1000 = s" and "uint (sys_time_msec s us) mod 1000 = us div 1000"
proof -
  have ms: "0 \<le> us div 1000" "us div 1000 < 1000" using assms by simp_all
  then have "0 \<le> s * 1000 + us div 1000" "s * 1000 + us div 1000 < 2 ^ 64" using assms(1,2) by simp_all
  moreover have "sys_time_msec s us = word_of_int (s * 1000 + us div 1000)" by (simp add: sys_time_msec_def)
  ultimately have "uint (sys_time_msec s us) = s * 1000 + us div 1000"
    by (simp add: uint_word_of_int take_bit_eq_mod del: of_int_add)
  with ms show "uint (sys_time_msec s us) div 1000 = s" "uint (sys_time_msec s us) mod 1000 = us div 1000" by simp_all
qed

section \<open>A process\<close>

datatype sn_call = Startup | Loop | Log int string "string list" | Level int

fun sn_step :: "bool \<Rightarrow> nat \<Rightarrow> sn_call \<Rightarrow> sn_process \<Rightarrow> sn_process option" where
  "sn_step g l Startup p = Some (SNStartup g l p)"
| "sn_step g l Loop p = SNLoop p"
| "sn_step g l (Log level fmt args) p = Some (log_message level fmt args p)"
| "sn_step g l (Level level) p = Some (set_syslog_level level p)"

fun sn_run :: "bool \<Rightarrow> nat \<Rightarrow> sn_call list \<Rightarrow> sn_process \<Rightarrow> sn_process option" where
  "sn_run g l [] p = Some p"
| "sn_run g l (c # cs) p = Option.bind (sn_step g l c p) (sn_run g l cs)"

definition sn_begin :: sn_process where
  "sn_begin = \<lparr>os_calls = [], s_engine = None, s_engine_inited = False, g_log_level = Info\<rparr>"

text \<open>What such a run asks of the loop, and what it logs of the application's own messages.\<close>

primrec loop_calls :: "nat \<Rightarrow> bool \<Rightarrow> sn_call list \<Rightarrow> os_call list" where
  "loop_calls l up [] = []"
| "loop_calls l up (c # cs) =
    (case c of
       Startup \<Rightarrow> (if up then [] else [Uv_default_loop, Uv_loop_init l]) @ loop_calls l True cs
     | Loop \<Rightarrow> (if up then [Uv_run l] else []) @ loop_calls l up cs
     | _ \<Rightarrow> loop_calls l up cs)"

primrec is_loop :: "os_call \<Rightarrow> bool" where
  "is_loop Uv_default_loop \<longleftrightarrow> True" | "is_loop (Uv_loop_init l) \<longleftrightarrow> True" | "is_loop (Uv_run l) \<longleftrightarrow> True"
| "is_loop (Uv_loop_close l) \<longleftrightarrow> True" | "is_loop (Vsyslog v f a) \<longleftrightarrow> False" | "is_loop Openlog \<longleftrightarrow> False"
| "is_loop (Signal_ignore s) \<longleftrightarrow> False" | "is_loop (Sigaction_ignore s) \<longleftrightarrow> False"
| "is_loop (Setrlimit r v) \<longleftrightarrow> False" | "is_loop (Print_error s) \<longleftrightarrow> False" | "is_loop Prctl_dumpable \<longleftrightarrow> False"

definition engine_ok :: "nat \<Rightarrow> sn_process \<Rightarrow> bool" where
  "engine_ok l p \<longleftrightarrow>
    (if s_engine_inited p then \<exists>e. s_engine p = Some e \<and> Platform.m_pLoop e = Some l else s_engine p = None)"

lemma log_fields [simp]:
  "s_engine (FUNLOG v k f t p) = s_engine p" "s_engine_inited (FUNLOG v k f t p) = s_engine_inited p"
  "filter is_loop (os_calls (FUNLOG v k f t p)) = filter is_loop (os_calls p)"
  "s_engine (log_message v t a p) = s_engine p" "s_engine_inited (log_message v t a p) = s_engine_inited p"
  "filter is_loop (os_calls (log_message v t a p)) = filter is_loop (os_calls p)"
  "s_engine (os c p) = s_engine p" "s_engine_inited (os c p) = s_engine_inited p"
  "os_calls (os c p) = os_calls p @ [c]"
  by (simp_all add: FUNLOG_def log_message_def os_def)

lemma sn_step_ok:
  assumes "engine_ok l p"
  shows "\<exists>p'. sn_step g l c p = Some p' \<and> engine_ok l p' \<and>
    s_engine_inited p' = (s_engine_inited p \<or> c = Startup) \<and>
    filter is_loop (os_calls p') = filter is_loop (os_calls p) @ loop_calls l (s_engine_inited p) [c]"
  using assms
  by (cases c) (auto simp: engine_ok_def SNStartup_def IOEngine_init_def IOEngine_new_def SNLoop_def IOEngine_run_def
      set_syslog_level_def Let_def split: if_splits)

lemma loop_calls_step:
  "loop_calls l up (c # cs) = loop_calls l up [c] @ loop_calls l (up \<or> c = Startup) cs"
  by (cases c) simp_all

lemma sn_run_ok:
  "engine_ok l p \<Longrightarrow> \<exists>p'. sn_run g l cs p = Some p' \<and>
    filter is_loop (os_calls p') = filter is_loop (os_calls p) @ loop_calls l (s_engine_inited p) cs"
proof (induction cs arbitrary: p)
  case (Cons c cs)
  obtain q where q: "sn_step g l c p = Some q" "engine_ok l q" "s_engine_inited q = (s_engine_inited p \<or> c = Startup)"
    "filter is_loop (os_calls q) = filter is_loop (os_calls p) @ loop_calls l (s_engine_inited p) [c]"
    using sn_step_ok [OF Cons.prems] by blast
  with Cons.IH [OF q(2)] show ?case
    using loop_calls_step [of l "s_engine_inited p" c cs] by auto
qed simp

text \<open>
  C40.  In a new process \<open>SNStartup\<close> and \<open>SNLoop\<close> may be called in any order and any number of times,
  with messages logged and the level changed in between: the loop is made and initialised at most
  once, by the first \<open>SNStartup\<close>, and runs exactly for the \<open>SNLoop\<close>s after it; no other \<open>SNLoop\<close>
  touches it.
\<close>

theorem startup_once:
  "\<exists>p. sn_run g l cs sn_begin = Some p \<and>
    filter is_loop (os_calls p) =
      (if Startup \<in> set cs
       then [Uv_default_loop, Uv_loop_init l] @
         replicate (count_list (dropWhile (\<lambda>c. c \<noteq> Startup) cs) Loop) (Uv_run l)
       else [])"
proof -
  have up: "loop_calls l True cs = replicate (count_list cs Loop) (Uv_run l)" for cs
    by (induction cs) (auto split: sn_call.split)
  have "loop_calls l False cs =
      (if Startup \<in> set cs
       then [Uv_default_loop, Uv_loop_init l] @
         replicate (count_list (dropWhile (\<lambda>c. c \<noteq> Startup) cs) Loop) (Uv_run l)
       else [])"
    by (induction cs) (auto simp: up split: sn_call.split)
  moreover have "engine_ok l sn_begin" by (simp add: engine_ok_def sn_begin_def)
  ultimately show ?thesis using sn_run_ok [of l sn_begin g cs] by (simp add: sn_begin_def)
qed

end
