(* ===== verification/NetAddr.thy ===== *)
theory NetAddr
  imports Prelude
begin

text \<open>
  \<open>class netaddr\<close> (\<open>src/src/netaddr.cpp\<close>): names and addresses.  The functions of the C library it
  calls are arguments.  \<open>None\<close> is a read outside of an object.
\<close>

text \<open>
  \<open>*(u_long *)host->h_addr\<close>, converted to \<open>uint32_t\<close>: eight bytes, the least significant first.
  The resolver answers a null pointer (\<open>None\<close>) or the memory that may be read at \<open>h_addr\<close>.
\<close>

definition u_long_at :: "byte list \<Rightarrow> u64 option" where
  "u_long_at mem =
    (if length mem < 8 then None
     else Some (foldr (\<lambda>b x. push_bit 8 x OR of_char b) (take 8 mem) 0))"

definition get_host_ip :: "(string \<Rightarrow> byte list option) \<Rightarrow> string \<Rightarrow> u32 option" where
  "get_host_ip gethostbyname hostname =
    (case gethostbyname hostname of
       None \<Rightarrow> Some 0
     | Some mem \<Rightarrow> map_option ucast (u_long_at mem))"

text \<open>A \<open>std::string\<close> made of a C string of which the given bytes may be read; \<open>c_str\<close> the other way.\<close>

definition of_c_str :: "byte list \<Rightarrow> string option" where
  "of_c_str mem = (if NUL \<in> set mem then Some (takeWhile (\<lambda>b. b \<noteq> NUL) mem) else None)"

definition c_str :: "string \<Rightarrow> string" where
  "c_str s = takeWhile (\<lambda>b. b \<noteq> NUL) s"

text \<open>\<open>gethostname\<close> fails (\<open>None\<close>) or fills the 255 bytes of \<open>temp\<close>.\<close>

definition get_host_name :: "byte list option \<Rightarrow> string option" where
  "get_host_name gethostname = (case gethostname of None \<Rightarrow> Some [] | Some temp \<Rightarrow> of_c_str (take 255 temp))"

definition netaddr_aton :: "(string \<Rightarrow> u32) \<Rightarrow> string \<Rightarrow> u32" where
  "netaddr_aton inet_addr ip = inet_addr (c_str ip)"

definition netaddr_ntoa :: "(u32 \<Rightarrow> string) \<Rightarrow> u32 \<Rightarrow> string" where
  "netaddr_ntoa inet_ntoa ip = inet_ntoa ip"

text \<open>The answer is in network order; the four bytes after the address, which it reads, do not count.\<close>

lemma ucast_of_char: "(ucast (of_char c :: u64) :: u32) = of_char c"
  by (simp add: of_char_def horner_sum_simps)

lemma get_host_ip_address:
  assumes "gethostbyname hostname = Some (a # b # c # d # rest)" and "4 \<le> length rest"
  shows "get_host_ip gethostbyname hostname =
    Some (of_char a OR push_bit 8 (of_char b) OR push_bit 16 (of_char c) OR push_bit 24 (of_char d))"
proof -
  have low: "ucast (x OR push_bit 32 y) = (ucast x :: u32)" for x y :: u64
    by (rule bit_word_eqI) (auto simp: bit_simps)
  have shift: "(ucast (push_bit n x) :: u32) = push_bit n (ucast x)" for n and x :: u64
    by (rule bit_word_eqI) (auto simp: bit_simps)
  have join: "(ucast (x OR y) :: u32) = ucast x OR ucast y" for x y :: u64
    by (rule bit_word_eqI) (auto simp: bit_simps)
  from assms(2) obtain e f g h r where r: "rest = e # f # g # h # r"
    by (auto simp: numeral_eq_Suc Suc_le_length_iff)
  let ?y = "foldr (\<lambda>b x. push_bit 8 x OR of_char b) [e, f, g, h] (0 :: u64)"
  have "u_long_at (a # b # c # d # rest) =
      Some ((of_char a OR push_bit 8 (of_char b) OR push_bit 16 (of_char c) OR push_bit 24 (of_char d)) OR push_bit 32 ?y)"
    by (simp add: r u_long_at_def ac_simps)
  then show ?thesis
    by (simp add: assms(1) get_host_ip_def low join shift ucast_of_char del: foldr_Cons)
qed

text \<open>An address without four more bytes to read after it is not read within its bounds.\<close>

lemma get_host_ip_overread:
  "gethostbyname hostname = Some mem \<Longrightarrow> length mem < 8 \<Longrightarrow> get_host_ip gethostbyname hostname = None"
  by (simp add: get_host_ip_def u_long_at_def)

lemma get_host_name_short:
  assumes "gethostname = Some (s @ NUL # rest)" and "NUL \<notin> set s" and "length s < 255"
  shows "get_host_name gethostname = Some s"
  using assms by (auto simp: get_host_name_def of_c_str_def takeWhile_append take_Cons')

end
