(* ===== verification/Programs.thy ===== *)
theory Programs
  imports HttpService UdpServer Platform
begin

text \<open>
  The programs of \<open>src/test\<close> and \<open>SNFactory\<close> (\<open>src/src/linkfactory.cpp\<close>), through which they get their
  links, servers and timers: two UDP clients and a TCP client that send bursts at every tick of a
  timer, and the servers that receive them.

  A \<open>main\<close> is modelled to its end: \<open>SNLoop\<close> is one call of \<open>uv_run\<close>, and what happens inside it are the
  callbacks, here those of the timer.  \<open>None\<close> is a null pointer, a stale one, or a signed overflow.
\<close>

section \<open>SNFactory\<close>

definition createTcpServer :: "net \<Rightarrow> tcp_server \<times> net" where
  "createTcpServer = TcpServer_new"

definition createUdpServer :: "udp_server \<Rightarrow> timer \<Rightarrow> net \<Rightarrow> udp_server \<times> net" where
  "createUdpServer = UdpServer_new"

definition createHttpServer :: "http_server \<Rightarrow> http_server" where
  "createHttpServer = HttpServer_new"

definition createTcpLink :: "tcp_link \<Rightarrow> net \<Rightarrow> tcp_link \<times> net" where
  "createTcpLink = TcpLink_client"

definition createUdpLink :: "udp_link \<Rightarrow> net \<Rightarrow> udp_link \<times> net" where
  "createUdpLink = UdpLink_new"

definition createTimer :: "timer \<Rightarrow> net \<Rightarrow> timer \<times> net" where
  "createTimer = Timer_new"

section \<open>The clients\<close>

text \<open>
  \<open>class ClientTimer\<close> of the three clients, at the address \<open>this\<close>; its timer ticks at once and then
  every \<open>interval\<close> milliseconds.
\<close>

definition ClientTimer_new :: "int \<Rightarrow> nat \<Rightarrow> timer \<Rightarrow> net \<Rightarrow> (timer \<times> net) option" where
  "ClientTimer_new interval this g n =
    (case createTimer g n of (t, n) \<Rightarrow>
     let t = Timer_init 1 t;
         t = Timer_set_handler (Some this) t
     in map_option (Pair t) (Timer_start interval t n))"

definition ClientTimer_delete :: "timer \<Rightarrow> net \<Rightarrow> timer \<times> net" where
  "ClientTimer_delete = Timer_close"

text \<open>\<open>for( int i=0; i<k; i++ ) link->send(...)\<close>\<close>

primrec send_times :: "nat \<Rightarrow> ('c \<Rightarrow> (int \<times> 'c) option) \<Rightarrow> 'c \<Rightarrow> 'c option" where
  "send_times 0 f c = Some c"
| "send_times (Suc k) f c = Option.bind (f c) (\<lambda>(r, c). send_times k f c)"

definition tcpclient_on_timer :: "'a tcp_env \<Rightarrow> 'a tcp \<Rightarrow> 'a tcp option" where
  "tcpclient_on_timer env = send_times 200 (TcpLink.send env (replicate 1300 NUL))"

definition udpclient_on_timer :: "'a udp_env \<Rightarrow> 'a udp \<Rightarrow> 'a udp option" where
  "udpclient_on_timer env = send_times 500 (UdpLink_send env (replicate 1300 NUL))"

definition udpbenchmark_on_timer :: "'a udp_env \<Rightarrow> 'a udp \<Rightarrow> 'a udp option" where
  "udpbenchmark_on_timer env = send_times 300000 (UdpLink_send env (replicate 1200 NUL))"

text \<open>The \<open>main\<close>s; \<open>g\<close>, \<open>gl\<close>, \<open>gt\<close> are what the new objects leave indeterminate.\<close>

definition tcpclient_main ::
  "'a tcp_env \<Rightarrow> bool \<Rightarrow> nat \<Rightarrow> tcp_link \<Rightarrow> timer \<Rightarrow> nat \<Rightarrow> 'a \<Rightarrow> sn_process \<Rightarrow> net \<Rightarrow>
    (sn_process \<times> 'a tcp \<times> timer) option"
where
  "tcpclient_main env g loop gl gt this a p n = do {
     let p = SNStartup g loop p;
     let (l, n) = createTcpLink gl n;
     (r, c) \<leftarrow> TcpLink.connect env ''127.0.0.1'' 8000 \<lparr>tcp.net = n, link = l, app = a\<rparr>;
     (t, n) \<leftarrow> ClientTimer_new 1 this gt (tcp.net c);
     p \<leftarrow> SNLoop p;
     Some (p, c\<lparr>tcp.net := n\<rparr>, t)
   }"

definition udp_main ::
  "int \<Rightarrow> 'a udp_env \<Rightarrow> bool \<Rightarrow> nat \<Rightarrow> udp_link \<Rightarrow> timer \<Rightarrow> nat \<Rightarrow> 'a \<Rightarrow> sn_process \<Rightarrow> net \<Rightarrow>
    (sn_process \<times> 'a udp \<times> timer) option"
where
  "udp_main interval env g loop gl gt this a p n = do {
     let p = SNStartup g loop p;
     let (l, n) = createUdpLink gl n;
     let (r, c) = UdpLink_connect env ''127.0.0.1'' 8000 \<lparr>udp.net = n, link = l, app = a\<rparr>;
     (r, c) \<leftarrow> UdpLink_send env ''good'' c;
     (t, n) \<leftarrow> ClientTimer_new interval this gt (udp.net c);
     p \<leftarrow> SNLoop p;
     Some (p, c\<lparr>udp.net := n\<rparr>, t)
   }"

definition udpclient_main ::
  "'a udp_env \<Rightarrow> bool \<Rightarrow> nat \<Rightarrow> udp_link \<Rightarrow> timer \<Rightarrow> nat \<Rightarrow> 'a \<Rightarrow> sn_process \<Rightarrow> net \<Rightarrow>
    (sn_process \<times> 'a udp \<times> timer) option"
where
  "udpclient_main = udp_main 10"

definition udpbenchmark_main ::
  "'a udp_env \<Rightarrow> bool \<Rightarrow> nat \<Rightarrow> udp_link \<Rightarrow> timer \<Rightarrow> nat \<Rightarrow> 'a \<Rightarrow> sn_process \<Rightarrow> net \<Rightarrow>
    (sn_process \<times> 'a udp \<times> timer) option"
where
  "udpbenchmark_main = udp_main 1000"

lemma connect_waits: "TcpLink.connect env ip p c = Some (r, c') \<Longrightarrow> \<not> m_bConnected (tcp.link c')"
  by (auto simp: TcpLink.connect_def start_timer_def on_net_def Let_def split: prod.splits if_splits)

text \<open>A TCP client starts with a link that is in order, whatever libuv answers, and its timer set.\<close>

lemma tcpclient_starts:
  assumes "net_ok n" and "engine_ok loop p"
  shows "\<exists>p' c t. tcpclient_main env g loop gl gt this a p n = Some (p', c, t) \<and> link_ok c \<and> tcp.app c = a \<and>
    engine_ok loop p' \<and> timer.m_pHandler t = Some this \<and> timer.m_nId t = 1 \<and>
    tcp_link.m_pHandler (tcp.link c) = None \<and> tcp_link.m_pTcp (tcp.link c) \<noteq> None \<and> \<not> m_bConnected (tcp.link c)"
proof -
  obtain l n1 where l: "createTcpLink gl n = (l, n1)" by fastforce
  have "link_ok \<lparr>tcp.net = n1, link = l, app = a\<rparr>"
    using client_start [OF assms(1), of gl a] l by (simp add: createTcpLink_def)
  from link_ok_connect [OF this, of env "''127.0.0.1''" 8000] obtain r c where
    c: "TcpLink.connect env ''127.0.0.1'' 8000 \<lparr>tcp.net = n1, link = l, app = a\<rparr> = Some (r, c)" "link_ok c" "tcp.app c = a"
      "tcp_link.m_pTcp (tcp.link c) \<noteq> None" "tcp_link.m_pHandler (tcp.link c) = tcp_link.m_pHandler l" by auto
  have down: "\<not> m_bConnected (tcp.link c)" using connect_waits [OF c(1)] .
  have nobody: "tcp_link.m_pHandler l = None"
    using l by (auto simp: createTcpLink_def TcpLink_client_def Let_def split: prod.splits)
  have net: "net_ok (uv_do (Uv_timer_start h 0 k) (uv_do (Uv_timer_init h) ((tcp.net c)\<lparr>next_addr := next_addr (tcp.net c) + 1\<rparr>)))"
    for h k
    using c(2) by (intro net_ok_do net_ok_addr) (simp_all add: link_ok_def)
  obtain t n2 where t: "ClientTimer_new 1 this gt (tcp.net c) = Some (t, n2)" "timer.m_pHandler t = Some this" "timer.m_nId t = 1"
    "net_ok n2"
    using net by (simp add: ClientTimer_new_def createTimer_def Timer_new_def Timer_init_def Timer_set_handler_def
        Timer_start_def new_addr_def)
  have "engine_ok loop (SNStartup g loop p)" "s_engine_inited (SNStartup g loop p)"
    using sn_step_ok [OF assms(2), of g Startup] by simp_all
  then obtain p' where "SNLoop (SNStartup g loop p) = Some p'" "engine_ok loop p'"
    using sn_step_ok [of loop "SNStartup g loop p" g Loop] by auto
  with l c t down nobody show ?thesis by (simp add: tcpclient_main_def Let_def link_ok_def)
qed

text \<open>
  What a burst hands to libuv.  The TCP client sends nothing until it is connected; then a tick is
  200 writes, if libuv takes them.  A datagram is offered once and queued if it was not taken.
\<close>

lemma send_times_log:
  assumes "\<And>c. I c \<Longrightarrow> \<exists>r c' xs. f c = Some (r, c') \<and> I c' \<and> log c' = log c @ xs \<and> Q xs" and "I c"
  shows "\<exists>c' xss. send_times k f c = Some c' \<and> I c' \<and> length xss = k \<and> log c' = log c @ concat xss \<and> (\<forall>xs \<in> set xss. Q xs)"
  using assms(2)
proof (induction k arbitrary: c)
  case (Suc k)
  from assms(1) [OF Suc.prems] obtain r c1 xs
    where one: "f c = Some (r, c1)" "I c1" "log c1 = log c @ xs" "Q xs" by blast
  from Suc.IH [OF one(2)] obtain c' xss where rest: "send_times k f c1 = Some c'" "I c'" "length xss = k"
    "log c' = log c1 @ concat xss" "\<forall>xs \<in> set xss. Q xs" by blast
  with one show ?case by (intro exI [of _ c'] exI [of _ "xs # xss"]) simp
qed simp

lemma singletons: "\<forall>xs \<in> set xss. \<exists>r. xs = [w r] \<Longrightarrow> \<exists>rs. length rs = length xss \<and> concat xss = map w rs"
proof (induction xss)
  case (Cons xs xss)
  then obtain r rs where "xs = [w r]" "length rs = length xss" "concat xss = map w rs" by auto
  then show ?case by (intro exI [of _ "r # rs"]) simp
qed simp

lemma tcpclient_tick:
  assumes "link_ok c" and "tcp_link.m_pTcp (tcp.link c) = Some h" and "m_bConnected (tcp.link c)"
    and "\<And>cs u. tcp_env.answers env cs u = 0"
  shows "\<exists>c' reqs. tcpclient_on_timer env c = Some c' \<and> link_ok c' \<and> tcp_link.m_pTcp (tcp.link c') = Some h \<and>
    m_bConnected (tcp.link c') \<and> length reqs = 200 \<and>
    calls (tcp.net c') = calls (tcp.net c) @ map (\<lambda>req. Uv_write h req (replicate 1300 NUL)) reqs"
proof -
  let ?I = "\<lambda>c. link_ok c \<and> tcp_link.m_pTcp (tcp.link c) = Some h \<and> m_bConnected (tcp.link c)"
  have "\<exists>r c' xs. TcpLink.send env (replicate 1300 NUL) c = Some (r, c') \<and> ?I c' \<and>
      calls (tcp.net c') = calls (tcp.net c) @ xs \<and> (\<exists>req. xs = [Uv_write h req (replicate 1300 NUL)])"
    if "?I c" for c
    using link_ok_send [of c "replicate 1300 NUL" env] that assms(4) by (auto simp: link_ok_def buffered_def)
  from send_times_log [where I = ?I and log = "\<lambda>c. calls (tcp.net c)" and
      Q = "\<lambda>xs. \<exists>req. xs = [Uv_write h req (replicate 1300 NUL)]", OF this, of c 200] assms(1-3) obtain c' xss where
    *: "tcpclient_on_timer env c = Some c'" "?I c'" "length xss = 200"
      "calls (tcp.net c') = calls (tcp.net c) @ concat xss"
      "\<forall>xs \<in> set xss. \<exists>req. xs = [Uv_write h req (replicate 1300 NUL)]"
    by (auto simp: tcpclient_on_timer_def)
  from singletons [OF *(5)] obtain reqs where
    "length reqs = 200" "concat xss = map (\<lambda>req. Uv_write h req (replicate 1300 NUL)) reqs"
    using *(3) by auto
  with * show ?thesis by auto
qed

lemma send_times_keeps:
  "(\<And>c. I c \<Longrightarrow> \<exists>r c'. f c = Some (r, c') \<and> I c') \<Longrightarrow> I c \<Longrightarrow> \<exists>c'. send_times k f c = Some c' \<and> I c'"
  by (induction k arbitrary: c) fastforce+

lemma tcpclient_tick_down:
  assumes "\<not> m_bConnected (tcp.link c)"
  shows "\<exists>c' e. tcpclient_on_timer env c = Some c' \<and> c' = c\<lparr>tcp.link := (tcp.link c)\<lparr>m_nSendErrors := e\<rparr>\<rparr>"
proof -
  let ?I = "\<lambda>c'. \<exists>e. c' = c\<lparr>tcp.link := (tcp.link c)\<lparr>m_nSendErrors := e\<rparr>\<rparr>"
  have send: "\<exists>r c2. TcpLink.send env (replicate 1300 NUL) c1 = Some (r, c2) \<and> ?I c2" if "?I c1" for c1
  proof -
    from that obtain e where "c1 = c\<lparr>tcp.link := (tcp.link c)\<lparr>m_nSendErrors := e\<rparr>\<rparr>" by blast
    with assms show ?thesis by (cases "tcp_link.m_pTcp (tcp.link c)") (auto simp: TcpLink.send_def on_link_def)
  qed
  have "?I c" by (intro exI [of _ "m_nSendErrors (tcp.link c)"]) simp
  from send_times_keeps [where I = ?I and k = 200 and f = "TcpLink.send env (replicate 1300 NUL)", OF send this] show ?thesis
    unfolding tcpclient_on_timer_def by blast
qed

lemma udp_burst:
  assumes "net_ok (udp.net c)" and "udp_link.m_pUdp (udp.link c) = Some h" and "length bs \<le> 524288"
  defines "offer \<equiv> Uv_udp_try_send h bs None"
  shows "\<exists>c' xss. send_times k (UdpLink_send env bs) c = Some c' \<and> net_ok (udp.net c') \<and> length xss = k \<and>
    calls (udp.net c') = calls (udp.net c) @ concat xss \<and>
    (\<forall>xs \<in> set xss. xs = [offer] \<or> (\<exists>req. xs = [offer, Uv_udp_send h req bs None]))"
proof -
  let ?I = "\<lambda>c. net_ok (udp.net c) \<and> udp_link.m_pUdp (udp.link c) = Some h"
  let ?Q = "\<lambda>xs. xs = [offer] \<or> (\<exists>req. xs = [offer, Uv_udp_send h req bs None])"
  have "\<exists>r c' xs. UdpLink_send env bs c = Some (r, c') \<and> ?I c' \<and> calls (udp.net c') = calls (udp.net c) @ xs \<and> ?Q xs"
    if "?I c" for c
  proof -
    from udp_transmit_ok [of "udp.net c" bs "udp_env.answers env" h None] that assms(3) obtain r n' where
      "udp_transmit (udp_env.answers env) h bs None (udp.net c) = Some (r, n')" "net_ok n'"
      "calls n' = calls (udp.net c) @ [offer] \<or>
        calls n' = calls (udp.net c) @ [offer, Uv_udp_send h (next_addr (udp.net c)) bs None]"
      unfolding offer_def by (auto split: if_splits)
    with that show ?thesis by (auto simp: UdpLink_send_def on_udp_def Let_def)
  qed
  from send_times_log [where I = ?I and log = "\<lambda>c. calls (udp.net c)" and Q = ?Q, OF this, of c k] assms(1,2) show ?thesis
    by blast
qed

lemmas udpclient_tick = udp_burst [where k = 500 and bs = "replicate 1300 NUL", folded udpclient_on_timer_def]
lemmas udpbenchmark_tick = udp_burst [where k = 300000 and bs = "replicate 1200 NUL", folded udpbenchmark_on_timer_def]

section \<open>The servers\<close>

text \<open>\<open>ServerHandler::on_data\<close> of \<open>udptcpserver\<close> counts in an \<open>int\<close> that no constructor sets.\<close>

definition count_data :: "byte list \<Rightarrow> int \<Rightarrow> (int \<times> int) option" where
  "count_data bs m_nRecvs =
    (if m_nRecvs = 2 ^ 31 - 1 then None else Some (c_int (length bs), m_nRecvs + 1))"

definition udptcpserver_main ::
  "'a tcp_env \<Rightarrow> bool \<Rightarrow> nat \<Rightarrow> udp_server \<Rightarrow> timer \<Rightarrow> nat \<Rightarrow> 'a \<Rightarrow> sn_process \<Rightarrow> net \<Rightarrow>
    (sn_process \<times> 'a udp_world \<times> 'a tcp_world) option"
where
  "udptcpserver_main env g loop gu gt handler a p n = do {
     let p = SNStartup g loop p;
     let (s, n) = createUdpServer gu gt n;
     let u = UdpServer_set_handler (Some handler) \<lparr>udp_world.net = n, server = s, peers = Map.empty, app = a\<rparr>;
     (r, u) \<leftarrow> UdpServer_listen 8000 u;
     let (s, n) = createTcpServer (udp_world.net u);
     let w = TcpServer_set_handler (Some handler)
       \<lparr>snet = n, listener = s, links = Map.empty, next_link = 0, sapp = udp_world.app u\<rparr>;
     (r, w) \<leftarrow> TcpServer_listen env 8000 w;
     p \<leftarrow> SNLoop p;
     Some (p, u\<lparr>udp_world.net := snet w\<rparr>, w)
   }"

definition httpserver_main ::
  "'h http_state tcp_env \<Rightarrow> bool \<Rightarrow> nat \<Rightarrow> http_server \<Rightarrow> tcp_server \<Rightarrow> nat \<Rightarrow> nat \<Rightarrow> 'h \<Rightarrow> sn_process \<Rightarrow> net \<Rightarrow>
    (sn_process \<times> 'h http_world) option"
where
  "httpserver_main env g loop gs t0 this handler u p n = do {
     let p = SNStartup g loop p;
     w \<leftarrow> HttpServer_listen env this 8000 (http_start gs t0 (Some handler) n u);
     p \<leftarrow> SNLoop p;
     Some (p, w)
   }"

section \<open>The ticks of the TCP client\<close>

text \<open>\<open>k\<close> ticks of the client's timer; its handler is the only object at the address \<open>this\<close>.\<close>

primrec tcpclient_ticks :: "nat \<Rightarrow> 'a tcp_env \<Rightarrow> timer \<Rightarrow> nat \<Rightarrow> 'a tcp \<Rightarrow> 'a tcp option" where
  "tcpclient_ticks this env t 0 c = Some c"
| "tcpclient_ticks this env t (Suc k) c =
    Option.bind (Timer_on_timer (\<lambda>h i c. if h = this then tcpclient_on_timer env c else None) t c)
      (tcpclient_ticks this env t k)"

lemma ticks_down:
  assumes "\<not> m_bConnected (tcp.link c)" and "timer.m_pHandler t = Some this"
  shows "\<exists>c' e. tcpclient_ticks this env t k c = Some c' \<and> c' = c\<lparr>tcp.link := (tcp.link c)\<lparr>m_nSendErrors := e\<rparr>\<rparr>"
  using assms(1)
proof (induction k arbitrary: c)
  case 0
  show ?case by (intro exI [of _ c] exI [of _ "m_nSendErrors (tcp.link c)"]) simp
next
  case (Suc k)
  from tcpclient_tick_down [OF Suc.prems, of env] obtain c1 e where
    one: "tcpclient_on_timer env c = Some c1" "c1 = c\<lparr>tcp.link := (tcp.link c)\<lparr>m_nSendErrors := e\<rparr>\<rparr>" by blast
  with Suc.IH [of c1] Suc.prems assms(2) show ?case by (auto simp: Timer_on_timer_def)
qed

lemma ticks_up:
  assumes "link_ok c" and "tcp_link.m_pTcp (tcp.link c) = Some h" and "m_bConnected (tcp.link c)"
    and "\<And>cs u. tcp_env.answers env cs u = 0" and "timer.m_pHandler t = Some this"
  shows "\<exists>c' reqs. tcpclient_ticks this env t k c = Some c' \<and> length reqs = 200 * k \<and>
    calls (tcp.net c') = calls (tcp.net c) @ map (\<lambda>req. Uv_write h req (replicate 1300 NUL)) reqs"
  using assms(1-3)
proof (induction k arbitrary: c)
  case (Suc k)
  from tcpclient_tick [OF Suc.prems assms(4)] obtain c1 rs where
    one: "tcpclient_on_timer env c = Some c1" "link_ok c1" "tcp_link.m_pTcp (tcp.link c1) = Some h"
      "m_bConnected (tcp.link c1)" "length rs = 200"
      "calls (tcp.net c1) = calls (tcp.net c) @ map (\<lambda>req. Uv_write h req (replicate 1300 NUL)) rs" by blast
  from Suc.IH [OF one(2-4)] obtain c' rs' where
    rest: "tcpclient_ticks this env t k c1 = Some c'" "length rs' = 200 * k"
      "calls (tcp.net c') = calls (tcp.net c1) @ map (\<lambda>req. Uv_write h req (replicate 1300 NUL)) rs'" by blast
  with one assms(5) show ?case by (intro exI [of _ c'] exI [of _ "rs @ rs'"]) (simp add: Timer_on_timer_def)
qed simp

text \<open>
  C15.  The TCP client program, with a libuv that accepts every call: however many ticks of its timer
  come before the connection, they hand libuv nothing; when the connection succeeds, libuv is told to
  stop the reconnect timer and to read; and every tick from then on is 200 writes of 1300 zero bytes,
  on the handle of the connection and in order.
\<close>

theorem tcpclient_bursts:
  assumes n: "net_ok n" and p: "engine_ok loop p" and yes: "\<And>cs u. tcp_env.answers env cs u = 0"
  shows "\<exists>p' c t h x. tcpclient_main env g loop gl gt this a p n = Some (p', c, t) \<and>
    tcp_link.m_pTcp (tcp.link c) = Some h \<and>
    (\<forall>k. \<exists>c1 c2. tcpclient_ticks this env t k c = Some c1 \<and> tcp.net c1 = tcp.net c \<and>
      on_connect env 0 c1 = Some c2 \<and>
      calls (tcp.net c2) = calls (tcp.net c) @ [Uv_timer_stop x, Uv_read_start h] \<and>
      (\<forall>j. \<exists>c3 reqs. tcpclient_ticks this env t j c2 = Some c3 \<and> length reqs = 200 * j \<and>
        calls (tcp.net c3) = calls (tcp.net c2) @ map (\<lambda>req. Uv_write h req (replicate 1300 NUL)) reqs))"
proof -
  from tcpclient_starts [OF n p, of env g gl gt this a] obtain p' c t h where
    start: "tcpclient_main env g loop gl gt this a p n = Some (p', c, t)" "link_ok c" "timer.m_pHandler t = Some this"
      "tcp_link.m_pHandler (tcp.link c) = None" "tcp_link.m_pTcp (tcp.link c) = Some h" "\<not> m_bConnected (tcp.link c)"
    by blast
  obtain x where x: "tcp_link.m_pTimer (tcp.link c) = Some x" using start(2) by (auto simp: link_ok_def)
  have after: "\<exists>c1 c2. tcpclient_ticks this env t k c = Some c1 \<and> tcp.net c1 = tcp.net c \<and>
      on_connect env 0 c1 = Some c2 \<and> link_ok c2 \<and> tcp_link.m_pTcp (tcp.link c2) = Some h \<and> m_bConnected (tcp.link c2) \<and>
      calls (tcp.net c2) = calls (tcp.net c) @ [Uv_timer_stop x, Uv_read_start h]" for k
  proof -
    from ticks_down [OF start(6,3), of env k] obtain c1 e where
      c1: "tcpclient_ticks this env t k c = Some c1" "c1 = c\<lparr>tcp.link := (tcp.link c)\<lparr>m_nSendErrors := e\<rparr>\<rparr>" by blast
    have "net_ok (uv_do (Uv_read_start h) (uv_do (Uv_timer_stop x) (tcp.net c)))"
      using start(2) by (intro net_ok_do) (simp_all add: link_ok_def)
    with c1 start x show ?thesis
      by (simp add: on_connect_def to_handler_def on_link_def on_net_def link_ok_def uv_do_def)
  qed
  have "\<exists>c1 c2. tcpclient_ticks this env t k c = Some c1 \<and> tcp.net c1 = tcp.net c \<and>
      on_connect env 0 c1 = Some c2 \<and> calls (tcp.net c2) = calls (tcp.net c) @ [Uv_timer_stop x, Uv_read_start h] \<and>
      (\<forall>j. \<exists>c3 reqs. tcpclient_ticks this env t j c2 = Some c3 \<and> length reqs = 200 * j \<and>
        calls (tcp.net c3) = calls (tcp.net c2) @ map (\<lambda>req. Uv_write h req (replicate 1300 NUL)) reqs)" for k
    using after [of k] ticks_up [OF _ _ _ yes start(3)] by blast
  with start(1,5) show ?thesis by blast
qed

definition yes_env :: "unit tcp_env" where "yes_env = default_env (\<lambda>_ _. 0) (\<lambda>_. 0)"

definition blank_timer :: timer where
  "blank_timer = \<lparr>timer.m_pTimer = None, m_pHandler = None, m_nId = 0\<rparr>"

lemma tcpclient_bursts_witness:
  "\<exists>p' c t c1 c2 c3 h reqs. tcpclient_main yes_env True 5 blank_link blank_timer 9 () sn_begin net_start = Some (p', c, t) \<and>
    tcpclient_ticks 9 yes_env t 3 c = Some c1 \<and> on_connect yes_env 0 c1 = Some c2 \<and> tcpclient_ticks 9 yes_env t 2 c2 = Some c3 \<and>
    length reqs = 400 \<and> calls (tcp.net c3) = calls (tcp.net c2) @ map (\<lambda>req. Uv_write h req (replicate 1300 NUL)) reqs"
proof -
  have p: "engine_ok 5 sn_begin" by (simp add: engine_ok_def sn_begin_def)
  have yes: "\<And>cs u. tcp_env.answers yes_env cs u = 0" by (simp add: yes_env_def default_env_def)
  from tcpclient_bursts [OF net_okI [OF net_inv_start] p yes, of True blank_link blank_timer 9 "()"]
  obtain p' c t h x where s: "tcpclient_main yes_env True 5 blank_link blank_timer 9 () sn_begin net_start = Some (p', c, t)"
    "\<And>k. \<exists>c1 c2. tcpclient_ticks 9 yes_env t k c = Some c1 \<and> tcp.net c1 = tcp.net c \<and> on_connect yes_env 0 c1 = Some c2 \<and>
      calls (tcp.net c2) = calls (tcp.net c) @ [Uv_timer_stop x, Uv_read_start h] \<and>
      (\<forall>j. \<exists>c3 reqs. tcpclient_ticks 9 yes_env t j c2 = Some c3 \<and> length reqs = 200 * j \<and>
        calls (tcp.net c3) = calls (tcp.net c2) @ map (\<lambda>req. Uv_write h req (replicate 1300 NUL)) reqs)"
    by blast
  from s(2) [of 3] obtain c1 c2 where c: "tcpclient_ticks 9 yes_env t 3 c = Some c1" "on_connect yes_env 0 c1 = Some c2"
    "\<And>j. \<exists>c3 reqs. tcpclient_ticks 9 yes_env t j c2 = Some c3 \<and> length reqs = 200 * j \<and>
        calls (tcp.net c3) = calls (tcp.net c2) @ map (\<lambda>req. Uv_write h req (replicate 1300 NUL)) reqs" by blast
  from c(3) [of 2] obtain c3 reqs where "tcpclient_ticks 9 yes_env t 2 c2 = Some c3" "length reqs = 400"
    "calls (tcp.net c3) = calls (tcp.net c2) @ map (\<lambda>req. Uv_write h req (replicate 1300 NUL)) reqs" by auto
  with s(1) c(1,2) show ?thesis by blast
qed

end
